(* ===== verification/Prelude.thy ===== *)
theory Prelude
  imports Main "HOL-Library.Word"
begin

text \<open>
  Shared vocabulary of the development: the C integer types, the ways a C execution can go
  wrong as values of a datatype, memory blocks (arrays and heap blocks) as byte lists with
  checked access, NUL-terminated strings and the few functions of the C library on them the
  sources call. The collections declared here carry the automation of the component theories.
\<close>

section \<open>Machine integers\<close>

type_synonym u8 = "8 word"
type_synonym u16 = "16 word"
type_synonym u32 = "32 word"
type_synonym u64 = "64 word"

section \<open>Faults and results\<close>

text \<open>
  What a C execution can do instead of returning: call \<^verbatim>\<open>abort()\<close>, fail an \<^verbatim>\<open>assert\<close>
  (the Makefile does not define \<^verbatim>\<open>NDEBUG\<close>), access memory outside a block, touch freed
  memory, go through a null pointer. The last three are undefined behaviour of C; the model stops
  there.
\<close>

datatype fault = Abort | AssertFail | OutOfBounds | UseAfterFree | NullPointer

type_synonym 'a res = "fault + 'a"

definition bindr :: "'a res \<Rightarrow> ('a \<Rightarrow> 'b res) \<Rightarrow> 'b res" where
  "bindr m f = (case m of Inl e \<Rightarrow> Inl e | Inr x \<Rightarrow> f x)"

definition assert_c :: "bool \<Rightarrow> unit res" where
  "assert_c P = (if P then Inr () else Inl AssertFail)"

named_theorems res_simps \<open>equations of the result type and of checked memory access\<close>

lemma bindr_Inl [simp]: "bindr (Inl e) f = Inl e"
  by (simp add: bindr_def)

lemma bindr_Inr [simp]: "bindr (Inr x) f = f x"
  by (simp add: bindr_def)

lemma bindr_eq_Inr [res_simps]: "bindr m f = Inr y \<longleftrightarrow> (\<exists>x. m = Inr x \<and> f x = Inr y)"
  by (cases m) (auto simp: bindr_def)

lemma bindr_eq_Inl [res_simps]:
  "bindr m f = Inl e \<longleftrightarrow> m = Inl e \<or> (\<exists>x. m = Inr x \<and> f x = Inl e)"
  by (cases m) (auto simp: bindr_def)

lemma bindr_cong [fundef_cong]:
  "m = m' \<Longrightarrow> (\<And>x. m' = Inr x \<Longrightarrow> f x = g x) \<Longrightarrow> bindr m f = bindr m' g"
  by (cases m') (auto simp: bindr_def)

lemma bindr_assoc: "bindr (bindr m f) g = bindr m (\<lambda>x. bindr (f x) g)"
  by (cases m) (auto simp: bindr_def)

lemma assert_c_True [simp]: "P \<Longrightarrow> assert_c P = Inr ()"
  by (simp add: assert_c_def)

lemma assert_c_eq [res_simps]:
  "assert_c P = Inr u \<longleftrightarrow> P" "assert_c P = Inl e \<longleftrightarrow> \<not> P \<and> e = AssertFail"
  by (auto simp: assert_c_def)

section \<open>Memory blocks\<close>

text \<open>A block is the list of its cells; an access outside it is \<^const>\<open>OutOfBounds\<close>.\<close>

definition peek_at :: "'a list \<Rightarrow> nat \<Rightarrow> 'a res" where
  "peek_at d i = (if i < length d then Inr (d ! i) else Inl OutOfBounds)"

definition poke_at :: "'a list \<Rightarrow> nat \<Rightarrow> 'a \<Rightarrow> 'a list res" where
  "poke_at d i v = (if i < length d then Inr (d[i := v]) else Inl OutOfBounds)"

text \<open>\<open>blit d off xs\<close> is \<^verbatim>\<open>memcpy(d + off, xs, length xs)\<close>.\<close>

definition blit :: "'a list \<Rightarrow> nat \<Rightarrow> 'a list \<Rightarrow> 'a list res" where
  "blit d off xs =
     (if off + length xs \<le> length d
      then Inr (take off d @ xs @ drop (off + length xs) d) else Inl OutOfBounds)"

text \<open>\<open>read_cells d off n\<close> reads \<open>n\<close> cells from offset \<open>off\<close> on.\<close>

definition read_cells :: "'a list \<Rightarrow> nat \<Rightarrow> nat \<Rightarrow> 'a list res" where
  "read_cells d off n = (if off + n \<le> length d then Inr (take n (drop off d)) else Inl OutOfBounds)"

lemma peek_at_in [simp]: "i < length d \<Longrightarrow> peek_at d i = Inr (d ! i)"
  by (simp add: peek_at_def)

lemma poke_at_in [simp]: "i < length d \<Longrightarrow> poke_at d i v = Inr (d[i := v])"
  by (simp add: poke_at_def)

lemma poke_at_out [simp]: "length d \<le> i \<Longrightarrow> poke_at d i v = Inl OutOfBounds"
  by (simp add: poke_at_def)

lemma block_access_eq [res_simps]:
  "peek_at d i = Inr x \<longleftrightarrow> i < length d \<and> x = d ! i"
  "poke_at d i v = Inr d' \<longleftrightarrow> i < length d \<and> d' = d[i := v]"
  "poke_at d i v = Inl e \<longleftrightarrow> length d \<le> i \<and> e = OutOfBounds"
  "blit d off xs = Inr d' \<longleftrightarrow>
     off + length xs \<le> length d \<and> d' = take off d @ xs @ drop (off + length xs) d"
  "read_cells d off n = Inr ys \<longleftrightarrow> off + n \<le> length d \<and> ys = take n (drop off d)"
  by (auto simp: peek_at_def poke_at_def blit_def read_cells_def)

lemma blit_in [simp]:
  "off + length xs \<le> length d \<Longrightarrow> blit d off xs = Inr (take off d @ xs @ drop (off + length xs) d)"
  by (simp add: blit_def)

lemma read_cells_in [simp]: "off + n \<le> length d \<Longrightarrow> read_cells d off n = Inr (take n (drop off d))"
  by (simp add: read_cells_def)

text \<open>\<open>oob r\<close>: the only fault \<open>r\<close> can be is an access out of bounds.\<close>

definition oob :: "'a res \<Rightarrow> bool" where
  "oob r \<longleftrightarrow> (\<forall>e. r = Inl e \<longrightarrow> e = OutOfBounds)"

named_theorems oob_intros \<open>introduction rules for results whose only fault is an access out of bounds\<close>

lemma oob_Inr [simp, oob_intros]: "oob (Inr x)"
  by (simp add: oob_def)

lemma oob_bindr [oob_intros]: "oob m \<Longrightarrow> (\<And>x. m = Inr x \<Longrightarrow> oob (f x)) \<Longrightarrow> oob (bindr m f)"
  by (cases m) (auto simp: oob_def)

lemma oob_if [oob_intros]: "(P \<Longrightarrow> oob x) \<Longrightarrow> (\<not> P \<Longrightarrow> oob y) \<Longrightarrow> oob (if P then x else y)"
  by simp

lemma oob_access [simp, oob_intros]:
  "oob (peek_at d i)" "oob (poke_at d1 i1 v)" "oob (blit d2 off xs)" "oob (read_cells d3 off1 n)"
  by (simp_all add: oob_def peek_at_def poke_at_def blit_def read_cells_def)

section \<open>C strings\<close>

text \<open>
  A \<^verbatim>\<open>char *\<close> is the block from the pointer on. \<open>c_str\<close> is the string it denotes, the
  bytes before the first NUL; \<open>terminated\<close> says that there is one in the block.
\<close>

definition c_str :: "u8 list \<Rightarrow> u8 list" where
  "c_str xs = takeWhile (\<lambda>c. c \<noteq> 0) xs"

text \<open>A string literal: its ASCII bytes and the NUL.\<close>

definition c_lit :: "string \<Rightarrow> u8 list" where
  "c_lit s = map of_char s @ [0]"

definition terminated :: "u8 list \<Rightarrow> bool" where
  "terminated xs = (0 \<in> set xs)"

fun c_strlen :: "u8 list \<Rightarrow> nat res" where
  "c_strlen [] = Inl OutOfBounds"
| "c_strlen (c # cs) = (if c = 0 then Inr 0 else bindr (c_strlen cs) (\<lambda>n. Inr (Suc n)))"

text \<open>\<^verbatim>\<open>strcmp\<close>: the difference of the first two bytes that differ, 0 for equal strings.\<close>

fun c_strcmp :: "u8 list \<Rightarrow> u8 list \<Rightarrow> int res" where
  "c_strcmp (a # as) (b # bs) =
     (if a \<noteq> b then Inr (uint a - uint b) else if a = 0 then Inr 0 else c_strcmp as bs)"
| "c_strcmp _ _ = Inl OutOfBounds"

text \<open>\<^verbatim>\<open>strcpy(dst + off, src)\<close>: the string of \<open>src\<close> and its NUL.\<close>

definition c_strcpy :: "u8 list \<Rightarrow> nat \<Rightarrow> u8 list \<Rightarrow> u8 list res" where
  "c_strcpy dst off src = bindr (c_strlen src) (\<lambda>n. blit dst off (take (Suc n) src))"

lemma c_str_simps [simp]:
  "c_str [] = []" "c_str (c # cs) = (if c = 0 then [] else c # c_str cs)"
  by (simp_all add: c_str_def)

lemma terminated_simps [simp]:
  "\<not> terminated []" "terminated (c # cs) \<longleftrightarrow> c = 0 \<or> terminated cs"
  by (auto simp: terminated_def)

lemma c_strlen_terminated [simp]: "terminated xs \<Longrightarrow> c_strlen xs = Inr (length (c_str xs))"
  by (induction xs) auto

lemma c_strlen_unterminated: "\<not> terminated xs \<Longrightarrow> c_strlen xs = Inl OutOfBounds"
  by (induction xs) auto

lemma length_c_str_terminated: "terminated xs \<Longrightarrow> length (c_str xs) < length xs"
  by (induction xs) auto

lemma take_Suc_c_str: "terminated xs \<Longrightarrow> take (Suc (length (c_str xs))) xs = c_str xs @ [0]"
  by (induction xs) auto

lemma c_str_nonzero [simp]: "0 \<notin> set (c_str xs)"
  by (induction xs) auto

lemma c_strcmp_total:
  "terminated as \<Longrightarrow> terminated bs \<Longrightarrow>
     \<exists>d. c_strcmp as bs = Inr d \<and> (d = 0 \<longleftrightarrow> c_str as = c_str bs)"
proof (induction as bs rule: c_strcmp.induct)
  case (1 a as b bs)
  have "uint a - uint b = 0 \<longleftrightarrow> a = b" by (metis eq_iff_diff_eq_0 word_uint_eqI)
  with 1 show ?case by (cases "a = b"; cases "a = 0") auto
qed auto

lemma c_strcmp_eq_0:
  "terminated as \<Longrightarrow> terminated bs \<Longrightarrow> c_strcmp as bs = Inr 0 \<longleftrightarrow> c_str as = c_str bs"
  using c_strcmp_total by fastforce

lemma c_str_append_NUL [simp]: "0 \<notin> set xs \<Longrightarrow> c_str (xs @ 0 # ys) = xs"
  by (induction xs) auto

lemma terminated_append [simp]: "terminated (xs @ ys) \<longleftrightarrow> terminated xs \<or> terminated ys"
  by (auto simp: terminated_def)

lemma oob_strings [simp, oob_intros]: "oob (c_strlen s)" "oob (c_strcmp s t)" "oob (c_strcpy d off s)"
proof -
  show len: "oob (c_strlen s)" for s
    by (induction s) (auto simp: oob_def bindr_def split: sum.splits)
  show "oob (c_strcmp s t)"
    by (induction s t rule: c_strcmp.induct) (auto simp: oob_def)
  show "oob (c_strcpy d off s)"
    unfolding c_strcpy_def by (intro oob_intros len)
qed

section \<open>Generic facts on lists and words\<close>

lemma unat_u8_lt [simp]: "unat (x :: u8) < 256"
proof -
  have "unat x < 2 ^ LENGTH(8)" by (rule unsigned_less)
  then show ?thesis by simp
qed

lemma unat_u8_le [simp]: "unat (x :: u8) \<le> 255"
  using unat_u8_lt [of x] by linarith

lemma unat_of_nat_u8 [simp]: "n < 256 \<Longrightarrow> unat (of_nat n :: u8) = n"
  by (simp add: unat_of_nat)

lemma of_nat_u8_nz: "0 < n \<Longrightarrow> n < 256 \<Longrightarrow> (of_nat n :: u8) \<noteq> 0"
  by (metis unat_of_nat_u8 unsigned_0 less_numeral_extra(3))

lemma u8_le_0 [simp]: "(x :: u8) \<le> 0 \<longleftrightarrow> x = 0"
  by simp

lemma unat_inc_u8: "unat (x :: u8) < 255 \<Longrightarrow> unat (x + 1) = Suc (unat x)"
  by (simp add: unat_word_ariths)

lemma u8_le_inc: "unat (i :: u8) < 255 \<Longrightarrow> n \<le> i + 1 \<longleftrightarrow> unat n \<le> Suc (unat i)"
  by (simp add: word_le_nat_alt unat_inc_u8)

lemma Suc_unat_le_255: "Suc (unat (i :: u8)) \<le> unat (n :: u8) \<Longrightarrow> unat i < 255"
  using unat_u8_le [of n] by linarith

lemma u8_Suc_eq: "Suc (unat (i :: u8)) = unat n \<Longrightarrow> i + 1 = n"
  using Suc_unat_le_255 [of i n] by (simp add: word_unat_eq_iff unat_inc_u8)

lemma unat_dec_u8: "(x :: u8) \<noteq> 0 \<Longrightarrow> unat (x - 1) = unat x - 1"
  by (simp add: unat_minus_one)

lemma take_list_update_snoc: "i < length xs \<Longrightarrow> take (Suc i) (xs[i := v]) = take i xs @ [v]"
  by (simp add: take_Suc_conv_app_nth)

end
