(* ===== verification/Buffer.thy ===== *)
theory Buffer
  imports Prelude
begin

text \<open>
  The byte buffer of \<^verbatim>\<open>src/buffer.c\<close>: a block of memory with a read and a write pointer.
  The pointers are offsets into the block, \<^verbatim>\<open>limit\<close> is the offset one past its end, and an
  \<^verbatim>\<open>assert\<close> of the source that does not hold is the fault \<^const>\<open>AssertFail\<close>.
  The theory proves the invariant \<open>R \<le> W \<le> limit\<close> that the header file documents, and that the
  buffer is a bounded first-in first-out queue of bytes; the locale \<open>byte_queue\<close> is that contract,
  the one the parsers and the protocol handlers rely on.
\<close>

section \<open>State and operations\<close>

record buffer =
  b_data :: "u8 list"
  b_limit :: nat
  b_read :: nat
  b_write :: nat

definition buffer_reset :: "buffer \<Rightarrow> buffer" where
  "buffer_reset b = b\<lparr>b_read := 0, b_write := 0\<rparr>"

definition buffer_init :: "buffer \<Rightarrow> nat \<Rightarrow> u8 list \<Rightarrow> buffer" where
  "buffer_init b n d = (buffer_reset (b\<lparr>b_data := d\<rparr>))\<lparr>b_limit := n\<rparr>"

definition buffer_can_write :: "buffer \<Rightarrow> bool" where
  "buffer_can_write b = (int (b_limit b) - int (b_write b) > 0)"

text \<open>The pointer-returning functions give the byte count and the offset of the pointer.\<close>

definition buffer_write_ptr :: "buffer \<Rightarrow> (nat \<times> nat) res" where
  "buffer_write_ptr b =
     bindr (assert_c (b_write b \<le> b_limit b)) (\<lambda>_. Inr (b_limit b - b_write b, b_write b))"

definition buffer_can_read :: "buffer \<Rightarrow> bool" where
  "buffer_can_read b = (int (b_write b) - int (b_read b) > 0)"

definition buffer_read_ptr :: "buffer \<Rightarrow> (nat \<times> nat) res" where
  "buffer_read_ptr b =
     bindr (assert_c (b_read b \<le> b_write b)) (\<lambda>_. Inr (b_write b - b_read b, b_read b))"

definition buffer_write_adv :: "buffer \<Rightarrow> int \<Rightarrow> buffer res" where
  "buffer_write_adv b bytes =
     (if bytes > -1
      then let b1 = b\<lparr>b_write := b_write b + nat bytes\<rparr> in
           bindr (assert_c (b_write b1 \<le> b_limit b1)) (\<lambda>_. Inr b1)
      else Inr b)"

text \<open>\<^verbatim>\<open>n = write - read\<close> is a \<^verbatim>\<open>size_t\<close>: with \<open>write < read\<close> it would be a huge length.\<close>

definition buffer_compact :: "buffer \<Rightarrow> buffer res" where
  "buffer_compact b =
     (if b_read b = 0 then Inr b
      else if b_read b = b_write b then Inr (b\<lparr>b_read := 0, b_write := 0\<rparr>)
      else if b_write b < b_read b then Inl OutOfBounds
      else let n = b_write b - b_read b in
           bindr (read_cells (b_data b) (b_read b) n) (\<lambda>xs.
           bindr (blit (b_data b) 0 xs) (\<lambda>d.
           Inr (b\<lparr>b_data := d, b_read := 0, b_write := n\<rparr>))))"

definition buffer_read_adv :: "buffer \<Rightarrow> int \<Rightarrow> buffer res" where
  "buffer_read_adv b bytes =
     (if bytes > -1
      then let b1 = b\<lparr>b_read := b_read b + nat bytes\<rparr> in
           bindr (assert_c (b_read b1 \<le> b_write b1)) (\<lambda>_.
           if b_read b1 = b_write b1 then buffer_compact b1 else Inr b1)
      else Inr b)"

definition buffer_read :: "buffer \<Rightarrow> (u8 \<times> buffer) res" where
  "buffer_read b =
     (if buffer_can_read b
      then bindr (peek_at (b_data b) (b_read b)) (\<lambda>ret.
           bindr (buffer_read_adv b 1) (\<lambda>b'. Inr (ret, b')))
      else Inr (0, b))"

definition buffer_write :: "buffer \<Rightarrow> u8 \<Rightarrow> buffer res" where
  "buffer_write b c =
     (if buffer_can_write b
      then bindr (poke_at (b_data b) (b_write b) c) (\<lambda>d.
           buffer_write_adv (b\<lparr>b_data := d\<rparr>) 1)
      else Inr b)"

text \<open>
  A client stores through the pointer \<^const>\<open>buffer_write_ptr\<close> gave it (an array assignment, a
  \<^verbatim>\<open>memcpy\<close>, the kernel in \<^verbatim>\<open>recv\<close>); \<open>buffer_poke\<close> is that store, without moving
  the write pointer.
\<close>

definition buffer_poke :: "buffer \<Rightarrow> nat \<Rightarrow> u8 list \<Rightarrow> buffer res" where
  "buffer_poke b off xs = bindr (blit (b_data b) off xs) (\<lambda>d. Inr (b\<lparr>b_data := d\<rparr>))"

definition buffer_peek :: "buffer \<Rightarrow> nat \<Rightarrow> nat \<Rightarrow> u8 list res" where
  "buffer_peek b off n = read_cells (b_data b) off n"

section \<open>Invariant and abstraction\<close>

definition wf_buffer :: "buffer \<Rightarrow> bool" where
  "wf_buffer b \<longleftrightarrow> b_read b \<le> b_write b \<and> b_write b \<le> b_limit b \<and> b_limit b = length (b_data b)"

definition buf_content :: "buffer \<Rightarrow> u8 list" where
  "buf_content b = drop (b_read b) (take (b_write b) (b_data b))"

definition buf_room :: "buffer \<Rightarrow> nat" where
  "buf_room b = b_limit b - b_write b"

lemmas buffer_defs = buffer_reset_def buffer_init_def buffer_can_write_def buffer_write_ptr_def
  buffer_can_read_def buffer_read_ptr_def buffer_write_adv_def buffer_compact_def
  buffer_read_adv_def buffer_read_def buffer_write_def buffer_poke_def buffer_peek_def

lemma length_buf_content: "wf_buffer b \<Longrightarrow> length (buf_content b) = b_write b - b_read b"
  by (auto simp: wf_buffer_def buf_content_def)

lemma buffer_init_wf [simp]: "n = length d \<Longrightarrow> wf_buffer (buffer_init b n d)"
  by (simp add: wf_buffer_def buffer_init_def buffer_reset_def)

lemma buffer_init_content [simp]:
  "buf_content (buffer_init b n d) = []" "buf_room (buffer_init b n d) = n"
  by (simp_all add: buf_content_def buf_room_def buffer_init_def buffer_reset_def)

lemma can_read_content: "wf_buffer b \<Longrightarrow> buffer_can_read b \<longleftrightarrow> buf_content b \<noteq> []"
  by (auto simp: wf_buffer_def buf_content_def buffer_can_read_def)

lemma can_write_room: "wf_buffer b \<Longrightarrow> buffer_can_write b \<longleftrightarrow> 0 < buf_room b"
  by (auto simp: wf_buffer_def buf_room_def buffer_can_write_def)

lemma write_ptr_wf:
  "wf_buffer b \<Longrightarrow> buffer_write_ptr b = Inr (buf_room b, b_write b)"
  by (simp add: wf_buffer_def buf_room_def buffer_write_ptr_def)

lemma read_ptr_wf:
  "wf_buffer b \<Longrightarrow> buffer_read_ptr b = Inr (length (buf_content b), b_read b)"
  by (simp add: buffer_read_ptr_def length_buf_content) (simp add: wf_buffer_def)

lemma read_ptr_bytes:
  assumes "wf_buffer b" "n \<le> length (buf_content b)"
  shows "buffer_peek b (b_read b) n = Inr (take n (buf_content b))"
proof -
  from assms have "b_read b + n \<le> b_write b" "b_write b \<le> length (b_data b)"
    by (simp add: length_buf_content, auto simp: wf_buffer_def)
  then show ?thesis
    by (simp add: buffer_peek_def buf_content_def take_drop min_def add.commute)
qed

text \<open>Adjacent stores are one store.\<close>

lemma buffer_poke_append:
  "bindr (buffer_poke b off xs) (\<lambda>b1. buffer_poke b1 (off + length xs) ys) = buffer_poke b off (xs @ ys)"
  by (auto simp: buffer_poke_def blit_def bindr_def add.commute add.left_commute)

text \<open>Storing \<open>xs\<close> at the write pointer and advancing by their number appends them.\<close>

lemma poke_adv_wf:
  assumes "wf_buffer b" "length xs \<le> buf_room b"
  obtains b1 b2 where "buffer_poke b (b_write b) xs = Inr b1"
    "buffer_write_adv b1 (int (length xs)) = Inr b2" "wf_buffer b2"
    "buf_content b2 = buf_content b @ xs" "buf_room b2 = buf_room b - length xs"
    "b_limit b2 = b_limit b"
proof -
  define d where "d = take (b_write b) (b_data b) @ xs @ drop (b_write b + length xs) (b_data b)"
  from assms have le: "b_read b \<le> b_write b" "b_write b + length xs \<le> length (b_data b)"
    "b_limit b = length (b_data b)"
    by (auto simp: wf_buffer_def buf_room_def)
  have p: "buffer_poke b (b_write b) xs = Inr (b\<lparr>b_data := d\<rparr>)"
    using le by (simp add: buffer_poke_def d_def)
  have a: "buffer_write_adv (b\<lparr>b_data := d\<rparr>) (int (length xs))
      = Inr (b\<lparr>b_data := d, b_write := b_write b + length xs\<rparr>)" (is "_ = Inr ?b2")
    using le by (simp add: buffer_write_adv_def Let_def)
  have "wf_buffer ?b2" using le by (simp add: wf_buffer_def d_def)
  moreover have "buf_content ?b2 = buf_content b @ xs"
    using le by (simp add: buf_content_def d_def)
  moreover have "buf_room ?b2 = buf_room b - length xs" by (simp add: buf_room_def)
  ultimately show thesis using that p a by simp
qed

lemma read_adv_wf:
  assumes "wf_buffer b" "n \<le> length (buf_content b)"
  obtains b' where "buffer_read_adv b (int n) = Inr b'" "wf_buffer b'"
    "buf_content b' = drop n (buf_content b)" "buf_room b \<le> buf_room b'" "b_limit b' = b_limit b"
proof -
  from assms have le: "b_read b + n \<le> b_write b" "b_write b \<le> length (b_data b)"
    "b_limit b = length (b_data b)"
    by (simp add: length_buf_content, auto simp: wf_buffer_def)
  show thesis
  proof (cases "b_read b + n = b_write b \<and> b_write b \<noteq> 0")
    case True
    with le show thesis
      by (intro that [of "b\<lparr>b_read := 0, b_write := 0\<rparr>"])
        (auto simp: buffer_read_adv_def buffer_compact_def wf_buffer_def buf_content_def buf_room_def)
  next
    case False
    with le show thesis
      by (intro that [of "b\<lparr>b_read := b_read b + n\<rparr>"])
        (auto simp: buffer_read_adv_def buffer_compact_def wf_buffer_def buf_content_def
           buf_room_def drop_take algebra_simps)
  qed
qed

lemma read_wf:
  assumes "wf_buffer b" "buf_content b = c # cs"
  obtains b' where "buffer_read b = Inr (c, b')" "wf_buffer b'" "buf_content b' = cs"
    "buf_room b \<le> buf_room b'" "b_limit b' = b_limit b"
proof -
  have cr: "buffer_can_read b" using assms by (simp add: can_read_content)
  have lt: "b_read b < length (b_data b)"
    using assms(1) cr by (auto simp: wf_buffer_def buffer_can_read_def)
  have "b_data b ! b_read b = c"
    using assms cr by (auto simp: buf_content_def wf_buffer_def buffer_can_read_def
        Cons_nth_drop_Suc [symmetric])
  moreover obtain b' where "buffer_read_adv b (int 1) = Inr b'" "wf_buffer b'"
    "buf_content b' = drop 1 (buf_content b)" "buf_room b \<le> buf_room b'" "b_limit b' = b_limit b"
    using assms by (rule_tac read_adv_wf [of b 1]) auto
  ultimately show thesis using that cr lt assms(2) by (simp add: buffer_read_def)
qed

lemma compact_wf:
  assumes "wf_buffer b"
  obtains b' where "buffer_compact b = Inr b'" "wf_buffer b'" "buf_content b' = buf_content b"
    "b_limit b' = b_limit b" "b_read b' = 0"
    "buf_room b' = b_limit b - length (buf_content b)"
proof (cases "b_read b = 0")
  case True
  with assms show thesis
    by (intro that [of b]) (auto simp: buffer_compact_def buf_room_def length_buf_content)
next
  case False
  with assms show thesis
    by (intro that [of "the (case buffer_compact b of Inl _ \<Rightarrow> None | Inr b' \<Rightarrow> Some b')"])
      (auto simp: buffer_compact_def wf_buffer_def buf_content_def buf_room_def Let_def drop_take)
qed

lemma write_wf:
  assumes "wf_buffer b" "0 < buf_room b"
  obtains b' where "buffer_write b c = Inr b'" "wf_buffer b'" "buf_content b' = buf_content b @ [c]"
    "buf_room b' = buf_room b - 1" "b_limit b' = b_limit b"
proof -
  from assms have lt: "b_write b < length (b_data b)" by (auto simp: wf_buffer_def buf_room_def)
  obtain b1 b2 where "buffer_poke b (b_write b) [c] = Inr b1"
    "buffer_write_adv b1 (int (length [c])) = Inr b2" "wf_buffer b2"
    "buf_content b2 = buf_content b @ [c]" "buf_room b2 = buf_room b - length [c]"
    "b_limit b2 = b_limit b"
    using assms by (rule_tac poke_adv_wf [of b "[c]"]) auto
  moreover have "(b_data b)[b_write b := c]
      = take (b_write b) (b_data b) @ [c] @ drop (b_write b + length [c]) (b_data b)"
    using lt by (simp add: upd_conv_take_nth_drop)
  ultimately show thesis
    using that lt assms by (simp add: buffer_write_def buffer_poke_def can_write_room)
qed

text \<open>
  Reading a buffer to its end rewinds it: the whole block is free again, whatever was written before.
\<close>

definition rewound :: "buffer \<Rightarrow> bool" where
  "rewound b \<longleftrightarrow> b_read b < b_write b \<or> b_write b = 0"

lemma content_rewound: "wf_buffer b \<Longrightarrow> buf_content b \<noteq> [] \<Longrightarrow> rewound b"
  by (auto simp: rewound_def wf_buffer_def buf_content_def)

lemma rewound_room: "wf_buffer b \<Longrightarrow> rewound b \<Longrightarrow> buf_content b = [] \<Longrightarrow> buf_room b = b_limit b"
  by (auto simp: rewound_def wf_buffer_def buf_content_def buf_room_def)

lemma read_adv_rewound: "buffer_read_adv b n = Inr b' \<Longrightarrow> 0 \<le> n \<Longrightarrow> rewound b'"
  by (auto simp: buffer_read_adv_def buffer_compact_def rewound_def assert_c_def res_simps Let_def split: if_splits)

lemma read_rewound: "buffer_read b = Inr (c, b') \<Longrightarrow> rewound b \<Longrightarrow> rewound b'"
  by (auto simp: buffer_read_def res_simps split: if_splits dest: read_adv_rewound)

section \<open>The buffer as a bounded queue of bytes\<close>

text \<open>
  The idiom of every client that fills a buffer: take the write pointer, store at most as many
  bytes as it offers, advance by the number stored.
\<close>

definition buffer_put :: "buffer \<Rightarrow> u8 list \<Rightarrow> buffer res" where
  "buffer_put b xs =
     bindr (buffer_write_ptr b) (\<lambda>(n, off).
     bindr (buffer_poke b off xs) (\<lambda>b1. buffer_write_adv b1 (int (length xs))))"

lemma put_wf:
  assumes "wf_buffer b" "length xs \<le> buf_room b"
  obtains b' where "buffer_put b xs = Inr b'" "wf_buffer b'"
    "buf_content b' = buf_content b @ xs" "buf_room b' = buf_room b - length xs"
    "b_limit b' = b_limit b"
  using assms by (rule_tac poke_adv_wf [of b xs]) (auto simp: buffer_put_def write_ptr_wf)

locale byte_queue =
  fixes inv :: "'b \<Rightarrow> bool" and content :: "'b \<Rightarrow> u8 list" and room :: "'b \<Rightarrow> nat"
    and can_read :: "'b \<Rightarrow> bool" and rd :: "'b \<Rightarrow> (u8 \<times> 'b) res" and put :: "'b \<Rightarrow> u8 list \<Rightarrow> 'b res"
  assumes can_read_iff: "inv b \<Longrightarrow> can_read b \<longleftrightarrow> content b \<noteq> []"
    and rd_Cons: "inv b \<Longrightarrow> content b = c # cs \<Longrightarrow>
      \<exists>b'. rd b = Inr (c, b') \<and> inv b' \<and> content b' = cs \<and> room b \<le> room b'"
    and put_append: "inv b \<Longrightarrow> length xs \<le> room b \<Longrightarrow>
      \<exists>b'. put b xs = Inr b' \<and> inv b' \<and> content b' = content b @ xs"
begin

primrec drain :: "nat \<Rightarrow> 'b \<Rightarrow> (u8 list \<times> 'b) res" where
  "drain 0 b = Inr ([], b)"
| "drain (Suc n) b =
     bindr (rd b) (\<lambda>(c, b1). bindr (drain n b1) (\<lambda>(cs, b2). Inr (c # cs, b2)))"

lemma drain_take:
  "inv b \<Longrightarrow> n \<le> length (content b) \<Longrightarrow>
     \<exists>b'. drain n b = Inr (take n (content b), b') \<and> inv b' \<and> content b' = drop n (content b)"
proof (induction n arbitrary: b)
  case (Suc n)
  from Suc.prems(2) obtain c cs where c: "content b = c # cs" by (cases "content b") auto
  from rd_Cons [OF Suc.prems(1) c] obtain b1
    where b1: "rd b = Inr (c, b1)" "inv b1" "content b1 = cs" by blast
  from Suc.prems(2) c b1 have "n \<le> length (content b1)" by simp
  from Suc.IH [OF b1(2) this] show ?case using b1 c by auto
qed simp

lemma put_drain:
  assumes "inv b" "length xs \<le> room b"
  shows "\<exists>b1 b2. put b xs = Inr b1 \<and>
    drain (length (content b) + length xs) b1 = Inr (content b @ xs, b2) \<and> content b2 = []"
proof -
  from put_append [OF assms] obtain b1
    where b1: "put b xs = Inr b1" "inv b1" "content b1 = content b @ xs" by blast
  from drain_take [OF b1(2), of "length (content b1)"] b1 show ?thesis by auto
qed

end

interpretation bq: byte_queue wf_buffer buf_content buf_room buffer_can_read buffer_read buffer_put
proof unfold_locales
  fix b c cs
  assume "wf_buffer b" "buf_content b = c # cs"
  then show "\<exists>b'. buffer_read b = Inr (c, b') \<and> wf_buffer b' \<and> buf_content b' = cs
      \<and> buf_room b \<le> buf_room b'"
    by (rule read_wf) blast
next
  fix b and xs :: "u8 list"
  assume "wf_buffer b" "length xs \<le> buf_room b"
  then show "\<exists>b'. buffer_put b xs = Inr b' \<and> wf_buffer b' \<and> buf_content b' = buf_content b @ xs"
    by (rule put_wf) blast
qed (rule can_read_content)

section \<open>Reachable buffers\<close>

text \<open>
  The ways clients use a buffer: reset it, store \<open>xs\<close> through the write pointer, consume
  \<open>n\<close> of the bytes the read pointer offers, read or write one byte, compact.
\<close>

datatype buf_op = OReset | OPut "u8 list" | OReadAdv nat | ORead | OWrite u8 | OCompact

fun buf_exec :: "buf_op \<Rightarrow> buffer \<Rightarrow> buffer res" where
  "buf_exec OReset b = Inr (buffer_reset b)"
| "buf_exec (OPut xs) b = buffer_put b xs"
| "buf_exec (OReadAdv n) b = buffer_read_adv b (int n)"
| "buf_exec ORead b = bindr (buffer_read b) (\<lambda>(c, b'). Inr b')"
| "buf_exec (OWrite c) b = buffer_write b c"
| "buf_exec OCompact b = buffer_compact b"

text \<open>What the documentation of \<^verbatim>\<open>buffer.h\<close> asks of the client.\<close>

fun buf_allowed :: "buf_op \<Rightarrow> buffer \<Rightarrow> bool" where
  "buf_allowed (OPut xs) b = (length xs \<le> buf_room b)"
| "buf_allowed (OReadAdv n) b = (n \<le> length (buf_content b))"
| "buf_allowed _ b = True"

text \<open>The specification: what each operation does to a queue with room for \<open>r\<close> more bytes.\<close>

fun queue_exec :: "buf_op \<Rightarrow> nat \<Rightarrow> u8 list \<Rightarrow> u8 list" where
  "queue_exec OReset r q = []"
| "queue_exec (OPut xs) r q = q @ xs"
| "queue_exec (OReadAdv n) r q = drop n q"
| "queue_exec ORead r q = drop 1 q"
| "queue_exec (OWrite c) r q = (if r = 0 then q else q @ [c])"
| "queue_exec OCompact r q = q"

inductive buf_reach :: "nat \<Rightarrow> buffer \<Rightarrow> bool" for n where
  init: "length d = n \<Longrightarrow> buf_reach n (buffer_init b n d)"
| step: "buf_reach n b \<Longrightarrow> buf_allowed x b \<Longrightarrow> buf_exec x b = Inr b' \<Longrightarrow> buf_reach n b'"

lemma buf_exec_refines:
  assumes "wf_buffer b" "buf_allowed x b"
  shows "\<exists>b'. buf_exec x b = Inr b' \<and> wf_buffer b' \<and> b_limit b' = b_limit b \<and>
    buf_content b' = queue_exec x (buf_room b) (buf_content b)"
proof (cases x)
  case OReset
  with assms show ?thesis by (auto simp: buffer_reset_def wf_buffer_def buf_content_def)
next
  case (OPut xs)
  with assms show ?thesis by (auto elim: put_wf [of b xs])
next
  case (OReadAdv n)
  with assms show ?thesis by (auto elim: read_adv_wf)
next
  case ORead
  show ?thesis
  proof (cases "buf_content b")
    case Nil
    with assms ORead show ?thesis by (simp add: buffer_read_def can_read_content)
  next
    case (Cons c cs)
    with assms(1) show ?thesis using ORead by (auto elim: read_wf)
  qed
next
  case (OWrite c)
  show ?thesis
  proof (cases "buf_room b = 0")
    case True
    with assms OWrite show ?thesis by (simp add: buffer_write_def can_write_room)
  next
    case False
    then show ?thesis using assms OWrite by (auto elim: write_wf [of b c])
  qed
next
  case OCompact
  with assms show ?thesis by (auto elim: compact_wf)
qed

lemma buf_reach_wf: "buf_reach n b \<Longrightarrow> wf_buffer b \<and> b_limit b = n"
proof (induction rule: buf_reach.induct)
  case (init d b)
  then show ?case by (simp add: buffer_init_def buffer_reset_def wf_buffer_def)
next
  case (step b x b')
  with buf_exec_refines [of b x] show ?case by auto
qed

section \<open>Properties\<close>

text \<open>
  The invariant documented in \<^verbatim>\<open>buffer.h\<close>, \<open>R \<le> W \<le> limit\<close>, holds of every buffer
  that clients can reach from \<^const>\<open>buffer_init\<close> with operations that keep to the counts
  the pointer functions gave them; the limit never moves and stays the end of the block.
\<close>

theorem buffer_invariant:
  assumes "buf_reach n b"
  shows "b_read b \<le> b_write b \<and> b_write b \<le> b_limit b \<and> b_limit b = n \<and> length (b_data b) = n"
  using buf_reach_wf [OF assms] by (simp add: wf_buffer_def)

theorem buffer_invariant_witness:
  "let b = \<lparr>b_data = [72, 79, 76, 65], b_limit = 4, b_read = 1, b_write = 3\<rparr> in
     buf_reach 4 b \<and> b_read b \<le> b_write b \<and> b_write b \<le> b_limit b"
proof -
  let ?z = "\<lparr>b_data = [], b_limit = 0, b_read = 0, b_write = 0\<rparr>"
  have 0: "buf_reach 4 (buffer_init ?z 4 [72, 79, 76, 65])" by (rule buf_reach.init) simp
  have 1: "buf_reach 4 \<lparr>b_data = [72, 79, 76, 65], b_limit = 4, b_read = 0, b_write = 3\<rparr>"
    by (rule buf_reach.step [OF 0, of "OPut [72, 79, 76]"])
      (simp_all add: buffer_defs buffer_put_def buf_room_def blit_def)
  have 2: "buf_reach 4 \<lparr>b_data = [72, 79, 76, 65], b_limit = 4, b_read = 1, b_write = 3\<rparr>"
    by (rule buf_reach.step [OF 1, of ORead]) (simp_all add: buffer_defs)
  from buffer_invariant [OF 2] 2 show ?thesis by simp
qed

text \<open>
  C6: the buffer refines a queue of bytes. On every reachable buffer, an operation that
  keeps to the offered counts returns (no assertion fails, no access is out of bounds), and the
  bytes between the two pointers change as the queue specification says: stores append, reads
  drop from the front, compaction (on demand or by itself when the buffer drains) changes nothing.
\<close>

theorem buffer_refines_queue:
  assumes "buf_reach n b" "buf_allowed x b"
  shows "\<exists>b'. buf_exec x b = Inr b' \<and> buf_reach n b' \<and>
    buf_content b' = queue_exec x (buf_room b) (buf_content b)"
  using assms buf_exec_refines [of b x] buf_reach_wf buf_reach.step by blast

theorem buffer_refines_queue_witness:
  "\<exists>b'. buf_exec (OPut [1, 2]) (buffer_init \<lparr>b_data = [], b_limit = 0, b_read = 0, b_write = 0\<rparr> 2 [0, 0])
      = Inr b' \<and> buf_content b' = [1, 2]"
proof -
  let ?b = "buffer_init \<lparr>b_data = [], b_limit = 0, b_read = 0, b_write = 0\<rparr> 2 [0, 0]"
  have "buf_reach 2 ?b" by (rule buf_reach.init) simp
  from buffer_refines_queue [OF this, of "OPut [1, 2]"] show ?thesis by auto
qed

text \<open>
  First in, first out. Bytes stored through the write pointer come out of repeated
  \<^const>\<open>buffer_read\<close> calls after the ones that were there, in order and each once, and leave
  the buffer empty.
\<close>

theorem buffer_fifo:
  assumes "wf_buffer b" "length xs \<le> buf_room b"
  shows "\<exists>b1 b2. buffer_put b xs = Inr b1 \<and>
    bq.drain (length (buf_content b) + length xs) b1 = Inr (buf_content b @ xs, b2) \<and>
    buf_content b2 = []"
  using assms by (rule bq.put_drain)

theorem buffer_fifo_witness:
  "\<exists>b1 b2. buffer_put \<lparr>b_data = [7, 8, 9, 9], b_limit = 4, b_read = 1, b_write = 2\<rparr> [5] = Inr b1 \<and>
    bq.drain 2 b1 = Inr ([8, 5], b2) \<and> buf_content b2 = []"
proof -
  let ?b = "\<lparr>b_data = [7, 8, 9, 9], b_limit = 4, b_read = 1, b_write = 2\<rparr>"
  have "wf_buffer ?b" "length [5 :: u8] \<le> buf_room ?b" by (simp_all add: wf_buffer_def buf_room_def)
  moreover have "buf_content ?b = [8]" by (simp add: buf_content_def)
  ultimately show ?thesis using buffer_fifo [of ?b "[5]"] by (simp add: numeral_2_eq_2)
qed

text \<open>
  The assertions are exact. \<^const>\<open>buffer_write_adv\<close> stops the program exactly when
  the client claims more bytes than the room that was left, and \<^const>\<open>buffer_read_adv\<close> exactly
  when it claims more bytes than were stored; a negative count (a failed \<^verbatim>\<open>recv\<close> or
  \<^verbatim>\<open>send\<close>) never moves a pointer.
\<close>

theorem buffer_adv_checks:
  assumes "wf_buffer b"
  shows "(buffer_write_adv b n = Inl AssertFail \<longleftrightarrow> int (buf_room b) < n) \<and>
    (buffer_read_adv b n = Inl AssertFail \<longleftrightarrow> int (length (buf_content b)) < n) \<and>
    (n < 0 \<longrightarrow> buffer_write_adv b n = Inr b \<and> buffer_read_adv b n = Inr b)"
  using assms
  by (auto simp: buffer_write_adv_def buffer_read_adv_def buffer_compact_def buf_room_def
      length_buf_content wf_buffer_def assert_c_def Let_def split: if_splits)

theorem buffer_adv_checks_witness:
  "let b = \<lparr>b_data = [7, 8, 9, 9], b_limit = 4, b_read = 1, b_write = 2\<rparr> in
     buffer_write_adv b 3 = Inl AssertFail \<and> buffer_read_adv b 2 = Inl AssertFail \<and>
     buffer_write_adv b (- 1) = Inr b"
proof -
  let ?b = "\<lparr>b_data = [7, 8, 9, 9], b_limit = 4, b_read = 1, b_write = 2\<rparr>"
  have "wf_buffer ?b" by (simp add: wf_buffer_def)
  from buffer_adv_checks [OF this, of 3] buffer_adv_checks [OF this, of 2]
    buffer_adv_checks [OF this, of "- 1"] show ?thesis
    by (simp add: buf_room_def buf_content_def)
qed

end
