(* ===== verification/Consume.thy ===== *)
theory Consume
  imports Buffer
begin

text \<open>
  The loop the byte-fed parsers share. \<^verbatim>\<open>hello_consume\<close>, \<^verbatim>\<open>auth_consume\<close>,
  \<^verbatim>\<open>request_consume\<close> and \<^verbatim>\<open>prawtos_consume\<close> are the same text over their own
  \<^verbatim>\<open>feed\<close> and \<^verbatim>\<open>is_done\<close>: while the buffer has bytes and the parser is not
  finished, take one byte and feed it. \<open>consume_loop\<close> is that text with the two functions as
  arguments, and each parser theory instantiates it.

  The locale \<open>byte_parser\<close> is what the loop relies on. Its lemmas, proved once, relate the loop on
  the ring of pointers to a plain recursion over the buffered bytes, and show that the outcome does
  not depend on how the bytes were cut into segments.
\<close>

section \<open>The loop\<close>

lemma buffer_read_decreases:
  assumes "buffer_can_read b" "buffer_read b = Inr (c, b')"
  shows "b_write b' - b_read b' < b_write b - b_read b"
  using assms
  by (auto simp: buffer_read_def buffer_read_adv_def buffer_compact_def buffer_can_read_def
      res_simps Let_def split: if_splits)

text \<open>\<open>is_done p e\<close> gives the returned flag and the new value of the error flag \<open>*errored\<close>.\<close>

function consume_loop ::
  "('p \<Rightarrow> u8 \<Rightarrow> 'p res) \<Rightarrow> ('p \<Rightarrow> bool \<Rightarrow> bool \<times> bool) \<Rightarrow> buffer \<Rightarrow> 'p \<Rightarrow> bool \<Rightarrow> bool
     \<Rightarrow> (buffer \<times> 'p \<times> bool) res" where
  "consume_loop feed is_done b p errored finished =
     (if buffer_can_read b \<and> \<not> finished
      then bindr (buffer_read b) (\<lambda>(byte, b').
           bindr (feed p byte) (\<lambda>p'.
           let (ret, errored') = is_done p' errored in
           consume_loop feed is_done b' p' errored' ret))
      else Inr (b, p, errored))"
  by pat_completeness auto
termination
  by (relation "measure (\<lambda>(feed, is_done, b, p, e, f). b_write b - b_read b)")
    (auto dest: buffer_read_decreases)

declare consume_loop.simps [simp del]

lemma consume_loop_rewound:
  "consume_loop feed is_done b p e f = Inr (b', p', e') \<Longrightarrow> rewound b \<Longrightarrow> rewound b'"
proof (induction feed is_done b p e f rule: consume_loop.induct)
  case (1 feed is_done b p e f)
  show ?case
  proof (cases "buffer_can_read b \<and> \<not> f")
    case True
    then obtain c b1 p1 where s: "buffer_read b = Inr (c, b1)" "feed p c = Inr p1"
      "consume_loop feed is_done b1 p1 (snd (is_done p1 e)) (fst (is_done p1 e)) = Inr (b', p', e')"
      using 1(2) by (subst (asm) consume_loop.simps) (auto simp: res_simps split_beta Let_def)
    show ?thesis by (rule 1(1) [OF True s(1) refl s(2) refl prod.collapse s(3) read_rewound [OF s(1) 1(3)]])
  next
    case False
    with 1(2,3) show ?thesis by (subst (asm) consume_loop.simps) simp
  qed
qed

section \<open>What it computes\<close>

text \<open>
  Feeding a list of bytes until the parser is done: the parser and the bytes left over.
\<close>

fun feed_all :: "('p \<Rightarrow> u8 \<Rightarrow> 'p res) \<Rightarrow> ('p \<Rightarrow> bool) \<Rightarrow> 'p \<Rightarrow> u8 list \<Rightarrow> ('p \<times> u8 list) res" where
  "feed_all feed fin p [] = Inr (p, [])"
| "feed_all feed fin p (c # cs) =
     bindr (feed p c) (\<lambda>p'. if fin p' then Inr (p', cs) else feed_all feed fin p' cs)"

lemma feed_all_append_done:
  "feed_all feed fin p xs = Inr (p', r) \<Longrightarrow> fin p' \<Longrightarrow> \<not> fin p \<Longrightarrow>
     feed_all feed fin p (xs @ ys) = Inr (p', r @ ys)"
  by (induction xs arbitrary: p) (auto simp: bindr_eq_Inr split: if_splits)

lemma feed_all_append_more:
  "feed_all feed fin p xs = Inr (p', r) \<Longrightarrow> \<not> fin p' \<Longrightarrow>
     r = [] \<and> feed_all feed fin p (xs @ ys) = feed_all feed fin p' ys"
  by (induction xs arbitrary: p) (auto simp: bindr_eq_Inr split: if_splits)

lemma feed_all_suffix:
  "feed_all feed fin p xs = Inr (p', r) \<Longrightarrow> \<exists>used. xs = used @ r"
  by (induction xs arbitrary: p) (fastforce simp: bindr_eq_Inr split: if_splits)+

lemma feed_all_append_Inl: "feed_all feed fin p xs = Inl flt \<Longrightarrow> feed_all feed fin p (xs @ ys) = Inl flt"
proof (induction xs arbitrary: p)
  case (Cons c cs)
  then show ?case by (cases "feed p c") (auto split: if_splits)
qed simp

text \<open>
  One call of the loop per read, as the callbacks make it: each read leaves a buffer, and after the read that
  finishes the message nothing more is consumed. The result has the bytes of all reads that are left.
\<close>

fun consume_reads ::
  "('p \<Rightarrow> u8 \<Rightarrow> 'p res) \<Rightarrow> ('p \<Rightarrow> bool \<Rightarrow> bool \<times> bool) \<Rightarrow> 'p \<Rightarrow> bool \<Rightarrow> buffer list \<Rightarrow> ('p \<times> bool \<times> u8 list) res" where
  "consume_reads feed is_done p e [] = Inr (p, e, [])"
| "consume_reads feed is_done p e (b # bs) =
     bindr (consume_loop feed is_done b p e False) (\<lambda>(b', p', e').
     if fst (is_done p' False) then Inr (p', e', buf_content b' @ concat (map buf_content bs))
     else consume_reads feed is_done p' e' bs)"

locale byte_parser =
  fixes feed :: "'p \<Rightarrow> u8 \<Rightarrow> 'p res"
    and is_done :: "'p \<Rightarrow> bool \<Rightarrow> bool \<times> bool"
    and fin :: "'p \<Rightarrow> bool" and failed :: "'p \<Rightarrow> bool" and pinv :: "'p \<Rightarrow> bool"
  assumes is_done_eq: "is_done p e = (fin p, e \<or> failed p)"
    and failed_fin: "failed p \<Longrightarrow> fin p"
    and pinv_feed: "pinv p \<Longrightarrow> \<not> fin p \<Longrightarrow> feed p c = Inr p' \<Longrightarrow> pinv p'"
begin

lemma consume_loop_fin: "consume_loop feed is_done b p e True = Inr (b, p, e)"
  by (simp add: consume_loop.simps)

lemma consume_loop_Nil:
  "wf_buffer b \<Longrightarrow> buf_content b = [] \<Longrightarrow> consume_loop feed is_done b p e f = Inr (b, p, e)"
  by (simp add: consume_loop.simps can_read_content)

text \<open>The loop on a buffer is the recursion over its bytes, faults included.\<close>

lemma consume_loop_feed_all:
  assumes "wf_buffer b" "\<not> fin p"
  shows "(\<exists>flt. consume_loop feed is_done b p e False = Inl flt \<and>
            feed_all feed fin p (buf_content b) = Inl flt) \<or>
    (\<exists>b' p' r. consume_loop feed is_done b p e False = Inr (b', p', e \<or> failed p') \<and>
       feed_all feed fin p (buf_content b) = Inr (p', r) \<and>
       wf_buffer b' \<and> buf_content b' = r \<and> b_limit b' = b_limit b \<and> buf_room b \<le> buf_room b')"
    (is "?P b p e")
  using assms
proof (induction "buf_content b" arbitrary: b p e)
  case Nil
  have "\<not> failed p" using Nil.prems failed_fin by blast
  with Nil show ?case by (simp add: consume_loop_Nil)
next
  case (Cons c cs)
  obtain b1 where b1: "buffer_read b = Inr (c, b1)" "wf_buffer b1" "buf_content b1 = cs"
    "b_limit b1 = b_limit b" "buf_room b \<le> buf_room b1"
    using Cons.prems(1) Cons.hyps(2) [symmetric] by (rule read_wf) blast
  have bc: "buf_content b = c # cs" using Cons.hyps(2) by simp
  have cr: "buffer_can_read b" using Cons.prems bc by (simp add: can_read_content)
  have un: "consume_loop feed is_done b p e False =
      bindr (feed p c) (\<lambda>p'. consume_loop feed is_done b1 p' (e \<or> failed p') (fin p'))"
    by (subst consume_loop.simps) (simp add: cr b1 is_done_eq)
  show ?case
  proof (cases "feed p c")
    case (Inl flt)
    then show ?thesis by (simp add: un bc)
  next
    case (Inr p1)
    show ?thesis
    proof (cases "fin p1")
      case True
      then show ?thesis using Inr b1 by (simp add: un bc consume_loop_fin)
    next
      case False
      then have "\<not> failed p1" using failed_fin by blast
      with Cons.hyps(1) [of b1 p1 e] b1 False Inr show ?thesis by (auto simp: un bc)
    qed
  qed
qed

lemma feed_all_pinv:
  "pinv p \<Longrightarrow> \<not> fin p \<Longrightarrow> feed_all feed fin p xs = Inr (p', r) \<Longrightarrow> pinv p'"
  by (induction xs arbitrary: p) (auto simp: bindr_eq_Inr dest: pinv_feed split: if_splits)

lemma consume_loop_pinv:
  assumes "wf_buffer b" "\<not> fin p" "pinv p" "consume_loop feed is_done b p e False = Inr (b', p', e')"
  shows "pinv p' \<and> wf_buffer b' \<and> b_limit b' = b_limit b \<and> e' = (e \<or> failed p') \<and>
    (fin p' \<or> buf_content b' = [])"
  using consume_loop_feed_all [OF assms(1,2), of e] assms(3,4)
  by (auto dest: feed_all_pinv [OF assms(3,2)] feed_all_append_more [where ys = "[]"])

lemma consume_loop_Inr:
  assumes "wf_buffer b" "\<not> fin p" "feed_all feed fin p (buf_content b) = Inr (p', r)"
  shows "\<exists>b'. consume_loop feed is_done b p e False = Inr (b', p', e \<or> failed p') \<and>
    wf_buffer b' \<and> buf_content b' = r \<and> b_limit b' = b_limit b \<and> buf_room b \<le> buf_room b'"
  using consume_loop_feed_all [OF assms(1,2), of e] assms(3) by auto

lemma consume_loop_Inl:
  assumes "wf_buffer b" "\<not> fin p" "feed_all feed fin p (buf_content b) = Inl flt"
  shows "consume_loop feed is_done b p e False = Inl flt"
  using consume_loop_feed_all [OF assms(1,2), of e] assms(3) by auto

text \<open>
  Segmentation: receiving \<open>xs\<close> and consuming, then receiving \<open>ys\<close> and consuming again, ends with
  the same parser as receiving \<open>xs @ ys\<close> at once, when the first part did not finish the message.
\<close>

lemma consume_segments:
  assumes "feed_all feed fin p xs = Inr (p1, r)" "\<not> fin p1"
  shows "feed_all feed fin p (xs @ ys) = feed_all feed fin p1 ys"
  using feed_all_append_more [OF assms] by simp

lemma consume_reads_all:
  assumes "\<not> fin p" "\<forall>b \<in> set bs. wf_buffer b" "feed_all feed fin p (concat (map buf_content bs)) = Inr (p', r)"
  shows "consume_reads feed is_done p e bs = Inr (p', e \<or> failed p', r)"
  using assms
proof (induction bs arbitrary: p e)
  case Nil
  then show ?case using failed_fin by auto
next
  case (Cons b bs)
  have d: "fst (is_done p e) = fin p" for p e by (simp add: is_done_eq)
  have b: "wf_buffer b" using Cons.prems(2) by simp
  from consume_loop_feed_all [OF b Cons.prems(1), of e]
  show ?case
  proof (elim disjE exE conjE)
    fix flt assume "feed_all feed fin p (buf_content b) = Inl flt"
    then show ?thesis using Cons.prems(3) feed_all_append_Inl by fastforce
  next
    fix b' p1 r1
    assume c: "consume_loop feed is_done b p e False = Inr (b', p1, e \<or> failed p1)"
      "feed_all feed fin p (buf_content b) = Inr (p1, r1)" "buf_content b' = r1"
    show ?thesis
    proof (cases "fin p1")
      case True
      from feed_all_append_done [OF c(2) True Cons.prems(1)] Cons.prems(3) c True show ?thesis by (simp add: d)
    next
      case False
      then have "\<not> failed p1" using failed_fin by blast
      moreover have "feed_all feed fin p1 (concat (map buf_content bs)) = Inr (p', r)"
        using feed_all_append_more [OF c(2) False] Cons.prems(3) by simp
      ultimately show ?thesis using Cons.IH [OF False, of e] Cons.prems(2) c False by (simp add: d)
    qed
  qed
qed

end

section \<open>Length-prefixed fields\<close>

text \<open>
  The user name and password fields of both authentication messages are read in the same way:
  \<^verbatim>\<open>n\<close> bytes are stored one by one into an array at index \<^verbatim>\<open>i\<close>, and with the last one a
  NUL is stored after it. The locale states what such a field needs of the parser; \<open>at\<close> holds in
  the field's state, \<open>upd d i\<close> stores the array and the index, \<open>nxt\<close> moves on to the next state.
\<close>

locale name_field =
  fixes feed :: "'p \<Rightarrow> u8 \<Rightarrow> 'p res" and fin :: "'p \<Rightarrow> bool" and at :: "'p \<Rightarrow> bool"
    and cur :: "'p \<Rightarrow> nat" and len :: "'p \<Rightarrow> nat" and blk :: "'p \<Rightarrow> u8 list"
    and upd :: "u8 list \<Rightarrow> nat \<Rightarrow> 'p \<Rightarrow> 'p" and nxt :: "'p \<Rightarrow> 'p"
  assumes feed_mid: "at p \<Longrightarrow> Suc (cur p) < len p \<Longrightarrow> cur p < length (blk p) \<Longrightarrow>
      feed p c = Inr (upd ((blk p)[cur p := c]) (Suc (cur p)) p)"
    and feed_last: "at p \<Longrightarrow> Suc (cur p) = len p \<Longrightarrow> len p < length (blk p) \<Longrightarrow>
      feed p c = Inr (nxt (upd ((blk p)[cur p := c, len p := 0]) (len p) p))"
    and feed_over: "at p \<Longrightarrow> Suc (cur p) = len p \<Longrightarrow> len p = length (blk p) \<Longrightarrow>
      feed p c = Inl OutOfBounds"
    and at_not_fin: "at p \<Longrightarrow> \<not> fin p"
    and upd_at: "at p \<Longrightarrow> at (upd d i p)"
    and upd_sel: "i < 256 \<Longrightarrow> cur (upd d i p) = i" "len (upd d i p) = len p" "blk (upd d i p) = d"
    and upd_upd: "upd d i (upd d' i' p) = upd d i p"
    and len_bound: "len p < 256"
begin

lemma feed_field:
  "at p \<Longrightarrow> cur p + length xs = len p \<Longrightarrow> xs \<noteq> [] \<Longrightarrow> len p < length (blk p) \<Longrightarrow>
     feed_all feed fin p (xs @ rest) =
       (let q = nxt (upd (take (cur p) (blk p) @ xs @ 0 # drop (Suc (len p)) (blk p)) (len p) p) in
        if fin q then Inr (q, rest) else feed_all feed fin q rest)"
proof (induction xs arbitrary: p)
  case (Cons c xs)
  show ?case
  proof (cases "xs = []")
    case True
    with Cons.prems have "Suc (cur p) = len p" by simp
    moreover from this have "(blk p)[cur p := c, len p := 0]
        = take (cur p) (blk p) @ [c, 0] @ drop (Suc (len p)) (blk p)"
      using Cons.prems(4) by (simp add: upd_conv_take_nth_drop take_Suc_conv_app_nth
          flip: \<open>Suc (cur p) = len p\<close>)
    ultimately show ?thesis using Cons.prems True by (simp add: feed_last Let_def)
  next
    case False
    then have len: "Suc (cur p) < len p" "cur p < length (blk p)"
      using Cons.prems by (cases xs, auto)+
    let ?d = "(blk p)[cur p := c]"
    let ?p1 = "upd ?d (Suc (cur p)) p"
    have b: "Suc (cur p) < 256" using len len_bound [of p] by simp
    have "feed p c = Inr ?p1" using Cons.prems(1) len by (rule feed_mid)
    moreover have "at ?p1" "\<not> fin ?p1" using Cons.prems(1) by (simp_all add: upd_at at_not_fin)
    moreover have "take (Suc (cur p)) ?d @ xs @ 0 # drop (Suc (len p)) ?d
        = take (cur p) (blk p) @ (c # xs) @ 0 # drop (Suc (len p)) (blk p)"
      using len by (simp add: take_list_update_snoc)
    ultimately show ?thesis
      using Cons.IH [of ?p1] Cons.prems False b by (simp add: upd_sel upd_upd)
  qed
qed simp

text \<open>A field as long as its array: the NUL goes one past the end.\<close>

lemma feed_field_over:
  "at p \<Longrightarrow> cur p + length xs = len p \<Longrightarrow> xs \<noteq> [] \<Longrightarrow> len p = length (blk p) \<Longrightarrow>
     feed_all feed fin p (xs @ rest) = Inl OutOfBounds"
proof (induction xs arbitrary: p)
  case (Cons c xs)
  show ?case
  proof (cases "xs = []")
    case True
    with Cons.prems show ?thesis by (simp add: feed_over)
  next
    case False
    then have len: "Suc (cur p) < len p" "cur p < length (blk p)"
      using Cons.prems by (cases xs, auto)+
    let ?p1 = "upd ((blk p)[cur p := c]) (Suc (cur p)) p"
    have b: "Suc (cur p) < 256" using len len_bound [of p] by simp
    have "feed p c = Inr ?p1" using Cons.prems(1) len by (rule feed_mid)
    moreover have "at ?p1" "\<not> fin ?p1" using Cons.prems(1) by (simp_all add: upd_at at_not_fin)
    ultimately show ?thesis
      using Cons.IH [of ?p1] Cons.prems False b by (simp add: upd_sel)
  qed
qed simp

end

end
