(* ===== verification/HelloParser.thy ===== *)
theory HelloParser
  imports Consume
begin

text \<open>
  The parser and the reply of the SOCKS method negotiation, \<^verbatim>\<open>src/parser/hello_parser.c\<close>
  and \<^verbatim>\<open>include/parser/hello_parser.h\<close>. The callback \<^verbatim>\<open>on_authentication_method\<close>
  works on the object its \<^verbatim>\<open>data\<close> pointer designates; the model keeps that object in the
  field \<open>hp_data\<close>.
\<close>

section \<open>State and operations\<close>

definition METHOD_NO_AUTHENTICATION_REQUIRED :: u8 where
  "METHOD_NO_AUTHENTICATION_REQUIRED = 0x00"

definition METHOD_NO_ACCEPTABLE_METHODS :: u8 where
  "METHOD_NO_ACCEPTABLE_METHODS = 0xFF"

definition METHOD_USERNAME_PASSWORD :: u8 where
  "METHOD_USERNAME_PASSWORD = 0x02"

lemmas method_defs = METHOD_NO_AUTHENTICATION_REQUIRED_def METHOD_NO_ACCEPTABLE_METHODS_def
  METHOD_USERNAME_PASSWORD_def

datatype hello_state =
  hello_version | hello_nmethods | hello_methods | hello_done | hello_error_unsupported_version

record 'd hello_parser =
  on_authentication_method :: "('d \<Rightarrow> u8 \<Rightarrow> 'd) option"
  hp_data :: 'd
  hp_state :: hello_state
  hp_remaining :: u8

definition hello_parser_init :: "'d hello_parser \<Rightarrow> 'd hello_parser" where
  "hello_parser_init p = p\<lparr>hp_state := hello_version, hp_remaining := 0\<rparr>"

definition hello_parser_feed :: "'d hello_parser \<Rightarrow> u8 \<Rightarrow> 'd hello_parser" where
  "hello_parser_feed p b =
     (case hp_state p of
        hello_version \<Rightarrow>
          if b = 0x05 then p\<lparr>hp_state := hello_nmethods\<rparr>
          else p\<lparr>hp_state := hello_error_unsupported_version\<rparr>
      | hello_nmethods \<Rightarrow>
          let p1 = p\<lparr>hp_remaining := b, hp_state := hello_methods\<rparr> in
          if hp_remaining p1 \<le> 0 then p1\<lparr>hp_state := hello_done\<rparr> else p1
      | hello_methods \<Rightarrow>
          let p1 = (case on_authentication_method p of
                      None \<Rightarrow> p | Some f \<Rightarrow> p\<lparr>hp_data := f (hp_data p) b\<rparr>);
              p2 = p1\<lparr>hp_remaining := hp_remaining p1 - 1\<rparr> in
          if hp_remaining p2 \<le> 0 then p2\<lparr>hp_state := hello_done\<rparr> else p2
      | hello_done \<Rightarrow> p
      | hello_error_unsupported_version \<Rightarrow> p)"

text \<open>A call with a null error pointer uses the first component only.\<close>

definition hello_is_done :: "hello_state \<Rightarrow> bool \<Rightarrow> bool \<times> bool" where
  "hello_is_done st error =
     (case st of
        hello_error_unsupported_version \<Rightarrow> (True, True)
      | hello_done \<Rightarrow> (True, error)
      | _ \<Rightarrow> (False, error))"

definition hello_consume ::
  "buffer \<Rightarrow> 'd hello_parser \<Rightarrow> bool \<Rightarrow> (buffer \<times> 'd hello_parser \<times> bool) res" where
  "hello_consume b p error =
     consume_loop (\<lambda>p c. Inr (hello_parser_feed p c)) (\<lambda>p. hello_is_done (hp_state p)) b p error False"

definition hello_marshall :: "buffer \<Rightarrow> u8 \<Rightarrow> (int \<times> buffer) res" where
  "hello_marshall b method =
     bindr (buffer_write_ptr b) (\<lambda>(n, buf).
     if n < 2 then Inr (- 1, b)
     else bindr (buffer_poke b buf [0x05, method]) (\<lambda>b1.
          bindr (buffer_write_adv b1 2) (\<lambda>b2. Inr (2, b2))))"

definition hello_error :: "'d hello_parser \<Rightarrow> string" where
  "hello_error p =
     (case hp_state p of
        hello_error_unsupported_version \<Rightarrow> ''unsupported version''
      | _ \<Rightarrow> [])"

section \<open>The parser as a byte parser\<close>

text \<open>The branches of the switch.\<close>

lemma hello_feed_version:
  "hp_state p = hello_version \<Longrightarrow> hello_parser_feed p b =
     p\<lparr>hp_state := if b = 0x05 then hello_nmethods else hello_error_unsupported_version\<rparr>"
  by (simp add: hello_parser_feed_def)

lemma hello_feed_nmethods:
  "hp_state p = hello_nmethods \<Longrightarrow> hello_parser_feed p b =
     p\<lparr>hp_remaining := b, hp_state := if b = 0 then hello_done else hello_methods\<rparr>"
  by (simp add: hello_parser_feed_def)

lemma hello_feed_method:
  "hp_state p = hello_methods \<Longrightarrow> hello_parser_feed p b =
     p\<lparr>hp_data := (case on_authentication_method p of None \<Rightarrow> hp_data p | Some f \<Rightarrow> f (hp_data p) b),
       hp_remaining := hp_remaining p - 1,
       hp_state := if hp_remaining p = 1 then hello_done else hello_methods\<rparr>"
  by (cases p) (auto simp: hello_parser_feed_def Let_def split: option.splits)

lemmas hello_feed = hello_feed_version hello_feed_nmethods hello_feed_method

definition hello_finished :: "'d hello_parser \<Rightarrow> bool" where
  "hello_finished p \<longleftrightarrow> hp_state p \<in> {hello_done, hello_error_unsupported_version}"

definition hello_failed :: "'d hello_parser \<Rightarrow> bool" where
  "hello_failed p \<longleftrightarrow> hp_state p = hello_error_unsupported_version"

text \<open>While methods are expected, some are still to be read.\<close>

definition hello_inv :: "'d hello_parser \<Rightarrow> bool" where
  "hello_inv p \<longleftrightarrow>
     (hp_state p = hello_methods \<longrightarrow> hp_remaining p \<noteq> 0) \<and>
     (hp_state p = hello_done \<longrightarrow> hp_remaining p = 0)"

interpretation hello: byte_parser "\<lambda>p c. Inr (hello_parser_feed p c)"
  "\<lambda>p. hello_is_done (hp_state p)" hello_finished hello_failed hello_inv
proof unfold_locales
  fix p :: "'d hello_parser" and e
  show "hello_is_done (hp_state p) e = (hello_finished p, e \<or> hello_failed p)"
    by (cases "hp_state p") (auto simp: hello_is_done_def hello_finished_def hello_failed_def)
  show "hello_failed p \<Longrightarrow> hello_finished p"
    by (simp add: hello_failed_def hello_finished_def)
  fix c p'
  assume "hello_inv p" "\<not> hello_finished p" "Inr (hello_parser_feed p c) = Inr p'"
  then show "hello_inv p'"
    by (cases "hp_state p") (auto simp: hello_inv_def hello_finished_def hello_feed split: if_splits)
qed

abbreviation hello_feed_all :: "'d hello_parser \<Rightarrow> u8 list \<Rightarrow> ('d hello_parser \<times> u8 list) res" where
  "hello_feed_all \<equiv> feed_all (\<lambda>p c. Inr (hello_parser_feed p c)) hello_finished"

text \<open>What the callback makes of the methods of a greeting, in their order.\<close>

definition notify_all :: "('d \<Rightarrow> u8 \<Rightarrow> 'd) option \<Rightarrow> 'd \<Rightarrow> u8 list \<Rightarrow> 'd" where
  "notify_all cb d ms = (case cb of None \<Rightarrow> d | Some f \<Rightarrow> foldl f d ms)"

lemma hello_feed_methods:
  "hp_state p = hello_methods \<Longrightarrow> unat (hp_remaining p) = length ms \<Longrightarrow> ms \<noteq> [] \<Longrightarrow>
     hello_feed_all p (ms @ rest) =
       Inr (p\<lparr>hp_data := notify_all (on_authentication_method p) (hp_data p) ms,
              hp_state := hello_done, hp_remaining := 0\<rparr>, rest)"
proof (induction ms arbitrary: p)
  case (Cons m ms)
  have nz: "hp_remaining p \<noteq> 0" using Cons.prems by auto
  have un: "unat (hp_remaining p - 1) = length ms"
    using Cons.prems nz by (simp add: unat_dec_u8)
  have z: "hp_remaining p - 1 = 0 \<longleftrightarrow> ms = []"
    using un by (metis length_0_conv unsigned_0 unat_eq_zero)
  define p1 where "p1 = (case on_authentication_method p of
      None \<Rightarrow> p | Some f \<Rightarrow> p\<lparr>hp_data := f (hp_data p) m\<rparr>)\<lparr>hp_remaining := hp_remaining p - 1\<rparr>"
  have feed: "hello_parser_feed p m = (if ms = [] then p1\<lparr>hp_state := hello_done\<rparr> else p1)"
    using Cons.prems(1) z by (cases p) (auto simp: hello_feed p1_def split: option.splits)
  show ?case
  proof (cases "ms = []")
    case True
    with feed z show ?thesis
      by (auto simp: hello_finished_def p1_def notify_all_def split: option.splits)
  next
    case False
    have "hp_state p1 = hello_methods" "hp_remaining p1 = hp_remaining p - 1"
      using Cons.prems(1) by (auto simp: p1_def split: option.splits)
    with Cons.IH [of p1] False un feed show ?thesis
      by (auto simp: hello_finished_def p1_def notify_all_def split: option.splits)
  qed
qed simp

text \<open>The message VER NMETHODS METHODS of RFC 1928, with \<open>ms\<close> its methods.\<close>

definition hello_message :: "u8 list \<Rightarrow> u8 list" where
  "hello_message ms = 0x05 # of_nat (length ms) # ms"

lemma hello_feed_message:
  assumes "length ms \<le> 255"
  shows "hello_feed_all (hello_parser_init p) (hello_message ms @ rest) =
    Inr (p\<lparr>hp_data := notify_all (on_authentication_method p) (hp_data p) ms,
           hp_state := hello_done, hp_remaining := 0\<rparr>, rest)"
proof -
  let ?n = "of_nat (length ms) :: u8"
  have un: "unat ?n = length ms" using assms by simp
  have z: "?n = 0 \<longleftrightarrow> ms = []" by (metis length_0_conv unsigned_0 unat_eq_zero un)
  show ?thesis
  proof (cases "ms = []")
    case True
    then show ?thesis
      by (cases p) (auto simp: hello_message_def hello_parser_init_def hello_feed
          hello_finished_def notify_all_def split: option.splits)
  next
    case False
    then show ?thesis
      using hello_feed_methods [of "p\<lparr>hp_remaining := ?n, hp_state := hello_methods\<rparr>" ms rest] un z
      by (simp add: hello_message_def hello_parser_init_def hello_feed hello_finished_def)
  qed
qed

lemma hello_marshall_wf:
  assumes "wf_buffer b" "2 \<le> buf_room b"
  obtains b' where "hello_marshall b m = Inr (2, b')" "wf_buffer b'"
    "buf_content b' = buf_content b @ [0x05, m]" "b_limit b' = b_limit b"
  using assms
  by (rule_tac poke_adv_wf [of b "[0x05, m]"]) (auto simp: hello_marshall_def write_ptr_wf)

lemma hello_marshall_full:
  "wf_buffer b \<Longrightarrow> buf_room b < 2 \<Longrightarrow> hello_marshall b m = Inr (- 1, b)"
  by (simp add: hello_marshall_def write_ptr_wf)

lemma hello_init_not_finished [simp]: "\<not> hello_finished (hello_parser_init p)"
  by (simp add: hello_finished_def hello_parser_init_def)

section \<open>Properties\<close>

text \<open>
  C23: parsing a greeting. A buffer that starts with version 5, a method count and that many
  methods (0 to 255 of them) is parsed to \<^const>\<open>hello_done\<close> without error; the callback has seen
  every method exactly once and in order, and the bytes after the greeting are left in the buffer.
\<close>

theorem hello_message_parsed:
  assumes "wf_buffer b" "buf_content b = hello_message ms @ rest" "length ms \<le> 255"
  shows "\<exists>b' p'. hello_consume b (hello_parser_init p) e = Inr (b', p', e) \<and>
    hp_state p' = hello_done \<and> wf_buffer b' \<and> buf_content b' = rest \<and>
    hp_data p' = notify_all (on_authentication_method p) (hp_data p) ms"
  using hello.consume_loop_Inr [OF assms(1) hello_init_not_finished
      hello_feed_message [OF assms(3), of p rest, folded assms(2)], of e]
  by (auto simp: hello_consume_def hello_failed_def)

theorem hello_message_parsed_witness:
  "\<exists>b' p'. hello_consume \<lparr>b_data = [5, 2, 0, 2], b_limit = 4, b_read = 0, b_write = 4\<rparr>
      (hello_parser_init \<lparr>on_authentication_method = Some (\<lambda>d m. d @ [m]), hp_data = [],
         hp_state = hello_done, hp_remaining = 3\<rparr>) False = Inr (b', p', False) \<and>
    hp_state p' = hello_done \<and> hp_data p' = [0, 2]"
proof -
  let ?b = "\<lparr>b_data = [5, 2, 0, 2], b_limit = 4, b_read = 0, b_write = 4\<rparr>"
  have 1: "wf_buffer ?b" by (simp add: wf_buffer_def)
  have 2: "buf_content ?b = hello_message [0, 2] @ []" by (simp add: buf_content_def hello_message_def)
  show ?thesis
    using hello_message_parsed [OF 1 2, of "\<lparr>on_authentication_method = Some (\<lambda>d m. d @ [m]),
        hp_data = [], hp_state = hello_done, hp_remaining = 3\<rparr>" False]
    by (auto simp: notify_all_def)
qed

text \<open>
  A first byte other than 5 is rejected at once: the parser reads only that byte, sets
  the error flag and ends in the error state, for which \<^const>\<open>hello_error\<close> has a message.
\<close>

theorem hello_bad_version_rejected:
  assumes "wf_buffer b" "buf_content b = v # rest" "v \<noteq> 0x05"
  shows "\<exists>b' p'. hello_consume b (hello_parser_init p) e = Inr (b', p', True) \<and>
    hp_state p' = hello_error_unsupported_version \<and> buf_content b' = rest \<and>
    hello_error p' = ''unsupported version''"
proof -
  have "hello_feed_all (hello_parser_init p) (buf_content b) =
      Inr ((hello_parser_init p)\<lparr>hp_state := hello_error_unsupported_version\<rparr>, rest)"
    using assms(2,3) by (simp add: hello_feed hello_parser_init_def hello_finished_def)
  from hello.consume_loop_Inr [OF assms(1) hello_init_not_finished this, of e] show ?thesis
    by (auto simp: hello_consume_def hello_failed_def hello_error_def)
qed

theorem hello_bad_version_rejected_witness:
  "\<exists>b' p'. hello_consume \<lparr>b_data = [4, 1], b_limit = 2, b_read = 0, b_write = 2\<rparr>
      (hello_parser_init \<lparr>on_authentication_method = None, hp_data = (), hp_state = hello_done,
         hp_remaining = 0\<rparr>) False = Inr (b', p', True) \<and>
    hp_state p' = hello_error_unsupported_version \<and> buf_content b' = [1] \<and>
    hello_error p' = ''unsupported version''"
  by (rule hello_bad_version_rejected [where v = 4]) (simp_all add: wf_buffer_def buf_content_def)

end
