(* ===== verification/AuthParser.thy ===== *)
theory AuthParser
  imports Consume
begin

text \<open>
  The parser of the user name and password message, \<^verbatim>\<open>src/parser/auth_parser.c\<close>, used by
  the management protocol. The static functions carry the suffix \<open>_auth\<close>, since three parsers of
  the source use the same names. The arrays \<^verbatim>\<open>uname\<close> and \<^verbatim>\<open>passwd\<close> have 255
  elements; a store at index 255 is outside them.
\<close>

section \<open>State and operations\<close>

definition MAX_LEN :: nat where
  "MAX_LEN = 0xFF"

definition AUTH_SUCCESS :: u8 where
  "AUTH_SUCCESS = 0x00"

definition AUTH_BAD_CREDENTIALS :: u8 where
  "AUTH_BAD_CREDENTIALS = 0x03"

record auth =
  au_ulen :: u8
  au_uname :: "u8 list"
  au_plen :: u8
  au_passwd :: "u8 list"

datatype auth_state =
  auth_version | auth_ulen | auth_uname | auth_plen | auth_passwd
| auth_done
| auth_error | auth_error_unsupported_version

record auth_parser =
  ap_auth :: auth
  ap_state :: auth_state
  ap_n :: u8
  ap_i :: u8

text \<open>\<^verbatim>\<open>memset(p->auth, 0, sizeof(*(p->auth)))\<close>\<close>

definition auth_zero :: auth where
  "auth_zero = \<lparr>au_ulen = 0, au_uname = replicate MAX_LEN 0, au_plen = 0,
                au_passwd = replicate MAX_LEN 0\<rparr>"

definition auth_parser_init :: "auth_parser \<Rightarrow> auth_parser" where
  "auth_parser_init p = p\<lparr>ap_state := auth_version, ap_auth := auth_zero, ap_n := 0, ap_i := 0\<rparr>"

definition remaining_set_auth :: "auth_parser \<Rightarrow> u8 \<Rightarrow> auth_parser" where
  "remaining_set_auth p n = p\<lparr>ap_i := 0, ap_n := n\<rparr>"

definition remaining_is_done_auth :: "auth_parser \<Rightarrow> bool" where
  "remaining_is_done_auth p = (ap_i p \<ge> ap_n p)"

definition version_auth :: "u8 \<Rightarrow> auth_state" where
  "version_auth c = (if c = 0x01 then auth_ulen else auth_error_unsupported_version)"

definition ulen_auth :: "u8 \<Rightarrow> auth_parser \<Rightarrow> auth_parser" where
  "ulen_auth c p =
     (if c \<le> 0 then p\<lparr>ap_state := auth_error\<rparr>
      else let p1 = remaining_set_auth p c;
               p2 = p1\<lparr>ap_auth := (ap_auth p1)\<lparr>au_ulen := c\<rparr>\<rparr> in
           p2\<lparr>ap_state := auth_uname\<rparr>)"

definition uname_auth :: "u8 \<Rightarrow> auth_parser \<Rightarrow> auth_parser res" where
  "uname_auth c p =
     bindr (poke_at (au_uname (ap_auth p)) (unat (ap_i p)) c) (\<lambda>d.
     let p1 = p\<lparr>ap_auth := (ap_auth p)\<lparr>au_uname := d\<rparr>, ap_i := ap_i p + 1\<rparr> in
     if remaining_is_done_auth p1
     then bindr (poke_at d (unat (ap_i p1)) 0) (\<lambda>d'.
          Inr (p1\<lparr>ap_auth := (ap_auth p1)\<lparr>au_uname := d'\<rparr>, ap_state := auth_plen\<rparr>))
     else Inr (p1\<lparr>ap_state := auth_uname\<rparr>))"

definition plen_auth :: "u8 \<Rightarrow> auth_parser \<Rightarrow> auth_parser" where
  "plen_auth c p =
     (if c \<le> 0 then p\<lparr>ap_state := auth_error\<rparr>
      else let p1 = remaining_set_auth p c;
               p2 = p1\<lparr>ap_auth := (ap_auth p1)\<lparr>au_plen := c\<rparr>\<rparr> in
           p2\<lparr>ap_state := auth_passwd\<rparr>)"

definition passwd_auth :: "u8 \<Rightarrow> auth_parser \<Rightarrow> auth_parser res" where
  "passwd_auth c p =
     bindr (poke_at (au_passwd (ap_auth p)) (unat (ap_i p)) c) (\<lambda>d.
     let p1 = p\<lparr>ap_auth := (ap_auth p)\<lparr>au_passwd := d\<rparr>, ap_i := ap_i p + 1\<rparr> in
     if remaining_is_done_auth p1
     then bindr (poke_at d (unat (ap_i p1)) 0) (\<lambda>d'.
          Inr (p1\<lparr>ap_auth := (ap_auth p1)\<lparr>au_passwd := d'\<rparr>, ap_state := auth_done\<rparr>))
     else Inr (p1\<lparr>ap_state := auth_passwd\<rparr>))"

definition auth_parser_feed :: "auth_parser \<Rightarrow> u8 \<Rightarrow> auth_parser res" where
  "auth_parser_feed p c =
     (case ap_state p of
        auth_version \<Rightarrow> Inr (p\<lparr>ap_state := version_auth c\<rparr>)
      | auth_ulen \<Rightarrow> Inr (ulen_auth c p)
      | auth_uname \<Rightarrow> uname_auth c p
      | auth_plen \<Rightarrow> Inr (plen_auth c p)
      | auth_passwd \<Rightarrow> passwd_auth c p
      | _ \<Rightarrow> Inr (p\<lparr>ap_state := auth_error\<rparr>))"

definition auth_is_done :: "auth_state \<Rightarrow> bool \<Rightarrow> bool \<times> bool" where
  "auth_is_done st error =
     (if st = auth_error \<or> st = auth_error_unsupported_version then (True, True)
      else if st = auth_done then (True, error)
      else (False, error))"

definition auth_consume ::
  "buffer \<Rightarrow> auth_parser \<Rightarrow> bool \<Rightarrow> (buffer \<times> auth_parser \<times> bool) res" where
  "auth_consume b p error =
     consume_loop auth_parser_feed (\<lambda>p. auth_is_done (ap_state p)) b p error False"

definition auth_marshal :: "buffer \<Rightarrow> u8 \<Rightarrow> (int \<times> buffer) res" where
  "auth_marshal b status =
     bindr (buffer_write_ptr b) (\<lambda>(n, buff).
     let len = 2 in
     if n < len then Inr (- 1, b)
     else bindr (buffer_poke b buff [0x01, status]) (\<lambda>b1.
          bindr (buffer_write_adv b1 (int len)) (\<lambda>b2. Inr (int len, b2))))"

section \<open>The parser as a byte parser\<close>

definition auth_finished :: "auth_parser \<Rightarrow> bool" where
  "auth_finished p \<longleftrightarrow> ap_state p \<in> {auth_done, auth_error, auth_error_unsupported_version}"

definition auth_failed :: "auth_parser \<Rightarrow> bool" where
  "auth_failed p \<longleftrightarrow> ap_state p \<in> {auth_error, auth_error_unsupported_version}"

text \<open>The arrays keep their size, and inside a field the index is below the field's length.\<close>

definition auth_inv :: "auth_parser \<Rightarrow> bool" where
  "auth_inv p \<longleftrightarrow>
     length (au_uname (ap_auth p)) = MAX_LEN \<and> length (au_passwd (ap_auth p)) = MAX_LEN \<and>
     (ap_state p \<in> {auth_uname, auth_passwd} \<longrightarrow> ap_i p < ap_n p)"

lemmas auth_step_defs = version_auth_def ulen_auth_def uname_auth_def plen_auth_def passwd_auth_def
  remaining_set_auth_def remaining_is_done_auth_def

lemma auth_inv_feed: "auth_inv p \<Longrightarrow> auth_parser_feed p c = Inr p' \<Longrightarrow> auth_inv p'"
  by (cases "ap_state p")
    (auto simp: auth_inv_def auth_parser_feed_def auth_step_defs res_simps Let_def word_gt_0
       split: if_splits)

interpretation auth: byte_parser auth_parser_feed "\<lambda>p. auth_is_done (ap_state p)"
  auth_finished auth_failed auth_inv
proof unfold_locales
  fix p e
  show "auth_is_done (ap_state p) e = (auth_finished p, e \<or> auth_failed p)"
    by (cases "ap_state p") (auto simp: auth_is_done_def auth_finished_def auth_failed_def)
  show "auth_failed p \<Longrightarrow> auth_finished p"
    by (auto simp: auth_failed_def auth_finished_def)
  show "auth_inv p \<Longrightarrow> \<not> auth_finished p \<Longrightarrow> auth_parser_feed p c = Inr p' \<Longrightarrow> auth_inv p'" for c p'
    by (rule auth_inv_feed)
qed

abbreviation auth_feed_all :: "auth_parser \<Rightarrow> u8 list \<Rightarrow> (auth_parser \<times> u8 list) res" where
  "auth_feed_all \<equiv> feed_all auth_parser_feed auth_finished"

text \<open>Both fields are name fields.\<close>

lemma uname_auth_step:
  assumes "ap_state p = auth_uname" "Suc (unat (ap_i p)) \<le> unat (ap_n p)"
    "unat (ap_i p) < length (au_uname (ap_auth p))"
  shows "auth_parser_feed p c =
    (let d = (au_uname (ap_auth p))[unat (ap_i p) := c] in
     if Suc (unat (ap_i p)) = unat (ap_n p)
     then bindr (poke_at d (unat (ap_n p)) 0) (\<lambda>d'.
          Inr (p\<lparr>ap_auth := (ap_auth p)\<lparr>au_uname := d'\<rparr>, ap_i := ap_n p, ap_state := auth_plen\<rparr>))
     else Inr (p\<lparr>ap_auth := (ap_auth p)\<lparr>au_uname := d\<rparr>, ap_i := ap_i p + 1\<rparr>))"
  using assms Suc_unat_le_255 [OF assms(2)] u8_Suc_eq [of "ap_i p" "ap_n p"]
  by (cases p) (auto simp: auth_parser_feed_def uname_auth_def remaining_is_done_auth_def Let_def
      u8_le_inc unat_inc_u8)

lemma passwd_auth_step:
  assumes "ap_state p = auth_passwd" "Suc (unat (ap_i p)) \<le> unat (ap_n p)"
    "unat (ap_i p) < length (au_passwd (ap_auth p))"
  shows "auth_parser_feed p c =
    (let d = (au_passwd (ap_auth p))[unat (ap_i p) := c] in
     if Suc (unat (ap_i p)) = unat (ap_n p)
     then bindr (poke_at d (unat (ap_n p)) 0) (\<lambda>d'.
          Inr (p\<lparr>ap_auth := (ap_auth p)\<lparr>au_passwd := d'\<rparr>, ap_i := ap_n p, ap_state := auth_done\<rparr>))
     else Inr (p\<lparr>ap_auth := (ap_auth p)\<lparr>au_passwd := d\<rparr>, ap_i := ap_i p + 1\<rparr>))"
  using assms Suc_unat_le_255 [OF assms(2)] u8_Suc_eq [of "ap_i p" "ap_n p"]
  by (cases p) (auto simp: auth_parser_feed_def passwd_auth_def remaining_is_done_auth_def Let_def
      u8_le_inc unat_inc_u8)

interpretation uname: name_field auth_parser_feed auth_finished "\<lambda>p. ap_state p = auth_uname"
  "\<lambda>p. unat (ap_i p)" "\<lambda>p. unat (ap_n p)" "\<lambda>p. au_uname (ap_auth p)"
  "\<lambda>d i p. p\<lparr>ap_auth := (ap_auth p)\<lparr>au_uname := d\<rparr>, ap_i := of_nat i\<rparr>"
  "\<lambda>p. p\<lparr>ap_state := auth_plen\<rparr>"
  by unfold_locales (auto simp: uname_auth_step auth_finished_def Let_def add.commute)

interpretation passwd: name_field auth_parser_feed auth_finished "\<lambda>p. ap_state p = auth_passwd"
  "\<lambda>p. unat (ap_i p)" "\<lambda>p. unat (ap_n p)" "\<lambda>p. au_passwd (ap_auth p)"
  "\<lambda>d i p. p\<lparr>ap_auth := (ap_auth p)\<lparr>au_passwd := d\<rparr>, ap_i := of_nat i\<rparr>"
  "\<lambda>p. p\<lparr>ap_state := auth_done\<rparr>"
  by unfold_locales (auto simp: passwd_auth_step auth_finished_def Let_def add.commute)

section \<open>The message\<close>

text \<open>VER ULEN UNAME PLEN PASSWD, as RFC 1929 and \<^verbatim>\<open>prawtosv5.txt\<close> have it.\<close>

definition auth_message :: "u8 list \<Rightarrow> u8 list \<Rightarrow> u8 list" where
  "auth_message u pw = [0x01, of_nat (length u)] @ u @ [of_nat (length pw)] @ pw"

definition name_block :: "u8 list \<Rightarrow> u8 list" where
  "name_block u = u @ replicate (MAX_LEN - length u) 0"

lemma name_block_terminated: "length u < MAX_LEN \<Longrightarrow> terminated (name_block u)"
  by (auto simp: name_block_def terminated_def)

lemma name_block_str: "length u < MAX_LEN \<Longrightarrow> 0 \<notin> set u \<Longrightarrow> c_str (name_block u) = u"
  by (cases "MAX_LEN - length u") (simp_all add: name_block_def)

lemma length_name_block: "length u \<le> MAX_LEN \<Longrightarrow> length (name_block u) = MAX_LEN"
  by (simp add: name_block_def)

lemma name_block_eq:
  "length u < MAX_LEN \<Longrightarrow>
     u @ 0 # drop (Suc (length u)) (replicate MAX_LEN 0) = name_block u"
  by (simp add: name_block_def Suc_diff_Suc flip: replicate_Suc)

lemma name_block_rep [simp]:
  "length u < MAX_LEN \<Longrightarrow> u @ 0 # replicate (MAX_LEN - Suc (length u)) 0 = name_block u"
  by (simp add: name_block_def Suc_diff_Suc flip: replicate_Suc)

lemmas auth_feed_simps = auth_parser_feed_def version_auth_def ulen_auth_def plen_auth_def
  remaining_set_auth_def auth_finished_def

text \<open>The header bytes lead into a field with \<open>i = 0\<close> and \<open>n\<close> the announced length.\<close>

lemma auth_feed_uname_header:
  assumes "0 < length u" "length u < 256"
  shows "auth_feed_all (auth_parser_init p) ([0x01, of_nat (length u)] @ xs) =
    auth_feed_all \<lparr>ap_auth = auth_zero\<lparr>au_ulen := of_nat (length u)\<rparr>, ap_state = auth_uname,
      ap_n = of_nat (length u), ap_i = 0\<rparr> xs"
  using of_nat_u8_nz [OF assms]
  by (cases p) (simp add: feed_all.simps auth_parser_init_def auth_feed_simps)

lemma auth_feed_plen:
  assumes "0 < length pw" "length pw < 256" "ap_state p = auth_plen"
  shows "auth_feed_all p (of_nat (length pw) # xs) =
    auth_feed_all (p\<lparr>ap_i := 0, ap_n := of_nat (length pw),
      ap_auth := (ap_auth p)\<lparr>au_plen := of_nat (length pw)\<rparr>, ap_state := auth_passwd\<rparr>) xs"
  using of_nat_u8_nz [OF assms(1,2)] assms(3) by (simp add: auth_feed_simps)

lemma auth_feed_uname:
  assumes "0 < length u" "length u < MAX_LEN"
  shows "auth_feed_all (auth_parser_init p) ([0x01, of_nat (length u)] @ u @ xs) =
    auth_feed_all \<lparr>ap_auth = auth_zero\<lparr>au_ulen := of_nat (length u), au_uname := name_block u\<rparr>,
      ap_state = auth_plen, ap_n = of_nat (length u), ap_i = of_nat (length u)\<rparr> xs"
proof -
  let ?p = "\<lparr>ap_auth = auth_zero\<lparr>au_ulen := of_nat (length u)\<rparr>, ap_state = auth_uname,
      ap_n = of_nat (length u), ap_i = 0\<rparr>"
  have "length u < 256" using assms by (simp add: MAX_LEN_def)
  then show ?thesis
    using assms uname.feed_field [of ?p u xs] name_block_eq [of u]
    by (simp add: auth_feed_uname_header auth_zero_def auth_finished_def Let_def del: append_Cons)
qed

lemma auth_feed_message:
  assumes "0 < length u" "length u < MAX_LEN" "0 < length pw" "length pw < MAX_LEN"
  shows "auth_feed_all (auth_parser_init p) (auth_message u pw @ rest) =
    Inr (\<lparr>ap_auth = \<lparr>au_ulen = of_nat (length u), au_uname = name_block u,
                     au_plen = of_nat (length pw), au_passwd = name_block pw\<rparr>,
          ap_state = auth_done, ap_n = of_nat (length pw), ap_i = of_nat (length pw)\<rparr>, rest)"
proof -
  let ?p = "\<lparr>ap_auth = auth_zero\<lparr>au_ulen := of_nat (length u), au_uname := name_block u,
      au_plen := of_nat (length pw)\<rparr>, ap_state = auth_passwd, ap_n = of_nat (length pw), ap_i = 0\<rparr>"
  have l: "length pw < 256" using assms by (simp add: MAX_LEN_def)
  have "auth_feed_all (auth_parser_init p) (auth_message u pw @ rest) = auth_feed_all ?p (pw @ rest)"
    using auth_feed_uname [OF assms(1,2), of p "of_nat (length pw) # pw @ rest"] l assms(3)
    by (simp add: auth_message_def auth_feed_plen del: feed_all.simps)
  also have "\<dots> = Inr (\<lparr>ap_auth = \<lparr>au_ulen = of_nat (length u), au_uname = name_block u,
                     au_plen = of_nat (length pw), au_passwd = name_block pw\<rparr>,
          ap_state = auth_done, ap_n = of_nat (length pw), ap_i = of_nat (length pw)\<rparr>, rest)"
    using passwd.feed_field [of ?p pw rest] assms(3,4) l name_block_eq [of pw]
    by (simp add: auth_zero_def auth_finished_def)
  finally show ?thesis .
qed

lemma auth_feed_uname_255:
  assumes "length u = MAX_LEN"
  shows "auth_feed_all (auth_parser_init p) (auth_message u pw @ rest) = Inl OutOfBounds"
proof -
  let ?p = "\<lparr>ap_auth = auth_zero\<lparr>au_ulen := of_nat (length u)\<rparr>, ap_state = auth_uname,
      ap_n = of_nat (length u), ap_i = 0\<rparr>"
  have "auth_feed_all ?p (u @ of_nat (length pw) # pw @ rest) = Inl OutOfBounds"
    using assms by (intro uname.feed_field_over) (auto simp: auth_zero_def MAX_LEN_def)
  then show ?thesis
    using assms auth_feed_uname_header [of u p "u @ of_nat (length pw) # pw @ rest"]
    by (simp add: auth_message_def MAX_LEN_def del: feed_all.simps)
qed

lemma auth_feed_passwd_255:
  assumes "0 < length u" "length u < MAX_LEN" "length pw = MAX_LEN"
  shows "auth_feed_all (auth_parser_init p) (auth_message u pw @ rest) = Inl OutOfBounds"
proof -
  let ?p = "\<lparr>ap_auth = auth_zero\<lparr>au_ulen := of_nat (length u), au_uname := name_block u,
      au_plen := of_nat (length pw)\<rparr>, ap_state = auth_passwd, ap_n = of_nat (length pw), ap_i = 0\<rparr>"
  have l: "length pw < 256" "0 < length pw" using assms by (simp_all add: MAX_LEN_def)
  have "auth_feed_all ?p (pw @ rest) = Inl OutOfBounds"
    using assms(3) by (intro passwd.feed_field_over) (auto simp: auth_zero_def MAX_LEN_def)
  then show ?thesis
    using auth_feed_uname [OF assms(1,2), of p "of_nat (length pw) # pw @ rest"] l
    by (simp add: auth_message_def auth_feed_plen del: feed_all.simps)
qed

lemma auth_init_not_finished [simp]: "\<not> auth_finished (auth_parser_init p)"
  by (simp add: auth_finished_def auth_parser_init_def)

lemma auth_marshal_wf:
  assumes "wf_buffer b" "2 \<le> buf_room b"
  obtains b' where "auth_marshal b st = Inr (2, b')" "wf_buffer b'"
    "buf_content b' = buf_content b @ [0x01, st]" "b_limit b' = b_limit b"
  using assms
  by (rule_tac poke_adv_wf [of b "[0x01, st]"]) (auto simp: auth_marshal_def write_ptr_wf)

lemma auth_marshal_full:
  "wf_buffer b \<Longrightarrow> buf_room b < 2 \<Longrightarrow> auth_marshal b st = Inr (- 1, b)"
  by (simp add: auth_marshal_def write_ptr_wf)

lemma auth_message_consumed:
  assumes "wf_buffer b" "buf_content b = auth_message u pw @ rest"
    and "0 < length u" "length u < MAX_LEN" "0 < length pw" "length pw < MAX_LEN"
  shows "\<exists>b' p'. auth_consume b (auth_parser_init p) e = Inr (b', p', e) \<and>
    ap_state p' = auth_done \<and> wf_buffer b' \<and> buf_content b' = rest \<and>
    au_uname (ap_auth p') = name_block u \<and> au_passwd (ap_auth p') = name_block pw \<and>
    unat (au_ulen (ap_auth p')) = length u \<and> unat (au_plen (ap_auth p')) = length pw"
  using auth.consume_loop_Inr [OF assms(1) auth_init_not_finished
      auth_feed_message [OF assms(3-6), of p rest, folded assms(2)], of e] assms(3-6)
  by (auto simp: auth_consume_def auth_failed_def MAX_LEN_def)

section \<open>Properties\<close>

text \<open>
  Parsing a user name and password message gives back the two names. Whatever the
  buffer holds before its start, \<^const>\<open>auth_consume\<close> on a buffer that starts with the message
  ends in \<^const>\<open>auth_done\<close> without error, has both names NUL-terminated in their arrays, and
  leaves exactly the bytes after the message, for names of 1 to 254 bytes.
\<close>

theorem auth_message_parsed:
  assumes "wf_buffer b" "buf_content b = auth_message u pw @ rest"
    and "0 < length u" "length u < MAX_LEN" "0 < length pw" "length pw < MAX_LEN"
  shows "\<exists>b' p'. auth_consume b (auth_parser_init p) e = Inr (b', p', e) \<and>
    ap_state p' = auth_done \<and> wf_buffer b' \<and> buf_content b' = rest \<and>
    au_uname (ap_auth p') = name_block u \<and> au_passwd (ap_auth p') = name_block pw \<and>
    unat (au_ulen (ap_auth p')) = length u \<and> unat (au_plen (ap_auth p')) = length pw"
  by (rule auth_message_consumed [OF assms])

theorem auth_message_parsed_witness:
  "\<exists>b' p'. auth_consume \<lparr>b_data = [1, 2, 97, 98, 1, 99, 7], b_limit = 7, b_read = 0, b_write = 7\<rparr>
      (auth_parser_init \<lparr>ap_auth = auth_zero, ap_state = auth_error, ap_n = 9, ap_i = 9\<rparr>) False
    = Inr (b', p', False) \<and> ap_state p' = auth_done \<and> buf_content b' = [7]"
proof -
  let ?b = "\<lparr>b_data = [1, 2, 97, 98, 1, 99, 7], b_limit = 7, b_read = 0, b_write = 7\<rparr>"
  have 1: "wf_buffer ?b" by (simp add: wf_buffer_def)
  have 2: "buf_content ?b = auth_message [97, 98] [99] @ [7]"
    by (simp add: buf_content_def auth_message_def)
  show ?thesis
    using auth_message_parsed [OF 1 2, of "\<lparr>ap_auth = auth_zero, ap_state = auth_error, ap_n = 9, ap_i = 9\<rparr>" False]
    by (auto simp: MAX_LEN_def)
qed

text \<open>
  A user name or a password of 255 bytes, which the length byte and the protocol
  description allow, makes the parser store the terminating NUL one element past its array.
\<close>

theorem auth_name_255_out_of_bounds:
  assumes "wf_buffer b" "buf_content b = auth_message u pw @ rest" "0 < length u"
    and "length u = MAX_LEN \<or> length u < MAX_LEN \<and> length pw = MAX_LEN"
  shows "auth_consume b (auth_parser_init p) e = Inl OutOfBounds"
proof -
  have "auth_feed_all (auth_parser_init p) (buf_content b) = Inl OutOfBounds"
    using assms(2-4) auth_feed_uname_255 auth_feed_passwd_255 by auto
  then show ?thesis
    using auth.consume_loop_Inl [OF assms(1) auth_init_not_finished] by (simp add: auth_consume_def)
qed

theorem auth_name_255_out_of_bounds_witness:
  "let m = auth_message (replicate 255 97) [98] in
   auth_consume \<lparr>b_data = m, b_limit = length m, b_read = 0, b_write = length m\<rparr>
     (auth_parser_init \<lparr>ap_auth = auth_zero, ap_state = auth_version, ap_n = 0, ap_i = 0\<rparr>) False
     = Inl OutOfBounds"
proof -
  let ?m = "auth_message (replicate 255 97) [98]"
  let ?b = "\<lparr>b_data = ?m, b_limit = length ?m, b_read = 0, b_write = length ?m\<rparr>"
  have 1: "wf_buffer ?b" by (simp add: wf_buffer_def)
  have 2: "buf_content ?b = auth_message (replicate 255 97) [98] @ []" by (simp add: buf_content_def)
  show ?thesis
    using auth_name_255_out_of_bounds [OF 1 2] by (simp add: MAX_LEN_def)
qed

text \<open>
  Every message the parser must reject ends in an error state and sets the error flag:
  another version, an empty user name, an empty password.
\<close>

theorem auth_bad_message_rejected:
  assumes "wf_buffer b" "\<exists>rest v. buf_content b = v # rest \<and> v \<noteq> 0x01 \<or>
      buf_content b = 0x01 # 0 # rest \<or>
      (\<exists>u. 0 < length u \<and> length u < MAX_LEN \<and>
         buf_content b = [0x01, of_nat (length u)] @ u @ 0 # rest)"
  shows "\<exists>b' p'. auth_consume b (auth_parser_init p) e = Inr (b', p', True) \<and>
    ap_state p' \<in> {auth_error, auth_error_unsupported_version}"
proof -
  have "\<exists>p' r. auth_feed_all (auth_parser_init p) (buf_content b) = Inr (p', r) \<and> auth_failed p'"
    using assms(2)
  proof (elim exE disjE conjE)
    fix u rest
    assume "0 < length u" "length u < MAX_LEN"
      "buf_content b = [0x01, of_nat (length u)] @ u @ 0 # rest"
    then show ?thesis
      using auth_feed_uname [of u p "0 # rest"] by (simp add: auth_feed_simps auth_failed_def)
  qed (auto simp: auth_parser_init_def auth_feed_simps auth_failed_def)
  then obtain p' r where "auth_feed_all (auth_parser_init p) (buf_content b) = Inr (p', r)"
    "auth_failed p'" by blast
  with auth.consume_loop_Inr [OF assms(1) auth_init_not_finished this(1), of e] show ?thesis
    by (auto simp: auth_consume_def auth_failed_def)
qed

theorem auth_bad_message_rejected_witness:
  "\<exists>b' p'. auth_consume \<lparr>b_data = [5, 1, 0], b_limit = 3, b_read = 0, b_write = 3\<rparr>
      (auth_parser_init \<lparr>ap_auth = auth_zero, ap_state = auth_version, ap_n = 0, ap_i = 0\<rparr>) False
    = Inr (b', p', True) \<and> ap_state p' \<in> {auth_error, auth_error_unsupported_version}"
  by (rule auth_bad_message_rejected) (auto simp: wf_buffer_def buf_content_def)

end
