(* ===== verification/RequestParser.thy ===== *)
theory RequestParser
  imports Consume
begin

text \<open>
  The parser of the SOCKS request and the writer of the reply,
  \<^verbatim>\<open>src/parser/request_parser.c\<close> and \<^verbatim>\<open>include/parser/request_parser.h\<close>.

  The \<^verbatim>\<open>union socks_addr\<close> is its 256 bytes of memory (255 characters, rounded up to the
  alignment of the structures) with the members at their offsets in the x86-64 Linux ABI:
  \<^verbatim>\<open>fdqn\<close> at 0, \<^verbatim>\<open>sin_family\<close> at 0, \<^verbatim>\<open>sin_port\<close> at 2,
  \<^verbatim>\<open>sin_addr\<close> at 4, \<^verbatim>\<open>sin6_addr\<close> at 8. A port is the two bytes of
  \<^verbatim>\<open>in_port_t\<close> in memory order, which is network order. The enumerations of commands and
  address types are bytes, since the parser stores any byte it receives in them.
\<close>

section \<open>State and operations\<close>

definition socks_req_cmd_connect :: u8 where "socks_req_cmd_connect = 0x01"
definition socks_req_cmd_bind :: u8 where "socks_req_cmd_bind = 0x02"
definition socks_req_cmd_associate :: u8 where "socks_req_cmd_associate = 0x03"

definition socks_addr_type_ipv4 :: u8 where "socks_addr_type_ipv4 = 0x01"
definition socks_addr_type_domain :: u8 where "socks_addr_type_domain = 0x03"
definition socks_addr_type_ipv6 :: u8 where "socks_addr_type_ipv6 = 0x04"

lemmas socks_cmd_defs =
  socks_req_cmd_connect_def socks_req_cmd_bind_def socks_req_cmd_associate_def
lemmas socks_atyp_defs =
  socks_addr_type_ipv4_def socks_addr_type_domain_def socks_addr_type_ipv6_def

type_synonym socks_addr = "u8 list"

definition AF_INET :: nat where "AF_INET = 2"
definition AF_INET6 :: nat where "AF_INET6 = 10"

definition sizeof_socks_addr :: nat where "sizeof_socks_addr = 256"
definition sizeof_sockaddr_in :: nat where "sizeof_sockaddr_in = 16"
definition sizeof_sockaddr_in6 :: nat where "sizeof_sockaddr_in6 = 28"
definition sizeof_fdqn :: nat where "sizeof_fdqn = 0xff"

lemmas sizeof_defs = sizeof_socks_addr_def sizeof_sockaddr_in_def sizeof_sockaddr_in6_def
  sizeof_fdqn_def

text \<open>\<open>poke_field d off n i v\<close>: element \<open>i\<close> of an array of \<open>n\<close> bytes at offset \<open>off\<close>.\<close>

definition poke_field :: "u8 list \<Rightarrow> nat \<Rightarrow> nat \<Rightarrow> nat \<Rightarrow> u8 \<Rightarrow> u8 list res" where
  "poke_field d off n i v = (if i < n then poke_at d (off + i) v else Inl OutOfBounds)"

definition memset_0 :: "u8 list \<Rightarrow> nat \<Rightarrow> u8 list" where
  "memset_0 d n = replicate n 0 @ drop n d"

definition set_family :: "u8 list \<Rightarrow> nat \<Rightarrow> u8 list" where
  "set_family d af = d[0 := of_nat af, 1 := 0]"

record request =
  rq_cmd :: u8
  rq_atyp :: u8
  rq_addr :: socks_addr
  rq_port :: "u8 list"

datatype request_state =
  request_version | request_cmd | request_rvs | request_atype | request_dstaddr_fqdn
| request_dstaddr | request_dstport
| request_done
| request_error | request_error_unsupported_version | request_error_unsupported_atype

record request_parser =
  rp_request :: request
  rp_state :: request_state
  rp_n :: u8
  rp_i :: u8

definition remaining_set_request :: "request_parser \<Rightarrow> u8 \<Rightarrow> request_parser" where
  "remaining_set_request p n = p\<lparr>rp_i := 0, rp_n := n\<rparr>"

definition remaining_is_done_request :: "request_parser \<Rightarrow> bool" where
  "remaining_is_done_request p = (rp_i p \<ge> rp_n p)"

definition version_request :: "u8 \<Rightarrow> request_state" where
  "version_request c = (if c = 0x05 then request_cmd else request_error_unsupported_version)"

definition cmd_request :: "u8 \<Rightarrow> request_parser \<Rightarrow> request_parser" where
  "cmd_request c p = p\<lparr>rp_request := (rp_request p)\<lparr>rq_cmd := c\<rparr>, rp_state := request_rvs\<rparr>"

definition rsv_request :: request_state where
  "rsv_request = request_atype"

definition atype_request :: "u8 \<Rightarrow> request_parser \<Rightarrow> request_parser" where
  "atype_request c p =
     (let p1 = p\<lparr>rp_request := (rp_request p)\<lparr>rq_atyp := c\<rparr>\<rparr>; a = rq_addr (rp_request p1) in
      if c = socks_addr_type_ipv4 then
        let p2 = remaining_set_request p1 4 in
        p2\<lparr>rp_request := (rp_request p2)\<lparr>rq_addr := set_family (memset_0 a sizeof_sockaddr_in) AF_INET\<rparr>,
           rp_state := request_dstaddr\<rparr>
      else if c = socks_addr_type_ipv6 then
        let p2 = remaining_set_request p1 16 in
        p2\<lparr>rp_request := (rp_request p2)\<lparr>rq_addr := set_family (memset_0 a sizeof_sockaddr_in6) AF_INET6\<rparr>,
           rp_state := request_dstaddr\<rparr>
      else if c = socks_addr_type_domain then p1\<lparr>rp_state := request_dstaddr_fqdn\<rparr>
      else p1\<lparr>rp_state := request_error_unsupported_atype\<rparr>)"

text \<open>\<^verbatim>\<open>fdqn[p->n - 1]\<close>: for \<open>n = 0\<close> the index is \<open>- 1\<close>.\<close>

definition dstaddr_fqdn_request :: "u8 \<Rightarrow> request_parser \<Rightarrow> request_parser res" where
  "dstaddr_fqdn_request c p =
     (let p1 = remaining_set_request p c in
      if rp_n p1 = 0 then Inl OutOfBounds
      else bindr (poke_field (rq_addr (rp_request p1)) 0 sizeof_fdqn (unat (rp_n p1) - 1) 0) (\<lambda>a.
           Inr (p1\<lparr>rp_request := (rp_request p1)\<lparr>rq_addr := a\<rparr>, rp_state := request_dstaddr\<rparr>)))"

definition store_addr_byte :: "u8 \<Rightarrow> request_parser \<Rightarrow> request_parser res" where
  "store_addr_byte c p =
     (let t = rq_atyp (rp_request p); a = rq_addr (rp_request p); i = unat (rp_i p);
          stored = (\<lambda>a'. Inr (p\<lparr>rp_request := (rp_request p)\<lparr>rq_addr := a'\<rparr>, rp_i := rp_i p + 1\<rparr>)) in
      if t = socks_addr_type_ipv4 then bindr (poke_field a 4 4 i c) stored
      else if t = socks_addr_type_ipv6 then bindr (poke_field a 8 16 i c) stored
      else if t = socks_addr_type_domain then bindr (poke_field a 0 sizeof_fdqn i c) stored
      else Inr p)"

definition dstaddr_request :: "u8 \<Rightarrow> request_parser \<Rightarrow> request_parser res" where
  "dstaddr_request c p =
     bindr (store_addr_byte c p) (\<lambda>p1.
     if remaining_is_done_request p1
     then let p2 = remaining_set_request p1 2 in
          Inr (p2\<lparr>rp_request := (rp_request p2)\<lparr>rq_port := [0, 0]\<rparr>, rp_state := request_dstport\<rparr>)
     else Inr (p1\<lparr>rp_state := request_dstaddr\<rparr>))"

definition dstport_request :: "u8 \<Rightarrow> request_parser \<Rightarrow> request_parser res" where
  "dstport_request c p =
     bindr (poke_at (rq_port (rp_request p)) (unat (rp_i p)) c) (\<lambda>d.
     let p1 = p\<lparr>rp_request := (rp_request p)\<lparr>rq_port := d\<rparr>, rp_i := rp_i p + 1\<rparr> in
     Inr (p1\<lparr>rp_state := if remaining_is_done_request p1 then request_done else request_dstport\<rparr>))"

definition request_parser_feed :: "request_parser \<Rightarrow> u8 \<Rightarrow> request_parser res" where
  "request_parser_feed p c =
     (case rp_state p of
        request_version \<Rightarrow> Inr (p\<lparr>rp_state := version_request c\<rparr>)
      | request_cmd \<Rightarrow> Inr (cmd_request c p)
      | request_rvs \<Rightarrow> Inr (p\<lparr>rp_state := rsv_request\<rparr>)
      | request_atype \<Rightarrow> Inr (atype_request c p)
      | request_dstaddr_fqdn \<Rightarrow> dstaddr_fqdn_request c p
      | request_dstaddr \<Rightarrow> dstaddr_request c p
      | request_dstport \<Rightarrow> dstport_request c p
      | request_done \<Rightarrow> Inr p
      | request_error \<Rightarrow> Inr p
      | request_error_unsupported_version \<Rightarrow> Inr p
      | request_error_unsupported_atype \<Rightarrow> Inr p)"

definition request_zero :: request where
  "request_zero = \<lparr>rq_cmd = 0, rq_atyp = 0, rq_addr = replicate sizeof_socks_addr 0, rq_port = [0, 0]\<rparr>"

definition request_parser_init :: "request_parser \<Rightarrow> request_parser" where
  "request_parser_init p = p\<lparr>rp_state := request_version, rp_request := request_zero\<rparr>"

definition request_is_done :: "request_state \<Rightarrow> bool \<Rightarrow> bool \<times> bool" where
  "request_is_done st errored =
     (if st = request_error \<or> st = request_error_unsupported_version \<or>
         st = request_error_unsupported_atype then (True, True)
      else if st = request_done then (True, errored)
      else (False, errored))"

definition request_consume ::
  "buffer \<Rightarrow> request_parser \<Rightarrow> bool \<Rightarrow> (buffer \<times> request_parser \<times> bool) res" where
  "request_consume b p errored =
     consume_loop request_parser_feed (\<lambda>p. request_is_done (rp_state p)) b p errored False"

definition status_succeeded :: u8 where "status_succeeded = 0x00"
definition status_general_SOCKS_server_failure :: u8 where
  "status_general_SOCKS_server_failure = 0x01"
definition status_network_unreachable :: u8 where "status_network_unreachable = 0x03"
definition status_host_unreachable :: u8 where "status_host_unreachable = 0x04"
definition status_connection_refused :: u8 where "status_connection_refused = 0x05"
definition status_TTL_expired :: u8 where "status_TTL_expired = 0x06"
definition status_command_not_supported :: u8 where "status_command_not_supported = 0x07"
definition status_address_type_not_supported :: u8 where
  "status_address_type_not_supported = 0x08"

text \<open>The bytes of \<^verbatim>\<open>aux\<close>: the address as the reply has it.\<close>

definition marshal_addr :: "u8 \<Rightarrow> socks_addr \<Rightarrow> u8 list res" where
  "marshal_addr atyp addr =
     (if atyp = socks_addr_type_ipv4 then read_cells addr 4 4
      else if atyp = socks_addr_type_ipv6 then read_cells addr 8 16
      else if atyp = socks_addr_type_domain then
        bindr (c_strlen (take sizeof_fdqn addr)) (\<lambda>addr_size.
        bindr (read_cells addr 0 addr_size) (\<lambda>name. Inr (of_nat addr_size # name)))
      else Inr [])"

definition request_marshal ::
  "buffer \<Rightarrow> u8 \<Rightarrow> u8 \<Rightarrow> socks_addr \<Rightarrow> u8 list \<Rightarrow> (int \<times> buffer) res" where
  "request_marshal b status atyp addr dest_port =
     bindr (buffer_write_ptr b) (\<lambda>(n, buff).
     bindr (marshal_addr atyp addr) (\<lambda>aux.
     let addr_size = length aux; len = 6 + addr_size in
     if n < len then Inr (- 1, b)
     else bindr (buffer_poke b buff [0x05, status, 0x00, atyp]) (\<lambda>b1.
          bindr (buffer_poke b1 (buff + 4) aux) (\<lambda>b2.
          bindr (buffer_poke b2 (buff + 4 + addr_size) (take 2 dest_port)) (\<lambda>b3.
          bindr (buffer_write_adv b3 (int len)) (\<lambda>b4. Inr (int len, b4)))))))"

text \<open>The Linux values of the error numbers the function distinguishes.\<close>

definition ECONNREFUSED :: int where "ECONNREFUSED = 111"
definition EHOSTUNREACH :: int where "EHOSTUNREACH = 113"
definition ENETUNREACH :: int where "ENETUNREACH = 101"
definition ETIMEDOUT :: int where "ETIMEDOUT = 110"

definition errno_to_socks :: "int \<Rightarrow> u8" where
  "errno_to_socks e =
     (if e = 0 then status_succeeded
      else if e = ECONNREFUSED then status_connection_refused
      else if e = EHOSTUNREACH then status_host_unreachable
      else if e = ENETUNREACH then status_network_unreachable
      else if e = ETIMEDOUT then status_TTL_expired
      else status_general_SOCKS_server_failure)"

text \<open>
  No other code calls \<^verbatim>\<open>cmd_resolve\<close>. \<^verbatim>\<open>gethostbyname\<close> is the C library's: the kind and the bytes of the first
  address of a name. The pointers \<^verbatim>\<open>*originaddr\<close> and \<^verbatim>\<open>*originlen\<close> are assigned together or left alone
  (\<^const>\<open>None\<close>); the address is that of \<^verbatim>\<open>request->dest_addr\<close> (\<^const>\<open>True\<close>) or null. The case of a name falls
  through to that of an IPv4 address.
\<close>

definition resolve_ipv4 :: "request \<Rightarrow> (u8 \<times> request \<times> nat \<times> (bool \<times> nat) option) res" where
  "resolve_ipv4 r =
     bindr (blit (rq_addr r) 2 (rq_port r)) (\<lambda>a.
     Inr (status_general_SOCKS_server_failure, r\<lparr>rq_addr := a\<rparr>, AF_INET, Some (True, sizeof_sockaddr_in)))"

definition cmd_resolve ::
  "(u8 list \<Rightarrow> (nat \<times> u8 list) option) \<Rightarrow> request \<Rightarrow> (u8 \<times> request \<times> nat \<times> (bool \<times> nat) option) res" where
  "cmd_resolve gethostbyname r =
     (if rq_atyp r = socks_addr_type_domain then
        bindr (c_strlen (take sizeof_fdqn (rq_addr r))) (\<lambda>n.
        case gethostbyname (take n (rq_addr r)) of
          None \<Rightarrow> Inr (status_general_SOCKS_server_failure, r\<lparr>rq_addr := memset_0 (rq_addr r) sizeof_socks_addr\<rparr>,
                       AF_INET, Some (False, 0))
        | Some (h_addrtype, h_addr) \<Rightarrow>
            bindr (blit (set_family (rq_addr r) h_addrtype) 4 h_addr) (\<lambda>a. resolve_ipv4 (r\<lparr>rq_addr := a\<rparr>)))
      else if rq_atyp r = socks_addr_type_ipv4 then resolve_ipv4 r
      else if rq_atyp r = socks_addr_type_ipv6 then
        bindr (blit (rq_addr r) 2 (rq_port r)) (\<lambda>a.
        Inr (status_general_SOCKS_server_failure, r\<lparr>rq_addr := a\<rparr>, AF_INET6, Some (True, sizeof_sockaddr_in6)))
      else Inr (status_address_type_not_supported, r, AF_INET, None))"

section \<open>The parser as a byte parser\<close>

definition request_finished :: "request_parser \<Rightarrow> bool" where
  "request_finished p \<longleftrightarrow> rp_state p \<in> {request_done, request_error,
     request_error_unsupported_version, request_error_unsupported_atype}"

definition request_failed :: "request_parser \<Rightarrow> bool" where
  "request_failed p \<longleftrightarrow> rp_state p \<in> {request_error,
     request_error_unsupported_version, request_error_unsupported_atype}"

text \<open>Where the address bytes of a type go: the offset and the size of the member.\<close>

definition addr_region :: "u8 \<Rightarrow> (nat \<times> nat) option" where
  "addr_region t =
     (if t = socks_addr_type_ipv4 then Some (4, 4)
      else if t = socks_addr_type_ipv6 then Some (8, 16)
      else if t = socks_addr_type_domain then Some (0, 255) else None)"

text \<open>
  The memory keeps its size; inside the address the index is below the announced length, which
  fits the member; inside the port the index is 0 or 1.
\<close>

definition request_inv :: "request_parser \<Rightarrow> bool" where
  "request_inv p \<longleftrightarrow>
     length (rq_addr (rp_request p)) = sizeof_socks_addr \<and> length (rq_port (rp_request p)) = 2 \<and>
     (rp_state p = request_dstaddr_fqdn \<longrightarrow> rq_atyp (rp_request p) = socks_addr_type_domain) \<and>
     (rp_state p = request_dstaddr \<longrightarrow> rp_i p < rp_n p \<and>
        (\<exists>off n. addr_region (rq_atyp (rp_request p)) = Some (off, n) \<and> unat (rp_n p) \<le> n)) \<and>
     (rp_state p = request_dstport \<longrightarrow> rp_n p = 2 \<and> rp_i p < 2)"

lemma addr_region_bound:
  "addr_region t = Some (off, n) \<Longrightarrow> off + n < sizeof_socks_addr"
  by (auto simp: addr_region_def sizeof_defs split: if_splits)

lemma store_addr_byte_region:
  assumes "addr_region (rq_atyp (rp_request p)) = Some (off, n)"
    "length (rq_addr (rp_request p)) = sizeof_socks_addr" "unat (rp_i p) < n"
  shows "store_addr_byte c p =
    Inr (p\<lparr>rp_request := (rp_request p)\<lparr>rq_addr := (rq_addr (rp_request p))[off + unat (rp_i p) := c]\<rparr>,
           rp_i := rp_i p + 1\<rparr>)"
  using assms addr_region_bound [OF assms(1)]
  by (auto simp: store_addr_byte_def addr_region_def poke_field_def sizeof_defs socks_atyp_defs
      split: if_splits)

lemma dstaddr_step:
  assumes "rp_state p = request_dstaddr" "addr_region (rq_atyp (rp_request p)) = Some (off, m)"
    "length (rq_addr (rp_request p)) = sizeof_socks_addr"
    "Suc (unat (rp_i p)) \<le> unat (rp_n p)" "unat (rp_n p) \<le> m"
  shows "request_parser_feed p c =
    (let r = (rp_request p)\<lparr>rq_addr := (rq_addr (rp_request p))[off + unat (rp_i p) := c]\<rparr> in
     if Suc (unat (rp_i p)) = unat (rp_n p)
     then Inr (p\<lparr>rp_request := r\<lparr>rq_port := [0, 0]\<rparr>, rp_state := request_dstport, rp_n := 2, rp_i := 0\<rparr>)
     else Inr (p\<lparr>rp_request := r, rp_i := rp_i p + 1\<rparr>))"
  using assms Suc_unat_le_255 [OF assms(4)]
  by (cases p) (auto simp: request_parser_feed_def dstaddr_request_def store_addr_byte_region
      remaining_is_done_request_def remaining_set_request_def Let_def u8_le_inc)

text \<open>The address bytes fill the member of the union from index \<open>i\<close> on.\<close>

abbreviation request_feed_all ::
  "request_parser \<Rightarrow> u8 list \<Rightarrow> (request_parser \<times> u8 list) res" where
  "request_feed_all \<equiv> feed_all request_parser_feed request_finished"

lemma request_feed_addr:
  "rp_state p = request_dstaddr \<Longrightarrow> addr_region (rq_atyp (rp_request p)) = Some (off, m) \<Longrightarrow>
   length (rq_addr (rp_request p)) = sizeof_socks_addr \<Longrightarrow>
   unat (rp_i p) + length xs = unat (rp_n p) \<Longrightarrow> xs \<noteq> [] \<Longrightarrow> unat (rp_n p) \<le> m \<Longrightarrow>
   request_feed_all p (xs @ rest) =
     request_feed_all (p\<lparr>rp_request := (rp_request p)\<lparr>
         rq_addr := take (off + unat (rp_i p)) (rq_addr (rp_request p)) @ xs @
                    drop (off + unat (rp_n p)) (rq_addr (rp_request p)),
         rq_port := [0, 0]\<rparr>, rp_state := request_dstport, rp_n := 2, rp_i := 0\<rparr>) rest"
proof (induction xs arbitrary: p)
  case (Cons c xs)
  let ?a = "rq_addr (rp_request p)" and ?i = "unat (rp_i p)" and ?n = "unat (rp_n p)"
  have bd: "off + ?n < length ?a"
    using Cons.prems(3,6) addr_region_bound [OF Cons.prems(2)] by simp
  have step: "Suc ?i \<le> ?n" using Cons.prems(4) by simp
  note feed = dstaddr_step [OF Cons.prems(1-3) step Cons.prems(6), of c]
  have snoc: "take (Suc (off + ?i)) (?a[off + ?i := c]) = take (off + ?i) ?a @ [c]"
    using bd step by (simp add: take_list_update_snoc)
  show ?case
  proof (cases "xs = []")
    case True
    with Cons.prems have n: "?n = Suc ?i" by simp
    then have "?a[off + ?i := c] = take (off + ?i) ?a @ [c] @ drop (off + ?n) ?a"
      using bd by (simp add: upd_conv_take_nth_drop)
    then show ?thesis using feed True n by (simp add: request_finished_def)
  next
    case False
    let ?p1 = "p\<lparr>rp_request := (rp_request p)\<lparr>rq_addr := ?a[off + ?i := c]\<rparr>, rp_i := rp_i p + 1\<rparr>"
    have lt: "Suc ?i < ?n" using Cons.prems(4) False by (cases xs) auto
    then have i1: "unat (rp_i p + 1) = Suc ?i" using Suc_unat_le_255 [OF step] by (simp add: unat_inc_u8)
    have "request_feed_all p ((c # xs) @ rest) = request_feed_all ?p1 (xs @ rest)"
      using feed lt Cons.prems(1) by (simp add: request_finished_def Let_def)
    also have "\<dots> = request_feed_all (p\<lparr>rp_request := (rp_request p)\<lparr>
         rq_addr := take (off + ?i) ?a @ (c # xs) @ drop (off + ?n) ?a,
         rq_port := [0, 0]\<rparr>, rp_state := request_dstport, rp_n := 2, rp_i := 0\<rparr>) rest"
      using Cons.IH [of ?p1] Cons.prems False i1 lt snoc by simp
    finally show ?thesis .
  qed
qed simp

lemma request_feed_port:
  assumes "rp_state p = request_dstport" "rp_n p = 2" "rp_i p = 0" "rq_port (rp_request p) = [0, 0]"
  shows "request_feed_all p (hi # lo # rest) =
    Inr (p\<lparr>rp_request := (rp_request p)\<lparr>rq_port := [hi, lo]\<rparr>, rp_i := 2, rp_state := request_done\<rparr>, rest)"
  using assms
  by (simp add: request_parser_feed_def dstport_request_def remaining_is_done_request_def
      request_finished_def word_le_nat_alt)

lemma length_set_family [simp]: "length (set_family d af) = length d"
  by (simp add: set_family_def)

lemma length_memset_0 [simp]: "n \<le> length d \<Longrightarrow> length (memset_0 d n) = length d"
  by (simp add: memset_0_def)

lemma u8_less_2_inc: "(i :: u8) < 2 \<Longrightarrow> \<not> 2 \<le> i + 1 \<Longrightarrow> i + 1 < 2"
  by (simp add: linorder_not_le)

lemma request_inv_dstaddr:
  assumes "request_inv p" "rp_state p = request_dstaddr" "request_parser_feed p c = Inr p'"
  shows "request_inv p'"
proof -
  from assms(1,2) obtain off m where r: "addr_region (rq_atyp (rp_request p)) = Some (off, m)"
    "unat (rp_n p) \<le> m" "length (rq_addr (rp_request p)) = sizeof_socks_addr" "rp_i p < rp_n p"
    by (auto simp: request_inv_def)
  then have le: "Suc (unat (rp_i p)) \<le> unat (rp_n p)" by (simp add: word_less_nat_alt Suc_le_eq)
  note step = dstaddr_step [OF assms(2) r(1,3) le r(2), of c]
  show ?thesis
  proof (cases "Suc (unat (rp_i p)) = unat (rp_n p)")
    case True
    with step assms(3) have "p' = p\<lparr>rp_request := (rp_request p)\<lparr>rq_addr :=
        (rq_addr (rp_request p))[off + unat (rp_i p) := c], rq_port := [0, 0]\<rparr>,
        rp_state := request_dstport, rp_n := 2, rp_i := 0\<rparr>" by (simp add: Let_def)
    with r(3) show ?thesis by (simp add: request_inv_def word_less_nat_alt)
  next
    case False
    with le have "rp_i p + 1 < rp_n p"
      using Suc_unat_le_255 [OF le] by (simp add: word_less_nat_alt unat_inc_u8)
    moreover from False step assms(3) have "p' = p\<lparr>rp_request := (rp_request p)\<lparr>rq_addr :=
        (rq_addr (rp_request p))[off + unat (rp_i p) := c]\<rparr>, rp_i := rp_i p + 1\<rparr>"
      by (simp add: Let_def)
    ultimately show ?thesis using r assms(1,2) by (simp add: request_inv_def)
  qed
qed

lemma request_inv_feed:
  assumes "request_inv p" "request_parser_feed p c = Inr p'"
  shows "request_inv p'"
proof (cases "rp_state p = request_dstaddr")
  case True
  with assms show ?thesis by (rule_tac request_inv_dstaddr)
next
  case False
  have d4: "(0 :: u8) < 4" "(0 :: u8) < 16" by (simp_all add: word_less_nat_alt)
  from False assms show ?thesis
    by (cases "rp_state p")
      (auto simp: request_inv_def request_parser_feed_def version_request_def cmd_request_def
         rsv_request_def atype_request_def dstaddr_fqdn_request_def dstport_request_def
         remaining_set_request_def remaining_is_done_request_def res_simps poke_field_def
         addr_region_def socks_atyp_defs sizeof_defs Let_def word_gt_0 d4 u8_less_2_inc
         split: if_splits)
qed

interpretation req: byte_parser request_parser_feed "\<lambda>p. request_is_done (rp_state p)"
  request_finished request_failed request_inv
proof unfold_locales
  fix p e
  show "request_is_done (rp_state p) e = (request_finished p, e \<or> request_failed p)"
    by (cases "rp_state p") (auto simp: request_is_done_def request_finished_def request_failed_def)
  show "request_failed p \<Longrightarrow> request_finished p"
    by (auto simp: request_failed_def request_finished_def)
  show "request_inv p \<Longrightarrow> \<not> request_finished p \<Longrightarrow> request_parser_feed p c = Inr p' \<Longrightarrow> request_inv p'"
    for c p' by (rule request_inv_feed)
qed

section \<open>The message\<close>

datatype dest = IPv4 "u8 list" | IPv6 "u8 list" | Domain "u8 list"

fun dest_ok :: "dest \<Rightarrow> bool" where
  "dest_ok (IPv4 a) = (length a = 4)"
| "dest_ok (IPv6 a) = (length a = 16)"
| "dest_ok (Domain nm) = (0 < length nm \<and> length nm \<le> 255)"

fun dest_atyp :: "dest \<Rightarrow> u8" where
  "dest_atyp (IPv4 a) = socks_addr_type_ipv4"
| "dest_atyp (IPv6 a) = socks_addr_type_ipv6"
| "dest_atyp (Domain nm) = socks_addr_type_domain"

text \<open>The address as RFC 1928 encodes it after the address type.\<close>

fun dest_bytes :: "dest \<Rightarrow> u8 list" where
  "dest_bytes (IPv4 a) = a"
| "dest_bytes (IPv6 a) = a"
| "dest_bytes (Domain nm) = of_nat (length nm) # nm"

text \<open>The memory of the union that holds it.\<close>

fun dest_block :: "dest \<Rightarrow> socks_addr" where
  "dest_block (IPv4 a) = [2, 0, 0, 0] @ a @ replicate 248 0"
| "dest_block (IPv6 a) = [10, 0, 0, 0, 0, 0, 0, 0] @ a @ replicate 232 0"
| "dest_block (Domain nm) = nm @ replicate (256 - length nm) 0"

definition request_message :: "u8 \<Rightarrow> u8 \<Rightarrow> dest \<Rightarrow> u8 \<Rightarrow> u8 \<Rightarrow> u8 list" where
  "request_message cmd rsv d hi lo = [0x05, cmd, rsv, dest_atyp d] @ dest_bytes d @ [hi, lo]"

lemma replicate_256: "replicate 256 0 = 0 # 0 # replicate 254 (0 :: u8)"
  by (simp flip: replicate_Suc)

lemma family_block: "set_family (memset_0 (replicate 256 0) n) af = of_nat af # 0 # replicate 254 0"
  if "n \<le> 256"
proof -
  from that have "memset_0 (replicate 256 0) n = replicate 256 (0 :: u8)"
    by (simp add: memset_0_def flip: replicate_add)
  then show ?thesis by (simp add: set_family_def replicate_256)
qed

lemma request_feed_header:
  "request_feed_all (request_parser_init p) ([0x05, cmd, rsv, t] @ xs) =
     bindr (Inr (atype_request t \<lparr>rp_request = request_zero\<lparr>rq_cmd := cmd\<rparr>,
         rp_state = request_atype, rp_n = rp_n p, rp_i = rp_i p\<rparr>)) (\<lambda>q.
     if request_finished q then Inr (q, xs) else request_feed_all q xs)"
  by (cases p) (simp add: request_parser_init_def request_parser_feed_def version_request_def
      cmd_request_def rsv_request_def request_finished_def)

abbreviation dst_parser :: "u8 \<Rightarrow> u8 \<Rightarrow> socks_addr \<Rightarrow> request_state \<Rightarrow> u8 \<Rightarrow> request_parser" where
  "dst_parser cmd t a st n \<equiv> \<lparr>rp_request = \<lparr>rq_cmd = cmd, rq_atyp = t, rq_addr = a, rq_port = [0, 0]\<rparr>,
     rp_state = st, rp_n = n, rp_i = 0\<rparr>"

lemmas request_header_simps = request_feed_header atype_request_def request_zero_def socks_atyp_defs
  sizeof_defs family_block remaining_set_request_def request_finished_def AF_INET_def AF_INET6_def

lemma replicate_2_6: "replicate 2 x = [x, x]" "replicate 6 x = [x, x, x, x, x, x]"
  by (simp_all add: numeral_eq_Suc)

lemma replicate_update [simp]: "(replicate n x)[i := x] = replicate n x"
  by (induction n arbitrary: i) (auto split: nat.splits)

lemma request_feed_ipv4:
  assumes "length a = 4"
  shows "request_feed_all (request_parser_init p) ([0x05, cmd, rsv, socks_addr_type_ipv4] @ a @ xs) =
    request_feed_all (dst_parser cmd socks_addr_type_ipv4 (dest_block (IPv4 a)) request_dstport 2) xs"
proof -
  let ?p = "dst_parser cmd socks_addr_type_ipv4 (2 # 0 # replicate 254 0) request_dstaddr 4"
  have "request_feed_all (request_parser_init p) ([0x05, cmd, rsv, socks_addr_type_ipv4] @ a @ xs) =
      request_feed_all ?p (a @ xs)"
    unfolding request_feed_header by (simp add: request_header_simps)
  also have "\<dots> = request_feed_all (dst_parser cmd socks_addr_type_ipv4 (dest_block (IPv4 a)) request_dstport 2) xs"
    using assms request_feed_addr [of ?p 4 4 a xs]
    by (simp add: addr_region_def sizeof_defs replicate_2_6 length_0_conv [symmetric] del: length_0_conv)
  finally show ?thesis .
qed

lemma request_feed_ipv6:
  assumes "length a = 16"
  shows "request_feed_all (request_parser_init p) ([0x05, cmd, rsv, socks_addr_type_ipv6] @ a @ xs) =
    request_feed_all (dst_parser cmd socks_addr_type_ipv6 (dest_block (IPv6 a)) request_dstport 2) xs"
proof -
  let ?p = "dst_parser cmd socks_addr_type_ipv6 (10 # 0 # replicate 254 0) request_dstaddr 16"
  have "request_feed_all (request_parser_init p) ([0x05, cmd, rsv, socks_addr_type_ipv6] @ a @ xs) =
      request_feed_all ?p (a @ xs)"
    unfolding request_feed_header by (simp add: request_header_simps)
  also have "\<dots> = request_feed_all (dst_parser cmd socks_addr_type_ipv6 (dest_block (IPv6 a)) request_dstport 2) xs"
    using assms request_feed_addr [of ?p 8 16 a xs]
    by (simp add: addr_region_def socks_atyp_defs sizeof_defs replicate_2_6
        length_0_conv [symmetric] del: length_0_conv)
  finally show ?thesis .
qed

lemma request_feed_domain:
  assumes "0 < length nm" "length nm \<le> 255"
  shows "request_feed_all (request_parser_init p)
      ([0x05, cmd, rsv, socks_addr_type_domain] @ (of_nat (length nm) # nm) @ xs) =
    request_feed_all (dst_parser cmd socks_addr_type_domain (dest_block (Domain nm)) request_dstport 2) xs"
proof -
  let ?p = "dst_parser cmd socks_addr_type_domain (replicate 256 0) request_dstaddr (of_nat (length nm))"
  have nz: "(of_nat (length nm) :: u8) \<noteq> 0"
    using assms by (intro of_nat_u8_nz) auto
  have lt: "length nm - Suc 0 < 255" using assms by linarith
  have "request_feed_all (request_parser_init p)
      ([0x05, cmd, rsv, socks_addr_type_domain] @ (of_nat (length nm) # nm) @ xs) =
      request_feed_all ?p (nm @ xs)"
    unfolding request_feed_header using nz assms lt
    by (simp add: request_header_simps request_parser_feed_def dstaddr_fqdn_request_def poke_field_def)
  also have "\<dots> = request_feed_all (dst_parser cmd socks_addr_type_domain (dest_block (Domain nm)) request_dstport 2) xs"
    using assms request_feed_addr [of ?p 0 255 nm xs]
    by (auto simp: addr_region_def socks_atyp_defs sizeof_defs)
  finally show ?thesis .
qed

lemma request_feed_message:
  assumes "dest_ok d"
  shows "\<exists>n i. request_feed_all (request_parser_init p) (request_message cmd rsv d hi lo @ rest) =
    Inr (\<lparr>rp_request = \<lparr>rq_cmd = cmd, rq_atyp = dest_atyp d, rq_addr = dest_block d, rq_port = [hi, lo]\<rparr>,
          rp_state = request_done, rp_n = n, rp_i = i\<rparr>, rest)"
proof -
  have "request_feed_all (request_parser_init p) (request_message cmd rsv d hi lo @ rest) =
      request_feed_all (dst_parser cmd (dest_atyp d) (dest_block d) request_dstport 2) ([hi, lo] @ rest)"
    using assms
    by (cases d) (simp_all add: request_message_def del: feed_all.simps dest_block.simps append_Cons
        add: request_feed_ipv4 request_feed_ipv6 request_feed_domain [simplified])
  then show ?thesis by (simp add: request_feed_port del: feed_all.simps)
qed

lemma request_init_not_finished [simp]: "\<not> request_finished (request_parser_init p)"
  by (simp add: request_finished_def request_parser_init_def)

lemma request_feed_empty_domain:
  "request_feed_all (request_parser_init p) ([0x05, cmd, rsv, socks_addr_type_domain] @ 0 # xs)
     = Inl OutOfBounds"
  unfolding request_feed_header
  by (simp add: request_header_simps request_parser_feed_def dstaddr_fqdn_request_def)

section \<open>The reply\<close>

text \<open>
  The domain names whose memory holds a NUL-terminated string: no NUL inside and room for one
  after the name.
\<close>

fun dest_printable :: "dest \<Rightarrow> bool" where
  "dest_printable (Domain nm) = (0 \<notin> set nm \<and> length nm \<le> 254)"
| "dest_printable _ = True"

lemma marshal_addr_dest:
  assumes "dest_ok d" "dest_printable d"
  shows "marshal_addr (dest_atyp d) (dest_block d) = Inr (dest_bytes d)"
proof (cases d)
  case (Domain nm)
  with assms have l: "0 < length nm" "length nm \<le> 254" "0 \<notin> set nm" by auto
  then have "256 - length nm = Suc (255 - length nm)" by simp
  moreover obtain k where "255 - length nm = Suc k"
    using l by (metis Suc_diff_le diff_Suc_Suc eval_nat_numeral(3) numeral_eq_Suc pred_numeral_simps(2)
        diff_is_0_eq not_less_eq_eq Suc_pred' neq0_conv numeral_less_iff semiring_norm(28) le_trans)
  ultimately show ?thesis
    using l Domain
    by (simp add: marshal_addr_def socks_atyp_defs sizeof_fdqn_def terminated_def)
qed (use assms in \<open>auto simp: marshal_addr_def socks_atyp_defs\<close>)

lemma request_marshal_wf:
  assumes "wf_buffer b" "marshal_addr t a = Inr aux" "length port = 2" "6 + length aux \<le> buf_room b"
  obtains b' where "request_marshal b st t a port = Inr (int (6 + length aux), b')" "wf_buffer b'"
    "buf_content b' = buf_content b @ [0x05, st, 0, t] @ aux @ port" "b_limit b' = b_limit b"
proof -
  let ?m = "[0x05, st, 0, t] @ aux @ port"
  obtain b1 b2 where b: "buffer_poke b (b_write b) ?m = Inr b1"
    "buffer_write_adv b1 (int (length ?m)) = Inr b2" "wf_buffer b2"
    "buf_content b2 = buf_content b @ ?m" "b_limit b2 = b_limit b"
    using assms by (rule_tac poke_adv_wf [of b ?m]) auto
  have "request_marshal b st t a port =
      bindr (bindr (bindr (buffer_poke b (b_write b) [0x05, st, 0, t])
        (\<lambda>b1. buffer_poke b1 (b_write b + length [0x05, st, 0, t]) aux))
        (\<lambda>b2. buffer_poke b2 (b_write b + length ([0x05, st, 0, t] @ aux)) port))
        (\<lambda>b3. bindr (buffer_write_adv b3 (int (6 + length aux))) (\<lambda>b4. Inr (int (6 + length aux), b4)))"
    using assms
    by (simp add: request_marshal_def write_ptr_wf bindr_assoc add.assoc Let_def numeral_eq_Suc)
  also have "\<dots> = Inr (int (6 + length aux), b2)"
    using b assms(3) by (simp only: buffer_poke_append append_assoc) simp
  finally show thesis using that b by simp
qed

lemma request_marshal_full:
  "wf_buffer b \<Longrightarrow> marshal_addr t a = Inr aux \<Longrightarrow> buf_room b < 6 + length aux \<Longrightarrow>
     request_marshal b st t a port = Inr (- 1, b)"
  by (simp add: request_marshal_def write_ptr_wf)

text \<open>One call of \<^const>\<open>request_consume\<close> per read, until the parser is done.\<close>

fun request_reads :: "request_parser \<Rightarrow> bool \<Rightarrow> buffer list \<Rightarrow> (request_parser \<times> bool \<times> u8 list) res" where
  "request_reads p e [] = Inr (p, e, [])"
| "request_reads p e (b # bs) =
     bindr (request_consume b p e) (\<lambda>(b', p', e').
     if fst (request_is_done (rp_state p') False) then Inr (p', e', buf_content b' @ concat (map buf_content bs))
     else request_reads p' e' bs)"

lemma request_reads_eq: "request_reads p e bs = consume_reads request_parser_feed (\<lambda>p. request_is_done (rp_state p)) p e bs"
  by (induction bs arbitrary: p e) (simp_all add: request_consume_def cong: if_cong)

section \<open>Properties\<close>

text \<open>
  C7: parsing a request gives back its command, its destination and its port. A buffer
  that starts with a request of RFC 1928, for an IPv4 address, an IPv6 address or a domain name of
  1 to 255 bytes, is parsed to \<^const>\<open>request_done\<close> without error; the address is in its member of
  the union with the right family, the port in network order, and exactly the bytes after the
  request are left.
\<close>

theorem request_message_parsed:
  assumes "wf_buffer b" "buf_content b = request_message cmd rsv d hi lo @ rest" "dest_ok d"
  shows "\<exists>b' p'. request_consume b (request_parser_init p) e = Inr (b', p', e) \<and>
    rp_state p' = request_done \<and> wf_buffer b' \<and> buf_content b' = rest \<and>
    rp_request p' = \<lparr>rq_cmd = cmd, rq_atyp = dest_atyp d, rq_addr = dest_block d, rq_port = [hi, lo]\<rparr>"
proof -
  obtain n i where "request_feed_all (request_parser_init p) (buf_content b) =
    Inr (\<lparr>rp_request = \<lparr>rq_cmd = cmd, rq_atyp = dest_atyp d, rq_addr = dest_block d, rq_port = [hi, lo]\<rparr>,
          rp_state = request_done, rp_n = n, rp_i = i\<rparr>, rest)"
    using request_feed_message [OF assms(3)] assms(2) by metis
  from req.consume_loop_Inr [OF assms(1) request_init_not_finished this, of e] show ?thesis
    by (auto simp: request_consume_def request_failed_def)
qed

theorem request_message_parsed_witness:
  "\<exists>b' p'. request_consume \<lparr>b_data = [5, 1, 0, 1, 10, 0, 0, 7, 0, 80, 9], b_limit = 11, b_read = 0, b_write = 11\<rparr>
      (request_parser_init \<lparr>rp_request = request_zero, rp_state = request_error, rp_n = 3, rp_i = 3\<rparr>) False
    = Inr (b', p', False) \<and> rp_state p' = request_done \<and> rq_port (rp_request p') = [0, 80]"
proof -
  let ?b = "\<lparr>b_data = [5, 1, 0, 1, 10, 0, 0, 7, 0, 80, 9], b_limit = 11, b_read = 0, b_write = 11\<rparr>"
  have 1: "wf_buffer ?b" by (simp add: wf_buffer_def)
  have 2: "buf_content ?b = request_message 1 0 (IPv4 [10, 0, 0, 7]) 0 80 @ [9]"
    by (simp add: buf_content_def request_message_def socks_atyp_defs)
  show ?thesis
    using request_message_parsed [OF 1 2, of "\<lparr>rp_request = request_zero, rp_state = request_error, rp_n = 3, rp_i = 3\<rparr>" False]
    by auto
qed

text \<open>
  C25: the reply echoes the destination of the request. For the address the parser stored,
  \<^const>\<open>request_marshal\<close> appends the version, the status, a zero byte and then the address type,
  address and port exactly as the request had them; when the output buffer has not enough room it
  returns \<open>- 1\<close> and leaves the buffer as it was.
\<close>

theorem request_reply_echoes:
  assumes "wf_buffer b" "dest_ok d" "dest_printable d"
  shows "\<exists>n b'. request_marshal b st (dest_atyp d) (dest_block d) [hi, lo] = Inr (n, b') \<and> wf_buffer b' \<and>
    (if 6 + length (dest_bytes d) \<le> buf_room b
     then n = int (6 + length (dest_bytes d)) \<and>
       buf_content b' = buf_content b @ [0x05, st, 0x00] @ drop 3 (request_message cmd rsv d hi lo)
     else n = - 1 \<and> b' = b)"
proof (cases "6 + length (dest_bytes d) \<le> buf_room b")
  case True
  from request_marshal_wf [OF assms(1) marshal_addr_dest [OF assms(2,3)] _ True, of "[hi, lo]" st]
  show ?thesis using True by (auto simp: request_message_def)
next
  case False
  with request_marshal_full [OF assms(1) marshal_addr_dest [OF assms(2,3)]] assms(1)
  show ?thesis by simp
qed

theorem request_reply_echoes_witness:
  "\<exists>n b'. request_marshal \<lparr>b_data = replicate 100 0, b_limit = 100, b_read = 0, b_write = 0\<rparr> 0 3
      ([119, 46, 97] @ replicate 253 0) [1, 187] = Inr (n, b') \<and> n = 10 \<and>
    buf_content b' = [5, 0, 0, 3, 3, 119, 46, 97, 1, 187]"
proof -
  let ?b = "\<lparr>b_data = replicate 100 0, b_limit = 100, b_read = 0, b_write = 0\<rparr>"
  have 1: "wf_buffer ?b" by (simp add: wf_buffer_def)
  have "dest_ok (Domain [119, 46, 97])" "dest_printable (Domain [119, 46, 97])" by simp_all
  from request_reply_echoes [OF 1 this, of 0 1 187 1 0] show ?thesis
    by (auto simp: buf_room_def buf_content_def request_message_def socks_atyp_defs)
qed

lemma resolved_block:
  assumes "length b = 256" "length a = 4" "rq_port r = [hi, lo]"
  shows "bindr (blit (set_family b AF_INET) 4 a) (\<lambda>x. resolve_ipv4 (r\<lparr>rq_addr := x\<rparr>)) =
    Inr (status_general_SOCKS_server_failure, r\<lparr>rq_addr := [2, 0, hi, lo] @ a @ drop 8 b\<rparr>, AF_INET, Some (True, 16))"
proof -
  define t where "t = take 4 b"
  have cs: "b = t @ drop 4 b" "length (drop 4 b) = 252" "length t = Suc (Suc (Suc (Suc 0)))"
    using assms(1) by (simp_all add: t_def)
  then obtain c0 c1 c2 c3 where "t = [c0, c1, c2, c3]" by (auto simp only: length_Suc_conv length_0_conv)
  with cs obtain cs where "b = c0 # c1 # c2 # c3 # cs" "length cs = 252" by (metis append_Cons append_Nil)
  with assms(2,3) show ?thesis by (simp add: resolve_ipv4_def set_family_def AF_INET_def sizeof_defs)
qed

text \<open>
  C28: \<^const>\<open>cmd_resolve\<close> turns a parsed request into the address to connect to. An IP address gets the port of the
  request in its structure; a name is looked up, and with an IPv4 address found becomes exactly the
  structure a request for that address would have had; a name that is not found gives no address and
  clears the union. The status is that of a general failure in every case, also when there is an address.
\<close>

theorem cmd_resolve_address:
  assumes "dest_ok d" "dest_printable d" "\<And>nm h a. gethostbyname nm = Some (h, a) \<Longrightarrow> h = AF_INET \<and> length a = 4"
  shows "\<exists>r dom out. cmd_resolve gethostbyname \<lparr>rq_cmd = cmd, rq_atyp = dest_atyp d, rq_addr = dest_block d, rq_port = [hi, lo]\<rparr> =
      Inr (status_general_SOCKS_server_failure, r, dom, out) \<and>
    (case d of
       IPv4 a \<Rightarrow> dom = AF_INET \<and> out = Some (True, 16) \<and> take 8 (rq_addr r) = [2, 0, hi, lo] @ a
     | IPv6 a \<Rightarrow> dom = AF_INET6 \<and> out = Some (True, 28) \<and> take 24 (rq_addr r) = [10, 0, hi, lo, 0, 0, 0, 0] @ a
     | Domain nm \<Rightarrow> dom = AF_INET \<and>
         (case gethostbyname nm of
            Some (_, a) \<Rightarrow> out = Some (True, 16) \<and> take 8 (rq_addr r) = [2, 0, hi, lo] @ a
          | None \<Rightarrow> out = Some (False, 0) \<and> rq_addr r = replicate 256 0))"
proof (cases d)
  case (IPv4 a)
  then show ?thesis using assms(1) by (simp add: cmd_resolve_def resolve_ipv4_def socks_atyp_defs sizeof_defs)
next
  case (IPv6 a)
  then show ?thesis using assms(1) by (simp add: cmd_resolve_def resolve_ipv4_def socks_atyp_defs sizeof_defs)
next
  case (Domain nm)
  then have nm: "0 < length nm" "length nm < 255" "0 \<notin> set nm" using assms(1,2) by auto
  then have blk: "take 255 (dest_block d) = nm @ 0 # replicate (254 - length nm) 0" "take (length nm) (dest_block d) = nm"
    "length (dest_block d) = 256"
    using Domain by (simp_all add: Suc_diff_le flip: replicate_Suc)
  have len: "c_strlen (take 255 (dest_block d)) = Inr (length nm)" unfolding blk(1) using nm by (simp add: terminated_def)
  show ?thesis
  proof (cases "gethostbyname nm")
    case None
    with Domain len blk(2,3) show ?thesis
      by (simp add: cmd_resolve_def socks_atyp_defs sizeof_defs memset_0_def del: dest_block.simps)
  next
    case (Some ha)
    then obtain a where a: "gethostbyname nm = Some (AF_INET, a)" "length a = 4" using assms(3) by (cases ha) auto
    have "dest_atyp d = 3" using Domain by (simp add: socks_atyp_defs)
    then have run: "cmd_resolve gethostbyname \<lparr>rq_cmd = cmd, rq_atyp = dest_atyp d, rq_addr = dest_block d, rq_port = [hi, lo]\<rparr> =
        bindr (blit (set_family (dest_block d) AF_INET) 4 a) (\<lambda>x. resolve_ipv4
          (\<lparr>rq_cmd = cmd, rq_atyp = 3, rq_addr = dest_block d, rq_port = [hi, lo]\<rparr>\<lparr>rq_addr := x\<rparr>))"
      using len a(1) blk(2) by (simp add: cmd_resolve_def socks_atyp_defs sizeof_fdqn_def)
    show ?thesis
      unfolding run by (subst resolved_block [OF blk(3) a(2)]) (use a Domain in simp_all)
  qed
qed

theorem cmd_resolve_address_witness:
  "\<exists>r dom. cmd_resolve (\<lambda>nm. if nm = [119, 46, 97] then Some (AF_INET, [10, 0, 0, 7]) else None)
      \<lparr>rq_cmd = 1, rq_atyp = 3, rq_addr = [119, 46, 97] @ replicate 253 0, rq_port = [1, 187]\<rparr> =
      Inr (status_general_SOCKS_server_failure, r, dom, Some (True, 16)) \<and>
    take 8 (rq_addr r) = [2, 0, 1, 187, 10, 0, 0, 7]"
proof -
  let ?g = "\<lambda>nm :: u8 list. if nm = [119, 46, 97] then Some (AF_INET, [10, 0, 0, 7 :: u8]) else None"
  have "dest_ok (Domain [119, 46, 97])" "dest_printable (Domain [119, 46, 97])" by simp_all
  moreover have "h = AF_INET \<and> length a = 4" if "?g nm = Some (h, a)" for nm h a using that by (auto split: if_splits)
  ultimately show ?thesis using cmd_resolve_address [of "Domain [119, 46, 97]" ?g 1 1 187] by (auto simp: socks_atyp_defs)
qed

text \<open>
  A request with an empty domain name makes the parser store a NUL before the start of
  the array \<^verbatim>\<open>fdqn\<close> (index \<open>- 1\<close>), whatever follows.
\<close>

theorem request_empty_domain_out_of_bounds:
  assumes "wf_buffer b" "buf_content b = [0x05, cmd, rsv, socks_addr_type_domain] @ 0 # rest"
  shows "request_consume b (request_parser_init p) e = Inl OutOfBounds"
  using req.consume_loop_Inl [OF assms(1) request_init_not_finished] assms(2) request_feed_empty_domain
  by (simp add: request_consume_def)

theorem request_empty_domain_out_of_bounds_witness:
  "request_consume \<lparr>b_data = [5, 1, 0, 3, 0], b_limit = 5, b_read = 0, b_write = 5\<rparr>
     (request_parser_init \<lparr>rp_request = request_zero, rp_state = request_version, rp_n = 0, rp_i = 0\<rparr>) False
   = Inl OutOfBounds"
  by (rule request_empty_domain_out_of_bounds [where cmd = 1 and rsv = 0 and rest = "[]"])
    (simp_all add: wf_buffer_def buf_content_def socks_atyp_defs)

text \<open>
  C24: a request is understood however the network cuts it. For every sequence of reads, of any number and with any
  boundaries, whose bytes together start with a request of RFC 1928 (an IPv4 address, an IPv6 address or a domain name of 1
  to 255 bytes): calling \<^const>\<open>request_consume\<close> once per read, until the parser is done, ends in \<^const>\<open>request_done\<close> without
  error, with the command, the address in its member of the union and the port of the request, and with exactly the bytes
  after the request not consumed.
\<close>

theorem request_segmentation:
  assumes "\<forall>b \<in> set reads. wf_buffer b" "concat (map buf_content reads) = request_message cmd rsv d hi lo @ rest" "dest_ok d"
  shows "\<exists>p'. request_reads (request_parser_init p) e reads = Inr (p', e, rest) \<and> rp_state p' = request_done \<and>
    rp_request p' = \<lparr>rq_cmd = cmd, rq_atyp = dest_atyp d, rq_addr = dest_block d, rq_port = [hi, lo]\<rparr>"
proof -
  obtain n i where "request_feed_all (request_parser_init p) (concat (map buf_content reads)) =
    Inr (\<lparr>rp_request = \<lparr>rq_cmd = cmd, rq_atyp = dest_atyp d, rq_addr = dest_block d, rq_port = [hi, lo]\<rparr>,
          rp_state = request_done, rp_n = n, rp_i = i\<rparr>, rest)"
    using request_feed_message [OF assms(3)] assms(2) by metis
  from req.consume_reads_all [OF request_init_not_finished assms(1) this, of e] show ?thesis
    by (simp add: request_reads_eq request_failed_def)
qed

theorem request_segmentation_witness:
  "\<exists>p'. request_reads (request_parser_init \<lparr>rp_request = request_zero, rp_state = request_done, rp_n = 0, rp_i = 0\<rparr>) False
       [\<lparr>b_data = [5, 1], b_limit = 2, b_read = 0, b_write = 2\<rparr>,
        \<lparr>b_data = [0, 1, 10, 0, 0], b_limit = 5, b_read = 0, b_write = 5\<rparr>,
        \<lparr>b_data = [7, 0, 80, 9], b_limit = 4, b_read = 0, b_write = 4\<rparr>] = Inr (p', False, [9]) \<and>
     rp_state p' = request_done \<and> rq_port (rp_request p') = [0, 80]"
proof -
  let ?bs = "[\<lparr>b_data = [5, 1], b_limit = 2, b_read = 0, b_write = 2\<rparr>,
    \<lparr>b_data = [0, 1, 10, 0, 0], b_limit = 5, b_read = 0, b_write = 5\<rparr>,
    \<lparr>b_data = [7, 0, 80, 9], b_limit = 4, b_read = 0, b_write = 4\<rparr>]"
  have 1: "\<forall>b \<in> set ?bs. wf_buffer b" by (simp add: wf_buffer_def)
  have 2: "concat (map buf_content ?bs) = request_message 1 0 (IPv4 [10, 0, 0, 7]) 0 80 @ [9]"
    by (simp add: buf_content_def request_message_def socks_atyp_defs)
  have 3: "dest_ok (IPv4 [10, 0, 0, 7])" by simp
  from request_segmentation [OF 1 2 3, of "\<lparr>rp_request = request_zero, rp_state = request_done, rp_n = 0, rp_i = 0\<rparr>" False]
  show ?thesis by auto
qed

end
