(* ===== verification/PrawtosParser.thy ===== *)
theory PrawtosParser
  imports AuthParser
begin

text \<open>
  The parser of the management protocol's commands and the writers of its replies,
  \<^verbatim>\<open>src/parser/prawtos_parser.c\<close> and \<^verbatim>\<open>include/parser/prawtos_parser.h\<close>.
  Static functions carry the suffix \<open>_prawtos\<close>; the enumerations the parser stores bytes in are
  bytes.
\<close>

section \<open>State and operations\<close>

definition user_create :: u8 where "user_create = 0x00"
definition user_delete :: u8 where "user_delete = 0x01"
definition user_edit :: u8 where "user_edit = 0x02"

definition get_transfered :: u8 where "get_transfered = 0x00"
definition get_historical :: u8 where "get_historical = 0x01"
definition get_concurrent :: u8 where "get_concurrent = 0x02"
definition get_users :: u8 where "get_users = 0x03"

datatype prawtos_parser_state =
  prawtos_type | prawtos_cmd_get | prawtos_cmd_user | prawtos_cmd_sniff
| prawtos_admin | prawtos_ulen | prawtos_uname | prawtos_plen | prawtos_passwd
| prawtos_parser_done
| prawtos_error | prawtos_error_unsupported_type | prawtos_error_unsupported_cmd
| prawtos_error_unsupported_admin

record user_st =
  us_cmd :: u8
  us_admin :: u8
  us_ulen :: u8
  us_uname :: "u8 list"
  us_plen :: u8
  us_passwd :: "u8 list"

record get_st =
  gt_cmd :: u8

record prawtos_parser =
  pp_get :: get_st
  pp_user :: user_st
  pp_type :: u8
  pp_state :: prawtos_parser_state
  pp_n :: u8
  pp_i :: u8

definition remaining_set_prawtos :: "prawtos_parser \<Rightarrow> u8 \<Rightarrow> prawtos_parser" where
  "remaining_set_prawtos p n = p\<lparr>pp_i := 0, pp_n := n\<rparr>"

definition remaining_is_done_prawtos :: "prawtos_parser \<Rightarrow> bool" where
  "remaining_is_done_prawtos p = (pp_i p \<ge> pp_n p)"

definition type_prawtos :: "u8 \<Rightarrow> prawtos_parser \<Rightarrow> prawtos_parser" where
  "type_prawtos c p =
     (let next = (if c = 0x00 then prawtos_cmd_get
                  else if c = 0x01 then prawtos_cmd_user
                  else if c = 0x02 then prawtos_cmd_sniff
                  else if c = 0x03 then prawtos_parser_done
                  else prawtos_error_unsupported_type) in
      p\<lparr>pp_type := c, pp_state := next\<rparr>)"

definition cmd_get_prawtos :: "u8 \<Rightarrow> prawtos_parser \<Rightarrow> prawtos_parser" where
  "cmd_get_prawtos c p =
     (if c \<ge> 4 then p\<lparr>pp_state := prawtos_error_unsupported_cmd\<rparr>
      else p\<lparr>pp_get := (pp_get p)\<lparr>gt_cmd := c\<rparr>, pp_state := prawtos_parser_done\<rparr>)"

definition cmd_user_prawtos :: "u8 \<Rightarrow> prawtos_parser \<Rightarrow> prawtos_parser" where
  "cmd_user_prawtos c p =
     (let next = (if c = 0x00 then prawtos_admin
                  else if c = 0x01 then prawtos_ulen
                  else if c = 0x02 then prawtos_ulen
                  else prawtos_error_unsupported_cmd) in
      p\<lparr>pp_user := (pp_user p)\<lparr>us_cmd := c\<rparr>, pp_state := next\<rparr>)"

text \<open>The sniffer command is stored through \<^verbatim>\<open>p->get\<close>.\<close>

definition cmd_sniff_prawtos :: "u8 \<Rightarrow> prawtos_parser \<Rightarrow> prawtos_parser" where
  "cmd_sniff_prawtos c p =
     (if c \<ge> 2 then p\<lparr>pp_state := prawtos_error_unsupported_cmd\<rparr>
      else p\<lparr>pp_get := (pp_get p)\<lparr>gt_cmd := c\<rparr>, pp_state := prawtos_parser_done\<rparr>)"

definition is_admin_prawtos :: "u8 \<Rightarrow> prawtos_parser \<Rightarrow> prawtos_parser" where
  "is_admin_prawtos c p =
     (let next = (if c = 0x00 then prawtos_ulen
                  else if c = 0x01 then prawtos_ulen
                  else prawtos_error_unsupported_admin) in
      p\<lparr>pp_user := (pp_user p)\<lparr>us_admin := c\<rparr>, pp_state := next\<rparr>)"

definition ulen_prawtos :: "u8 \<Rightarrow> prawtos_parser \<Rightarrow> prawtos_parser" where
  "ulen_prawtos c p =
     (if c \<le> 0 then p\<lparr>pp_state := prawtos_error\<rparr>
      else let p1 = remaining_set_prawtos p c;
               p2 = p1\<lparr>pp_user := (pp_user p1)\<lparr>us_ulen := c\<rparr>\<rparr> in
           p2\<lparr>pp_state := prawtos_uname\<rparr>)"

definition uname_prawtos :: "u8 \<Rightarrow> prawtos_parser \<Rightarrow> prawtos_parser res" where
  "uname_prawtos c p =
     bindr (poke_at (us_uname (pp_user p)) (unat (pp_i p)) c) (\<lambda>d.
     let p1 = p\<lparr>pp_user := (pp_user p)\<lparr>us_uname := d\<rparr>, pp_i := pp_i p + 1\<rparr> in
     if remaining_is_done_prawtos p1
     then bindr (poke_at d (unat (pp_i p1)) 0) (\<lambda>d'.
          let p2 = p1\<lparr>pp_user := (pp_user p1)\<lparr>us_uname := d'\<rparr>\<rparr> in
          if us_cmd (pp_user p2) = 0x01 then Inr (p2\<lparr>pp_state := prawtos_parser_done\<rparr>)
          else Inr (p2\<lparr>pp_state := prawtos_plen\<rparr>))
     else Inr (p1\<lparr>pp_state := prawtos_uname\<rparr>))"

definition plen_prawtos :: "u8 \<Rightarrow> prawtos_parser \<Rightarrow> prawtos_parser" where
  "plen_prawtos c p =
     (if c \<le> 0 then p\<lparr>pp_state := prawtos_error\<rparr>
      else let p1 = remaining_set_prawtos p c;
               p2 = p1\<lparr>pp_user := (pp_user p1)\<lparr>us_plen := c\<rparr>\<rparr> in
           p2\<lparr>pp_state := prawtos_passwd\<rparr>)"

definition passwd_prawtos :: "u8 \<Rightarrow> prawtos_parser \<Rightarrow> prawtos_parser res" where
  "passwd_prawtos c p =
     bindr (poke_at (us_passwd (pp_user p)) (unat (pp_i p)) c) (\<lambda>d.
     let p1 = p\<lparr>pp_user := (pp_user p)\<lparr>us_passwd := d\<rparr>, pp_i := pp_i p + 1\<rparr> in
     if remaining_is_done_prawtos p1
     then bindr (poke_at d (unat (pp_i p1)) 0) (\<lambda>d'.
          Inr (p1\<lparr>pp_user := (pp_user p1)\<lparr>us_passwd := d'\<rparr>, pp_state := prawtos_parser_done\<rparr>))
     else Inr (p1\<lparr>pp_state := prawtos_passwd\<rparr>))"

definition prawtos_parser_feed :: "prawtos_parser \<Rightarrow> u8 \<Rightarrow> prawtos_parser res" where
  "prawtos_parser_feed p c =
     (case pp_state p of
        prawtos_type \<Rightarrow> Inr (type_prawtos c p)
      | prawtos_cmd_get \<Rightarrow> Inr (cmd_get_prawtos c p)
      | prawtos_cmd_user \<Rightarrow> Inr (cmd_user_prawtos c p)
      | prawtos_cmd_sniff \<Rightarrow> Inr (cmd_sniff_prawtos c p)
      | prawtos_admin \<Rightarrow> Inr (is_admin_prawtos c p)
      | prawtos_ulen \<Rightarrow> Inr (ulen_prawtos c p)
      | prawtos_uname \<Rightarrow> uname_prawtos c p
      | prawtos_plen \<Rightarrow> Inr (plen_prawtos c p)
      | prawtos_passwd \<Rightarrow> passwd_prawtos c p
      | prawtos_parser_done \<Rightarrow> Inr p
      | prawtos_error \<Rightarrow> Inr p
      | prawtos_error_unsupported_type \<Rightarrow> Inr p
      | prawtos_error_unsupported_cmd \<Rightarrow> Inr p
      | prawtos_error_unsupported_admin \<Rightarrow> Inr (p\<lparr>pp_state := prawtos_error\<rparr>))"

definition user_zero :: user_st where
  "user_zero = \<lparr>us_cmd = 0, us_admin = 0, us_ulen = 0, us_uname = replicate MAX_LEN 0,
                us_plen = 0, us_passwd = replicate MAX_LEN 0\<rparr>"

definition prawtos_parser_init :: "prawtos_parser \<Rightarrow> prawtos_parser" where
  "prawtos_parser_init p =
     p\<lparr>pp_state := prawtos_type, pp_get := \<lparr>gt_cmd = 0\<rparr>, pp_user := user_zero\<rparr>"

definition prawtos_is_done :: "prawtos_parser_state \<Rightarrow> bool \<Rightarrow> bool \<times> bool" where
  "prawtos_is_done st errored =
     (if st = prawtos_error \<or> st = prawtos_error_unsupported_type \<or>
         st = prawtos_error_unsupported_cmd \<or> st = prawtos_error_unsupported_admin
      then (True, True)
      else if st = prawtos_parser_done then (True, errored)
      else (False, errored))"

definition prawtos_consume ::
  "buffer \<Rightarrow> prawtos_parser \<Rightarrow> bool \<Rightarrow> (buffer \<times> prawtos_parser \<times> bool) res" where
  "prawtos_consume b p errored =
     consume_loop prawtos_parser_feed (\<lambda>p. prawtos_is_done (pp_state p)) b p errored False"

text \<open>The values of \<^verbatim>\<open>enum prawtos_response_status\<close>.\<close>

definition success :: u8 where "success = 0"
definition server_failure :: u8 where "server_failure = 1"
definition cmd_not_supported :: u8 where "cmd_not_supported = 2"
definition type_not_supported :: u8 where "type_not_supported = 3"
definition user_lens_error :: u8 where "user_lens_error = 4"
definition user_credentia :: u8 where "user_credentia = 5"

text \<open>
  The room is compared with \<^verbatim>\<open>args[0] + 1\<close>, not with the \<^verbatim>\<open>3 + args_len\<close> bytes that
  are written.
\<close>

definition get_marshal ::
  "buffer \<Rightarrow> u8 \<Rightarrow> u8 \<Rightarrow> u8 \<Rightarrow> u8 list \<Rightarrow> nat \<Rightarrow> (int \<times> buffer) res" where
  "get_marshal b status cmd nargs args args_len =
     bindr (buffer_write_ptr b) (\<lambda>(count, ptr).
     bindr (peek_at args 0) (\<lambda>a0.
     if count < unat a0 + 1 then Inr (- 1, b)
     else bindr (buffer_poke b ptr [status, cmd, nargs]) (\<lambda>b1.
          bindr (buffer_write_adv b1 3) (\<lambda>b2.
          bindr (read_cells args 0 args_len) (\<lambda>xs.
          bindr (buffer_poke b2 (ptr + 3) xs) (\<lambda>b3.
          bindr (buffer_write_adv b3 (int args_len)) (\<lambda>b4.
          Inr (int (3 + args_len), b4))))))))"

definition user_marshal :: "buffer \<Rightarrow> u8 \<Rightarrow> (int \<times> buffer) res" where
  "user_marshal b status =
     bindr (buffer_write_ptr b) (\<lambda>(count, ptr).
     let len = 1 in
     if count < len then Inr (- 1, b)
     else bindr (buffer_poke b ptr [status]) (\<lambda>b1.
          bindr (buffer_write_adv b1 (int len)) (\<lambda>b2. Inr (int len, b2))))"

definition quit_marshal :: "buffer \<Rightarrow> u8 \<Rightarrow> (int \<times> buffer) res" where
  "quit_marshal b status =
     bindr (buffer_write_ptr b) (\<lambda>(count, ptr).
     let len = 1 in
     if count < len then Inr (- 1, b)
     else bindr (buffer_poke b ptr [status]) (\<lambda>b1.
          bindr (buffer_write_adv b1 (int len)) (\<lambda>b2. Inr (int len, b2))))"

section \<open>The parser as a byte parser\<close>

definition prawtos_finished :: "prawtos_parser \<Rightarrow> bool" where
  "prawtos_finished p \<longleftrightarrow> pp_state p \<in> {prawtos_parser_done, prawtos_error,
     prawtos_error_unsupported_type, prawtos_error_unsupported_cmd, prawtos_error_unsupported_admin}"

definition prawtos_failed :: "prawtos_parser \<Rightarrow> bool" where
  "prawtos_failed p \<longleftrightarrow> pp_state p \<in> {prawtos_error,
     prawtos_error_unsupported_type, prawtos_error_unsupported_cmd, prawtos_error_unsupported_admin}"

text \<open>
  The arrays keep their size, the index of a field is below its length, and a finished command has
  a type and a command number for which the dispatch tables of the handlers have an entry.
\<close>

definition prawtos_inv :: "prawtos_parser \<Rightarrow> bool" where
  "prawtos_inv p \<longleftrightarrow>
     length (us_uname (pp_user p)) = MAX_LEN \<and> length (us_passwd (pp_user p)) = MAX_LEN \<and>
     (pp_state p \<in> {prawtos_uname, prawtos_passwd} \<longrightarrow> pp_i p < pp_n p) \<and>
     (pp_state p = prawtos_cmd_get \<longrightarrow> pp_type p = 0) \<and>
     (pp_state p = prawtos_cmd_user \<longrightarrow> pp_type p = 1) \<and>
     (pp_state p = prawtos_cmd_sniff \<longrightarrow> pp_type p = 2) \<and>
     (pp_state p \<in> {prawtos_admin, prawtos_ulen, prawtos_uname, prawtos_plen, prawtos_passwd} \<longrightarrow>
        pp_type p = 1 \<and> us_cmd (pp_user p) < 3) \<and>
     (pp_state p = prawtos_parser_done \<longrightarrow> pp_type p \<le> 3 \<and>
        (pp_type p = 0 \<longrightarrow> gt_cmd (pp_get p) < 4) \<and> (pp_type p = 1 \<longrightarrow> us_cmd (pp_user p) < 3))"

lemmas prawtos_step_defs = type_prawtos_def cmd_get_prawtos_def cmd_user_prawtos_def
  cmd_sniff_prawtos_def is_admin_prawtos_def ulen_prawtos_def plen_prawtos_def
  uname_prawtos_def passwd_prawtos_def remaining_set_prawtos_def remaining_is_done_prawtos_def

lemma u8_small_cmp:
  "(0 :: u8) < 3" "(1 :: u8) < 3" "(2 :: u8) < 3" "(1 :: u8) \<le> 3" "(2 :: u8) \<le> 3" "(0 :: u8) \<le> 3"
  by (simp_all add: word_less_nat_alt word_le_nat_alt)

lemma uname_prawtos_step:
  assumes "pp_state p = prawtos_uname" "Suc (unat (pp_i p)) \<le> unat (pp_n p)"
    "unat (pp_i p) < length (us_uname (pp_user p))"
  shows "prawtos_parser_feed p c =
    (let d = (us_uname (pp_user p))[unat (pp_i p) := c] in
     if Suc (unat (pp_i p)) = unat (pp_n p)
     then bindr (poke_at d (unat (pp_n p)) 0) (\<lambda>d'.
          Inr (p\<lparr>pp_user := (pp_user p)\<lparr>us_uname := d'\<rparr>, pp_i := pp_n p,
                 pp_state := if us_cmd (pp_user p) = 1 then prawtos_parser_done else prawtos_plen\<rparr>))
     else Inr (p\<lparr>pp_user := (pp_user p)\<lparr>us_uname := d\<rparr>, pp_i := pp_i p + 1\<rparr>))"
  using assms Suc_unat_le_255 [OF assms(2)] u8_Suc_eq [of "pp_i p" "pp_n p"]
  by (cases p) (auto simp: prawtos_parser_feed_def uname_prawtos_def remaining_is_done_prawtos_def
      Let_def u8_le_inc unat_inc_u8)

lemma passwd_prawtos_step:
  assumes "pp_state p = prawtos_passwd" "Suc (unat (pp_i p)) \<le> unat (pp_n p)"
    "unat (pp_i p) < length (us_passwd (pp_user p))"
  shows "prawtos_parser_feed p c =
    (let d = (us_passwd (pp_user p))[unat (pp_i p) := c] in
     if Suc (unat (pp_i p)) = unat (pp_n p)
     then bindr (poke_at d (unat (pp_n p)) 0) (\<lambda>d'.
          Inr (p\<lparr>pp_user := (pp_user p)\<lparr>us_passwd := d'\<rparr>, pp_i := pp_n p,
                 pp_state := prawtos_parser_done\<rparr>))
     else Inr (p\<lparr>pp_user := (pp_user p)\<lparr>us_passwd := d\<rparr>, pp_i := pp_i p + 1\<rparr>))"
  using assms Suc_unat_le_255 [OF assms(2)] u8_Suc_eq [of "pp_i p" "pp_n p"]
  by (cases p) (auto simp: prawtos_parser_feed_def passwd_prawtos_def remaining_is_done_prawtos_def
      Let_def u8_le_inc unat_inc_u8)

lemma prawtos_inv_uname:
  assumes "prawtos_inv p" "pp_state p = prawtos_uname" "prawtos_parser_feed p c = Inr p'"
  shows "prawtos_inv p'"
proof -
  have i: "Suc (unat (pp_i p)) \<le> unat (pp_n p)" "length (us_uname (pp_user p)) = MAX_LEN"
    using assms(1,2) by (auto simp: prawtos_inv_def word_less_nat_alt)
  with Suc_unat_le_255 [OF i(1)] have u: "unat (pp_i p) < length (us_uname (pp_user p))"
    by (simp add: MAX_LEN_def)
  from i Suc_unat_le_255 [OF i(1)]
  have "Suc (unat (pp_i p)) \<noteq> unat (pp_n p) \<Longrightarrow> pp_i p + 1 < pp_n p"
    by (simp add: word_less_nat_alt unat_inc_u8)
  with assms i u show ?thesis
    by (auto simp: uname_prawtos_step prawtos_inv_def res_simps Let_def u8_small_cmp split: if_splits)
qed

lemma prawtos_inv_passwd:
  assumes "prawtos_inv p" "pp_state p = prawtos_passwd" "prawtos_parser_feed p c = Inr p'"
  shows "prawtos_inv p'"
proof -
  have i: "Suc (unat (pp_i p)) \<le> unat (pp_n p)" "length (us_passwd (pp_user p)) = MAX_LEN"
    using assms(1,2) by (auto simp: prawtos_inv_def word_less_nat_alt)
  with Suc_unat_le_255 [OF i(1)] have u: "unat (pp_i p) < length (us_passwd (pp_user p))"
    by (simp add: MAX_LEN_def)
  from i Suc_unat_le_255 [OF i(1)]
  have "Suc (unat (pp_i p)) \<noteq> unat (pp_n p) \<Longrightarrow> pp_i p + 1 < pp_n p"
    by (simp add: word_less_nat_alt unat_inc_u8)
  with assms i u show ?thesis
    by (auto simp: passwd_prawtos_step prawtos_inv_def res_simps Let_def u8_small_cmp split: if_splits)
qed

text \<open>The states that read one byte.\<close>

lemma prawtos_inv_byte:
  assumes "prawtos_inv p"
  shows "pp_state p = prawtos_type \<Longrightarrow> prawtos_inv (type_prawtos c p)"
    "pp_state p = prawtos_cmd_get \<Longrightarrow> prawtos_inv (cmd_get_prawtos c p)"
    "pp_state p = prawtos_cmd_user \<Longrightarrow> prawtos_inv (cmd_user_prawtos c p)"
    "pp_state p = prawtos_cmd_sniff \<Longrightarrow> prawtos_inv (cmd_sniff_prawtos c p)"
    "pp_state p = prawtos_admin \<Longrightarrow> prawtos_inv (is_admin_prawtos c p)"
    "pp_state p = prawtos_ulen \<Longrightarrow> prawtos_inv (ulen_prawtos c p)"
    "pp_state p = prawtos_plen \<Longrightarrow> prawtos_inv (plen_prawtos c p)"
  using assms
  by (simp_all add: prawtos_inv_def prawtos_step_defs u8_small_cmp linorder_not_le word_gt_0 Let_def)

lemma prawtos_inv_feed:
  assumes "prawtos_inv p" "\<not> prawtos_finished p" "prawtos_parser_feed p c = Inr p'"
  shows "prawtos_inv p'"
proof (cases "pp_state p \<in> {prawtos_uname, prawtos_passwd}")
  case True
  then show ?thesis using assms prawtos_inv_uname prawtos_inv_passwd by blast
next
  case False
  with assms(2,3) prawtos_inv_byte [OF assms(1), of c] show ?thesis
    by (cases "pp_state p") (simp_all add: prawtos_finished_def prawtos_parser_feed_def)
qed

interpretation prw: byte_parser prawtos_parser_feed "\<lambda>p. prawtos_is_done (pp_state p)"
  prawtos_finished prawtos_failed prawtos_inv
proof unfold_locales
  fix p e
  show "prawtos_is_done (pp_state p) e = (prawtos_finished p, e \<or> prawtos_failed p)"
    by (cases "pp_state p") (auto simp: prawtos_is_done_def prawtos_finished_def prawtos_failed_def)
  show "prawtos_failed p \<Longrightarrow> prawtos_finished p"
    by (auto simp: prawtos_failed_def prawtos_finished_def)
  show "prawtos_inv p \<Longrightarrow> \<not> prawtos_finished p \<Longrightarrow> prawtos_parser_feed p c = Inr p' \<Longrightarrow> prawtos_inv p'"
    for c p' by (rule prawtos_inv_feed)
qed

abbreviation prawtos_feed_all ::
  "prawtos_parser \<Rightarrow> u8 list \<Rightarrow> (prawtos_parser \<times> u8 list) res" where
  "prawtos_feed_all \<equiv> feed_all prawtos_parser_feed prawtos_finished"

interpretation puname: name_field prawtos_parser_feed prawtos_finished
  "\<lambda>p. pp_state p = prawtos_uname" "\<lambda>p. unat (pp_i p)" "\<lambda>p. unat (pp_n p)"
  "\<lambda>p. us_uname (pp_user p)"
  "\<lambda>d i p. p\<lparr>pp_user := (pp_user p)\<lparr>us_uname := d\<rparr>, pp_i := of_nat i\<rparr>"
  "\<lambda>p. p\<lparr>pp_state := if us_cmd (pp_user p) = 1 then prawtos_parser_done else prawtos_plen\<rparr>"
  by unfold_locales (auto simp: uname_prawtos_step prawtos_finished_def Let_def add.commute)

interpretation ppasswd: name_field prawtos_parser_feed prawtos_finished
  "\<lambda>p. pp_state p = prawtos_passwd" "\<lambda>p. unat (pp_i p)" "\<lambda>p. unat (pp_n p)"
  "\<lambda>p. us_passwd (pp_user p)"
  "\<lambda>d i p. p\<lparr>pp_user := (pp_user p)\<lparr>us_passwd := d\<rparr>, pp_i := of_nat i\<rparr>"
  "\<lambda>p. p\<lparr>pp_state := prawtos_parser_done\<rparr>"
  by unfold_locales (auto simp: passwd_prawtos_step prawtos_finished_def Let_def add.commute)

section \<open>The messages\<close>

text \<open>The requests of \<^verbatim>\<open>prawtosv5.txt\<close> with the bytes the parser accepts for them.\<close>

datatype prawtos_request =
  Get u8 | Create u8 "u8 list" "u8 list" | Delete "u8 list" | Edit "u8 list" "u8 list"
| Sniff u8 | Quit

fun prawtos_message :: "prawtos_request \<Rightarrow> u8 list" where
  "prawtos_message (Get c) = [0x00, c]"
| "prawtos_message (Create a u pw) =
     [0x01, 0x00, a, of_nat (length u)] @ u @ [of_nat (length pw)] @ pw"
| "prawtos_message (Delete u) = [0x01, 0x01, of_nat (length u)] @ u"
| "prawtos_message (Edit u pw) = [0x01, 0x02, of_nat (length u)] @ u @ [of_nat (length pw)] @ pw"
| "prawtos_message (Sniff c) = [0x02, c]"
| "prawtos_message Quit = [0x03]"

definition name_ok :: "u8 list \<Rightarrow> bool" where
  "name_ok u \<longleftrightarrow> 0 < length u \<and> length u < MAX_LEN"

fun prawtos_request_ok :: "prawtos_request \<Rightarrow> bool" where
  "prawtos_request_ok (Get c) = (c < 4)"
| "prawtos_request_ok (Create a u pw) = (a < 2 \<and> name_ok u \<and> name_ok pw)"
| "prawtos_request_ok (Delete u) = name_ok u"
| "prawtos_request_ok (Edit u pw) = (name_ok u \<and> name_ok pw)"
| "prawtos_request_ok (Sniff c) = (c < 2)"
| "prawtos_request_ok Quit = True"

text \<open>What a parser that is done holds, read through its fields.\<close>

definition prawtos_holds :: "prawtos_parser \<Rightarrow> prawtos_request \<Rightarrow> bool" where
  "prawtos_holds p r = (case r of
     Get c \<Rightarrow> pp_type p = 0x00 \<and> gt_cmd (pp_get p) = c
   | Create a u pw \<Rightarrow> pp_type p = 0x01 \<and> us_cmd (pp_user p) = user_create \<and> us_admin (pp_user p) = a \<and>
       us_uname (pp_user p) = name_block u \<and> unat (us_ulen (pp_user p)) = length u \<and>
       us_passwd (pp_user p) = name_block pw \<and> unat (us_plen (pp_user p)) = length pw
   | Delete u \<Rightarrow> pp_type p = 0x01 \<and> us_cmd (pp_user p) = user_delete \<and>
       us_uname (pp_user p) = name_block u \<and> unat (us_ulen (pp_user p)) = length u
   | Edit u pw \<Rightarrow> pp_type p = 0x01 \<and> us_cmd (pp_user p) = user_edit \<and>
       us_uname (pp_user p) = name_block u \<and> unat (us_ulen (pp_user p)) = length u \<and>
       us_passwd (pp_user p) = name_block pw \<and> unat (us_plen (pp_user p)) = length pw
   | Sniff c \<Rightarrow> pp_type p = 0x02 \<and> gt_cmd (pp_get p) = c
   | Quit \<Rightarrow> pp_type p = 0x03)"

lemmas prawtos_feed_simps = prawtos_parser_feed_def type_prawtos_def cmd_get_prawtos_def
  cmd_user_prawtos_def cmd_sniff_prawtos_def is_admin_prawtos_def ulen_prawtos_def
  plen_prawtos_def remaining_set_prawtos_def prawtos_finished_def

lemma name_ok_len: "name_ok u \<Longrightarrow> 0 < length u \<and> length u < 256 \<and> length u < MAX_LEN"
  by (simp add: name_ok_def MAX_LEN_def)

lemma prawtos_init_not_finished [simp]: "\<not> prawtos_finished (prawtos_parser_init p)"
  by (simp add: prawtos_finished_def prawtos_parser_init_def)

lemma u8_lt_2: "(a :: u8) < 2 \<longleftrightarrow> a = 0 \<or> a = 1"
  by (auto simp: word_less_nat_alt word_unat_eq_iff)

text \<open>A user name after its length byte.\<close>

lemma prawtos_feed_ulen:
  assumes "name_ok u" "pp_state p = prawtos_ulen" "length (us_uname (pp_user p)) = MAX_LEN"
  shows "prawtos_feed_all p (of_nat (length u) # u @ xs) =
    (let q = p\<lparr>pp_i := of_nat (length u), pp_n := of_nat (length u),
       pp_user := (pp_user p)\<lparr>us_ulen := of_nat (length u),
          us_uname := u @ 0 # drop (Suc (length u)) (us_uname (pp_user p))\<rparr>,
       pp_state := if us_cmd (pp_user p) = 1 then prawtos_parser_done else prawtos_plen\<rparr> in
     if prawtos_finished q then Inr (q, xs) else prawtos_feed_all q xs)"
proof -
  note l = name_ok_len [OF assms(1)]
  let ?p = "p\<lparr>pp_i := 0, pp_n := of_nat (length u),
    pp_user := (pp_user p)\<lparr>us_ulen := of_nat (length u)\<rparr>, pp_state := prawtos_uname\<rparr>"
  have "prawtos_feed_all p (of_nat (length u) # u @ xs) = prawtos_feed_all ?p (u @ xs)"
    using assms l of_nat_u8_nz [of "length u"] by (simp add: prawtos_feed_simps)
  with puname.feed_field [of ?p u xs] assms l show ?thesis
    by (cases p) (simp add: Let_def prawtos_finished_def)
qed

lemma prawtos_feed_plen:
  assumes "name_ok w" "pp_state p = prawtos_plen" "length (us_passwd (pp_user p)) = MAX_LEN"
  shows "prawtos_feed_all p (of_nat (length w) # w @ xs) =
    Inr (p\<lparr>pp_i := of_nat (length w), pp_n := of_nat (length w),
       pp_user := (pp_user p)\<lparr>us_plen := of_nat (length w),
          us_passwd := w @ 0 # drop (Suc (length w)) (us_passwd (pp_user p))\<rparr>,
       pp_state := prawtos_parser_done\<rparr>, xs)"
proof -
  note l = name_ok_len [OF assms(1)]
  let ?p = "p\<lparr>pp_i := 0, pp_n := of_nat (length w),
    pp_user := (pp_user p)\<lparr>us_plen := of_nat (length w)\<rparr>, pp_state := prawtos_passwd\<rparr>"
  have "prawtos_feed_all p (of_nat (length w) # w @ xs) = prawtos_feed_all ?p (w @ xs)"
    using assms l of_nat_u8_nz [of "length w"] by (simp add: prawtos_feed_simps)
  with ppasswd.feed_field [of ?p w xs] assms l show ?thesis
    by (cases p) (simp add: Let_def prawtos_finished_def)
qed

text \<open>The bytes before the user name.\<close>

lemma prawtos_feed_user_header:
  "prawtos_feed_all (prawtos_parser_init p) ([0x01, c] @ xs) =
    (if c = 0 then prawtos_feed_all (p\<lparr>pp_get := \<lparr>gt_cmd = 0\<rparr>, pp_user := user_zero\<lparr>us_cmd := c\<rparr>,
        pp_type := 1, pp_state := prawtos_admin\<rparr>) xs
     else if c = 1 \<or> c = 2 then prawtos_feed_all (p\<lparr>pp_get := \<lparr>gt_cmd = 0\<rparr>,
        pp_user := user_zero\<lparr>us_cmd := c\<rparr>, pp_type := 1, pp_state := prawtos_ulen\<rparr>) xs
     else Inr (p\<lparr>pp_get := \<lparr>gt_cmd = 0\<rparr>, pp_user := user_zero\<lparr>us_cmd := c\<rparr>,
        pp_type := 1, pp_state := prawtos_error_unsupported_cmd\<rparr>, xs))"
  by (cases p) (simp add: prawtos_parser_init_def prawtos_feed_simps)

lemma prawtos_feed_admin:
  "pp_state p = prawtos_admin \<Longrightarrow> a < 2 \<Longrightarrow> prawtos_feed_all p (a # xs) =
     prawtos_feed_all (p\<lparr>pp_user := (pp_user p)\<lparr>us_admin := a\<rparr>, pp_state := prawtos_ulen\<rparr>) xs"
  by (auto simp: u8_lt_2 prawtos_parser_feed_def is_admin_prawtos_def prawtos_finished_def)

lemma prawtos_feed_request:
  assumes "prawtos_request_ok r"
  shows "\<exists>p'. prawtos_feed_all (prawtos_parser_init p) (prawtos_message r @ rest) = Inr (p', rest) \<and>
    pp_state p' = prawtos_parser_done \<and> prawtos_holds p' r"
proof (cases r)
  case (Create a u w)
  then have a: "a < 2" and n: "name_ok u" "name_ok w" using assms by auto
  let ?p = "p\<lparr>pp_get := \<lparr>gt_cmd = 0\<rparr>, pp_type := 1,
    pp_user := user_zero\<lparr>us_cmd := 0, us_admin := a\<rparr>, pp_state := prawtos_ulen\<rparr>"
  have "prawtos_feed_all (prawtos_parser_init p) (prawtos_message r @ rest) =
      prawtos_feed_all ?p (of_nat (length u) # u @ of_nat (length w) # w @ rest)"
    using a prawtos_feed_user_header [of p 0 "a # of_nat (length u) # u @ of_nat (length w) # w @ rest"]
    by (simp add: Create prawtos_feed_admin del: feed_all.simps)
  also have "\<dots> = prawtos_feed_all (?p\<lparr>pp_i := of_nat (length u), pp_n := of_nat (length u),
       pp_user := (pp_user ?p)\<lparr>us_ulen := of_nat (length u), us_uname := name_block u\<rparr>,
       pp_state := prawtos_plen\<rparr>) (of_nat (length w) # w @ rest)"
    using prawtos_feed_ulen [of u ?p "of_nat (length w) # w @ rest"] n name_ok_len [OF n(1)]
    by (simp add: user_zero_def name_block_eq prawtos_finished_def del: feed_all.simps)
  finally show ?thesis
    using n name_ok_len [OF n(1)] name_ok_len [OF n(2)]
    by (simp add: prawtos_feed_plen user_zero_def name_block_eq prawtos_holds_def Create
        user_create_def del: feed_all.simps)
next
  case (Delete u)
  then have n: "name_ok u" using assms by simp
  show ?thesis
    using n name_ok_len [OF n] prawtos_feed_user_header [of p 1 "of_nat (length u) # u @ rest"]
    by (simp add: prawtos_feed_ulen user_zero_def name_block_eq prawtos_holds_def Delete
        user_delete_def prawtos_finished_def del: feed_all.simps)
next
  case (Edit u w)
  then have n: "name_ok u" "name_ok w" using assms by auto
  show ?thesis
    using n name_ok_len [OF n(1)] name_ok_len [OF n(2)]
      prawtos_feed_user_header [of p 2 "of_nat (length u) # u @ of_nat (length w) # w @ rest"]
    by (simp add: prawtos_feed_ulen prawtos_feed_plen user_zero_def name_block_eq
        prawtos_holds_def Edit user_edit_def prawtos_finished_def del: feed_all.simps)
qed (use assms in \<open>auto simp: prawtos_parser_init_def prawtos_feed_simps prawtos_holds_def linorder_not_le\<close>)

section \<open>The replies\<close>

lemma status_marshal_wf:
  assumes "wf_buffer b" "1 \<le> buf_room b"
  obtains b' where "user_marshal b st = Inr (1, b')" "quit_marshal b st = Inr (1, b')" "wf_buffer b'"
    "buf_content b' = buf_content b @ [st]" "b_limit b' = b_limit b"
  using assms
  by (rule_tac poke_adv_wf [of b "[st]"]) (auto simp: user_marshal_def quit_marshal_def write_ptr_wf)

lemma status_marshal_full:
  "wf_buffer b \<Longrightarrow> buf_room b = 0 \<Longrightarrow>
     user_marshal b st = Inr (- 1, b) \<and> quit_marshal b st = Inr (- 1, b)"
  by (simp add: user_marshal_def quit_marshal_def write_ptr_wf)

text \<open>
  A metrics reply with room for all of it. With room for less, \<open>get_marshal\<close> does not always notice.
\<close>

lemma get_marshal_wf:
  assumes "wf_buffer b" "3 + args_len \<le> buf_room b" "args_len \<le> length args" "args \<noteq> []"
    "unat (hd args) < buf_room b"
  shows "\<exists>b'. get_marshal b status cmd nargs args args_len = Inr (int (3 + args_len), b') \<and>
    wf_buffer b' \<and> buf_content b' = buf_content b @ [status, cmd, nargs] @ take args_len args"
proof -
  obtain b1 b2 where b2: "buffer_poke b (b_write b) [status, cmd, nargs] = Inr b1"
    "buffer_write_adv b1 3 = Inr b2" "wf_buffer b2"
    "buf_content b2 = buf_content b @ [status, cmd, nargs]" "buf_room b2 = buf_room b - 3"
    using assms by (rule_tac poke_adv_wf [of b "[status, cmd, nargs]"]) auto
  from b2(1,2) have w: "b_write b2 = b_write b + 3"
    by (auto simp: buffer_poke_def buffer_write_adv_def res_simps split: if_splits)
  obtain b3 b4 where "buffer_poke b2 (b_write b2) (take args_len args) = Inr b3"
    "buffer_write_adv b3 (int args_len) = Inr b4" "wf_buffer b4"
    "buf_content b4 = buf_content b2 @ take args_len args"
    using assms b2 by (rule_tac poke_adv_wf [of b2 "take args_len args"]) (auto simp: min_absorb2)
  with assms b2 w show ?thesis
    by (simp add: get_marshal_def write_ptr_wf hd_conv_nth)
qed

lemma prawtos_message_consumed:
  assumes "wf_buffer b" "buf_content b = prawtos_message r @ rest" "prawtos_request_ok r"
  shows "\<exists>b' p'. prawtos_consume b (prawtos_parser_init p) e = Inr (b', p', e) \<and>
    pp_state p' = prawtos_parser_done \<and> prawtos_holds p' r \<and> wf_buffer b' \<and> buf_content b' = rest"
proof -
  obtain p' where p': "prawtos_feed_all (prawtos_parser_init p) (buf_content b) = Inr (p', rest)"
    "pp_state p' = prawtos_parser_done" "prawtos_holds p' r"
    using prawtos_feed_request [OF assms(3), of p rest] assms(2) by auto
  with prw.consume_loop_Inr [OF assms(1) prawtos_init_not_finished p'(1), of e] show ?thesis
    by (auto simp: prawtos_consume_def prawtos_failed_def)
qed

text \<open>
  The other requests of the format: a byte the parser refuses, or a name as long as the protocol allows.
\<close>

definition name_sized :: "u8 list \<Rightarrow> bool" where
  "name_sized u \<longleftrightarrow> 0 < length u \<and> length u \<le> 255"

fun prawtos_request_sized :: "prawtos_request \<Rightarrow> bool" where
  "prawtos_request_sized (Create a u pw) = (name_sized u \<and> name_sized pw)"
| "prawtos_request_sized (Delete u) = name_sized u"
| "prawtos_request_sized (Edit u pw) = (name_sized u \<and> name_sized pw)"
| "prawtos_request_sized (Get c) = True"
| "prawtos_request_sized (Sniff c) = True"
| "prawtos_request_sized Quit = True"

definition request_parsed :: "buffer \<Rightarrow> prawtos_parser \<Rightarrow> bool \<Rightarrow> prawtos_request \<Rightarrow> u8 list \<Rightarrow> bool" where
  "request_parsed b p e r rest \<longleftrightarrow> (\<exists>b' p'. prawtos_consume b (prawtos_parser_init p) e = Inr (b', p', e) \<and>
     pp_state p' = prawtos_parser_done \<and> prawtos_holds p' r \<and> wf_buffer b' \<and> buf_content b' = rest)"

definition request_refused :: "buffer \<Rightarrow> prawtos_parser \<Rightarrow> bool \<Rightarrow> prawtos_parser_state \<Rightarrow> u8 list \<Rightarrow> bool" where
  "request_refused b p e st rest \<longleftrightarrow> (\<exists>b' p'. prawtos_consume b (prawtos_parser_init p) e = Inr (b', p', True) \<and>
     pp_state p' = st \<and> wf_buffer b' \<and> buf_content b' = rest)"

lemma name_sized_cases: "name_sized u \<Longrightarrow> name_ok u \<longleftrightarrow> length u \<noteq> 255"
  by (auto simp: name_sized_def name_ok_def MAX_LEN_def)

lemma prawtos_refused:
  assumes "wf_buffer b" "buf_content b = m" "prawtos_failed q" "prawtos_feed_all (prawtos_parser_init p) m = Inr (q, rest)"
  shows "request_refused b p e (pp_state q) rest"
  using prw.consume_loop_Inr [OF assms(1) prawtos_init_not_finished, of p q rest e] assms(2-4)
  by (auto simp: request_refused_def prawtos_consume_def)

lemma prawtos_over:
  assumes "wf_buffer b" "prawtos_feed_all (prawtos_parser_init p) m = Inl OutOfBounds" "buf_content b = m"
  shows "prawtos_consume b (prawtos_parser_init p) e = Inl OutOfBounds"
  using prw.consume_loop_Inl [OF assms(1) prawtos_init_not_finished, of p OutOfBounds e] assms(2,3)
  by (simp add: prawtos_consume_def)

lemma prawtos_feed_bad_cmd:
  "\<not> c < 4 \<Longrightarrow> prawtos_feed_all (prawtos_parser_init p) (prawtos_message (Get c) @ rest) =
     Inr ((prawtos_parser_init p)\<lparr>pp_type := 0, pp_state := prawtos_error_unsupported_cmd\<rparr>, rest)"
  "\<not> c < 2 \<Longrightarrow> prawtos_feed_all (prawtos_parser_init p) (prawtos_message (Sniff c) @ rest) =
     Inr ((prawtos_parser_init p)\<lparr>pp_type := 2, pp_state := prawtos_error_unsupported_cmd\<rparr>, rest)"
  by (simp_all add: prawtos_parser_init_def prawtos_feed_simps linorder_not_less)

lemma prawtos_feed_bad_admin:
  assumes "\<not> a < 2"
  shows "prawtos_feed_all (prawtos_parser_init p) (prawtos_message (Create a u pw) @ rest) =
     Inr ((prawtos_parser_init p)\<lparr>pp_type := 1, pp_user := user_zero\<lparr>us_admin := a\<rparr>, pp_state := prawtos_error_unsupported_admin\<rparr>,
       of_nat (length u) # u @ of_nat (length pw) # pw @ rest)"
proof -
  have "a \<noteq> 0" "a \<noteq> 1" using assms u8_lt_2 by auto
  then show ?thesis
    by (cases p) (simp add: prawtos_parser_init_def prawtos_feed_simps user_zero_def)
qed

lemma prawtos_feed_ulen_255:
  assumes "length u = 255" "pp_state p = prawtos_ulen" "length (us_uname (pp_user p)) = MAX_LEN"
  shows "prawtos_feed_all p (of_nat (length u) # u @ xs) = Inl OutOfBounds"
proof -
  let ?p = "p\<lparr>pp_i := 0, pp_n := of_nat (length u),
    pp_user := (pp_user p)\<lparr>us_ulen := of_nat (length u)\<rparr>, pp_state := prawtos_uname\<rparr>"
  have "prawtos_feed_all p (of_nat (length u) # u @ xs) = prawtos_feed_all ?p (u @ xs)"
    using assms of_nat_u8_nz [of "length u"] by (simp add: prawtos_feed_simps)
  also have "\<dots> = Inl OutOfBounds"
    by (rule puname.feed_field_over) (use assms in \<open>auto simp: MAX_LEN_def\<close>)
  finally show ?thesis .
qed

lemma prawtos_feed_plen_255:
  assumes "length w = 255" "pp_state p = prawtos_plen" "length (us_passwd (pp_user p)) = MAX_LEN"
  shows "prawtos_feed_all p (of_nat (length w) # w @ xs) = Inl OutOfBounds"
proof -
  let ?p = "p\<lparr>pp_i := 0, pp_n := of_nat (length w),
    pp_user := (pp_user p)\<lparr>us_plen := of_nat (length w)\<rparr>, pp_state := prawtos_passwd\<rparr>"
  have "prawtos_feed_all p (of_nat (length w) # w @ xs) = prawtos_feed_all ?p (w @ xs)"
    using assms of_nat_u8_nz [of "length w"] by (simp add: prawtos_feed_simps)
  also have "\<dots> = Inl OutOfBounds"
    by (rule ppasswd.feed_field_over) (use assms in \<open>auto simp: MAX_LEN_def\<close>)
  finally show ?thesis .
qed

text \<open>A name and a password one of which is too long, after the bytes before them.\<close>

lemma prawtos_feed_long:
  assumes "name_sized u" "name_sized w" "length u = 255 \<or> length w = 255"
    and "pp_state p = prawtos_ulen" "us_cmd (pp_user p) \<noteq> 1"
      "length (us_uname (pp_user p)) = MAX_LEN" "length (us_passwd (pp_user p)) = MAX_LEN"
  shows "prawtos_feed_all p (of_nat (length u) # u @ of_nat (length w) # w @ xs) = Inl OutOfBounds"
proof (cases "length u = 255")
  case False
  then have n: "name_ok u" "length w = 255" using assms(1,3) name_sized_cases by auto
  show ?thesis
    unfolding prawtos_feed_ulen [OF n(1) assms(4,6)]
    using assms(5,7) prawtos_feed_plen_255 [OF n(2)] by (simp add: Let_def prawtos_finished_def)
qed (use prawtos_feed_ulen_255 [OF _ assms(4,6)] in simp)

lemma prawtos_feed_long_create:
  assumes "a < 2" "name_sized u" "name_sized w" "length u = 255 \<or> length w = 255"
  shows "prawtos_feed_all (prawtos_parser_init p) (prawtos_message (Create a u w) @ rest) = Inl OutOfBounds"
  using prawtos_feed_user_header [of p 0 "a # of_nat (length u) # u @ of_nat (length w) # w @ rest"] assms
  by (simp add: prawtos_feed_admin prawtos_feed_long user_zero_def del: feed_all.simps)

lemma prawtos_feed_long_edit:
  assumes "name_sized u" "name_sized w" "length u = 255 \<or> length w = 255"
  shows "prawtos_feed_all (prawtos_parser_init p) (prawtos_message (Edit u w) @ rest) = Inl OutOfBounds"
  using prawtos_feed_user_header [of p 2 "of_nat (length u) # u @ of_nat (length w) # w @ rest"] assms
  by (simp add: prawtos_feed_long user_zero_def del: feed_all.simps)

lemma prawtos_feed_long_delete:
  assumes "length u = 255"
  shows "prawtos_feed_all (prawtos_parser_init p) (prawtos_message (Delete u) @ rest) = Inl OutOfBounds"
  using prawtos_feed_user_header [of p 1 "of_nat (length u) # u @ rest"] assms prawtos_feed_ulen_255 [OF assms]
  by (simp add: user_zero_def del: feed_all.simps)

section \<open>Properties\<close>

text \<open>
  C9: what the parser makes of every request of the management protocol. From a fresh parser and a buffer that starts with the
  bytes of a request in the format of \<^verbatim>\<open>prawtosv5.txt\<close>, with any command or flag byte and names of 1 to 255 bytes,
  \<^const>\<open>prawtos_consume\<close> does exactly one of three things. It ends in \<^const>\<open>prawtos_parser_done\<close> without error, with the
  request's fields (type, command, flag, NUL-terminated names and their lengths) in the parser and the bytes after the
  request still in the buffer. Or it refuses the request with the error flag and the state that says why, having
  consumed the refused byte: a metric of 4 or more, so also the \<^verbatim>\<open>X'04'\<close> that \<^verbatim>\<open>prawtosv5.txt\<close> gives to the list of
  users, a sniffer command of 2 or more, a flag of 2 or more. Or a name has 255 bytes, which the protocol allows, and its
  NUL is stored past the end of its array.
\<close>

theorem prawtos_message_parsed:
  assumes "wf_buffer b" "buf_content b = prawtos_message r @ rest" "prawtos_request_sized r"
  shows "case r of
      Get c \<Rightarrow> if c < 4 then request_parsed b p e r rest else request_refused b p e prawtos_error_unsupported_cmd rest
    | Sniff c \<Rightarrow> if c < 2 then request_parsed b p e r rest else request_refused b p e prawtos_error_unsupported_cmd rest
    | Quit \<Rightarrow> request_parsed b p e r rest
    | Create a u pw \<Rightarrow>
        if \<not> a < 2 then request_refused b p e prawtos_error_unsupported_admin (of_nat (length u) # u @ of_nat (length pw) # pw @ rest)
        else if length u = 255 \<or> length pw = 255 then prawtos_consume b (prawtos_parser_init p) e = Inl OutOfBounds
        else request_parsed b p e r rest
    | Delete u \<Rightarrow>
        if length u = 255 then prawtos_consume b (prawtos_parser_init p) e = Inl OutOfBounds else request_parsed b p e r rest
    | Edit u pw \<Rightarrow>
        if length u = 255 \<or> length pw = 255 then prawtos_consume b (prawtos_parser_init p) e = Inl OutOfBounds
        else request_parsed b p e r rest"
proof -
  have parsed: "request_parsed b p e r rest" if "prawtos_request_ok r"
    using prawtos_message_consumed [OF assms(1,2) that] by (simp add: request_parsed_def)
  show ?thesis
  proof (cases r)
    case (Create a u pw)
    then show ?thesis
      using parsed assms(2,3) name_sized_cases prawtos_refused [OF assms(1) _ _ prawtos_feed_bad_admin]
        prawtos_over [OF assms(1) prawtos_feed_long_create] by (auto simp: prawtos_failed_def)
  next
    case (Delete u)
    then show ?thesis
      using parsed assms(2,3) name_sized_cases prawtos_over [OF assms(1) prawtos_feed_long_delete] by auto
  next
    case (Edit u pw)
    then show ?thesis
      using parsed assms(2,3) name_sized_cases prawtos_over [OF assms(1) prawtos_feed_long_edit] by auto
  next
    case (Get c)
    then show ?thesis
      using parsed assms(2) prawtos_refused [OF assms(1) _ _ prawtos_feed_bad_cmd(1)] by (auto simp: prawtos_failed_def)
  next
    case (Sniff c)
    then show ?thesis
      using parsed assms(2) prawtos_refused [OF assms(1) _ _ prawtos_feed_bad_cmd(2)] by (auto simp: prawtos_failed_def)
  qed (use parsed in simp)
qed

definition prawtos_parser_any :: prawtos_parser where
  "prawtos_parser_any = \<lparr>pp_get = \<lparr>gt_cmd = 9\<rparr>, pp_user = user_zero, pp_type = 9,
     pp_state = prawtos_error, pp_n = 9, pp_i = 9\<rparr>"

theorem prawtos_message_parsed_witness:
  "\<exists>b' p'. prawtos_consume \<lparr>b_data = [1, 2, 1, 97, 2, 98, 99, 3], b_limit = 8, b_read = 0, b_write = 8\<rparr>
      (prawtos_parser_init prawtos_parser_any) False = Inr (b', p', False) \<and>
    prawtos_holds p' (Edit [97] [98, 99]) \<and> buf_content b' = [3]"
proof -
  let ?b = "\<lparr>b_data = [1, 2, 1, 97, 2, 98, 99, 3], b_limit = 8, b_read = 0, b_write = 8\<rparr>"
  have 1: "wf_buffer ?b" by (simp add: wf_buffer_def)
  have 2: "buf_content ?b = prawtos_message (Edit [97] [98, 99]) @ [3]"
    by (simp add: buf_content_def)
  have 3: "prawtos_request_sized (Edit [97] [98, 99])" by (simp add: name_sized_def)
  show ?thesis using prawtos_message_parsed [OF 1 2 3, of prawtos_parser_any False] by (auto simp: request_parsed_def)
qed

text \<open>
  Whatever bytes a client sends, in whatever pieces were buffered, a parse that ends without
  a fault leaves a parser in which the arrays have their size and a completed command is one the
  handlers have a table entry for (type at most 3, metric below 4, user command below 3); the
  error flag is raised exactly by a parser in an error state.
\<close>

theorem prawtos_consume_dispatchable:
  assumes "wf_buffer b" "prawtos_inv p" "\<not> prawtos_finished p"
    and "prawtos_consume b p e = Inr (b', p', e')"
  shows "prawtos_inv p' \<and> wf_buffer b' \<and> e' = (e \<or> prawtos_failed p') \<and>
    (pp_state p' = prawtos_parser_done \<longrightarrow> pp_type p' \<le> 3 \<and>
       (pp_type p' = 0 \<longrightarrow> gt_cmd (pp_get p') < 4) \<and> (pp_type p' = 1 \<longrightarrow> us_cmd (pp_user p') < 3)) \<and>
    (prawtos_finished p' \<or> buf_content b' = [])"
  using prw.consume_loop_pinv [OF assms(1,3,2)] assms(4)
  by (auto simp: prawtos_consume_def prawtos_inv_def)

theorem prawtos_consume_dispatchable_witness:
  "\<exists>b' p' e'. prawtos_consume \<lparr>b_data = [0, 3], b_limit = 2, b_read = 0, b_write = 2\<rparr>
      (prawtos_parser_init prawtos_parser_any) False = Inr (b', p', e') \<and> prawtos_inv p' \<and>
      pp_state p' = prawtos_parser_done \<and> gt_cmd (pp_get p') < 4"
proof -
  let ?b = "\<lparr>b_data = [0, 3 :: u8], b_limit = 2, b_read = 0, b_write = 2\<rparr>"
  have 1: "wf_buffer ?b" by (simp add: wf_buffer_def)
  have 2: "prawtos_inv (prawtos_parser_init prawtos_parser_any)"
    by (simp add: prawtos_inv_def prawtos_parser_init_def user_zero_def)
  have 3: "prawtos_consume ?b (prawtos_parser_init prawtos_parser_any) False =
     Inr (\<lparr>b_data = [0, 3], b_limit = 2, b_read = 0, b_write = 0\<rparr>,
        prawtos_parser_any\<lparr>pp_get := \<lparr>gt_cmd = 3\<rparr>, pp_type := 0, pp_state := prawtos_parser_done\<rparr>, False)"
    by (simp add: prawtos_consume_def consume_loop.simps buffer_can_read_def buffer_read_def
        buffer_read_adv_def buffer_compact_def prawtos_parser_any_def prawtos_parser_init_def
        prawtos_feed_simps prawtos_is_done_def peek_at_def)
  show ?thesis
    using prawtos_consume_dispatchable [OF 1 2 prawtos_init_not_finished 3] 3
    by (auto simp: prawtos_parser_any_def)
qed

text \<open>
  The room check of a metrics reply compares with the first argument byte instead of the
  reply's length: whenever the buffer has room for \<open>args[0] + 1\<close> bytes and the header but not for
  the whole reply, \<^const>\<open>get_marshal\<close> writes past the buffer instead of returning \<open>-1\<close>.
\<close>

theorem get_marshal_overflows:
  assumes "wf_buffer b" "unat (hd args) < buf_room b" "3 \<le> buf_room b"
    and "args \<noteq> []" "args_len \<le> length args" "buf_room b < 3 + args_len"
  shows "get_marshal b status cmd nargs args args_len = Inl OutOfBounds"
proof -
  obtain b1 b2 where b2: "buffer_poke b (b_write b) [status, cmd, nargs] = Inr b1"
    "buffer_write_adv b1 3 = Inr b2" "b_limit b2 = b_limit b" "wf_buffer b2"
    using assms by (rule_tac poke_adv_wf [of b "[status, cmd, nargs]"]) auto
  then have "length (b_data b2) = length (b_data b)" using assms(1) by (simp add: wf_buffer_def)
  with assms have "buffer_poke b2 (b_write b + 3) (take args_len args) = Inl OutOfBounds"
    by (auto simp: buffer_poke_def blit_def buf_room_def wf_buffer_def)
  with b2(1,2) assms show ?thesis by (simp add: get_marshal_def write_ptr_wf hd_conv_nth)
qed

theorem get_marshal_overflows_witness:
  "get_marshal \<lparr>b_data = replicate 5 0, b_limit = 5, b_read = 0, b_write = 0\<rparr> 0 3 1
     [2, 97, 98] 3 = Inl OutOfBounds"
  by (rule get_marshal_overflows) (auto simp: wf_buffer_def buf_room_def)

end
