(* ===== verification/UserUtils.thy ===== *)
theory UserUtils
  imports Prelude
begin

text \<open>
  The list of administrators, \<^verbatim>\<open>src/user_utils.c\<close>: a linked list of users whose name and
  password live in heap blocks of their own. The chain of \<^verbatim>\<open>next\<close> pointers is a list, a
  block is the list of its bytes, and \<^verbatim>\<open>malloc\<close> and \<^verbatim>\<open>realloc\<close> succeed; the cells
  they leave indeterminate are 0 in the model and no operation reads them before writing them. The
  static variable \<^verbatim>\<open>list\<close> is passed explicitly.
\<close>

section \<open>State and operations\<close>

record user =
  u_is_admin :: bool
  u_username :: "u8 list"
  u_ulen :: u8
  u_password :: "u8 list"
  u_upass :: u8

record user_list =
  ul_first :: "user list"
  ul_size :: int

fun add_user_rec ::
  "user list \<Rightarrow> u8 list \<Rightarrow> u8 \<Rightarrow> u8 list \<Rightarrow> u8 \<Rightarrow> bool \<Rightarrow> (user list \<times> bool) res" where
  "add_user_rec [] username ulen password plen admin =
     bindr (read_cells username 0 (unat ulen)) (\<lambda>un.
     bindr (read_cells password 0 (unat plen)) (\<lambda>pw.
     Inr ([\<lparr>u_is_admin = admin, u_username = un, u_ulen = ulen,
            u_password = pw, u_upass = plen\<rparr>], True)))"
| "add_user_rec (first # next) username ulen password plen admin =
     bindr (c_strcmp (u_username first) username) (\<lambda>c.
     if c = 0 then Inr (first # next, False)
     else bindr (add_user_rec next username ulen password plen admin) (\<lambda>(next', added).
          Inr (first # next', added)))"

definition add_user ::
  "user_list \<Rightarrow> u8 list \<Rightarrow> u8 \<Rightarrow> u8 list \<Rightarrow> u8 \<Rightarrow> bool \<Rightarrow> (bool \<times> user_list) res" where
  "add_user l username ulen password plen admin =
     bindr (add_user_rec (ul_first l) username ulen password plen admin) (\<lambda>(first, added).
     Inr (added, if added then l\<lparr>ul_first := first, ul_size := ul_size l + 1\<rparr>
                 else l\<lparr>ul_first := first\<rparr>))"

text \<open>
  The loop \<open>delete_user\<close> and \<open>edit_user\<close> share: the users passed and the rest of the list from
  \<^verbatim>\<open>curr\<close> on, empty when no name matches.
\<close>

fun find_user :: "user list \<Rightarrow> u8 list \<Rightarrow> (user list \<times> user list) res" where
  "find_user [] username = Inr ([], [])"
| "find_user (cur # next) username =
     bindr (c_strcmp (u_username cur) username) (\<lambda>c.
     if c = 0 then Inr ([], cur # next)
     else bindr (find_user next username) (\<lambda>(before, rest). Inr (cur # before, rest)))"

definition delete_user :: "user_list \<Rightarrow> u8 list \<Rightarrow> u8 \<Rightarrow> (bool \<times> user_list) res" where
  "delete_user l username ulen =
     bindr (find_user (ul_first l) username) (\<lambda>(before, rest).
     case rest of
       [] \<Rightarrow> Inr (False, l)
     | cur # aux \<Rightarrow> Inr (True, l\<lparr>ul_first := before @ aux, ul_size := ul_size l - 1\<rparr>))"

definition realloc_block :: "u8 list \<Rightarrow> nat \<Rightarrow> u8 list" where
  "realloc_block d n = take n d @ replicate (n - length d) 0"

definition edit_user ::
  "user_list \<Rightarrow> u8 list \<Rightarrow> u8 \<Rightarrow> u8 list \<Rightarrow> u8 \<Rightarrow> (bool \<times> user_list) res" where
  "edit_user l username ulen password upass =
     bindr (find_user (ul_first l) username) (\<lambda>(before, rest).
     case rest of
       [] \<Rightarrow> Inr (False, l)
     | cur # aux \<Rightarrow>
         bindr (c_strcmp (u_username cur) username) (\<lambda>c.
         if c = 0 then
           bindr (c_strcpy (realloc_block (u_password cur) (unat upass)) 0 password) (\<lambda>pw.
           Inr (True, l\<lparr>ul_first := before @ cur\<lparr>u_password := pw, u_upass := upass\<rparr> # aux\<rparr>))
         else Inr (False, l)))"

text \<open>
  \<open>get_all_loop k us init d cont\<close>: \<open>k\<close> rounds left, \<open>us\<close> from \<^verbatim>\<open>user\<close> on, \<open>d\<close> the block
  \<^verbatim>\<open>all_users\<close> of \<^verbatim>\<open>init\<close> bytes.
\<close>

fun get_all_loop :: "nat \<Rightarrow> user list \<Rightarrow> nat \<Rightarrow> u8 list \<Rightarrow> nat \<Rightarrow> (u8 list \<times> nat) res" where
  "get_all_loop 0 us init d cont = Inr (d, cont)"
| "get_all_loop (Suc k) [] init d cont = Inl NullPointer"
| "get_all_loop (Suc k) (user # us) init d cont =
     (let grow = cont \<ge> init \<or> cont + unat (u_ulen user) \<ge> init;
          init' = (if grow then init * 2 else init);
          d' = (if grow then realloc_block d init' else d) in
      bindr (poke_at d' cont (u_ulen user)) (\<lambda>d1.
      bindr (c_strcpy d1 (Suc cont) (u_username user)) (\<lambda>d2.
      get_all_loop k us init' d2 (Suc cont + unat (u_ulen user)))))"

definition get_all_users :: "user_list \<Rightarrow> (u8 list \<times> nat) res" where
  "get_all_users l = get_all_loop (nat (ul_size l)) (ul_first l) 255 (replicate 255 0) 0"

definition get_nusers :: "user_list \<Rightarrow> int" where
  "get_nusers l = ul_size l"

text \<open>The conjunction is evaluated from left to right and stops at the first false conjunct.\<close>

fun check_loop :: "user list \<Rightarrow> u8 list \<Rightarrow> u8 list \<Rightarrow> int res" where
  "check_loop [] uname passwd = Inr 1"
| "check_loop (current # next) uname passwd =
     bindr (c_strcmp uname (u_username current)) (\<lambda>c.
     if c = 0 then
       bindr (c_strcmp passwd (u_password current)) (\<lambda>c'.
       if c' = 0 \<and> u_is_admin current then Inr 0 else check_loop next uname passwd)
     else check_loop next uname passwd)"

definition user_check_credentials :: "user_list \<Rightarrow> u8 list \<Rightarrow> u8 list \<Rightarrow> int res" where
  "user_check_credentials l uname passwd = check_loop (ul_first l) uname passwd"

definition init_user_list :: "user_list res" where
  "init_user_list =
     (let l0 = \<lparr>ul_first = [], ul_size = 0\<rparr> in
      bindr (add_user l0 (c_lit ''admin2'') 7 (c_lit ''alggo2'') 7 True) (\<lambda>(_, l1).
      bindr (add_user l1 (c_lit ''admin'') 6 (c_lit ''alggo'') 6 True) (\<lambda>(_, l2).
      bindr (add_user l2 (c_lit ''pruebita'') 9 (c_lit ''pruebita'') 9 True) (\<lambda>(_, l3).
      Inr l3))))"

section \<open>Invariant and abstraction\<close>

definition wf_user :: "user \<Rightarrow> bool" where
  "wf_user u \<longleftrightarrow> terminated (u_username u) \<and> terminated (u_password u)"

abbreviation user_name :: "user \<Rightarrow> u8 list" where
  "user_name u \<equiv> c_str (u_username u)"

definition wf_users :: "user_list \<Rightarrow> bool" where
  "wf_users l \<longleftrightarrow> (\<forall>u \<in> set (ul_first l). wf_user u) \<and> distinct (map user_name (ul_first l)) \<and>
     ul_size l = int (length (ul_first l))"

definition user_entry :: "user \<Rightarrow> u8 list \<times> u8 list \<times> bool" where
  "user_entry u = (user_name u, c_str (u_password u), u_is_admin u)"

text \<open>What the list stands for: a map from names to password and administrator flag.\<close>

definition user_db :: "user_list \<Rightarrow> u8 list \<Rightarrow> (u8 list \<times> bool) option" where
  "user_db l = map_of (map user_entry (ul_first l))"

text \<open>The arguments the operations work for: \<open>n\<close> bytes of \<open>d\<close> that hold a whole string.\<close>

definition str_arg :: "u8 list \<Rightarrow> u8 \<Rightarrow> bool" where
  "str_arg d n \<longleftrightarrow> unat n \<le> length d \<and> terminated (take (unat n) d)"

lemma terminated_take: "terminated (take n d) \<Longrightarrow> terminated d"
  by (auto simp: terminated_def dest: in_set_takeD)

lemma c_str_take: "terminated (take n d) \<Longrightarrow> c_str (take n d) = c_str d"
  by (induction d arbitrary: n) (auto simp: take_Cons' split: if_splits)

lemma find_user_ok:
  assumes "\<forall>u \<in> set us. wf_user u" "terminated n"
  shows "find_user us n = Inr (takeWhile (\<lambda>u. user_name u \<noteq> c_str n) us,
                               dropWhile (\<lambda>u. user_name u \<noteq> c_str n) us)"
  using assms
proof (induction us)
  case (Cons u us)
  then obtain d where "c_strcmp (u_username u) n = Inr d" "d = 0 \<longleftrightarrow> user_name u = c_str n"
    using c_strcmp_total [of "u_username u" n] by (auto simp: wf_user_def)
  with Cons show ?case by simp
qed simp

lemma add_user_rec_ok:
  assumes "\<forall>u \<in> set us. wf_user u" "str_arg n nl" "str_arg p pl"
  shows "add_user_rec us n nl p pl a =
    (if c_str n \<in> set (map user_name us) then Inr (us, False)
     else Inr (us @ [\<lparr>u_is_admin = a, u_username = take (unat nl) n, u_ulen = nl,
                      u_password = take (unat pl) p, u_upass = pl\<rparr>], True))"
  using assms
proof (induction us)
  case (Cons u us)
  then obtain d where "c_strcmp (u_username u) n = Inr d" "d = 0 \<longleftrightarrow> user_name u = c_str n"
    using c_strcmp_total [of "u_username u" n] terminated_take [of "unat nl" n]
    by (auto simp: wf_user_def str_arg_def)
  with Cons show ?case by auto
qed (auto simp: str_arg_def)

text \<open>A fresh name is appended with the given lengths, whether or not they count the NUL.\<close>

lemma add_user_rec_fresh:
  assumes "\<forall>u \<in> set us. wf_user u" "terminated n" "c_str n \<notin> set (map user_name us)"
    "unat nl \<le> length n" "unat pl \<le> length p"
  shows "add_user_rec us n nl p pl a =
    Inr (us @ [\<lparr>u_is_admin = a, u_username = take (unat nl) n, u_ulen = nl,
                u_password = take (unat pl) p, u_upass = pl\<rparr>], True)"
  using assms
proof (induction us)
  case (Cons u us)
  then obtain d where "c_strcmp (u_username u) n = Inr d" "d \<noteq> 0"
    using c_strcmp_total [of "u_username u" n] by (auto simp: wf_user_def)
  with Cons show ?case by simp
qed simp

lemma check_loop_ok:
  assumes "\<forall>u \<in> set us. wf_user u" "terminated n" "terminated p"
  shows "check_loop us n p =
    (if \<exists>u \<in> set us. user_entry u = (c_str n, c_str p, True) then Inr 0 else Inr 1)"
  using assms
proof (induction us)
  case (Cons u us)
  obtain d where d: "c_strcmp n (u_username u) = Inr d" "d = 0 \<longleftrightarrow> c_str n = user_name u"
    using c_strcmp_total [of n "u_username u"] Cons.prems by (auto simp: wf_user_def)
  obtain e where e: "c_strcmp p (u_password u) = Inr e" "e = 0 \<longleftrightarrow> c_str p = c_str (u_password u)"
    using c_strcmp_total [of p "u_password u"] Cons.prems by (auto simp: wf_user_def)
  from d e Cons show ?case by (auto simp: user_entry_def)
qed simp

lemma fst_user_entry [simp]: "fst (user_entry u) = user_name u"
  by (simp add: user_entry_def)

lemma fst_user_entries: "fst ` set (map user_entry us) = set (map user_name us)"
  by (simp add: image_image)

lemma user_db_None: "user_db l n = None \<longleftrightarrow> n \<notin> set (map user_name (ul_first l))"
  unfolding user_db_def map_of_eq_None_iff fst_user_entries ..

lemma user_db_Some:
  "wf_users l \<Longrightarrow> user_db l n = Some v \<longleftrightarrow> (\<exists>u \<in> set (ul_first l). user_entry u = (n, v))"
proof -
  assume "wf_users l"
  then have "distinct (map fst (map user_entry (ul_first l)))"
    by (simp add: wf_users_def user_entry_def comp_def)
  then show ?thesis by (auto simp: user_db_def image_iff eq_commute)
qed

section \<open>What each operation does to the map\<close>

lemma add_user_ok:
  assumes "wf_users l" "str_arg n nl" "str_arg p pl"
  shows "\<exists>l'. add_user l n nl p pl a = Inr (user_db l (c_str n) = None, l') \<and> wf_users l' \<and>
    user_db l' = (if user_db l (c_str n) = None then (user_db l)(c_str n \<mapsto> (c_str p, a)) else user_db l)"
proof -
  have "\<forall>u \<in> set (ul_first l). wf_user u" using assms(1) by (simp add: wf_users_def)
  note r = add_user_rec_ok [OF this assms(2,3)]
  have t: "c_str (take (unat nl) n) = c_str n" "c_str (take (unat pl) p) = c_str p"
    using assms by (simp_all add: str_arg_def c_str_take)
  show ?thesis
  proof (cases "user_db l (c_str n) = None")
    case True
    then have nin: "c_str n \<notin> set (map user_name (ul_first l))" by (simp only: user_db_None) simp
    then have "map_of (map user_entry (ul_first l)) (c_str n) = None"
      using True by (simp add: user_db_def)
    with nin True assms t show ?thesis
      by (auto simp: add_user_def r wf_users_def wf_user_def str_arg_def user_db_def
          user_entry_def map_add_def fun_eq_iff split: option.splits)
  next
    case False
    then have "c_str n \<in> set (map user_name (ul_first l))" by (simp only: user_db_None) simp
    moreover from False have "(user_db l (c_str n) = None) = False" by simp
    ultimately show ?thesis using assms(1) by (simp add: add_user_def r del: not_None_eq)
  qed
qed

text \<open>A list with pairwise different names cut at a name.\<close>

lemma split_at_user:
  assumes "wf_users l" "dropWhile (\<lambda>u. user_name u \<noteq> k) (ul_first l) = c # aux"
  shows "ul_first l = takeWhile (\<lambda>u. user_name u \<noteq> k) (ul_first l) @ c # aux \<and> user_name c = k \<and>
    k \<notin> set (map user_name (takeWhile (\<lambda>u. user_name u \<noteq> k) (ul_first l) @ aux))"
proof -
  let ?t = "takeWhile (\<lambda>u. user_name u \<noteq> k) (ul_first l)"
  have eq: "ul_first l = ?t @ c # aux" using assms(2) by (metis takeWhile_dropWhile_id)
  have k: "user_name c = k" using assms(2) by (metis (lifting) dropWhile_eq_Cons_conv)
  have "distinct (map user_name (?t @ c # aux))" using assms(1) by (simp flip: eq add: wf_users_def)
  with k have "k \<notin> set (map user_name (?t @ aux))" by auto
  with k eq show ?thesis by blast
qed

lemma dropWhile_Nil_db:
  "dropWhile (\<lambda>u. user_name u \<noteq> k) (ul_first l) = [] \<longleftrightarrow> user_db l k = None"
  by (auto simp: user_db_None)

lemma map_of_cut:
  assumes "k \<notin> fst ` set xs" "k \<notin> fst ` set ys"
  shows "map_of (xs @ (k, v) # ys) = (map_of (xs @ ys))(k \<mapsto> v)"
    "map_of (xs @ ys) = (map_of (xs @ (k, v) # ys))(k := None)"
proof -
  have "map_of xs k = None" "map_of ys k = None" using assms by (simp_all add: map_of_eq_None_iff)
  then show "map_of (xs @ (k, v) # ys) = (map_of (xs @ ys))(k \<mapsto> v)"
    "map_of (xs @ ys) = (map_of (xs @ (k, v) # ys))(k := None)"
    by (auto simp: fun_eq_iff map_add_def split: option.splits)
qed

lemma user_db_cut:
  assumes "ul_first l = t @ c # aux" "user_name c \<notin> set (map user_name (t @ aux))"
  shows "user_db l =
      (map_of (map user_entry (t @ aux)))(user_name c \<mapsto> (c_str (u_password c), u_is_admin c))"
    "map_of (map user_entry (t @ aux)) = (user_db l)(user_name c := None)"
proof -
  have n: "user_name c \<notin> fst ` set (map user_entry t)" "user_name c \<notin> fst ` set (map user_entry aux)"
    using assms(2) unfolding fst_user_entries by auto
  have e: "map user_entry (ul_first l) = map user_entry t @
      (user_name c, (c_str (u_password c), u_is_admin c)) # map user_entry aux"
    using assms(1) by (simp add: user_entry_def)
  show "user_db l =
      (map_of (map user_entry (t @ aux)))(user_name c \<mapsto> (c_str (u_password c), u_is_admin c))"
    unfolding user_db_def e map_append by (rule map_of_cut(1) [OF n])
  show "map_of (map user_entry (t @ aux)) = (user_db l)(user_name c := None)"
    unfolding user_db_def e map_append by (rule map_of_cut(2) [OF n])
qed

lemma wf_users_remove:
  "wf_users l \<Longrightarrow> ul_first l = t @ c # aux \<Longrightarrow>
     wf_users (l\<lparr>ul_first := t @ aux, ul_size := ul_size l - 1\<rparr>)"
  by (auto simp: wf_users_def)

lemma wf_users_replace:
  "wf_users l \<Longrightarrow> ul_first l = t @ c # aux \<Longrightarrow> wf_user c' \<Longrightarrow> user_name c' = user_name c \<Longrightarrow>
     wf_users (l\<lparr>ul_first := t @ c' # aux\<rparr>)"
  by (auto simp: wf_users_def)

lemma delete_user_ok:
  assumes "wf_users l" "terminated n"
  shows "\<exists>l'. delete_user l n nl = Inr (user_db l (c_str n) \<noteq> None, l') \<and> wf_users l' \<and>
    user_db l' = (user_db l)(c_str n := None)"
proof -
  have w: "\<forall>u \<in> set (ul_first l). wf_user u" using assms(1) by (simp add: wf_users_def)
  note f = find_user_ok [OF this assms(2)]
  show ?thesis
  proof (cases "dropWhile (\<lambda>u. user_name u \<noteq> c_str n) (ul_first l)")
    case Nil
    then have "user_db l (c_str n) = None" by (simp only: dropWhile_Nil_db)
    moreover have "find_user (ul_first l) n =
        Inr (takeWhile (\<lambda>u. user_name u \<noteq> c_str n) (ul_first l), [])" by (simp only: f Nil)
    ultimately show ?thesis using assms by (simp add: delete_user_def fun_upd_idem)
  next
    case (Cons c aux)
    let ?t = "takeWhile (\<lambda>u. user_name u \<noteq> c_str n) (ul_first l)"
    note s = split_at_user [OF assms(1) Cons]
    have "user_db l (c_str n) \<noteq> None" using Cons dropWhile_Nil_db [of "c_str n" l] by simp
    moreover have "map_of (map user_entry (?t @ aux)) = (user_db l)(c_str n := None)"
      using user_db_cut(2) [of l ?t c aux] s by metis
    moreover have "wf_users (l\<lparr>ul_first := ?t @ aux, ul_size := ul_size l - 1\<rparr>)"
      using wf_users_remove [OF assms(1)] s by blast
    ultimately show ?thesis by (simp add: delete_user_def f Cons user_db_def)
  qed
qed

text \<open>\<open>upass\<close> has to count the NUL: \<^verbatim>\<open>strcpy\<close> writes it into the resized block.\<close>

lemma edit_user_ok:
  assumes "wf_users l" "terminated n" "terminated p" "length (c_str p) < unat pl"
  shows "\<exists>l'. edit_user l n nl p pl = Inr (user_db l (c_str n) \<noteq> None, l') \<and> wf_users l' \<and>
    user_db l' = (case user_db l (c_str n) of None \<Rightarrow> user_db l
       | Some (_, a) \<Rightarrow> (user_db l)(c_str n \<mapsto> (c_str p, a)))"
proof -
  have w: "\<forall>u \<in> set (ul_first l). wf_user u" using assms(1) by (simp add: wf_users_def)
  note f = find_user_ok [OF this assms(2)]
  show ?thesis
  proof (cases "dropWhile (\<lambda>u. user_name u \<noteq> c_str n) (ul_first l)")
    case Nil
    then have "user_db l (c_str n) = None" by (simp only: dropWhile_Nil_db)
    moreover have "find_user (ul_first l) n =
        Inr (takeWhile (\<lambda>u. user_name u \<noteq> c_str n) (ul_first l), [])" by (simp only: f Nil)
    ultimately show ?thesis using assms by (simp add: edit_user_def)
  next
    case (Cons c aux)
    let ?t = "takeWhile (\<lambda>u. user_name u \<noteq> c_str n) (ul_first l)"
    note s = split_at_user [OF assms(1) Cons]
    let ?pw = "c_str p @ 0 # drop (Suc (length (c_str p))) (realloc_block (u_password c) (unat pl))"
    let ?c = "c\<lparr>u_password := ?pw, u_upass := pl\<rparr>"
    have "c \<in> set (ul_first l)" using s by (metis in_set_conv_decomp)
    then have wc: "wf_user c" using w by blast
    have "length (realloc_block (u_password c) (unat pl)) = unat pl" by (simp add: realloc_block_def)
    then have cpy: "c_strcpy (realloc_block (u_password c) (unat pl)) 0 p = Inr ?pw"
      using assms(3,4) by (simp add: c_strcpy_def take_Suc_c_str)
    have cmp: "c_strcmp (u_username c) n = Inr 0" using wc s assms(2) by (simp add: c_strcmp_eq_0 wf_user_def)
    have db: "user_db l = (map_of (map user_entry (?t @ aux)))(c_str n \<mapsto> (c_str (u_password c), u_is_admin c))"
      using user_db_cut(1) [of l ?t c aux] s by metis
    have db': "user_db (l\<lparr>ul_first := ?t @ ?c # aux\<rparr>) =
        (map_of (map user_entry (?t @ aux)))(c_str n \<mapsto> (c_str p, u_is_admin c))"
      using user_db_cut(1) [of "l\<lparr>ul_first := ?t @ ?c # aux\<rparr>" ?t ?c aux] s by simp
    have wf: "wf_users (l\<lparr>ul_first := ?t @ ?c # aux\<rparr>)"
      using s wc by (intro wf_users_replace [OF assms(1)]) (auto simp: wf_user_def)
    have run: "edit_user l n nl p pl = Inr (True, l\<lparr>ul_first := ?t @ ?c # aux\<rparr>)"
      by (simp add: edit_user_def f Cons cmp cpy)
    from db db' have "user_db (l\<lparr>ul_first := ?t @ ?c # aux\<rparr>) =
        (user_db l)(c_str n \<mapsto> (c_str p, u_is_admin c))" by simp
    with run wf db show ?thesis by simp
  qed
qed

lemma user_check_credentials_ok:
  assumes "wf_users l" "terminated n" "terminated p"
  shows "user_check_credentials l n p =
    Inr (if user_db l (c_str n) = Some (c_str p, True) then 0 else 1)"
proof -
  have "\<forall>u \<in> set (ul_first l). wf_user u" using assms(1) by (simp add: wf_users_def)
  from check_loop_ok [OF this assms(2,3)] show ?thesis
    by (auto simp: user_check_credentials_def user_db_Some [OF assms(1)])
qed

section \<open>The listing\<close>

text \<open>A user whose block is exactly its name and the NUL, counted by \<^verbatim>\<open>ulen\<close>.\<close>

definition exact_user :: "user \<Rightarrow> bool" where
  "exact_user u \<longleftrightarrow> u_username u = user_name u @ [0] \<and> unat (u_ulen u) = length (u_username u)"

definition user_records :: "user list \<Rightarrow> u8 list" where
  "user_records us = concat (map (\<lambda>u. u_ulen u # user_name u @ [0]) us)"

lemma exact_user_strlen:
  "exact_user u \<Longrightarrow> c_strcpy d off (u_username u) = blit d off (u_username u)"
  by (metis (no_types, lifting) bindr_Inr c_strcpy_def c_strlen_terminated exact_user_def
      take_Suc_c_str terminated_append terminated_simps(2))

lemma get_all_loop_step:
  assumes "exact_user u" "unat (u_ulen u) < 255" "length d = init" "255 \<le> init" "cont \<le> init"
  obtains d' init' where
    "get_all_loop (Suc k) (u # us) init d cont =
       get_all_loop k us init' d' (Suc cont + unat (u_ulen u))"
    "length d' = init'" "255 \<le> init'" "Suc cont + unat (u_ulen u) \<le> init'"
    "take (Suc cont + unat (u_ulen u)) d' = take cont d @ u_ulen u # u_username u"
proof -
  define grow where "grow = (cont \<ge> init \<or> cont + unat (u_ulen u) \<ge> init)"
  define i' where "i' = (if grow then init * 2 else init)"
  define d0 where "d0 = (if grow then realloc_block d i' else d)"
  have l0: "length d0 = i'" "take cont d0 = take cont d" and i': "255 \<le> i'"
    using assms by (auto simp: d0_def i'_def realloc_block_def)
  have fit: "Suc cont + unat (u_ulen u) \<le> i'" using assms by (auto simp: i'_def grow_def)
  let ?d1 = "d0[cont := u_ulen u]"
  let ?d2 = "take (Suc cont) ?d1 @ u_username u @ drop (Suc cont + length (u_username u)) ?d1"
  have lu: "length (u_username u) = unat (u_ulen u)" using assms(1) by (simp add: exact_user_def)
  have "get_all_loop (Suc k) (u # us) init d cont =
      bindr (poke_at d0 cont (u_ulen u)) (\<lambda>d1.
      bindr (c_strcpy d1 (Suc cont) (u_username u)) (\<lambda>d2.
      get_all_loop k us i' d2 (Suc cont + unat (u_ulen u))))"
    unfolding d0_def i'_def grow_def by (simp only: get_all_loop.simps Let_def)
  also have "\<dots> = get_all_loop k us i' ?d2 (Suc cont + unat (u_ulen u))"
    using fit l0 lu assms(1) by (simp add: exact_user_strlen)
  finally have "get_all_loop (Suc k) (u # us) init d cont =
      get_all_loop k us i' ?d2 (Suc cont + unat (u_ulen u))" .
  moreover have "take (Suc cont) ?d1 = take cont d @ [u_ulen u]"
    using fit l0 by (simp add: take_list_update_snoc)
  ultimately show thesis using that [of i' ?d2] fit l0 lu i' assms(3,5) by (simp del: get_all_loop.simps)
qed

lemma get_all_loop_ok:
  assumes "\<forall>u \<in> set us. exact_user u \<and> unat (u_ulen u) < 255"
    "length d = init" "255 \<le> init" "cont \<le> init"
  shows "\<exists>d' n. get_all_loop (length us) us init d cont = Inr (d', n) \<and> n \<le> length d' \<and>
    take n d' = take cont d @ user_records us"
  using assms
proof (induction us arbitrary: d init cont)
  case (Cons u us)
  then have "exact_user u" "unat (u_ulen u) < 255" by auto
  from get_all_loop_step [OF this Cons.prems(2-4), of "length us" us] obtain d' init' where
    s: "get_all_loop (Suc (length us)) (u # us) init d cont =
       get_all_loop (length us) us init' d' (Suc cont + unat (u_ulen u))"
    "length d' = init'" "255 \<le> init'" "Suc cont + unat (u_ulen u) \<le> init'"
    "take (Suc cont + unat (u_ulen u)) d' = take cont d @ u_ulen u # u_username u" .
  have "u_username u = user_name u @ [0]" using Cons.prems(1) by (simp add: exact_user_def)
  with Cons.IH [OF _ s(2-4)] Cons.prems(1) s(1,5) show ?case by (auto simp: user_records_def)
qed (auto simp: user_records_def)

text \<open>A name without its NUL in the list: copying it reads past its block.\<close>

lemma get_all_loop_unterminated:
  assumes "\<forall>u \<in> set us. exact_user u \<and> unat (u_ulen u) < 255" "\<not> terminated (u_username v)"
    "length d = init" "255 \<le> init" "cont \<le> init"
  shows "get_all_loop (length us + Suc k) (us @ v # vs) init d cont = Inl OutOfBounds"
  using assms
proof (induction us arbitrary: d init cont)
  case Nil
  then show ?case by (auto simp: Let_def c_strcpy_def c_strlen_unterminated bindr_def poke_at_def)
next
  case (Cons u us)
  then have "exact_user u" "unat (u_ulen u) < 255" by auto
  from get_all_loop_step [OF this Cons.prems(3-5), of "length us + Suc k" "us @ v # vs"]
  obtain d' init' where
    s: "get_all_loop (Suc (length us + Suc k)) (u # us @ v # vs) init d cont =
       get_all_loop (length us + Suc k) (us @ v # vs) init' d' (Suc cont + unat (u_ulen u))"
    "length d' = init'" "255 \<le> init'" "Suc cont + unat (u_ulen u) \<le> init'" .
  from Cons.IH [OF _ Cons.prems(2) s(2-4)] Cons.prems(1) s(1) show ?case
    by (simp del: get_all_loop.simps)
qed

lemma edit_user_overflow:
  assumes "wf_users l" "terminated n" "terminated p" "user_db l (c_str n) \<noteq> None"
    "unat pl \<le> length (c_str p)"
  shows "edit_user l n nl p pl = Inl OutOfBounds"
proof -
  have w: "\<forall>u \<in> set (ul_first l). wf_user u" using assms(1) by (simp add: wf_users_def)
  obtain c aux where d: "dropWhile (\<lambda>u. user_name u \<noteq> c_str n) (ul_first l) = c # aux"
    using assms(4) dropWhile_Nil_db [of "c_str n" l] by (metis list.exhaust)
  note s = split_at_user [OF assms(1) d]
  then have "c \<in> set (ul_first l)" by (metis in_set_conv_decomp)
  then have "c_strcmp (u_username c) n = Inr 0"
    using w s assms(2) by (simp add: c_strcmp_eq_0 wf_user_def)
  moreover have "length (realloc_block (u_password c) (unat pl)) = unat pl"
    by (simp add: realloc_block_def)
  ultimately show ?thesis using assms(3,5) length_c_str_terminated [OF assms(3)]
    by (simp add: edit_user_def find_user_ok [OF w assms(2)] d c_strcpy_def take_Suc_c_str blit_def)
qed

section \<open>Any list\<close>

text \<open>
  What holds without well-formedness: the recorded size stays the length of the list, and the only
  faults are accesses out of bounds.
\<close>

definition users_len :: "user_list \<Rightarrow> bool" where
  "users_len l \<longleftrightarrow> ul_size l = int (length (ul_first l))"

lemma add_user_rec_len:
  "add_user_rec us n nl p pl a = Inr (us', added) \<Longrightarrow>
     length us' = (if added then Suc (length us) else length us)"
  by (induction us arbitrary: us') (auto simp: res_simps split: if_splits)

lemma add_user_len: "users_len l \<Longrightarrow> add_user l n nl p pl a = Inr (added, l') \<Longrightarrow> users_len l'"
  by (cases "add_user_rec (ul_first l) n nl p pl a")
    (auto simp: add_user_def users_len_def dest: add_user_rec_len)

lemma find_user_append: "find_user us n = Inr (before, rest) \<Longrightarrow> us = before @ rest"
  by (induction us arbitrary: before) (auto simp: res_simps split: if_splits)

lemma delete_user_len: "users_len l \<Longrightarrow> delete_user l n nl = Inr (found, l') \<Longrightarrow> users_len l'"
  using find_user_append [of "ul_first l" n]
  by (cases "find_user (ul_first l) n") (auto simp: delete_user_def users_len_def split: list.splits)

lemma edit_user_len: "users_len l \<Longrightarrow> edit_user l n nl p pl = Inr (found, l') \<Longrightarrow> users_len l'"
  using find_user_append [of "ul_first l" n]
  by (cases "find_user (ul_first l) n")
    (auto simp: edit_user_def users_len_def res_simps split: list.splits if_splits)

lemma find_user_oob [oob_intros]: "oob (find_user us n)"
  by (induction us) (auto intro!: oob_intros)

lemma add_user_oob [oob_intros]: "oob (add_user l n nl p pl a)"
proof -
  have "oob (add_user_rec us n nl p pl a)" for us by (induction us) (auto intro!: oob_intros)
  then show ?thesis unfolding add_user_def by (auto intro!: oob_intros)
qed

lemma delete_user_oob [oob_intros]: "oob (delete_user l n nl)"
  unfolding delete_user_def by (auto intro!: oob_intros split: list.splits)

lemma edit_user_oob [oob_intros]: "oob (edit_user l n nl p pl)"
  unfolding edit_user_def by (auto intro!: oob_intros split: list.splits)

lemma get_all_loop_oob: "k \<le> length us \<Longrightarrow> oob (get_all_loop k us init d cont)"
  by (induction k us init d cont rule: get_all_loop.induct) (auto simp: Let_def intro!: oob_intros)

lemma get_all_users_oob: "users_len l \<Longrightarrow> oob (get_all_users l)"
  unfolding get_all_users_def users_len_def by (auto intro: get_all_loop_oob)

lemma user_check_credentials_oob [oob_intros]: "oob (user_check_credentials l n p)"
proof -
  have "oob (check_loop us n p)" for us by (induction us) (auto intro!: oob_intros)
  then show ?thesis by (simp add: user_check_credentials_def)
qed

section \<open>The interface the handlers use\<close>

text \<open>
  What the authentication and command handlers rely on, over an abstract map \<open>db\<close> from names to
  password and administrator flag; the lemmas are proved once for every provider of the laws.
\<close>

locale user_store =
  fixes inv :: "'s \<Rightarrow> bool" and db :: "'s \<Rightarrow> u8 list \<Rightarrow> (u8 list \<times> bool) option"
    and check :: "'s \<Rightarrow> u8 list \<Rightarrow> u8 list \<Rightarrow> int res"
    and add :: "'s \<Rightarrow> u8 list \<Rightarrow> u8 \<Rightarrow> u8 list \<Rightarrow> u8 \<Rightarrow> bool \<Rightarrow> (bool \<times> 's) res"
    and del :: "'s \<Rightarrow> u8 list \<Rightarrow> u8 \<Rightarrow> (bool \<times> 's) res"
    and edit :: "'s \<Rightarrow> u8 list \<Rightarrow> u8 \<Rightarrow> u8 list \<Rightarrow> u8 \<Rightarrow> (bool \<times> 's) res"
  assumes check_law: "inv s \<Longrightarrow> terminated n \<Longrightarrow> terminated p \<Longrightarrow>
      check s n p = Inr (if db s (c_str n) = Some (c_str p, True) then 0 else 1)"
    and add_law: "inv s \<Longrightarrow> str_arg n nl \<Longrightarrow> str_arg p pl \<Longrightarrow>
      \<exists>s'. add s n nl p pl a = Inr (db s (c_str n) = None, s') \<and> inv s' \<and>
        db s' = (if db s (c_str n) = None then (db s)(c_str n \<mapsto> (c_str p, a)) else db s)"
    and del_law: "inv s \<Longrightarrow> terminated n \<Longrightarrow>
      \<exists>s'. del s n nl = Inr (db s (c_str n) \<noteq> None, s') \<and> inv s' \<and> db s' = (db s)(c_str n := None)"
    and edit_law: "inv s \<Longrightarrow> terminated n \<Longrightarrow> terminated p \<Longrightarrow> length (c_str p) < unat pl \<Longrightarrow>
      \<exists>s'. edit s n nl p pl = Inr (db s (c_str n) \<noteq> None, s') \<and> inv s' \<and>
        db s' = (case db s (c_str n) of None \<Rightarrow> db s
          | Some (_, a) \<Rightarrow> (db s)(c_str n \<mapsto> (c_str p, a)))"
begin

lemma add_check:
  assumes "inv s" "str_arg n nl" "str_arg p pl" "db s (c_str n) = None" "terminated q"
  shows "\<exists>s'. add s n nl p pl a = Inr (True, s') \<and> inv s' \<and>
    check s' n q = Inr (if c_str q = c_str p \<and> a then 0 else 1)"
  using add_law [OF assms(1-3), of a] assms check_law [of _ n q] terminated_take [of "unat nl" n]
  by (auto simp: str_arg_def)

lemma del_check:
  assumes "inv s" "terminated n" "terminated q"
  shows "\<exists>found s'. del s n nl = Inr (found, s') \<and> inv s' \<and> check s' n q = Inr 1"
  using del_law [OF assms(1,2), of nl] assms check_law [of _ n q] by auto

lemma edit_check:
  assumes "inv s" "terminated n" "terminated p" "length (c_str p) < unat pl" "terminated q"
    and "db s (c_str n) = Some (old, a)"
  shows "\<exists>s'. edit s n nl p pl = Inr (True, s') \<and> inv s' \<and>
    check s' n q = Inr (if c_str q = c_str p \<and> a then 0 else 1)"
  using edit_law [OF assms(1-4), of nl] assms check_law [of _ n q] by auto

end

interpretation us: user_store wf_users user_db user_check_credentials add_user delete_user edit_user
  by unfold_locales (rule user_check_credentials_ok add_user_ok delete_user_ok edit_user_ok; assumption)+

section \<open>The initial list\<close>

definition lit_user :: "string \<Rightarrow> string \<Rightarrow> user" where
  "lit_user n p = \<lparr>u_is_admin = True, u_username = c_lit n, u_ulen = of_nat (Suc (length n)),
     u_password = c_lit p, u_upass = of_nat (Suc (length p))\<rparr>"

definition default_users :: user_list where
  "default_users = \<lparr>ul_first = [lit_user ''admin2'' ''alggo2'', lit_user ''admin'' ''alggo'',
     lit_user ''pruebita'' ''pruebita''], ul_size = 3\<rparr>"

lemma init_user_list_eq: "init_user_list = Inr default_users"
  by code_simp

lemma default_users_wf: "wf_users default_users"
  by (simp add: wf_users_def default_users_def lit_user_def wf_user_def c_lit_def of_char_def)

lemma default_users_exact: "\<forall>u \<in> set (ul_first default_users). exact_user u \<and> unat (u_ulen u) < 255"
  by (simp add: default_users_def lit_user_def exact_user_def c_lit_def of_char_def)

section \<open>Properties\<close>

text \<open>
  C21: the list of administrators implements a map from names to a password and an administrator
  flag. From the list \<^const>\<open>init_user_list\<close> builds on, whatever sequence of operations led to a
  well-formed list, adding inserts a fresh name and leaves a known one alone, deleting removes the
  name, editing replaces the password of a known name and keeps its flag, a credential check accepts
  exactly the administrators with that password; each returns whether it found what it looked for,
  and none of them goes out of bounds when its length arguments count the terminating NUL.
\<close>

theorem user_list_refines_map:
  assumes "wf_users l" "str_arg n nl" "str_arg p pl"
  shows "(\<exists>l'. add_user l n nl p pl a = Inr (user_db l (c_str n) = None, l') \<and> wf_users l' \<and>
      user_db l' = (if user_db l (c_str n) = None then (user_db l)(c_str n \<mapsto> (c_str p, a)) else user_db l)) \<and>
    (\<exists>l'. delete_user l n nl = Inr (user_db l (c_str n) \<noteq> None, l') \<and> wf_users l' \<and>
      user_db l' = (user_db l)(c_str n := None)) \<and>
    (\<exists>l'. edit_user l n nl p pl = Inr (user_db l (c_str n) \<noteq> None, l') \<and> wf_users l' \<and>
      user_db l' = (case user_db l (c_str n) of None \<Rightarrow> user_db l
        | Some (_, adm) \<Rightarrow> (user_db l)(c_str n \<mapsto> (c_str p, adm)))) \<and>
    user_check_credentials l n p = Inr (if user_db l (c_str n) = Some (c_str p, True) then 0 else 1) \<and>
    get_nusers l = int (card (dom (user_db l)))"
proof -
  have t: "terminated n" "terminated p" using assms(2,3) by (auto simp: str_arg_def dest: terminated_take)
  have "length (c_str p) = length (c_str (take (unat pl) p))"
    using assms(3) by (simp add: str_arg_def c_str_take)
  then have pl: "length (c_str p) < unat pl"
    using length_c_str_terminated [of "take (unat pl) p"] assms(3) by (simp add: str_arg_def)
  have "dom (user_db l) = set (map user_name (ul_first l))"
    unfolding user_db_def dom_map_of_conv_image_fst fst_user_entries ..
  then have "get_nusers l = int (card (dom (user_db l)))"
    using assms(1) distinct_card [of "map user_name (ul_first l)"] by (simp add: get_nusers_def wf_users_def)
  then show ?thesis
    using us.add_law [OF assms(1-3)] us.del_law [OF assms(1) t(1)] us.edit_law [OF assms(1) t pl]
      us.check_law [OF assms(1) t] by blast
qed

theorem user_list_refines_map_witness:
  "\<exists>l'. add_user default_users [98, 0] 2 [99, 0] 2 False = Inr (True, l') \<and> wf_users l' \<and>
     user_db l' [98] = Some ([99], False)"
proof -
  have 1: "str_arg [98, 0] 2" "str_arg [99, 0] 2" by (simp_all add: str_arg_def)
  have "user_db default_users [98] = None"
    by (simp add: user_db_def default_users_def lit_user_def user_entry_def c_lit_def of_char_def)
  then show ?thesis
    using user_list_refines_map [OF default_users_wf 1, of False] by auto
qed

text \<open>
  C22: credentials live as long as the account does. After adding a fresh administrator exactly its
  password is accepted; after editing it exactly the new one; after deleting the name no password is.
\<close>

theorem credentials_lifecycle:
  assumes "wf_users l" "user_db l (c_str n) = None"
    and "str_arg n nl" "str_arg p pl" "str_arg p2 pl2" "terminated q"
  shows "\<exists>l1 l2 l3. add_user l n nl p pl True = Inr (True, l1) \<and>
    user_check_credentials l1 n q = Inr (if c_str q = c_str p then 0 else 1) \<and>
    edit_user l1 n nl p2 pl2 = Inr (True, l2) \<and>
    user_check_credentials l2 n q = Inr (if c_str q = c_str p2 then 0 else 1) \<and>
    delete_user l2 n nl = Inr (True, l3) \<and> user_check_credentials l3 n q = Inr 1 \<and>
    user_db l3 = user_db l"
proof -
  have t: "terminated n" "terminated p2" using assms by (auto simp: str_arg_def dest: terminated_take)
  have "length (c_str p2) = length (c_str (take (unat pl2) p2))"
    using assms(5) by (simp add: str_arg_def c_str_take)
  then have pl2: "length (c_str p2) < unat pl2"
    using length_c_str_terminated [of "take (unat pl2) p2"] assms(5) by (simp add: str_arg_def)
  obtain l1 where l1: "add_user l n nl p pl True = Inr (True, l1)" "wf_users l1"
    "user_db l1 = (user_db l)(c_str n \<mapsto> (c_str p, True))"
    using us.add_law [OF assms(1,3,4), of True] assms(2) by auto
  obtain l2 where l2: "edit_user l1 n nl p2 pl2 = Inr (True, l2)" "wf_users l2"
    "user_db l2 = (user_db l)(c_str n \<mapsto> (c_str p2, True))"
    using us.edit_law [OF l1(2) t pl2, of nl] l1(3) by auto
  obtain l3 where l3: "delete_user l2 n nl = Inr (True, l3)" "wf_users l3"
    "user_db l3 = (user_db l)(c_str n := None)"
    using us.del_law [OF l2(2) t(1), of nl] l2(3) by auto
  show ?thesis
    using l1 l2 l3 assms(2) us.check_law [OF l1(2) t(1) assms(6)] us.check_law [OF l2(2) t(1) assms(6)]
      us.check_law [OF l3(2) t(1) assms(6)] by (auto simp: fun_upd_idem)
qed

theorem credentials_lifecycle_witness:
  "\<exists>l1 l2 l3. add_user default_users [98, 0] 2 [99, 0] 2 True = Inr (True, l1) \<and>
     user_check_credentials l1 [98, 0] [99, 0] = Inr 0 \<and>
     edit_user l1 [98, 0] 2 [100, 0] 2 = Inr (True, l2) \<and>
     user_check_credentials l2 [98, 0] [99, 0] = Inr 1 \<and>
     delete_user l2 [98, 0] 2 = Inr (True, l3)"
proof -
  have 1: "str_arg [98, 0] 2" "str_arg [99, 0] 2" "str_arg [100, 0] 2" by (simp_all add: str_arg_def)
  have 2: "user_db default_users (c_str [98, 0]) = None"
    by (simp add: user_db_def default_users_def lit_user_def user_entry_def c_lit_def of_char_def)
  show ?thesis
    using credentials_lifecycle [OF default_users_wf 2 1, of "[99, 0]"] by auto
qed

text \<open>
  The listing of users. With lengths that count the NUL and stay below 255, the block
  \<^const>\<open>get_all_users\<close> returns starts with one record per user in list order, its length byte, its
  name and a NUL; the returned count is exactly their total size, and the growing block never
  overflows, however many users there are.
\<close>

theorem get_all_users_lists:
  assumes "wf_users l" "\<forall>u \<in> set (ul_first l). exact_user u \<and> unat (u_ulen u) < 255"
  shows "\<exists>d n. get_all_users l = Inr (d, n) \<and> n \<le> length d \<and> take n d = user_records (ul_first l)"
  using get_all_loop_ok [OF assms(2), of "replicate 255 0" 255 0] assms(1)
  by (simp add: get_all_users_def wf_users_def)

theorem get_all_users_lists_witness:
  "\<exists>d n. get_all_users default_users = Inr (d, n) \<and> n \<le> length d \<and>
     take n d = user_records (ul_first default_users)"
  by (rule get_all_users_lists [OF default_users_wf default_users_exact])

text \<open>
  With a name stored without its NUL, which is what a length argument that does not count the
  NUL leads to, listing the users reads past the name's block, and editing a password with such a
  length writes the NUL past the password's block.
\<close>

theorem lengths_without_NUL_go_out_of_bounds:
  assumes "wf_users l" "\<forall>u \<in> set (ul_first l). exact_user u \<and> unat (u_ulen u) < 255"
    and "terminated n" "user_db l (c_str n) = None" "unat nl = length (c_str n)" "str_arg p pl"
    and "terminated m" "user_db l (c_str m) \<noteq> None" "unat pl' = length (c_str p)"
  shows "(\<exists>l'. add_user l n nl p pl a = Inr (True, l') \<and> get_all_users l' = Inl OutOfBounds) \<and>
    edit_user l m ml p pl' = Inl OutOfBounds"
proof -
  have w: "\<forall>u \<in> set (ul_first l). wf_user u" using assms(1) by (simp add: wf_users_def)
  have p: "terminated p" using assms(6) by (auto simp: str_arg_def dest: terminated_take)
  let ?v = "\<lparr>u_is_admin = a, u_username = take (unat nl) n, u_ulen = nl,
              u_password = take (unat pl) p, u_upass = pl\<rparr>"
  have tk: "take (unat nl) n = c_str n"
    using take_Suc_c_str [OF assms(3)] length_c_str_terminated [OF assms(3)] assms(5)
    by (metis append_eq_conv_conj butlast_snoc butlast_take diff_Suc_1 Suc_leI)
  have nin: "c_str n \<notin> set (map user_name (ul_first l))" using assms(4) user_db_None by blast
  have "unat nl \<le> length n" "unat pl \<le> length p"
    using length_c_str_terminated [OF assms(3)] assms(5,6) by (simp_all add: str_arg_def)
  then have "add_user l n nl p pl a =
      Inr (True, l\<lparr>ul_first := ul_first l @ [?v], ul_size := ul_size l + 1\<rparr>)"
    by (simp add: add_user_def add_user_rec_fresh [OF w assms(3) nin])
  moreover have "\<not> terminated (u_username ?v)" using tk by (simp add: terminated_def)
  then have "get_all_users (l\<lparr>ul_first := ul_first l @ [?v], ul_size := ul_size l + 1\<rparr>) = Inl OutOfBounds"
    using get_all_loop_unterminated [OF assms(2), of ?v "replicate 255 0" 255 0 0 "[]"] assms(1)
    by (simp add: get_all_users_def wf_users_def nat_add_distrib)
  ultimately show ?thesis
    using edit_user_overflow [OF assms(1,7) p assms(8)] assms(9) by auto
qed

theorem lengths_without_NUL_go_out_of_bounds_witness:
  "(\<exists>l'. add_user default_users [98, 0] 1 [99, 0] 2 True = Inr (True, l') \<and>
      get_all_users l' = Inl OutOfBounds) \<and>
   edit_user default_users (c_lit ''admin'') 5 [99, 0] 1 = Inl OutOfBounds"
  by (rule lengths_without_NUL_go_out_of_bounds [OF default_users_wf default_users_exact])
    (simp_all add: str_arg_def c_lit_def of_char_def user_db_def default_users_def lit_user_def user_entry_def)

end
