(* ===== verification/Stadistics.thy ===== *)
theory Stadistics
  imports Prelude
begin

text \<open>
  The metrics the management protocol reports, \<^verbatim>\<open>src/stadistics.c\<close>: two 16-bit connection
  counters and a 32-bit byte counter. The global variable \<^verbatim>\<open>stadistics\<close> is passed explicitly.
\<close>

section \<open>State and operations\<close>

record stadistics =
  totalConnections :: u16
  concurrentConnections :: u16
  bytesSent :: u32

definition UINT16_MAX :: u16 where "UINT16_MAX = 65535"
definition UINT32_MAX :: u32 where "UINT32_MAX = 4294967295"

definition stadistics_init :: stadistics where
  "stadistics_init = \<lparr>totalConnections = 0, concurrentConnections = 0, bytesSent = 0\<rparr>"

definition stadistics_increase_concurrent :: "stadistics \<Rightarrow> stadistics" where
  "stadistics_increase_concurrent s =
     (let s1 = (if concurrentConnections s < UINT16_MAX
                then s\<lparr>concurrentConnections := concurrentConnections s + 1\<rparr> else s) in
      if totalConnections s1 < UINT16_MAX
      then s1\<lparr>totalConnections := totalConnections s1 + 1\<rparr> else s1)"

definition stadistics_decrease_concurrent :: "stadistics \<Rightarrow> stadistics" where
  "stadistics_decrease_concurrent s =
     (if concurrentConnections s > 0
      then s\<lparr>concurrentConnections := concurrentConnections s - 1\<rparr> else s)"

text \<open>
  The comparison is made in 64 bits, the width of the argument; the sum is stored back in 32.
\<close>

definition stadistics_increase_bytes_sent :: "stadistics \<Rightarrow> u64 \<Rightarrow> stadistics" where
  "stadistics_increase_bytes_sent s bytes =
     (if (ucast (bytesSent s) :: u64) + bytes < ucast UINT32_MAX
      then s\<lparr>bytesSent := ucast ((ucast (bytesSent s) :: u64) + bytes)\<rparr> else s)"

definition get_concurrent_connections :: "stadistics \<Rightarrow> u16" where
  "get_concurrent_connections s = concurrentConnections s"

definition get_total_connections :: "stadistics \<Rightarrow> u16" where
  "get_total_connections s = totalConnections s"

definition get_bytes_sent :: "stadistics \<Rightarrow> u32" where
  "get_bytes_sent s = bytesSent s"

section \<open>What the counters count\<close>

lemma unat_u16_lt: "unat (x :: u16) < 65536"
proof -
  have "unat x < 2 ^ LENGTH(16)" by (rule unsigned_less)
  then show ?thesis by simp
qed

lemma unat_u32_lt: "unat (x :: u32) < 4294967296"
proof -
  have "unat x < 2 ^ LENGTH(32)" by (rule unsigned_less)
  then show ?thesis by simp
qed

lemma unat_inc_u16: "(x :: u16) < 65535 \<Longrightarrow> unat (x + 1) = Suc (unat x)"
  by (simp add: unat_word_ariths word_less_nat_alt)

lemma unat_dec_u16: "(0 :: u16) < x \<Longrightarrow> unat (x - 1) = unat x - 1"
  by (simp add: unat_minus_one word_gt_0)

lemma increase_concurrent_unat:
  "unat (totalConnections (stadistics_increase_concurrent s)) = min 65535 (Suc (unat (totalConnections s)))"
  "unat (concurrentConnections (stadistics_increase_concurrent s)) =
     min 65535 (Suc (unat (concurrentConnections s)))"
  "bytesSent (stadistics_increase_concurrent s) = bytesSent s"
  using unat_u16_lt [of "totalConnections s"] unat_u16_lt [of "concurrentConnections s"]
  by (auto simp: stadistics_increase_concurrent_def Let_def UINT16_MAX_def unat_inc_u16
      word_less_nat_alt min_def)

lemma decrease_concurrent_unat:
  "totalConnections (stadistics_decrease_concurrent s) = totalConnections s"
  "unat (concurrentConnections (stadistics_decrease_concurrent s)) = unat (concurrentConnections s) - 1"
  "bytesSent (stadistics_decrease_concurrent s) = bytesSent s"
  by (auto simp: stadistics_decrease_concurrent_def unat_dec_u16 word_gt_0)

lemma unat_sum_u64:
  assumes "unat b + n < 18446744073709551616"
  shows "unat ((ucast (b :: u32) :: u64) + of_nat n) = unat b + n"
proof -
  have "unat (of_nat n :: u64) = n" using assms by (simp add: unat_of_nat)
  moreover have "unat (ucast b :: u64) = unat b"
    using unat_u32_lt [of b] by (simp add: unsigned_ucast_eq take_bit_nat_eq_self)
  ultimately show ?thesis using assms by (simp add: unat_word_ariths)
qed

lemma increase_bytes_unat:
  assumes "unat (bytesSent s) + n < 18446744073709551616"
  shows "unat (bytesSent (stadistics_increase_bytes_sent s (of_nat n))) =
      (if unat (bytesSent s) + n < 4294967295 then unat (bytesSent s) + n else unat (bytesSent s))"
    "totalConnections (stadistics_increase_bytes_sent s (of_nat n)) = totalConnections s"
    "concurrentConnections (stadistics_increase_bytes_sent s (of_nat n)) = concurrentConnections s"
proof -
  let ?w = "(ucast (bytesSent s) :: u64) + of_nat n"
  have "unat (ucast UINT32_MAX :: u64) = 4294967295" by (simp add: UINT32_MAX_def)
  then have lt: "?w < ucast UINT32_MAX \<longleftrightarrow> unat (bytesSent s) + n < 4294967295"
    using unat_sum_u64 [OF assms] by (simp add: word_less_nat_alt)
  have "unat (ucast ?w :: u32) = (unat (bytesSent s) + n) mod 4294967296"
    using unat_sum_u64 [OF assms] by (simp add: unsigned_ucast_eq take_bit_eq_mod)
  with lt show "unat (bytesSent (stadistics_increase_bytes_sent s (of_nat n))) =
      (if unat (bytesSent s) + n < 4294967295 then unat (bytesSent s) + n else unat (bytesSent s))"
    by (simp add: stadistics_increase_bytes_sent_def)
qed (simp_all add: stadistics_increase_bytes_sent_def)

text \<open>Histories of the calls the sessions make.\<close>

datatype stat_event = Opened | Closed | Sent nat

fun stat_step :: "stadistics \<Rightarrow> stat_event \<Rightarrow> stadistics" where
  "stat_step s Opened = stadistics_increase_concurrent s"
| "stat_step s Closed = stadistics_decrease_concurrent s"
| "stat_step s (Sent n) = stadistics_increase_bytes_sent s (of_nat n)"

definition stat_run :: "stadistics \<Rightarrow> stat_event list \<Rightarrow> stadistics" where
  "stat_run = foldl stat_step"

fun sent_total :: "stat_event list \<Rightarrow> nat" where
  "sent_total [] = 0"
| "sent_total (Sent n # es) = n + sent_total es"
| "sent_total (_ # es) = sent_total es"

fun open_balance :: "nat \<Rightarrow> stat_event list \<Rightarrow> nat" where
  "open_balance c [] = c"
| "open_balance c (Opened # es) = open_balance (Suc c) es"
| "open_balance c (Closed # es) = open_balance (c - 1) es"
| "open_balance c (Sent n # es) = open_balance c es"

lemma stat_run_simps [simp]:
  "stat_run s [] = s" "stat_run s (e # es) = stat_run (stat_step s e) es"
  by (simp_all add: stat_run_def)

lemma count_list_Opened [simp]: "count_list (Sent n # es) Opened = count_list es Opened"
  by simp

lemma stat_run_total:
  "unat (totalConnections (stat_run s es)) = min 65535 (unat (totalConnections s) + count_list es Opened)"
proof (induction es arbitrary: s)
  case Nil
  show ?case using unat_u16_lt [of "totalConnections s"] by simp
next
  case (Cons e es)
  then show ?case
    by (cases e) (auto simp: increase_concurrent_unat decrease_concurrent_unat
        stadistics_increase_bytes_sent_def)
qed

lemma stat_run_concurrent:
  "unat (concurrentConnections s) + count_list es Opened < 65536 \<Longrightarrow>
     unat (concurrentConnections (stat_run s es)) = open_balance (unat (concurrentConnections s)) es"
proof (induction es arbitrary: s)
  case (Cons e es)
  then show ?case
    by (cases e) (auto simp: increase_concurrent_unat decrease_concurrent_unat
        stadistics_increase_bytes_sent_def)
qed simp

lemma stat_run_le:
  "concurrentConnections s \<le> totalConnections s \<Longrightarrow>
     concurrentConnections (stat_run s es) \<le> totalConnections (stat_run s es)"
proof (induction es arbitrary: s)
  case (Cons e es)
  then show ?case
    by (cases e) (auto simp: increase_concurrent_unat decrease_concurrent_unat word_le_nat_alt
        stadistics_increase_bytes_sent_def)
qed simp

lemma stat_run_bytes:
  "unat (bytesSent s) + sent_total es < 4294967295 \<Longrightarrow>
     unat (bytesSent (stat_run s es)) = unat (bytesSent s) + sent_total es"
proof (induction es arbitrary: s)
  case (Cons e es)
  then show ?case
    by (cases e) (auto simp: increase_concurrent_unat decrease_concurrent_unat increase_bytes_unat)
qed simp

section \<open>Properties\<close>

text \<open>
  The counters over any history of opened connections, closed connections and sent bytes. The
  total saturates at 65535 and never wraps, the concurrent count never exceeds it and is exact as
  long as fewer than 65536 connections were opened, and the byte count is exact as long as the sum
  stays below 4294967295.
\<close>

theorem stadistics_counts:
  "unat (get_total_connections (stat_run stadistics_init es)) = min 65535 (count_list es Opened) \<and>
   get_concurrent_connections (stat_run stadistics_init es) \<le> get_total_connections (stat_run stadistics_init es) \<and>
   (count_list es Opened < 65536 \<longrightarrow>
      unat (get_concurrent_connections (stat_run stadistics_init es)) = open_balance 0 es) \<and>
   (sent_total es < 4294967295 \<longrightarrow>
      unat (get_bytes_sent (stat_run stadistics_init es)) = sent_total es)"
  using stat_run_total [of stadistics_init es] stat_run_concurrent [of stadistics_init es]
    stat_run_bytes [of stadistics_init es] stat_run_le [of stadistics_init es]
  by (simp add: stadistics_init_def get_total_connections_def get_concurrent_connections_def
      get_bytes_sent_def)

theorem stadistics_counts_witness:
  "unat (get_bytes_sent (stat_run stadistics_init [Opened, Sent 5, Opened, Closed, Sent 7])) = 12 \<and>
   unat (get_concurrent_connections (stat_run stadistics_init [Opened, Sent 5, Opened, Closed, Sent 7])) = 1"
  using stadistics_counts [of "[Opened, Sent 5, Opened, Closed, Sent 7]"] by simp

text \<open>
  The byte counter stops for good once it is close to its limit, but what it refuses is the
  whole addend: a step never makes it smaller and never leaves it above 4294967294, for every
  non-negative transfer size.
\<close>

theorem bytes_sent_step_bounded:
  assumes "n < 18446744069414584321"
  shows "unat (get_bytes_sent s) \<le> unat (get_bytes_sent (stadistics_increase_bytes_sent s (of_nat n))) \<and>
    (unat (get_bytes_sent s) < 4294967295 \<longrightarrow>
      unat (get_bytes_sent (stadistics_increase_bytes_sent s (of_nat n))) < 4294967295)"
  using increase_bytes_unat(1) [of s n] unat_u32_lt [of "bytesSent s"] assms
  by (simp add: get_bytes_sent_def)

theorem bytes_sent_step_bounded_witness:
  "unat (get_bytes_sent (stadistics_increase_bytes_sent
     (stadistics_init\<lparr>bytesSent := 4294967290\<rparr>) (of_nat 100))) < 4294967295"
  using bytes_sent_step_bounded [of 100 "stadistics_init\<lparr>bytesSent := 4294967290\<rparr>"]
  by (simp add: get_bytes_sent_def)

end
