(* ===== verification/Stm.thy ===== *)
theory Stm
  imports Prelude
begin

text \<open>
  The state machine engine, \<^verbatim>\<open>src/stm/stm.c\<close>. The table \<^verbatim>\<open>states\<close> is an argument,
  \<^verbatim>\<open>current\<close> is the index of the entry it points to, and the callbacks of the entries act on a
  client state \<open>'w\<close>; \<open>'k\<close> is the selector key passed through.
\<close>

section \<open>State and operations\<close>

record ('k, 'w) state_definition =
  sd_state :: nat
  on_arrival :: "(nat \<Rightarrow> 'k \<Rightarrow> 'w \<Rightarrow> 'w res) option"
  on_departure :: "(nat \<Rightarrow> 'k \<Rightarrow> 'w \<Rightarrow> 'w res) option"
  on_read_ready :: "('k \<Rightarrow> 'w \<Rightarrow> (nat \<times> 'w) res) option"
  on_write_ready :: "('k \<Rightarrow> 'w \<Rightarrow> (nat \<times> 'w) res) option"
  on_block_ready :: "('k \<Rightarrow> 'w \<Rightarrow> (nat \<times> 'w) res) option"

record state_machine =
  sm_initial :: nat
  sm_max_state :: nat
  sm_current :: "nat option"

definition stm_init :: "('k, 'w) state_definition list \<Rightarrow> state_machine \<Rightarrow> state_machine res" where
  "stm_init states stm =
     bindr (fold (\<lambda>i r. bindr r (\<lambda>_. bindr (peek_at states i) (\<lambda>d.
              if i \<noteq> sd_state d then Inl Abort else Inr ()))) [0 ..< Suc (sm_max_state stm)] (Inr ())) (\<lambda>_.
     if sm_initial stm < sm_max_state stm then Inr (stm\<lparr>sm_current := None\<rparr>) else Inl Abort)"

text \<open>An optional hook of an entry.\<close>

definition run_hook :: "(nat \<Rightarrow> 'k \<Rightarrow> 'w \<Rightarrow> 'w res) option \<Rightarrow> nat \<Rightarrow> 'k \<Rightarrow> 'w \<Rightarrow> 'w res" where
  "run_hook h st key w = (case h of None \<Rightarrow> Inr w | Some f \<Rightarrow> f st key w)"

definition handle_first ::
  "('k, 'w) state_definition list \<Rightarrow> state_machine \<Rightarrow> 'k \<Rightarrow> 'w \<Rightarrow> (state_machine \<times> 'w) res" where
  "handle_first states stm key w =
     (case sm_current stm of
        Some _ \<Rightarrow> Inr (stm, w)
      | None \<Rightarrow>
          bindr (peek_at states (sm_initial stm)) (\<lambda>d.
          bindr (run_hook (on_arrival d) (sd_state d) key w) (\<lambda>w'.
          Inr (stm\<lparr>sm_current := Some (sm_initial stm)\<rparr>, w'))))"

definition jump ::
  "('k, 'w) state_definition list \<Rightarrow> state_machine \<Rightarrow> nat \<Rightarrow> 'k \<Rightarrow> 'w \<Rightarrow> (state_machine \<times> 'w) res" where
  "jump states stm next key w =
     (if next > sm_max_state stm then Inl Abort
      else if sm_current stm \<noteq> Some next then
        bindr (case sm_current stm of
                 None \<Rightarrow> Inr w
               | Some c \<Rightarrow> bindr (peek_at states c) (\<lambda>d. run_hook (on_departure d) (sd_state d) key w)) (\<lambda>w1.
        bindr (peek_at states next) (\<lambda>d.
        bindr (run_hook (on_arrival d) (sd_state d) key w1) (\<lambda>w2.
        Inr (stm\<lparr>sm_current := Some next\<rparr>, w2))))
      else Inr (stm, w))"

text \<open>The three event handlers differ only in the callback they select.\<close>

definition stm_event ::
  "(('k, 'w) state_definition \<Rightarrow> ('k \<Rightarrow> 'w \<Rightarrow> (nat \<times> 'w) res) option) \<Rightarrow> ('k, 'w) state_definition list
     \<Rightarrow> state_machine \<Rightarrow> 'k \<Rightarrow> 'w \<Rightarrow> (nat \<times> state_machine \<times> 'w) res" where
  "stm_event on_ready states stm key w =
     bindr (handle_first states stm key w) (\<lambda>(stm1, w1).
     bindr (case sm_current stm1 of None \<Rightarrow> Inl NullPointer | Some c \<Rightarrow> peek_at states c) (\<lambda>d.
     case on_ready d of
       None \<Rightarrow> Inl Abort
     | Some f \<Rightarrow>
         bindr (f key w1) (\<lambda>(ret, w2).
         bindr (jump states stm1 ret key w2) (\<lambda>(stm2, w3).
         Inr (ret, stm2, w3)))))"

definition stm_handler_read ::
  "('k, 'w) state_definition list \<Rightarrow> state_machine \<Rightarrow> 'k \<Rightarrow> 'w \<Rightarrow> (nat \<times> state_machine \<times> 'w) res" where
  "stm_handler_read = stm_event on_read_ready"

definition stm_handler_write ::
  "('k, 'w) state_definition list \<Rightarrow> state_machine \<Rightarrow> 'k \<Rightarrow> 'w \<Rightarrow> (nat \<times> state_machine \<times> 'w) res" where
  "stm_handler_write = stm_event on_write_ready"

definition stm_handler_block ::
  "('k, 'w) state_definition list \<Rightarrow> state_machine \<Rightarrow> 'k \<Rightarrow> 'w \<Rightarrow> (nat \<times> state_machine \<times> 'w) res" where
  "stm_handler_block = stm_event on_block_ready"

definition stm_handler_close ::
  "('k, 'w) state_definition list \<Rightarrow> state_machine \<Rightarrow> 'k \<Rightarrow> 'w \<Rightarrow> 'w res" where
  "stm_handler_close states stm key w =
     (case sm_current stm of
        None \<Rightarrow> Inr w
      | Some c \<Rightarrow> bindr (peek_at states c) (\<lambda>d. run_hook (on_departure d) (sd_state d) key w))"

definition stm_state :: "('k, 'w) state_definition list \<Rightarrow> state_machine \<Rightarrow> nat res" where
  "stm_state states stm =
     (case sm_current stm of
        None \<Rightarrow> Inr (sm_initial stm)
      | Some c \<Rightarrow> bindr (peek_at states c) (\<lambda>d. Inr (sd_state d)))"

lemma run_hook_simps [simp]: "run_hook None st key w = Inr w" "run_hook (Some f) st key w = f st key w"
  by (simp_all add: run_hook_def)

section \<open>Well-formed tables and machines\<close>

text \<open>What \<^const>\<open>stm_init\<close> checks.\<close>

definition wf_table :: "('k, 'w) state_definition list \<Rightarrow> nat \<Rightarrow> bool" where
  "wf_table states mx \<longleftrightarrow> mx < length states \<and> (\<forall>i \<le> mx. sd_state (states ! i) = i)"

definition wf_stm :: "('k, 'w) state_definition list \<Rightarrow> state_machine \<Rightarrow> bool" where
  "wf_stm states stm \<longleftrightarrow> wf_table states (sm_max_state stm) \<and> sm_initial stm < sm_max_state stm \<and>
     (\<forall>c. sm_current stm = Some c \<longrightarrow> c \<le> sm_max_state stm)"

lemma init_loop:
  assumes "n \<le> length states"
  shows "fold (\<lambda>i r. bindr r (\<lambda>_. bindr (peek_at states i) (\<lambda>d.
            if i \<noteq> sd_state d then Inl Abort else Inr ()))) [0 ..< n] (Inr ()) =
    (if \<forall>i < n. sd_state (states ! i) = i then Inr () else Inl Abort)"
  using assms
proof (induction n)
  case (Suc n)
  then show ?case by (auto simp: less_Suc_eq peek_at_def)
qed simp

lemma stm_init_eq:
  assumes "sm_max_state stm < length states"
  shows "stm_init states stm =
    (if wf_table states (sm_max_state stm) \<and> sm_initial stm < sm_max_state stm
     then Inr (stm\<lparr>sm_current := None\<rparr>) else Inl Abort)"
  using assms init_loop [of "Suc (sm_max_state stm)" states]
  by (auto simp: stm_init_def wf_table_def less_Suc_eq_le simp del: upt_Suc)

lemma stm_state_wf: "wf_stm states stm \<Longrightarrow>
    stm_state states stm = Inr (case sm_current stm of None \<Rightarrow> sm_initial stm | Some c \<Rightarrow> c)"
  by (auto simp: stm_state_def wf_stm_def wf_table_def split: option.splits)

lemma handle_first_wf:
  "wf_stm states stm \<Longrightarrow> handle_first states stm key w = Inr (stm', w') \<Longrightarrow>
     wf_stm states stm' \<and> sm_current stm' \<noteq> None \<and> sm_max_state stm' = sm_max_state stm \<and>
     sm_initial stm' = sm_initial stm"
  by (auto simp: handle_first_def wf_stm_def res_simps split: option.splits)

lemma jump_wf:
  "wf_stm states stm \<Longrightarrow> jump states stm next key w = Inr (stm', w') \<Longrightarrow>
     wf_stm states stm' \<and> sm_current stm' = Some next \<and> next \<le> sm_max_state stm \<and>
     sm_max_state stm' = sm_max_state stm \<and> sm_initial stm' = sm_initial stm"
  by (auto simp: jump_def wf_stm_def res_simps split: if_splits option.splits)

lemma stm_event_wf:
  assumes "wf_stm states stm" "stm_event f states stm key w = Inr (ret, stm', w')"
  shows "wf_stm states stm' \<and> sm_current stm' = Some ret \<and> ret \<le> sm_max_state stm \<and>
    sm_max_state stm' = sm_max_state stm \<and> sm_initial stm' = sm_initial stm"
proof -
  obtain stm1 w1 g w2 where 1: "handle_first states stm key w = Inr (stm1, w1)"
    and 2: "jump states stm1 ret key w2 = Inr (stm', w')"
    using assms(2) by (auto simp: stm_event_def res_simps split: option.splits)
  show ?thesis using handle_first_wf [OF assms(1) 1] jump_wf [OF _ 2] by simp
qed

text \<open>The first event: the arrival hook of the initial state runs, then the event.\<close>

lemma stm_event_first:
  assumes "sm_current stm = None" "sm_initial stm < length states"
    and "run_hook (on_arrival (states ! sm_initial stm)) (sd_state (states ! sm_initial stm)) key w = Inr w1"
  shows "stm_event f states stm key w = stm_event f states (stm\<lparr>sm_current := Some (sm_initial stm)\<rparr>) key w1"
  using assms by (simp add: stm_event_def handle_first_def)

section \<open>Clients of the engine\<close>

text \<open>
  The contract between the engine and a table of states: \<open>winv w i\<close> is what holds of the client
  state while the machine is in state \<open>i\<close>. A callback may fault only with a fault of \<open>F\<close>; otherwise
  it names a state of the table, and after the arrival hook of that state its invariant holds. The
  tables of the sources have no departure hooks.
\<close>

locale stm_client =
  fixes states :: "('k, 'w) state_definition list" and mx :: nat
    and winv :: "'k \<Rightarrow> 'w \<Rightarrow> nat \<Rightarrow> bool" and F :: "fault set"
  assumes table: "wf_table states mx"
    and no_departure: "i \<le> mx \<Longrightarrow> on_departure (states ! i) = None"
    and arrive: "i \<le> mx \<Longrightarrow> j \<le> mx \<Longrightarrow> winv k w i \<Longrightarrow>
      f \<in> {on_read_ready, on_write_ready, on_block_ready} \<Longrightarrow> f (states ! i) = Some g \<Longrightarrow>
      g k w = Inr (j, w') \<Longrightarrow> j \<noteq> i \<Longrightarrow>
      \<exists>w''. run_hook (on_arrival (states ! j)) j k w' = Inr w'' \<and> winv k w'' j"
    and callback: "i \<le> mx \<Longrightarrow> winv k w i \<Longrightarrow>
      f \<in> {on_read_ready, on_write_ready, on_block_ready} \<Longrightarrow> f (states ! i) = Some g \<Longrightarrow>
      (\<exists>j w'. g k w = Inr (j, w') \<and> j \<le> mx \<and> (j = i \<longrightarrow> winv k w' i)) \<or> (\<exists>e \<in> F. g k w = Inl e)"
begin

lemma event_safe:
  assumes "sm_max_state stm = mx" "sm_current stm = Some i" "i \<le> mx" "winv k w i"
    and f: "f \<in> {on_read_ready, on_write_ready, on_block_ready}" "f (states ! i) \<noteq> None"
  shows "(\<exists>j w'. stm_event f states stm k w = Inr (j, stm\<lparr>sm_current := Some j\<rparr>, w') \<and>
      j \<le> mx \<and> winv k w' j) \<or> (\<exists>e \<in> F. stm_event f states stm k w = Inl e)"
proof -
  obtain g where g: "f (states ! i) = Some g" using f(2) by blast
  have i: "i < length states" using table assms(3) by (simp add: wf_table_def)
  have un: "stm_event f states stm k w = bindr (g k w) (\<lambda>(ret, w2).
      bindr (jump states stm ret k w2) (\<lambda>(stm2, w3). Inr (ret, stm2, w3)))"
    using assms(2) i g by (simp add: stm_event_def handle_first_def)
  from callback [OF assms(3,4) f(1) g] show ?thesis
  proof (elim disjE exE conjE bexE)
    fix j w' assume j: "g k w = Inr (j, w')" "j \<le> mx" "j = i \<longrightarrow> winv k w' i"
    have jl: "j < length states" "sd_state (states ! j) = j"
      using table j(2) by (simp_all add: wf_table_def)
    show ?thesis
    proof (cases "j = i")
      case True
      then have "stm_event f states stm k w = Inr (j, stm\<lparr>sm_current := Some j\<rparr>, w')"
        using j assms(1,2) un by (cases stm) (simp add: jump_def)
      then show ?thesis using j True by blast
    next
      case False
      obtain w'' where w'': "run_hook (on_arrival (states ! j)) j k w' = Inr w''" "winv k w'' j"
        using arrive [OF assms(3) j(2) assms(4) f(1) g j(1) False] by blast
      then have "stm_event f states stm k w = Inr (j, stm\<lparr>sm_current := Some j\<rparr>, w'')"
        using j jl i assms(1,2,3) False un no_departure [OF assms(3)]
        by (simp add: jump_def)
      then show ?thesis using j(2) w''(2) by blast
    qed
  qed (simp add: un)
qed

end

text \<open>The steps of an event that returned.\<close>

lemma stm_event_steps:
  assumes "stm_event f states stm key w = Inr (j, stm', w')"
  obtains c w1 cb w2 where
    "sm_current stm = Some c \<and> w1 = w \<or> sm_current stm = None \<and> c = sm_initial stm \<and>
       run_hook (on_arrival (states ! c)) (sd_state (states ! c)) key w = Inr w1"
    "c < length states" "f (states ! c) = Some cb" "cb key w1 = Inr (j, w2)" "j \<le> sm_max_state stm"
    "stm' = stm\<lparr>sm_current := Some j\<rparr>"
    "j = c \<and> w' = w2 \<or> j \<noteq> c \<and> (\<exists>w3. run_hook (on_departure (states ! c)) (sd_state (states ! c)) key w2 = Inr w3 \<and>
       run_hook (on_arrival (states ! j)) (sd_state (states ! j)) key w3 = Inr w')"
proof -
  obtain stm1 w1 d cb w2 where e: "handle_first states stm key w = Inr (stm1, w1)"
    "(case sm_current stm1 of None \<Rightarrow> Inl NullPointer | Some c \<Rightarrow> peek_at states c) = Inr d" "f d = Some cb"
    "cb key w1 = Inr (j, w2)" "jump states stm1 j key w2 = Inr (stm', w')"
    using assms by (auto simp: stm_event_def res_simps split: option.splits)
  obtain c where c: "sm_current stm1 = Some c" "c < length states" "d = states ! c"
    using e(2) by (auto simp: res_simps split: option.splits)
  have first: "sm_current stm = Some c \<and> w1 = w \<or> sm_current stm = None \<and> c = sm_initial stm \<and>
      run_hook (on_arrival (states ! c)) (sd_state (states ! c)) key w = Inr w1" "stm1 = stm\<lparr>sm_current := Some c\<rparr>"
    using e(1) c(1) by (cases stm, auto simp: handle_first_def res_simps split: option.splits)+
  have last: "j \<le> sm_max_state stm" "stm' = stm\<lparr>sm_current := Some j\<rparr>"
    "j = c \<and> w' = w2 \<or> j \<noteq> c \<and> (\<exists>w3. run_hook (on_departure (states ! c)) (sd_state (states ! c)) key w2 = Inr w3 \<and>
       run_hook (on_arrival (states ! j)) (sd_state (states ! j)) key w3 = Inr w')"
    using e(5) first(2) by (auto simp: jump_def res_simps split: if_splits)
  show thesis by (rule that [of c w1 cb w2]) (use e(3,4) c(2,3) first(1) last in simp_all)
qed

section \<open>Properties\<close>

text \<open>
  The check \<^const>\<open>stm_init\<close> makes is exact. For a table with an entry for every state number,
  it returns with no current state when every entry carries its own index and the initial state is
  below the last one, and aborts otherwise.
\<close>

theorem stm_init_checks_table:
  assumes "sm_max_state stm < length states"
  shows "stm_init states stm =
    (if (\<forall>i \<le> sm_max_state stm. sd_state (states ! i) = i) \<and> sm_initial stm < sm_max_state stm
     then Inr (stm\<lparr>sm_current := None\<rparr>) else Inl Abort)"
  using stm_init_eq [OF assms] assms by (simp add: wf_table_def)

definition plain_state :: "nat \<Rightarrow> (unit, unit) state_definition" where
  "plain_state n = \<lparr>sd_state = n, on_arrival = None, on_departure = None, on_read_ready = None,
     on_write_ready = None, on_block_ready = None\<rparr>"

theorem stm_init_checks_table_witness:
  "stm_init [plain_state 0, plain_state 2, plain_state 1]
     \<lparr>sm_initial = 0, sm_max_state = 2, sm_current = Some 7\<rparr> = Inl Abort"
proof -
  let ?states = "[plain_state 0, plain_state 2, plain_state 1]"
  have "sd_state (?states ! 1) \<noteq> 1" by (simp add: plain_state_def)
  then have "\<not> (\<forall>i \<le> 2. sd_state (?states ! i) = i)" by (metis one_le_numeral)
  then show ?thesis
    using stm_init_checks_table [of "\<lparr>sm_initial = 0, sm_max_state = 2, sm_current = Some 7\<rparr>" ?states]
    by simp
qed

text \<open>
  Whatever the callbacks do to the client state, an event of an initialised machine that returns
  leaves the machine in the state the callback named, a state of the table, which \<^const>\<open>stm_state\<close>
  then reports; the machine stays well-formed, so this holds along every sequence of events.
\<close>

theorem stm_event_reports_state:
  assumes "wf_stm states stm"
    and "stm_handler_read states stm key w = Inr (ret, stm', w') \<or>
      stm_handler_write states stm key w = Inr (ret, stm', w') \<or>
      stm_handler_block states stm key w = Inr (ret, stm', w')"
  shows "wf_stm states stm' \<and> ret \<le> sm_max_state stm' \<and> stm_state states stm' = Inr ret"
  using assms(2) stm_event_wf [OF assms(1)] stm_state_wf [of states stm']
  by (auto simp: stm_handler_read_def stm_handler_write_def stm_handler_block_def)

theorem stm_event_reports_state_witness:
  "let states = [plain_state 0\<lparr>on_read_ready := Some (\<lambda>k w. Inr (1, w))\<rparr>, plain_state 1];
       stm = \<lparr>sm_initial = 0, sm_max_state = 1, sm_current = None\<rparr> in
   \<exists>stm'. stm_handler_read states stm () () = Inr (1, stm', ()) \<and> stm_state states stm' = Inr 1"
proof -
  let ?states = "[plain_state 0\<lparr>on_read_ready := Some (\<lambda>k w. Inr (1, w))\<rparr>, plain_state 1]"
  let ?stm = "\<lparr>sm_initial = 0, sm_max_state = 1, sm_current = None\<rparr>"
  let ?stm' = "\<lparr>sm_initial = 0, sm_max_state = 1, sm_current = Some 1\<rparr>"
  have 1: "wf_stm ?states ?stm"
    by (auto simp: wf_stm_def wf_table_def plain_state_def le_Suc_eq)
  have 2: "stm_handler_read ?states ?stm () () = Inr (1, ?stm', ())"
    by (simp add: stm_handler_read_def stm_event_def handle_first_def jump_def run_hook_def plain_state_def)
  show ?thesis using stm_event_reports_state [OF 1, of "()" "()" 1 ?stm' "()"] 2 by simp
qed

end
