(* ===== verification/Selector.thy ===== *)
theory Selector
  imports Prelude
begin

unbundle bit_operations_syntax

text \<open>
  The I/O multiplexer, \<^verbatim>\<open>src/selector.c\<close>: a table of registered descriptors indexed by the
  descriptor, the prototype sets given to \<^verbatim>\<open>pselect\<close>, and the dispatch of its result to the
  callbacks of the handlers.

  Handlers and attachments are pointers of the clients, values of \<open>'h\<close> and \<open>'d\<close>; the callbacks
  behind a handler pointer are given by a function \<open>hs\<close>, and act on the selector and on a client
  state \<open>'w\<close>. \<^verbatim>\<open>malloc\<close>, \<^verbatim>\<open>pselect\<close>, \<^verbatim>\<open>fcntl\<close> and the signal calls are
  arguments. The time-out, the thread and the mutex are left out: notifications of other threads are
  calls of \<open>selector_notify_block\<close> between two calls of \<open>selector_select\<close>.
\<close>

section \<open>State\<close>

datatype selector_status =
  SELECTOR_SUCCESS | SELECTOR_ENOMEM | SELECTOR_MAXFD | SELECTOR_IARGS | SELECTOR_FDINUSE | SELECTOR_IO

definition OP_NOOP :: u32 where "OP_NOOP = 0"
definition OP_READ :: u32 where "OP_READ = 1"
definition OP_WRITE :: u32 where "OP_WRITE = 4"

definition INTEREST_OFF :: "u32 \<Rightarrow> u32 \<Rightarrow> u32" where
  "INTEREST_OFF FLAG MASK = FLAG AND NOT MASK"

record ('h, 'd) item =
  it_fd :: int
  it_interest :: u32
  it_handler :: "'h option"
  it_data :: "'d option"

record ('h, 'd) fdselector =
  sel_fds :: "('h, 'd) item list option"
  sel_fd_size :: nat
  sel_max_fd :: int
  sel_master_r :: "int set"
  sel_master_w :: "int set"
  sel_slave_r :: "int set"
  sel_slave_w :: "int set"
  sel_resolution_jobs :: "int list"

record 'd selector_key =
  sk_fd :: int
  sk_data :: "'d option"

type_synonym ('h, 'd, 'w) callback =
  "'d selector_key \<Rightarrow> ('h, 'd) fdselector \<times> 'w \<Rightarrow> (('h, 'd) fdselector \<times> 'w) res"

record ('h, 'd, 'w) fd_handler =
  handle_read :: "('h, 'd, 'w) callback option"
  handle_write :: "('h, 'd, 'w) callback option"
  handle_block :: "('h, 'd, 'w) callback option"
  handle_close :: "('h, 'd, 'w) callback option"

definition FD_UNUSED :: int where "FD_UNUSED = - 1"
definition ITEMS_MAX_SIZE :: nat where "ITEMS_MAX_SIZE = 1024"
definition SIZE_MAX :: nat where "SIZE_MAX = 2 ^ 64 - 1"
definition sizeof_item :: nat where "sizeof_item = 24"

definition ITEM_USED :: "('h, 'd) item \<Rightarrow> bool" where
  "ITEM_USED i \<longleftrightarrow> FD_UNUSED \<noteq> it_fd i"

definition INVALID_FD :: "int \<Rightarrow> bool" where
  "INVALID_FD fd \<longleftrightarrow> fd < 0 \<or> fd \<ge> int ITEMS_MAX_SIZE"

text \<open>A zeroed item, and \<^verbatim>\<open>s->fds[i]\<close> read and written.\<close>

definition item_zero :: "('h, 'd) item" where
  "item_zero = \<lparr>it_fd = 0, it_interest = 0, it_handler = None, it_data = None\<rparr>"

definition get_item :: "('h, 'd) fdselector \<Rightarrow> nat \<Rightarrow> ('h, 'd) item res" where
  "get_item s i = (case sel_fds s of None \<Rightarrow> Inl NullPointer | Some ds \<Rightarrow> peek_at ds i)"

definition put_item :: "('h, 'd) fdselector \<Rightarrow> nat \<Rightarrow> ('h, 'd) item \<Rightarrow> ('h, 'd) fdselector res" where
  "put_item s i it = (case sel_fds s of None \<Rightarrow> Inl NullPointer
     | Some ds \<Rightarrow> bindr (poke_at ds i it) (\<lambda>ds'. Inr (s\<lparr>sel_fds := Some ds'\<rparr>)))"

section \<open>Operations\<close>

definition selector_error :: "selector_status \<Rightarrow> string" where
  "selector_error status = (case status of
     SELECTOR_SUCCESS \<Rightarrow> ''Success''
   | SELECTOR_ENOMEM \<Rightarrow> ''Not enough memory''
   | SELECTOR_MAXFD \<Rightarrow> ''Can't handle any more file descriptors''
   | SELECTOR_IARGS \<Rightarrow> ''Illegal argument''
   | SELECTOR_IO \<Rightarrow> ''I/O error''
   | _ \<Rightarrow> ''something failed'')"

text \<open>The two arguments are the results of \<^verbatim>\<open>sigprocmask\<close> and \<^verbatim>\<open>sigaction\<close>.\<close>

definition selector_init :: "int \<Rightarrow> int \<Rightarrow> selector_status" where
  "selector_init sigprocmask sigaction =
     (if sigprocmask = - 1 then SELECTOR_IO
      else if sigaction \<noteq> 0 then SELECTOR_IO else SELECTOR_SUCCESS)"

definition selector_close :: selector_status where
  "selector_close = SELECTOR_SUCCESS"

fun count_bits :: "nat \<Rightarrow> nat \<Rightarrow> nat" where
  "count_bits tmp bits = (if tmp = 0 then bits else count_bits (tmp div 2) (Suc bits))"

declare count_bits.simps [simp del]

text \<open>\<^verbatim>\<open>1UL << bits\<close>, for \<open>n\<close> below \<open>2^63\<close>; the only caller has \<open>n \<le> 1024\<close>.\<close>

definition next_capacity :: "nat \<Rightarrow> nat res" where
  "next_capacity n =
     (let tmp = 2 ^ count_bits n 0 in
      bindr (assert_c (tmp \<ge> n)) (\<lambda>_.
      let tmp' = (if tmp > ITEMS_MAX_SIZE then ITEMS_MAX_SIZE else tmp) in Inr (tmp' + 1)))"

definition item_init :: "('h, 'd) item \<Rightarrow> ('h, 'd) item" where
  "item_init it = it\<lparr>it_fd := FD_UNUSED\<rparr>"

definition items_init :: "('h, 'd) fdselector \<Rightarrow> nat \<Rightarrow> ('h, 'd) fdselector res" where
  "items_init s old =
     bindr (assert_c (old \<le> sel_fd_size s)) (\<lambda>_.
     case sel_fds s of None \<Rightarrow> Inl NullPointer
     | Some ds \<Rightarrow> Inr (s\<lparr>sel_fds := Some (take old ds @ map item_init (drop old ds))\<rparr>))"

text \<open>The loop over \<open>i = 0 .. max_fd\<close> as a fold.\<close>

definition items_max_fd :: "('h, 'd) fdselector \<Rightarrow> int res" where
  "items_max_fd s =
     fold (\<lambda>i r. bindr r (\<lambda>max. bindr (get_item s i) (\<lambda>item.
             Inr (if ITEM_USED item then if it_fd item > max then it_fd item else max else max))))
       [0 ..< nat (sel_max_fd s + 1)] (Inr 0)"

text \<open>\<^verbatim>\<open>FD_CLR\<close> and \<^verbatim>\<open>FD_SET\<close> of a number that is no index of the bit set.\<close>

definition items_update_fdset_for_fd :: "('h, 'd) fdselector \<Rightarrow> ('h, 'd) item \<Rightarrow> ('h, 'd) fdselector res" where
  "items_update_fdset_for_fd s item =
     (if INVALID_FD (it_fd item) then Inl OutOfBounds
      else let s1 = s\<lparr>sel_master_r := sel_master_r s - {it_fd item}\<rparr>;
               s2 = s1\<lparr>sel_master_w := sel_master_w s1 - {it_fd item}\<rparr> in
           if ITEM_USED item then
             let s3 = (if it_interest item AND OP_READ \<noteq> 0
                       then s2\<lparr>sel_master_r := insert (it_fd item) (sel_master_r s2)\<rparr> else s2);
                 s4 = (if it_interest item AND OP_WRITE \<noteq> 0
                       then s3\<lparr>sel_master_w := insert (it_fd item) (sel_master_w s3)\<rparr> else s3) in
             Inr s4
           else Inr s2)"

text \<open>\<open>alloc_ok\<close>: whether \<^verbatim>\<open>calloc\<close> or \<^verbatim>\<open>realloc\<close> returns a block.\<close>

definition ensure_capacity ::
  "bool \<Rightarrow> ('h, 'd) fdselector \<Rightarrow> nat \<Rightarrow> (selector_status \<times> ('h, 'd) fdselector) res" where
  "ensure_capacity alloc_ok s n =
     (if n < sel_fd_size s then Inr (SELECTOR_SUCCESS, s)
      else if n > ITEMS_MAX_SIZE then Inr (SELECTOR_MAXFD, s)
      else case sel_fds s of
        None \<Rightarrow>
          bindr (next_capacity n) (\<lambda>new_size.
          if \<not> alloc_ok then Inr (SELECTOR_ENOMEM, s)
          else bindr (items_init (s\<lparr>sel_fds := Some (replicate new_size item_zero),
                                   sel_fd_size := new_size\<rparr>) 0) (\<lambda>s'.
               Inr (SELECTOR_SUCCESS, s')))
      | Some ds \<Rightarrow>
          bindr (next_capacity n) (\<lambda>new_size.
          if new_size > SIZE_MAX div sizeof_item then Inr (SELECTOR_ENOMEM, s)
          else if \<not> alloc_ok then Inr (SELECTOR_ENOMEM, s)
          else let old_size = sel_fd_size s in
               bindr (items_init
                 (s\<lparr>sel_fds := Some (take new_size ds @ replicate (new_size - length ds) item_zero),
                    sel_fd_size := new_size\<rparr>) old_size) (\<lambda>s'.
               Inr (SELECTOR_SUCCESS, s'))))"

text \<open>
  \<open>malloc_ok\<close> for the selector itself, \<open>alloc_ok\<close> for its table. On the failing path
  \<^verbatim>\<open>selector_destroy\<close> finds no table and only frees the selector.
\<close>

definition selector_new :: "bool \<Rightarrow> bool \<Rightarrow> nat \<Rightarrow> ('h, 'd) fdselector option res" where
  "selector_new malloc_ok alloc_ok initial_elements =
     (if \<not> malloc_ok then Inr None
      else let ret = \<lparr>sel_fds = None, sel_fd_size = 0, sel_max_fd = 0, sel_master_r = {},
                      sel_master_w = {}, sel_slave_r = {}, sel_slave_w = {},
                      sel_resolution_jobs = []\<rparr> in
           bindr (assert_c (sel_max_fd ret = 0)) (\<lambda>_.
           bindr (ensure_capacity alloc_ok ret initial_elements) (\<lambda>(st, s).
           Inr (if st \<noteq> SELECTOR_SUCCESS then None else Some s))))"

text \<open>A null handler pointer is \<^const>\<open>None\<close>.\<close>

definition selector_register ::
  "bool \<Rightarrow> ('h, 'd) fdselector option \<Rightarrow> int \<Rightarrow> 'h option \<Rightarrow> u32 \<Rightarrow> 'd option
     \<Rightarrow> (selector_status \<times> ('h, 'd) fdselector option) res" where
  "selector_register alloc_ok sp fd handler interest data =
     (case sp of None \<Rightarrow> Inr (SELECTOR_IARGS, sp) | Some s \<Rightarrow>
      if INVALID_FD fd \<or> handler = None then Inr (SELECTOR_IARGS, sp)
      else let ufd = nat fd in
      bindr (if ufd > sel_fd_size s then ensure_capacity alloc_ok s ufd
             else Inr (SELECTOR_SUCCESS, s)) (\<lambda>(ret, s1).
      if ret \<noteq> SELECTOR_SUCCESS then Inr (ret, Some s1)
      else bindr (get_item s1 ufd) (\<lambda>item.
      if ITEM_USED item then Inr (SELECTOR_FDINUSE, Some s1)
      else let item' = \<lparr>it_fd = fd, it_interest = interest, it_handler = handler, it_data = data\<rparr> in
           bindr (put_item s1 ufd item') (\<lambda>s2.
           let s3 = (if fd > sel_max_fd s2 then s2\<lparr>sel_max_fd := fd\<rparr> else s2) in
           bindr (items_update_fdset_for_fd s3 item') (\<lambda>s4. Inr (SELECTOR_SUCCESS, Some s4))))))"

text \<open>
  An item pointer taken before a callback is stale when the callback made \<^verbatim>\<open>realloc\<close> move the
  table; \<open>same_table s s'\<close> compares the sizes, which only a reallocation changes.
\<close>

definition same_table :: "('h, 'd) fdselector \<Rightarrow> ('h, 'd) fdselector \<Rightarrow> unit res" where
  "same_table s s' = (if sel_fd_size s = sel_fd_size s' then Inr () else Inl UseAfterFree)"

definition the_ptr :: "'a option \<Rightarrow> 'a res" where
  "the_ptr p = (case p of None \<Rightarrow> Inl NullPointer | Some x \<Rightarrow> Inr x)"

definition call_close ::
  "('h \<Rightarrow> ('h, 'd, 'w) fd_handler) \<Rightarrow> 'h \<Rightarrow> 'd selector_key \<Rightarrow> ('h, 'd) fdselector \<Rightarrow> 'w
     \<Rightarrow> (('h, 'd) fdselector \<times> 'w) res" where
  "call_close hs h key s w =
     (case handle_close (hs h) of None \<Rightarrow> Inr (s, w) | Some cb \<Rightarrow> cb key (s, w))"

definition selector_unregister_fd ::
  "('h \<Rightarrow> ('h, 'd, 'w) fd_handler) \<Rightarrow> ('h, 'd) fdselector \<Rightarrow> int \<Rightarrow> 'w
     \<Rightarrow> (selector_status \<times> ('h, 'd) fdselector \<times> 'w) res" where
  "selector_unregister_fd hs s fd w =
     (if INVALID_FD fd then Inr (SELECTOR_IARGS, s, w)
      else bindr (get_item s (nat fd)) (\<lambda>item.
      if \<not> ITEM_USED item then Inr (SELECTOR_IARGS, s, w)
      else bindr (the_ptr (it_handler item)) (\<lambda>h.
      bindr (call_close hs h \<lparr>sk_fd = it_fd item, sk_data = it_data item\<rparr> s w) (\<lambda>(s1, w1).
      bindr (same_table s s1) (\<lambda>_.
      bindr (get_item s1 (nat fd)) (\<lambda>item1.
      let item2 = item1\<lparr>it_interest := OP_NOOP\<rparr> in
      bindr (items_update_fdset_for_fd s1 item2) (\<lambda>s2.
      bindr (put_item s2 (nat fd) (item_init item_zero)) (\<lambda>s3.
      bindr (items_max_fd s3) (\<lambda>m.
      Inr (SELECTOR_SUCCESS, s3\<lparr>sel_max_fd := m\<rparr>, w1))))))))))"

text \<open>The loop \<open>i = 0 .. fd_size - 1\<close>; then the list of jobs, each read after it was freed.\<close>

definition selector_destroy ::
  "('h \<Rightarrow> ('h, 'd, 'w) fd_handler) \<Rightarrow> ('h, 'd) fdselector option \<Rightarrow> 'w \<Rightarrow> 'w res" where
  "selector_destroy hs sp w =
     (case sp of None \<Rightarrow> Inr w | Some s \<Rightarrow>
      case sel_fds s of None \<Rightarrow> Inr w | Some _ \<Rightarrow>
      bindr (fold (\<lambda>i r. bindr r (\<lambda>(s1, w1).
               bindr (get_item s1 i) (\<lambda>item.
               if ITEM_USED item
               then bindr (selector_unregister_fd hs s1 (int i) w1) (\<lambda>(_, s2, w2). Inr (s2, w2))
               else Inr (s1, w1)))) [0 ..< sel_fd_size s] (Inr (s, w))) (\<lambda>(s', w').
      if sel_resolution_jobs s' = [] then Inr w' else Inl UseAfterFree))"

definition selector_set_interest ::
  "('h, 'd) fdselector \<Rightarrow> int \<Rightarrow> u32 \<Rightarrow> (selector_status \<times> ('h, 'd) fdselector) res" where
  "selector_set_interest s fd i =
     (if INVALID_FD fd then Inr (SELECTOR_IARGS, s)
      else bindr (get_item s (nat fd)) (\<lambda>item.
      if \<not> ITEM_USED item then Inr (SELECTOR_IARGS, s)
      else let item' = item\<lparr>it_interest := i\<rparr> in
           bindr (put_item s (nat fd) item') (\<lambda>s1.
           bindr (items_update_fdset_for_fd s1 item') (\<lambda>s2. Inr (SELECTOR_SUCCESS, s2)))))"

definition selector_set_interest_key ::
  "'d selector_key \<Rightarrow> ('h, 'd) fdselector \<Rightarrow> u32 \<Rightarrow> (selector_status \<times> ('h, 'd) fdselector) res" where
  "selector_set_interest_key s_key s i =
     (if INVALID_FD (sk_fd s_key) then Inr (SELECTOR_IARGS, s)
      else selector_set_interest s (sk_fd s_key) i)"

text \<open>
  One round of the loop of \<^verbatim>\<open>handle_iteration\<close>: the read callback, then the write callback, each
  guarded by the result of \<^verbatim>\<open>pselect\<close> and by the interest at that moment.
\<close>

definition handle_one ::
  "('h \<Rightarrow> ('h, 'd, 'w) fd_handler) \<Rightarrow> nat \<Rightarrow> ('h, 'd) fdselector \<times> 'w
     \<Rightarrow> (('h, 'd) fdselector \<times> 'w) res" where
  "handle_one hs i sw =
     (let (s, w) = sw in
      bindr (get_item s i) (\<lambda>item.
      if \<not> ITEM_USED item then Inr (s, w)
      else let s_key = \<lparr>sk_fd = it_fd item, sk_data = it_data item\<rparr> in
      bindr (if it_fd item \<in> sel_slave_r s \<and> OP_READ AND it_interest item \<noteq> 0
             then bindr (the_ptr (it_handler item)) (\<lambda>h.
                  case handle_read (hs h) of None \<Rightarrow> Inl AssertFail | Some cb \<Rightarrow> cb s_key (s, w))
             else Inr (s, w)) (\<lambda>(s1, w1).
      if int i \<in> sel_slave_w s1 then
        bindr (same_table s s1) (\<lambda>_.
        bindr (get_item s1 i) (\<lambda>item1.
        if OP_WRITE AND it_interest item1 \<noteq> 0
        then bindr (the_ptr (it_handler item1)) (\<lambda>h.
             case handle_write (hs h) of None \<Rightarrow> Inl AssertFail | Some cb \<Rightarrow> cb s_key (s1, w1))
        else Inr (s1, w1)))
      else Inr (s1, w1))))"

definition handle_iteration ::
  "('h \<Rightarrow> ('h, 'd, 'w) fd_handler) \<Rightarrow> ('h, 'd) fdselector \<Rightarrow> 'w \<Rightarrow> (('h, 'd) fdselector \<times> 'w) res" where
  "handle_iteration hs s w =
     fold (\<lambda>i r. bindr r (handle_one hs i)) [0 ..< nat (sel_max_fd s + 1)] (Inr (s, w))"

text \<open>The first job is handled, freed, and then read for its successor.\<close>

definition handle_block_notifications ::
  "('h \<Rightarrow> ('h, 'd, 'w) fd_handler) \<Rightarrow> ('h, 'd) fdselector \<Rightarrow> 'w \<Rightarrow> (('h, 'd) fdselector \<times> 'w) res" where
  "handle_block_notifications hs s w =
     (case sel_resolution_jobs s of
        [] \<Rightarrow> Inr (s\<lparr>sel_resolution_jobs := []\<rparr>, w)
      | fd # _ \<Rightarrow>
          bindr (if fd < 0 then Inl OutOfBounds else get_item s (nat fd)) (\<lambda>item.
          bindr (if ITEM_USED item
                 then bindr (the_ptr (it_handler item)) (\<lambda>h.
                      bindr (the_ptr (handle_block (hs h))) (\<lambda>cb.
                      cb \<lparr>sk_fd = it_fd item, sk_data = it_data item\<rparr> (s, w)))
                 else Inr (s, w)) (\<lambda>_.
          Inl UseAfterFree)))"

definition selector_notify_block ::
  "bool \<Rightarrow> ('h, 'd) fdselector \<Rightarrow> int \<Rightarrow> selector_status \<times> ('h, 'd) fdselector" where
  "selector_notify_block malloc_ok s fd =
     (if \<not> malloc_ok then (SELECTOR_ENOMEM, s)
      else (SELECTOR_SUCCESS, s\<lparr>sel_resolution_jobs := fd # sel_resolution_jobs s\<rparr>))"

text \<open>What \<^verbatim>\<open>pselect\<close> does: the descriptors that are ready, or a failure with its \<^verbatim>\<open>errno\<close>.\<close>

datatype select_error = EAGAIN | EINTR | EBADF | EOTHER
datatype select_result = Ready "int set" "int set" | Failed select_error

definition selector_select ::
  "('h \<Rightarrow> ('h, 'd, 'w) fd_handler) \<Rightarrow> select_result \<Rightarrow> ('h, 'd) fdselector \<Rightarrow> 'w
     \<Rightarrow> (selector_status \<times> ('h, 'd) fdselector \<times> 'w) res" where
  "selector_select hs r s w =
     (let s1 = s\<lparr>sel_slave_r := sel_master_r s, sel_slave_w := sel_master_w s\<rparr>;
          notify = (\<lambda>(s2, w2). bindr (handle_block_notifications hs s2 w2) (\<lambda>(s3, w3).
                     Inr (SELECTOR_SUCCESS, s3, w3))) in
      case r of
        Failed EAGAIN \<Rightarrow> notify (s1, w)
      | Failed EINTR \<Rightarrow> notify (s1, w)
      | Failed EBADF \<Rightarrow> Inr (SELECTOR_IO, s1, w)
      | Failed EOTHER \<Rightarrow> Inr (SELECTOR_IO, s1, w)
      | Ready rs ws \<Rightarrow>
          bindr (handle_iteration hs (s1\<lparr>sel_slave_r := rs, sel_slave_w := ws\<rparr>) w) notify)"

definition O_NONBLOCK :: u32 where "O_NONBLOCK = 0x800"

text \<open>
  \<open>getfd\<close> and \<open>setfl\<close> are \<^verbatim>\<open>fcntl\<close> with \<^verbatim>\<open>F_GETFD\<close> and \<^verbatim>\<open>F_SETFL\<close>; the
  flags read are those of the descriptor, not those of the file.
\<close>

definition selector_fd_set_nio :: "(int \<Rightarrow> int) \<Rightarrow> (int \<Rightarrow> u32 \<Rightarrow> int) \<Rightarrow> int \<Rightarrow> int" where
  "selector_fd_set_nio getfd setfl fd =
     (let flags = getfd fd in
      if flags = - 1 then - 1
      else if setfl fd (of_int flags OR O_NONBLOCK) = - 1 then - 1 else 0)"

section \<open>Invariant and abstraction\<close>

definition item_at :: "('h, 'd) fdselector \<Rightarrow> nat \<Rightarrow> ('h, 'd) item" where
  "item_at s i = (case sel_fds s of Some ds \<Rightarrow> ds ! i | None \<Rightarrow> item_zero)"

definition used_at :: "('h, 'd) fdselector \<Rightarrow> nat \<Rightarrow> bool" where
  "used_at s i \<longleftrightarrow> i < sel_fd_size s \<and> ITEM_USED (item_at s i)"

text \<open>
  The table has the recorded size; an item in use is at the index of its descriptor, below
  \<^verbatim>\<open>FD_SETSIZE\<close>, and has a handler; \<^verbatim>\<open>max_fd\<close> bounds the items in use and is an index of
  the table; the prototype sets are exactly the interests of the items in use.
\<close>

definition wf_selector :: "('h, 'd) fdselector \<Rightarrow> bool" where
  "wf_selector s \<longleftrightarrow> (\<exists>ds. sel_fds s = Some ds \<and> length ds = sel_fd_size s) \<and>
     sel_fd_size s \<le> ITEMS_MAX_SIZE + 1 \<and> 0 \<le> sel_max_fd s \<and> sel_max_fd s < int (sel_fd_size s) \<and>
     (\<forall>i. used_at s i \<longrightarrow> it_fd (item_at s i) = int i \<and> i < ITEMS_MAX_SIZE \<and>
        it_handler (item_at s i) \<noteq> None \<and> int i \<le> sel_max_fd s) \<and>
     sel_master_r s = {int i | i. used_at s i \<and> it_interest (item_at s i) AND OP_READ \<noteq> 0} \<and>
     sel_master_w s = {int i | i. used_at s i \<and> it_interest (item_at s i) AND OP_WRITE \<noteq> 0}"

text \<open>What the table stands for: a map from descriptors to handler, interest and attachment.\<close>

definition sel_map :: "('h, 'd) fdselector \<Rightarrow> nat \<Rightarrow> ('h option \<times> u32 \<times> 'd option) option" where
  "sel_map s i = (if used_at s i
     then Some (it_handler (item_at s i), it_interest (item_at s i), it_data (item_at s i)) else None)"

lemma wf_selectorD:
  assumes "wf_selector s"
  shows "i < sel_fd_size s \<Longrightarrow> get_item s i = Inr (item_at s i)"
    "i < sel_fd_size s \<Longrightarrow> \<exists>s'. put_item s i it = Inr s' \<and> s' = s\<lparr>sel_fds := sel_fds s'\<rparr> \<and>
        (\<forall>j < sel_fd_size s. item_at s' j = (if j = i then it else item_at s j)) \<and>
        (\<exists>ds. sel_fds s' = Some ds \<and> length ds = sel_fd_size s)"
    "used_at s i \<Longrightarrow> it_fd (item_at s i) = int i \<and> i < ITEMS_MAX_SIZE \<and> int i \<le> sel_max_fd s"
  using assms by (auto simp: wf_selector_def get_item_def put_item_def item_at_def used_at_def)

lemma bit_and_or_simps [simp]: "(0 :: u32) AND x = 0" "(OP_NOOP AND x) = 0"
  by (simp_all add: OP_NOOP_def)

lemma item_init_unused [simp]: "\<not> ITEM_USED (item_init it)"
  by (simp add: ITEM_USED_def item_init_def)

text \<open>Two selectors with the same items in use.\<close>

lemma wf_selector_cong:
  assumes "wf_selector s" "sel_fds s' = Some ds" "length ds = sel_fd_size s'"
    "sel_fd_size s \<le> sel_fd_size s'" "sel_fd_size s' \<le> ITEMS_MAX_SIZE + 1"
    "sel_max_fd s' = sel_max_fd s" "sel_master_r s' = sel_master_r s" "sel_master_w s' = sel_master_w s"
    and u: "\<And>i. used_at s' i \<longleftrightarrow> used_at s i" "\<And>i. used_at s i \<Longrightarrow> item_at s' i = item_at s i"
  shows "wf_selector s' \<and> sel_map s' = sel_map s"
proof -
  have "{int i | i. used_at s' i \<and> it_interest (item_at s' i) AND f \<noteq> 0} =
      {int i | i. used_at s i \<and> it_interest (item_at s i) AND f \<noteq> 0}" for f
    using u by (metis (no_types, lifting))
  then show ?thesis
    using assms(1-8) u by (simp add: wf_selector_def sel_map_def fun_eq_iff)
qed

text \<open>Two selectors that differ in one item.\<close>

lemma wf_selector_update:
  assumes wf: "wf_selector s" and i: "i < sel_fd_size s" "i < ITEMS_MAX_SIZE"
    and tab: "\<exists>ds. sel_fds s' = Some ds \<and> length ds = sel_fd_size s" "sel_fd_size s' = sel_fd_size s"
    and at: "\<forall>j < sel_fd_size s. item_at s' j = (if j = i then it else item_at s j)"
    and it: "ITEM_USED it \<Longrightarrow> it_fd it = int i \<and> it_handler it \<noteq> None \<and> int i \<le> sel_max_fd s'"
    and mx: "0 \<le> sel_max_fd s'" "sel_max_fd s' < int (sel_fd_size s)"
      "\<And>j. j \<noteq> i \<Longrightarrow> used_at s j \<Longrightarrow> int j \<le> sel_max_fd s'"
    and r: "sel_master_r s' = sel_master_r s - {int i} \<union>
      (if ITEM_USED it \<and> it_interest it AND OP_READ \<noteq> 0 then {int i} else {})"
    and w: "sel_master_w s' = sel_master_w s - {int i} \<union>
      (if ITEM_USED it \<and> it_interest it AND OP_WRITE \<noteq> 0 then {int i} else {})"
  shows "wf_selector s' \<and> sel_map s' = (sel_map s)(i := if ITEM_USED it
      then Some (it_handler it, it_interest it, it_data it) else None)"
proof -
  have used: "used_at s' j \<longleftrightarrow> (if j = i then ITEM_USED it else used_at s j)" for j
    using at tab(2) i by (auto simp: used_at_def)
  have same: "item_at s' j = (if j = i then it else item_at s j)" if "used_at s' j" for j
    using that at tab(2) by (auto simp: used_at_def)
  have sets: "{int j | j. used_at s' j \<and> it_interest (item_at s' j) AND f \<noteq> 0} =
      {int j | j. used_at s j \<and> it_interest (item_at s j) AND f \<noteq> 0} - {int i} \<union>
      (if ITEM_USED it \<and> it_interest it AND f \<noteq> 0 then {int i} else {})" for f
    using used same by (auto split: if_splits)
  have "sel_map s' = (sel_map s)(i := if ITEM_USED it
      then Some (it_handler it, it_interest it, it_data it) else None)"
    using used same by (auto simp: sel_map_def fun_eq_iff)
  moreover have "\<forall>j. used_at s' j \<longrightarrow> it_fd (item_at s' j) = int j \<and> j < ITEMS_MAX_SIZE \<and>
        it_handler (item_at s' j) \<noteq> None \<and> int j \<le> sel_max_fd s'"
    using used same it i mx(3) wf by (auto simp: wf_selector_def split: if_splits)
  ultimately show ?thesis
    using wf tab mx(1,2) r w sets [of OP_READ] sets [of OP_WRITE] by (simp add: wf_selector_def)
qed

lemma update_fdset_ok:
  assumes "it_fd item = int i" "i < ITEMS_MAX_SIZE"
  shows "\<exists>s'. items_update_fdset_for_fd s item = Inr s' \<and>
    s' = s\<lparr>sel_master_r := sel_master_r s - {int i} \<union>
             (if it_interest item AND OP_READ \<noteq> 0 then {int i} else {}),
           sel_master_w := sel_master_w s - {int i} \<union>
             (if it_interest item AND OP_WRITE \<noteq> 0 then {int i} else {})\<rparr>"
  using assms by (auto simp: items_update_fdset_for_fd_def INVALID_FD_def ITEM_USED_def FD_UNUSED_def Let_def)

section \<open>Growing the table\<close>

lemma count_bits_add: "count_bits n b = count_bits n 0 + b"
proof (induction n arbitrary: b rule: less_induct)
  case (less n)
  show ?case
  proof (cases "n = 0")
    case False
    then have "n div 2 < n" by simp
    from less [OF this, of "Suc b"] less [OF this, of "Suc 0"] False show ?thesis
      by (simp add: count_bits.simps [of n])
  qed (simp add: count_bits.simps)
qed

lemma count_bits_gt: "n < 2 ^ count_bits n 0"
proof (induction n rule: less_induct)
  case (less n)
  show ?case
  proof (cases "n = 0")
    case False
    then have "n div 2 < 2 ^ count_bits (n div 2) 0" using less [of "n div 2"] by simp
    moreover have "count_bits n 0 = Suc (count_bits (n div 2) 0)"
      using False count_bits_add [of "n div 2" 1] by (simp add: count_bits.simps [of n 0])
    ultimately show ?thesis by simp
  qed (simp add: count_bits.simps)
qed

lemma next_capacity_ok:
  assumes "n \<le> ITEMS_MAX_SIZE"
  shows "\<exists>c. next_capacity n = Inr c \<and> n < c \<and> c \<le> ITEMS_MAX_SIZE + 1"
  using count_bits_gt [of n] assms by (auto simp: next_capacity_def Let_def less_imp_le)

lemma ensure_capacity_wf:
  assumes "wf_selector s"
  shows "\<exists>st s'. ensure_capacity ok s n = Inr (st, s') \<and> wf_selector s' \<and> sel_map s' = sel_map s \<and>
    (st = SELECTOR_SUCCESS \<longrightarrow> n < sel_fd_size s') \<and> (st \<noteq> SELECTOR_SUCCESS \<longrightarrow> s' = s) \<and>
    sel_max_fd s' = sel_max_fd s \<and>
    (st \<noteq> SELECTOR_SUCCESS \<longrightarrow> n > ITEMS_MAX_SIZE \<or> \<not> ok)"
proof -
  obtain ds where ds: "sel_fds s = Some ds" "length ds = sel_fd_size s"
    using assms by (auto simp: wf_selector_def)
  consider "n < sel_fd_size s" | "n \<ge> sel_fd_size s" "n > ITEMS_MAX_SIZE"
    | "n \<ge> sel_fd_size s" "n \<le> ITEMS_MAX_SIZE" by linarith
  then show ?thesis
  proof cases
    case 3
    obtain c where c: "next_capacity n = Inr c" "n < c" "c \<le> ITEMS_MAX_SIZE + 1"
      using next_capacity_ok [OF 3(2)] by blast
    have big: "\<not> c > SIZE_MAX div sizeof_item"
      using c(3) by (simp add: SIZE_MAX_def sizeof_item_def ITEMS_MAX_SIZE_def)
    let ?ds = "ds @ map item_init (replicate (c - length ds) item_zero)"
    let ?s = "s\<lparr>sel_fds := Some ?ds, sel_fd_size := c\<rparr>"
    have le: "length ds \<le> c" using c(2) 3(1) ds by simp
    then have "items_init (s\<lparr>sel_fds := Some (ds @ replicate (c - length ds) item_zero), sel_fd_size := c\<rparr>)
        (sel_fd_size s) = Inr ?s"
      using ds by (simp add: items_init_def)
    then have run: "ensure_capacity ok s n = Inr (if ok then (SELECTOR_SUCCESS, ?s) else (SELECTOR_ENOMEM, s))"
      using 3 c big ds le by (simp add: ensure_capacity_def)
    have at: "item_at ?s i = (if i < length ds then item_at s i else item_init item_zero)" if "i < c" for i
      using that ds by (auto simp: item_at_def nth_append)
    have used: "used_at ?s i \<longleftrightarrow> used_at s i" for i
      using at [of i] le ds by (auto simp: used_at_def split: if_splits)
    have same: "used_at s i \<Longrightarrow> item_at ?s i = item_at s i" for i
      using at [of i] le ds by (auto simp: used_at_def)
    have "wf_selector ?s \<and> sel_map ?s = sel_map s"
      by (rule wf_selector_cong [OF assms]) (use c(3) le ds used same in auto)
    then show ?thesis using run assms c(2) by auto
  qed (use assms ds in \<open>auto simp: ensure_capacity_def\<close>)
qed

section \<open>What each operation does to the map\<close>

lemma new_wf:
  assumes "n \<le> ITEMS_MAX_SIZE"
  shows "\<exists>s. selector_new True True n = Inr (Some s) \<and> wf_selector s \<and> sel_map s = Map.empty \<and>
    n < sel_fd_size s"
proof -
  obtain c where c: "next_capacity n = Inr c" "n < c" "c \<le> ITEMS_MAX_SIZE + 1"
    using next_capacity_ok [OF assms] by blast
  let ?s = "\<lparr>sel_fds = Some (replicate c (item_init item_zero)), sel_fd_size = c, sel_max_fd = 0,
     sel_master_r = {}, sel_master_w = {}, sel_slave_r = {}, sel_slave_w = {},
     sel_resolution_jobs = []\<rparr>"
  have "selector_new True True n = Inr (Some ?s)"
    using c assms by (simp add: selector_new_def ensure_capacity_def items_init_def)
  moreover have "used_at ?s i \<longleftrightarrow> False" for i by (auto simp: used_at_def item_at_def)
  then have "wf_selector ?s" "sel_map ?s = Map.empty"
    using c by (auto simp: wf_selector_def sel_map_def fun_eq_iff)
  ultimately show ?thesis using c(2) by (intro exI [of _ ?s]) simp
qed

lemma register_core:
  assumes wf: "wf_selector s" and i: "i < sel_fd_size s" "i < ITEMS_MAX_SIZE"
    and un: "\<not> used_at s i" and h: "handler \<noteq> None"
  shows "\<exists>s'. selector_register ok (Some s) (int i) handler interest data = Inr (SELECTOR_SUCCESS, Some s') \<and>
    wf_selector s' \<and> sel_map s' = (sel_map s)(i \<mapsto> (handler, interest, data)) \<and>
    sel_fd_size s' = sel_fd_size s \<and> sel_max_fd s' = max (sel_max_fd s) (int i) \<and>
    sel_resolution_jobs s' = sel_resolution_jobs s"
proof -
  let ?it = "\<lparr>it_fd = int i, it_interest = interest, it_handler = handler, it_data = data\<rparr>"
  obtain s2 where s2: "put_item s i ?it = Inr s2" "s2 = s\<lparr>sel_fds := sel_fds s2\<rparr>"
    "\<forall>j < sel_fd_size s. item_at s2 j = (if j = i then ?it else item_at s j)"
    "\<exists>ds. sel_fds s2 = Some ds \<and> length ds = sel_fd_size s"
    using wf_selectorD(2) [OF wf i(1)] by blast
  let ?m = "max (sel_max_fd s) (int i)"
  let ?s3 = "if int i > sel_max_fd s2 then s2\<lparr>sel_max_fd := int i\<rparr> else s2"
  have s3: "?s3 = s2\<lparr>sel_max_fd := ?m\<rparr>" using s2(2) by (cases s2) (simp add: max_def)
  obtain s4 where s4: "items_update_fdset_for_fd ?s3 ?it = Inr s4"
    "s4 = ?s3\<lparr>sel_master_r := sel_master_r ?s3 - {int i} \<union> (if interest AND OP_READ \<noteq> 0 then {int i} else {}),
           sel_master_w := sel_master_w ?s3 - {int i} \<union> (if interest AND OP_WRITE \<noteq> 0 then {int i} else {})\<rparr>"
    using update_fdset_ok [of ?it i ?s3] i(2) by auto
  have sel2: "sel_master_r s2 = sel_master_r s" "sel_master_w s2 = sel_master_w s"
    "sel_fd_size s2 = sel_fd_size s" "sel_resolution_jobs s2 = sel_resolution_jobs s" by (subst s2(2), simp)+
  have used: "ITEM_USED ?it" by (simp add: ITEM_USED_def FD_UNUSED_def)
  have "wf_selector s4 \<and> sel_map s4 = (sel_map s)(i := if ITEM_USED ?it
      then Some (it_handler ?it, it_interest ?it, it_data ?it) else None)"
  proof (rule wf_selector_update [OF wf i])
    show "\<forall>j < sel_fd_size s. item_at s4 j = (if j = i then ?it else item_at s j)"
      using s2(3) by (simp add: s4(2) s3 item_at_def)
  qed (use wf i h s2(4) used in \<open>auto simp: s4(2) s3 sel2 wf_selector_def\<close>)
  moreover have "selector_register ok (Some s) (int i) handler interest data = Inr (SELECTOR_SUCCESS, Some s4)"
    using i un h wf_selectorD(1) [OF wf i(1)] s2(1) s4(1)
    by (simp add: selector_register_def INVALID_FD_def used_at_def Let_def)
  ultimately show ?thesis using used by (simp add: s4(2) s3 sel2)
qed

lemma set_interest_wf:
  assumes wf: "wf_selector s" and i: "used_at s i"
  shows "\<exists>s'. selector_set_interest s (int i) interest = Inr (SELECTOR_SUCCESS, s') \<and> wf_selector s' \<and>
    sel_map s' = (sel_map s)(i \<mapsto> (it_handler (item_at s i), interest, it_data (item_at s i))) \<and>
    sel_fd_size s' = sel_fd_size s \<and> sel_max_fd s' = sel_max_fd s \<and>
    sel_slave_r s' = sel_slave_r s \<and> sel_slave_w s' = sel_slave_w s \<and>
    sel_resolution_jobs s' = sel_resolution_jobs s"
proof -
  have i': "i < sel_fd_size s" "i < ITEMS_MAX_SIZE" "it_fd (item_at s i) = int i"
    using i wf_selectorD(3) [OF wf i] by (auto simp: used_at_def)
  let ?it = "(item_at s i)\<lparr>it_interest := interest\<rparr>"
  obtain s2 where s2: "put_item s i ?it = Inr s2" "s2 = s\<lparr>sel_fds := sel_fds s2\<rparr>"
    "\<forall>j < sel_fd_size s. item_at s2 j = (if j = i then ?it else item_at s j)"
    "\<exists>ds. sel_fds s2 = Some ds \<and> length ds = sel_fd_size s"
    using wf_selectorD(2) [OF wf i'(1)] by blast
  obtain s4 where s4: "items_update_fdset_for_fd s2 ?it = Inr s4"
    "s4 = s2\<lparr>sel_master_r := sel_master_r s2 - {int i} \<union> (if interest AND OP_READ \<noteq> 0 then {int i} else {}),
           sel_master_w := sel_master_w s2 - {int i} \<union> (if interest AND OP_WRITE \<noteq> 0 then {int i} else {})\<rparr>"
    using update_fdset_ok [of ?it i s2] i' by auto
  have sel2: "sel_master_r s2 = sel_master_r s" "sel_master_w s2 = sel_master_w s"
    "sel_fd_size s2 = sel_fd_size s" "sel_max_fd s2 = sel_max_fd s" "sel_slave_r s2 = sel_slave_r s"
    "sel_slave_w s2 = sel_slave_w s" "sel_resolution_jobs s2 = sel_resolution_jobs s"
    by (subst s2(2), simp)+
  have used: "ITEM_USED ?it" using i by (simp add: used_at_def ITEM_USED_def)
  have "wf_selector s4 \<and> sel_map s4 = (sel_map s)(i := if ITEM_USED ?it
      then Some (it_handler ?it, it_interest ?it, it_data ?it) else None)"
  proof (rule wf_selector_update [OF wf i'(1,2)])
    show "\<forall>j < sel_fd_size s. item_at s4 j = (if j = i then ?it else item_at s j)"
      using s2(3) by (simp add: s4(2) item_at_def)
  qed (use wf i i' s2(4) used in \<open>auto simp: s4(2) sel2 wf_selector_def\<close>)
  moreover have "selector_set_interest s (int i) interest = Inr (SELECTOR_SUCCESS, s4)"
    using i i' wf_selectorD(1) [OF wf i'(1)] s2(1) s4(1)
    by (simp add: selector_set_interest_def INVALID_FD_def used_at_def)
  ultimately show ?thesis using used by (simp add: s4(2) sel2)
qed

lemma set_interest_unused:
  assumes "wf_selector s" "\<not> used_at s i" "i < sel_fd_size s"
  shows "selector_set_interest s (int i) interest = Inr (SELECTOR_IARGS, s)"
  using assms wf_selectorD(1) [OF assms(1,3)] by (simp add: selector_set_interest_def used_at_def)

text \<open>The maximum over the items in use, 0 when there is none.\<close>

lemma items_max_fd_fold:
  assumes "wf_selector s" "n \<le> sel_fd_size s"
  shows "\<exists>m. fold (\<lambda>i r. bindr r (\<lambda>max. bindr (get_item s i) (\<lambda>item.
             Inr (if ITEM_USED item then if it_fd item > max then it_fd item else max else max))))
       [0 ..< n] (Inr 0) = Inr m \<and> 0 \<le> m \<and> (\<forall>j < n. used_at s j \<longrightarrow> int j \<le> m) \<and>
     (m = 0 \<or> (\<exists>j < n. used_at s j \<and> m = int j))"
  using assms(2)
proof (induction n)
  case (Suc n)
  then obtain m where m: "fold (\<lambda>i r. bindr r (\<lambda>max. bindr (get_item s i) (\<lambda>item.
             Inr (if ITEM_USED item then if it_fd item > max then it_fd item else max else max))))
       [0 ..< n] (Inr 0) = Inr m" "0 \<le> m" "\<forall>j < n. used_at s j \<longrightarrow> int j \<le> m"
     "m = 0 \<or> (\<exists>j < n. used_at s j \<and> m = int j)" by auto
  have g: "get_item s n = Inr (item_at s n)" using Suc.prems wf_selectorD(1) [OF assms(1)] by simp
  have u: "ITEM_USED (item_at s n) \<longleftrightarrow> used_at s n" using Suc.prems by (simp add: used_at_def)
  show ?case
  proof (cases "used_at s n")
    case True
    then have "it_fd (item_at s n) = int n" using wf_selectorD(3) [OF assms(1)] by blast
    with True m g u show ?thesis by (auto simp: less_Suc_eq)
  next
    case False
    with m g u show ?thesis by (auto simp: less_Suc_eq)
  qed
qed simp

lemma items_max_fd_wf:
  assumes "wf_selector s"
  shows "\<exists>m. items_max_fd s = Inr m \<and> 0 \<le> m \<and> m \<le> sel_max_fd s \<and>
    (\<forall>j. used_at s j \<longrightarrow> int j \<le> m) \<and> (m = 0 \<or> (\<exists>j. used_at s j \<and> m = int j))"
proof -
  have "nat (sel_max_fd s + 1) \<le> sel_fd_size s" "0 \<le> sel_max_fd s"
    using assms by (auto simp: wf_selector_def)
  with items_max_fd_fold [OF assms this(1)] obtain m where
    "items_max_fd s = Inr m" "0 \<le> m" "\<forall>j < nat (sel_max_fd s + 1). used_at s j \<longrightarrow> int j \<le> m"
    "m = 0 \<or> (\<exists>j < nat (sel_max_fd s + 1). used_at s j \<and> m = int j)"
    by (auto simp: items_max_fd_def)
  moreover have "\<And>j. used_at s j \<Longrightarrow> j < nat (sel_max_fd s + 1)"
    using wf_selectorD(3) [OF assms] by fastforce
  ultimately show ?thesis using \<open>0 \<le> sel_max_fd s\<close> by (intro exI [of _ m]) fastforce
qed

text \<open>The close callback is told the attachment and leaves the selector alone.\<close>

lemma unregister_wf:
  fixes s :: "('h, 'd) fdselector"
  assumes wf: "wf_selector s" and i: "used_at s i"
    and cb: "call_close hs (the (it_handler (item_at s i)))
      \<lparr>sk_fd = int i, sk_data = it_data (item_at s i)\<rparr> s w = Inr (s, w')"
  shows "\<exists>s'. selector_unregister_fd hs s (int i) w = Inr (SELECTOR_SUCCESS, s', w') \<and> wf_selector s' \<and>
    sel_map s' = (sel_map s)(i := None) \<and> sel_fd_size s' = sel_fd_size s \<and>
    (sel_max_fd s' = 0 \<or> used_at s' (nat (sel_max_fd s'))) \<and> it_interest (item_at s' i) = 0 \<and>
    sel_resolution_jobs s' = sel_resolution_jobs s"
proof -
  have i': "i < sel_fd_size s" "i < ITEMS_MAX_SIZE" "it_fd (item_at s i) = int i"
    using i wf_selectorD(3) [OF wf i] by (auto simp: used_at_def)
  obtain h where h: "it_handler (item_at s i) = Some h" using wf i by (auto simp: wf_selector_def)
  let ?it = "(item_at s i)\<lparr>it_interest := OP_NOOP\<rparr>"
  obtain s2 where s2: "items_update_fdset_for_fd s ?it = Inr s2"
    "s2 = s\<lparr>sel_master_r := sel_master_r s - {int i}, sel_master_w := sel_master_w s - {int i}\<rparr>"
    using update_fdset_ok [of ?it i s] i' by auto
  define z :: "('h, 'd) item" where "z = item_init item_zero"
  then have z: "\<not> ITEM_USED z" by simp
  obtain ds where ds: "sel_fds s = Some ds" "length ds = sel_fd_size s"
    using wf by (auto simp: wf_selector_def)
  define s3 where "s3 = s2\<lparr>sel_fds := Some (ds[i := z])\<rparr>"
  have p: "put_item s2 i z = Inr s3"
    using ds i' by (simp add: put_item_def s2(2) s3_def)
  have "wf_selector s3 \<and> sel_map s3 = (sel_map s)(i := if ITEM_USED z
      then Some (it_handler z, it_interest z,
        it_data z) else None)"
  proof (rule wf_selector_update [OF wf i'(1,2)])
    show "\<forall>j < sel_fd_size s. item_at s3 j = (if j = i then z else item_at s j)"
      using ds i' by (simp add: s3_def item_at_def)
  qed (use wf ds z in \<open>auto simp: s3_def s2(2) wf_selector_def\<close>)
  then have w3: "wf_selector s3" "sel_map s3 = (sel_map s)(i := None)" using z by simp_all
  obtain m where m: "items_max_fd s3 = Inr m" "0 \<le> m" "m \<le> sel_max_fd s3"
    "\<forall>j. used_at s3 j \<longrightarrow> int j \<le> m" "m = 0 \<or> (\<exists>j. used_at s3 j \<and> m = int j)"
    using items_max_fd_wf [OF w3(1)] by blast
  let ?s = "s3\<lparr>sel_max_fd := m\<rparr>"
  have eq: "item_at ?s = item_at s3" "used_at ?s = used_at s3" "sel_map ?s = sel_map s3"
    by (auto simp: item_at_def used_at_def sel_map_def fun_eq_iff)
  have "wf_selector ?s" using w3(1) m unfolding wf_selector_def eq by auto
  moreover have "selector_unregister_fd hs s (int i) w = Inr (SELECTOR_SUCCESS, ?s, w')"
    using cb i i' h wf_selectorD(1) [OF wf i'(1)] s2(1) p m(1) z_def
    by (simp add: selector_unregister_fd_def INVALID_FD_def used_at_def the_ptr_def same_table_def Let_def)
  moreover have "it_interest (item_at ?s i) = 0"
    using ds i' by (simp add: item_at_def s3_def z_def item_init_def item_zero_def)
  ultimately show ?thesis
    using w3(2) m(5) eq by (auto simp: s3_def s2(2))
qed

text \<open>Registering, growing the table first when needed.\<close>

lemma register_grow:
  assumes "wf_selector s" "sel_fd_size s < i" "i < ITEMS_MAX_SIZE" "handler \<noteq> None"
  shows "\<exists>s1. wf_selector s1 \<and> sel_map s1 = sel_map s \<and>
    selector_register ok (Some s) (int i) handler interest data =
      (if ok then selector_register ok (Some s1) (int i) handler interest data
       else Inr (SELECTOR_ENOMEM, Some s)) \<and> (ok \<longrightarrow> i < sel_fd_size s1)"
proof -
  obtain ds c where ds: "sel_fds s = Some ds" and c: "next_capacity i = Inr c"
    using assms(1,3) next_capacity_ok [of i] by (auto simp: wf_selector_def)
  obtain st s1 where e: "ensure_capacity ok s i = Inr (st, s1)" "wf_selector s1" "sel_map s1 = sel_map s"
    "st = SELECTOR_SUCCESS \<longrightarrow> i < sel_fd_size s1" "st \<noteq> SELECTOR_SUCCESS \<longrightarrow> s1 = s"
    "st \<noteq> SELECTOR_SUCCESS \<longrightarrow> i > ITEMS_MAX_SIZE \<or> \<not> ok"
    using ensure_capacity_wf [OF assms(1), of ok i] by blast
  have st: "st = (if ok then SELECTOR_SUCCESS else SELECTOR_ENOMEM)"
    using e(1,6) ds c assms(2,3) by (auto simp: ensure_capacity_def split: if_splits)
  obtain h where h: "handler = Some h" using assms(4) by blast
  show ?thesis
  proof (cases ok)
    case True
    then have "selector_register ok (Some s) (int i) handler interest data =
        selector_register ok (Some s1) (int i) handler interest data"
      using e st assms(2,3) h by (simp add: selector_register_def INVALID_FD_def Let_def)
    then show ?thesis using e st True by auto
  next
    case False
    then have "selector_register ok (Some s) (int i) handler interest data = Inr (SELECTOR_ENOMEM, Some s)"
      using e st assms(2,3) h by (simp add: selector_register_def INVALID_FD_def Let_def)
    then show ?thesis using False assms(1) by auto
  qed
qed

lemma register_used:
  assumes "wf_selector s" "used_at s i" "handler \<noteq> None"
  shows "selector_register ok (Some s) (int i) handler interest data = Inr (SELECTOR_FDINUSE, Some s)"
proof -
  have "i < ITEMS_MAX_SIZE" "i < sel_fd_size s"
    using wf_selectorD(3) [OF assms(1,2)] assms(2) by (auto simp: used_at_def)
  with assms wf_selectorD(1) [OF assms(1)] show ?thesis
    by (auto simp: selector_register_def INVALID_FD_def used_at_def Let_def)
qed

lemma register_wf:
  assumes wf: "wf_selector s" and i: "i < ITEMS_MAX_SIZE" "i \<noteq> sel_fd_size s" and h: "handler \<noteq> None"
  shows "\<exists>st s'. selector_register ok (Some s) (int i) handler interest data = Inr (st, Some s') \<and>
    wf_selector s' \<and>
    st = (if sel_map s i \<noteq> None then SELECTOR_FDINUSE
          else if sel_fd_size s < i \<and> \<not> ok then SELECTOR_ENOMEM else SELECTOR_SUCCESS) \<and>
    sel_map s' = (if st = SELECTOR_SUCCESS then (sel_map s)(i \<mapsto> (handler, interest, data)) else sel_map s)"
proof (cases "used_at s i")
  case True
  with wf h show ?thesis by (simp add: register_used sel_map_def)
next
  case un: False
  show ?thesis
  proof (cases "i < sel_fd_size s")
    case True
    from register_core [OF wf True i(1) un h, of ok interest data] True un show ?thesis
      by (auto simp: sel_map_def)
  next
    case False
    then have "sel_fd_size s < i" using i(2) by simp
    from register_grow [OF wf this i(1) h, of ok interest data] obtain s1 where
      s1: "wf_selector s1" "sel_map s1 = sel_map s" "ok \<longrightarrow> i < sel_fd_size s1"
      "selector_register ok (Some s) (int i) handler interest data =
        (if ok then selector_register ok (Some s1) (int i) handler interest data
         else Inr (SELECTOR_ENOMEM, Some s))" by blast
    have un1: "\<not> used_at s1 i" using s1(2) un by (metis option.distinct(1) sel_map_def)
    show ?thesis
    proof (cases ok)
      case True
      with register_core [OF s1(1) _ i(1) un1 h, of ok interest data] s1 un show ?thesis
        by (auto simp: sel_map_def [of s])
    next
      case False
      with s1 wf un \<open>sel_fd_size s < i\<close> show ?thesis by (auto simp: sel_map_def [of s])
    qed
  qed
qed

section \<open>Dispatch\<close>

text \<open>How a dispatch ends: in the invariant, with the table of \<open>n\<close> entries, or with an allowed fault.\<close>

definition outcome ::
  "(('h, 'd) fdselector \<Rightarrow> 'w \<Rightarrow> bool) \<Rightarrow> fault set \<Rightarrow> nat \<Rightarrow> (('h, 'd) fdselector \<times> 'w) res \<Rightarrow> bool" where
  "outcome sinv F n r \<longleftrightarrow>
     (\<exists>s w. r = Inr (s, w) \<and> sinv s w \<and> sel_fd_size s = n) \<or> (\<exists>e \<in> F. r = Inl e)"

lemma outcome_bindr:
  assumes "outcome sinv F n r" "\<And>s w. sinv s w \<Longrightarrow> sel_fd_size s = n \<Longrightarrow> outcome sinv F n (f (s, w))"
  shows "outcome sinv F n (bindr r f)"
proof (cases r)
  case (Inr sw)
  then obtain s w where "r = Inr (s, w)" "sinv s w" "sel_fd_size s = n"
    using assms(1) by (auto simp: outcome_def)
  then show ?thesis using assms(2) by simp
qed (use assms(1) in \<open>auto simp: outcome_def\<close>)

lemma notifications_idle:
  assumes "sel_resolution_jobs s = []"
  shows "handle_block_notifications hs s w = Inr (s, w)"
proof -
  have "s\<lparr>sel_resolution_jobs := []\<rparr> = s" using assms by (cases s) simp
  then show ?thesis using assms by (simp add: handle_block_notifications_def)
qed

text \<open>
  The contract between the selector and the handlers registered in it: \<open>sinv\<close> relates the selector
  and the client state. When a callback is due it exists, its faults are of \<open>F\<close>, and otherwise it
  keeps the invariant and the table; it does not replace the attachment of a descriptor it leaves
  interested in writing.
\<close>

locale fd_clients =
  fixes hs :: "'h \<Rightarrow> ('h, 'd, 'w) fd_handler" and sinv :: "('h, 'd) fdselector \<Rightarrow> 'w \<Rightarrow> bool"
    and F :: "fault set"
  assumes inv_wf: "sinv s w \<Longrightarrow> wf_selector s"
    and read_callback: "sinv s w \<Longrightarrow> used_at s i \<Longrightarrow> int i \<in> sel_slave_r s \<Longrightarrow> it_handler (item_at s i) = Some h \<Longrightarrow>
      OP_READ AND it_interest (item_at s i) \<noteq> 0 \<Longrightarrow>
      \<exists>cb. handle_read (hs h) = Some cb \<and>
        ((\<exists>s' w'. cb \<lparr>sk_fd = int i, sk_data = it_data (item_at s i)\<rparr> (s, w) = Inr (s', w') \<and> sinv s' w' \<and>
            sel_fd_size s' = sel_fd_size s \<and>
            (used_at s' i \<longrightarrow> it_data (item_at s' i) = it_data (item_at s i)) \<and>
            (\<not> used_at s' i \<longrightarrow> it_interest (item_at s' i) = 0)) \<or>
         (\<exists>e \<in> F. cb \<lparr>sk_fd = int i, sk_data = it_data (item_at s i)\<rparr> (s, w) = Inl e))"
    and write_callback: "sinv s w \<Longrightarrow> used_at s i \<Longrightarrow> int i \<in> sel_slave_w s \<Longrightarrow> it_handler (item_at s i) = Some h \<Longrightarrow>
      OP_WRITE AND it_interest (item_at s i) \<noteq> 0 \<Longrightarrow>
      \<exists>cb. handle_write (hs h) = Some cb \<and>
        ((\<exists>s' w'. cb \<lparr>sk_fd = int i, sk_data = it_data (item_at s i)\<rparr> (s, w) = Inr (s', w') \<and> sinv s' w' \<and>
            sel_fd_size s' = sel_fd_size s) \<or>
         (\<exists>e \<in> F. cb \<lparr>sk_fd = int i, sk_data = it_data (item_at s i)\<rparr> (s, w) = Inl e))"
begin

lemma write_half:
  assumes "sinv s w" "i < sel_fd_size s" "used_at s i \<or> it_interest (item_at s i) = 0"
    "used_at s i \<longrightarrow> d = it_data (item_at s i)" "int i \<in> sel_slave_w s"
  shows "outcome sinv F (sel_fd_size s) (bindr (get_item s i) (\<lambda>item1.
      if OP_WRITE AND it_interest item1 \<noteq> 0
      then bindr (the_ptr (it_handler item1)) (\<lambda>h.
           case handle_write (hs h) of None \<Rightarrow> Inl AssertFail | Some cb \<Rightarrow> cb \<lparr>sk_fd = int i, sk_data = d\<rparr> (s, w))
      else Inr (s, w)))"
proof (cases "OP_WRITE AND it_interest (item_at s i) \<noteq> 0")
  case True
  with assms(3) have u: "used_at s i" by auto
  then obtain h where h: "it_handler (item_at s i) = Some h"
    using inv_wf [OF assms(1)] by (auto simp: wf_selector_def)
  show ?thesis
    using write_callback [OF assms(1) u assms(5) h True] u h assms(2,4) True wf_selectorD(1) [OF inv_wf [OF assms(1)]]
    by (auto simp: outcome_def the_ptr_def)
next
  case False
  with assms show ?thesis
    using wf_selectorD(1) [OF inv_wf [OF assms(1)] assms(2)] by (auto simp: outcome_def)
qed

lemma handle_one_safe:
  assumes "sinv s w" "i < sel_fd_size s"
  shows "outcome sinv F (sel_fd_size s) (handle_one hs i (s, w))"
proof (cases "used_at s i")
  case True
  note wf = inv_wf [OF assms(1)]
  have fd: "it_fd (item_at s i) = int i" using wf_selectorD(3) [OF wf True] by blast
  obtain h where h: "it_handler (item_at s i) = Some h" using wf True by (auto simp: wf_selector_def)
  let ?key = "\<lparr>sk_fd = int i, sk_data = it_data (item_at s i)\<rparr>"
  let ?wr = "\<lambda>(s1, w1). if int i \<in> sel_slave_w s1 then
        bindr (same_table s s1) (\<lambda>_. bindr (get_item s1 i) (\<lambda>item1.
        if OP_WRITE AND it_interest item1 \<noteq> 0
        then bindr (the_ptr (it_handler item1)) (\<lambda>h.
             case handle_write (hs h) of None \<Rightarrow> Inl AssertFail | Some cb \<Rightarrow> cb ?key (s1, w1))
        else Inr (s1, w1))) else Inr (s1, w1)"
  have wr: "outcome sinv F (sel_fd_size s) (?wr (s1, w1))"
    if "sinv s1 w1" "sel_fd_size s1 = sel_fd_size s" "used_at s1 i \<or> it_interest (item_at s1 i) = 0"
      "used_at s1 i \<longrightarrow> it_data (item_at s i) = it_data (item_at s1 i)" for s1 w1
    using write_half [OF that(1) _ that(3,4)] that(1,2) assms(2)
    by (auto simp: same_table_def outcome_def)
  show ?thesis
  proof (cases "int i \<in> sel_slave_r s \<and> OP_READ AND it_interest (item_at s i) \<noteq> 0")
    case rd: True
    obtain cb where cb: "handle_read (hs h) = Some cb"
      "(\<exists>s' w'. cb ?key (s, w) = Inr (s', w') \<and> sinv s' w' \<and> sel_fd_size s' = sel_fd_size s \<and>
            (used_at s' i \<longrightarrow> it_data (item_at s' i) = it_data (item_at s i)) \<and>
            (\<not> used_at s' i \<longrightarrow> it_interest (item_at s' i) = 0)) \<or> (\<exists>e \<in> F. cb ?key (s, w) = Inl e)"
      using read_callback [OF assms(1) True _ h] rd by blast
    have "handle_one hs i (s, w) = bindr (cb ?key (s, w)) ?wr"
      using True rd cb(1) h fd wf_selectorD(1) [OF wf assms(2)]
      by (simp add: handle_one_def used_at_def the_ptr_def Let_def)
    moreover from cb(2) have "outcome sinv F (sel_fd_size s) (bindr (cb ?key (s, w)) ?wr)"
    proof (elim disjE exE conjE bexE)
      fix s' w' assume "cb ?key (s, w) = Inr (s', w')" "sinv s' w'" "sel_fd_size s' = sel_fd_size s"
        "used_at s' i \<longrightarrow> it_data (item_at s' i) = it_data (item_at s i)"
        "\<not> used_at s' i \<longrightarrow> it_interest (item_at s' i) = 0"
      with wr [of s' w'] show ?thesis by auto
    qed (auto simp: outcome_def)
    ultimately show ?thesis by simp
  next
    case rd: False
    then have "handle_one hs i (s, w) = ?wr (s, w)"
      using True fd wf_selectorD(1) [OF wf assms(2)] by (auto simp: handle_one_def used_at_def Let_def)
    then show ?thesis using wr [OF assms(1)] True by simp
  qed
next
  case False
  with assms show ?thesis
    using wf_selectorD(1) [OF inv_wf [OF assms(1)] assms(2)]
    by (auto simp: handle_one_def used_at_def outcome_def)
qed

lemma iteration_safe:
  assumes "sinv s w"
  shows "outcome sinv F (sel_fd_size s) (handle_iteration hs s w)"
proof -
  have "outcome sinv F (sel_fd_size s) (fold (\<lambda>i r. bindr r (handle_one hs i)) is r)"
    if "outcome sinv F (sel_fd_size s) r" "\<forall>i \<in> set is. i < sel_fd_size s" for "is" r
    using that
  proof (induction "is" arbitrary: r)
    case (Cons i "is")
    have "outcome sinv F (sel_fd_size s) (bindr r (handle_one hs i))"
      using Cons.prems handle_one_safe by (intro outcome_bindr) (metis list.set_intros(1))+
    with Cons show ?case by simp
  qed simp
  moreover have "\<forall>i \<in> set [0 ..< nat (sel_max_fd s + 1)]. i < sel_fd_size s"
    using inv_wf [OF assms] by (auto simp: wf_selector_def)
  ultimately show ?thesis using assms by (simp add: handle_iteration_def outcome_def)
qed

text \<open>A round, when nobody asks for the notification of a blocking job.\<close>

lemma round_safe:
  assumes "sinv (s\<lparr>sel_slave_r := rs, sel_slave_w := ws\<rparr>) w" "\<And>s w. sinv s w \<Longrightarrow> sel_resolution_jobs s = []"
  shows "(\<exists>s' w'. selector_select hs (Ready rs ws) s w = Inr (SELECTOR_SUCCESS, s', w') \<and> sinv s' w' \<and> sel_fd_size s' = sel_fd_size s) \<or>
    (\<exists>e \<in> F. selector_select hs (Ready rs ws) s w = Inl e)"
proof -
  let ?s = "s\<lparr>sel_slave_r := rs, sel_slave_w := ws\<rparr>"
  have "outcome sinv F (sel_fd_size s) (handle_iteration hs ?s w)" using iteration_safe [OF assms(1)] by simp
  then show ?thesis using assms(2) by (auto simp: selector_select_def outcome_def Let_def notifications_idle)
qed

end

text \<open>
  Clients that never ask for the notification of a blocking job, and whose invariant does not look at
  the result of \<^verbatim>\<open>pselect\<close>: then whole calls of \<open>selector_select\<close> are safe.
\<close>

locale idle_clients = fd_clients +
  assumes no_jobs: "sinv s w \<Longrightarrow> sel_resolution_jobs s = []"
    and slaves: "sinv s w \<Longrightarrow> sinv (s\<lparr>sel_slave_r := rs, sel_slave_w := ws\<rparr>) w"
begin

lemma select_safe:
  assumes "sinv s w"
  shows "(\<exists>st s' w'. selector_select hs r s w = Inr (st, s', w') \<and> sinv s' w' \<and> sel_fd_size s' = sel_fd_size s \<and>
      (st = SELECTOR_SUCCESS \<longleftrightarrow> r \<notin> {Failed EBADF, Failed EOTHER}) \<and> st \<in> {SELECTOR_SUCCESS, SELECTOR_IO}) \<or>
    (\<exists>e \<in> F. selector_select hs r s w = Inl e)"
proof (cases r)
  case (Ready rs ws)
  then show ?thesis using round_safe [OF slaves [OF assms] no_jobs] by auto
next
  case (Failed e)
  have i: "sinv (s\<lparr>sel_slave_r := sel_master_r s, sel_slave_w := sel_master_w s\<rparr>) w" by (rule slaves [OF assms])
  with notifications_idle [OF no_jobs [OF i], of hs w] Failed show ?thesis
    by (cases e) (simp_all add: selector_select_def Let_def)
qed

end

section \<open>Reachable selectors\<close>

text \<open>Close callbacks that leave the selector alone, as the ones of the sources do.\<close>

definition closes_quietly :: "('h \<Rightarrow> ('h, 'd, 'w) fd_handler) \<Rightarrow> bool" where
  "closes_quietly hs \<longleftrightarrow> (\<forall>h cb key s w s' w'. handle_close (hs h) = Some cb \<longrightarrow>
     cb key (s, w) = Inr (s', w') \<longrightarrow> s' = s)"

inductive sel_reach :: "('h \<Rightarrow> ('h, 'd, 'w) fd_handler) \<Rightarrow> ('h, 'd) fdselector \<Rightarrow> bool"
  for hs :: "'h \<Rightarrow> ('h, 'd, 'w) fd_handler" where
  reach_new: "selector_new True True n = Inr (Some s) \<Longrightarrow> sel_reach hs s"
| reach_register: "sel_reach hs s \<Longrightarrow>
    selector_register ok (Some s) fd handler interest data = Inr (st, Some s') \<Longrightarrow> sel_reach hs s'"
| reach_set_interest: "sel_reach hs s \<Longrightarrow> selector_set_interest s fd interest = Inr (st, s') \<Longrightarrow> sel_reach hs s'"
| reach_unregister: "sel_reach hs s \<Longrightarrow> selector_unregister_fd hs s fd w = Inr (st, s', w') \<Longrightarrow> sel_reach hs s'"
| reach_notify: "sel_reach hs s \<Longrightarrow> selector_notify_block ok s fd = (st, s') \<Longrightarrow> sel_reach hs s'"

lemma new_Inr_wf:
  fixes s :: "('h, 'd) fdselector"
  assumes "selector_new True True n = Inr (Some s)"
  shows "wf_selector s"
proof (cases "n \<le> ITEMS_MAX_SIZE")
  case True
  obtain s0 :: "('h, 'd) fdselector" where "selector_new True True n = Inr (Some s0)" "wf_selector s0"
    using new_wf [OF True] by blast
  with assms show ?thesis by simp
qed (use assms in \<open>simp add: selector_new_def ensure_capacity_def\<close>)

lemma valid_fd_nat: "\<not> INVALID_FD fd \<Longrightarrow> \<exists>i. fd = int i \<and> i < ITEMS_MAX_SIZE"
  by (intro exI [of _ "nat fd"]) (auto simp: INVALID_FD_def)

lemma get_item_out: "wf_selector s \<Longrightarrow> sel_fd_size s \<le> i \<Longrightarrow> get_item s i = Inl OutOfBounds"
  by (auto simp: wf_selector_def get_item_def peek_at_def)

lemma register_out:
  assumes "wf_selector s" "sel_fd_size s < ITEMS_MAX_SIZE" "handler \<noteq> None"
  shows "selector_register ok (Some s) (int (sel_fd_size s)) handler interest data = Inl OutOfBounds"
  using assms by (auto simp: selector_register_def INVALID_FD_def get_item_out)

lemma register_Inr_wf:
  assumes "wf_selector s" "selector_register ok (Some s) fd handler interest data = Inr (st, Some s')"
  shows "wf_selector s'"
proof (cases "INVALID_FD fd \<or> handler = None")
  case True
  with assms show ?thesis by (simp add: selector_register_def)
next
  case False
  then obtain i where i: "fd = int i" "i < ITEMS_MAX_SIZE" "handler \<noteq> None" using valid_fd_nat by blast
  have "i \<noteq> sel_fd_size s" using assms register_out [of s handler ok interest data] i by auto
  from register_wf [OF assms(1) i(2) this i(3), of ok interest data] assms(2) i(1) show ?thesis by auto
qed

lemma set_interest_Inr_wf:
  assumes "wf_selector s" "selector_set_interest s fd interest = Inr (st, s')"
  shows "wf_selector s'"
proof (cases "INVALID_FD fd")
  case False
  then obtain i where i: "fd = int i" using valid_fd_nat by blast
  show ?thesis
  proof (cases "used_at s i")
    case True
    with set_interest_wf [OF assms(1) True, of interest] assms(2) i show ?thesis by auto
  next
    case un: False
    have "i < sel_fd_size s"
      using assms(2) False i get_item_out [OF assms(1), of i]
      by (cases "i < sel_fd_size s") (auto simp: selector_set_interest_def)
    with set_interest_unused [OF assms(1) un] assms i show ?thesis by auto
  qed
qed (use assms in \<open>simp add: selector_set_interest_def\<close>)

lemma unregister_Inr_wf:
  assumes "closes_quietly hs" "wf_selector s" "selector_unregister_fd hs s fd w = Inr (st, s', w')"
  shows "wf_selector s'"
proof (cases "INVALID_FD fd")
  case False
  then obtain i where i: "fd = int i" "i < ITEMS_MAX_SIZE" using valid_fd_nat by blast
  have il: "i < sel_fd_size s"
    using assms(3) False i get_item_out [OF assms(2), of i]
    by (cases "i < sel_fd_size s") (auto simp: selector_unregister_fd_def)
  show ?thesis
  proof (cases "used_at s i")
    case True
    have fd: "it_fd (item_at s i) = int i" using wf_selectorD(3) [OF assms(2) True] by blast
    obtain h where h: "it_handler (item_at s i) = Some h"
      using assms(2) True by (auto simp: wf_selector_def)
    obtain s1 w1 where cb: "call_close hs h \<lparr>sk_fd = int i, sk_data = it_data (item_at s i)\<rparr> s w = Inr (s1, w1)"
      using assms(3) False True i h il fd wf_selectorD(1) [OF assms(2) il]
      by (auto simp: selector_unregister_fd_def used_at_def the_ptr_def res_simps)
    have "s1 = s"
    proof (cases "handle_close (hs h)")
      case (Some c)
      with cb assms(1) show ?thesis unfolding closes_quietly_def call_close_def by simp blast
    qed (use cb in \<open>simp add: call_close_def\<close>)
    with cb h have "call_close hs (the (it_handler (item_at s i)))
      \<lparr>sk_fd = int i, sk_data = it_data (item_at s i)\<rparr> s w = Inr (s, w1)" by simp
    from unregister_wf [OF assms(2) True this] assms(3) i(1) show ?thesis by auto
  next
    case un: False
    with assms False i il wf_selectorD(1) [OF assms(2) il] show ?thesis
      by (simp add: selector_unregister_fd_def used_at_def)
  qed
qed (use assms in \<open>simp add: selector_unregister_fd_def\<close>)

lemma notify_wf: "wf_selector s \<Longrightarrow> selector_notify_block ok s fd = (st, s') \<Longrightarrow> wf_selector s'"
proof -
  assume wf: "wf_selector s" and n: "selector_notify_block ok s fd = (st, s')"
  obtain ds where ds: "sel_fds s = Some ds" "length ds = sel_fd_size s"
    using wf by (auto simp: wf_selector_def)
  have "sel_fd_size s \<le> ITEMS_MAX_SIZE + 1" using wf by (simp add: wf_selector_def)
  then show "wf_selector s'"
    using n ds wf_selector_cong [OF wf, of s' ds]
    by (auto simp: selector_notify_block_def used_at_def item_at_def split: if_splits)
qed

text \<open>The other two operations, on any descriptor.\<close>

lemma interest_beyond:
  assumes "wf_selector s" "i < ITEMS_MAX_SIZE"
  shows "sel_fd_size s \<le> i \<Longrightarrow> selector_set_interest s (int i) interest = Inl OutOfBounds"
  using assms by (simp add: selector_set_interest_def INVALID_FD_def get_item_out)

lemma unregister_beyond:
  assumes "wf_selector s" "i < ITEMS_MAX_SIZE"
  shows "sel_fd_size s \<le> i \<Longrightarrow> selector_unregister_fd hs s (int i) w = Inl OutOfBounds"
  using assms by (simp add: selector_unregister_fd_def INVALID_FD_def get_item_out)

lemma set_interest_replaces:
  assumes "wf_selector s" "i < sel_fd_size s"
  shows "\<exists>s'. selector_set_interest s (int i) interest =
      Inr (if sel_map s i = None then SELECTOR_IARGS else SELECTOR_SUCCESS, s') \<and> wf_selector s' \<and>
    sel_map s' = (case sel_map s i of None \<Rightarrow> sel_map s | Some (h, _, d) \<Rightarrow> (sel_map s)(i \<mapsto> (h, interest, d)))"
proof (cases "used_at s i")
  case True
  then have m: "sel_map s i = Some (it_handler (item_at s i), it_interest (item_at s i), it_data (item_at s i))"
    by (simp add: sel_map_def)
  from set_interest_wf [OF assms(1) True, of interest] show ?thesis unfolding m by auto
next
  case False
  then have m: "sel_map s i = None" by (simp add: sel_map_def)
  show ?thesis using set_interest_unused [OF assms(1) False assms(2)] assms(1) unfolding m by simp
qed

lemma unregister_map:
  fixes s :: "('h, 'd) fdselector"
  assumes "wf_selector s" "i < ITEMS_MAX_SIZE" "i < sel_fd_size s"
    and "used_at s i \<Longrightarrow> call_close hs (the (it_handler (item_at s i)))
      \<lparr>sk_fd = int i, sk_data = it_data (item_at s i)\<rparr> s w = Inr (s, w')"
  shows "\<exists>s' w''. selector_unregister_fd hs s (int i) w =
      Inr (if sel_map s i = None then SELECTOR_IARGS else SELECTOR_SUCCESS, s', w'') \<and> wf_selector s' \<and>
    sel_map s' = (sel_map s)(i := None) \<and> (sel_map s i \<noteq> None \<longrightarrow> w'' = w' \<and>
      (sel_max_fd s' = 0 \<or> sel_map s' (nat (sel_max_fd s')) \<noteq> None))"
proof (cases "used_at s i")
  case True
  then have m: "sel_map s i \<noteq> None" by (simp add: sel_map_def)
  obtain s2 where s2: "selector_unregister_fd hs s (int i) w = Inr (SELECTOR_SUCCESS, s2, w')" "wf_selector s2"
    "sel_map s2 = (sel_map s)(i := None)" "sel_max_fd s2 = 0 \<or> used_at s2 (nat (sel_max_fd s2))"
    using unregister_wf [OF assms(1) True assms(4) [OF True]] by (elim exE conjE)
  from s2(4) have "sel_max_fd s2 = 0 \<or> sel_map s2 (nat (sel_max_fd s2)) \<noteq> None" by (auto simp: sel_map_def)
  with s2 m show ?thesis by (intro exI [of _ s2] exI [of _ w']) simp
next
  case False
  then have m: "sel_map s i = None" by (simp add: sel_map_def)
  have "selector_unregister_fd hs s (int i) w = Inr (SELECTOR_IARGS, s, w)"
    using False assms(2,3) wf_selectorD(1) [OF assms(1,3)]
    by (simp add: selector_unregister_fd_def INVALID_FD_def used_at_def)
  with m assms(1) show ?thesis by (simp add: fun_upd_idem)
qed

lemma new_five:
  "\<exists>s :: (nat, nat) fdselector. selector_new True True 5 = Inr (Some s) \<and> sel_fd_size s < 200 \<and> sel_map s = Map.empty \<and> wf_selector s"
proof -
  obtain s :: "(nat, nat) fdselector" where s: "selector_new True True 5 = Inr (Some s)" "sel_map s = Map.empty" "wf_selector s"
    using new_wf [of 5] by (auto simp: ITEMS_MAX_SIZE_def)
  have "next_capacity 5 = Inr 8 \<or> next_capacity 5 = Inr 9" by code_simp
  with s show ?thesis by (auto simp: selector_new_def ensure_capacity_def items_init_def res_simps Let_def split: if_splits)
qed

section \<open>Properties\<close>

text \<open>
  C20: every selector that a sequence of calls can produce is well-formed: from \<^const>\<open>selector_new\<close>,
  through any registrations, changes of interest, unregistrations and notifications, with whatever
  arguments, results and allocation failures, the table has its recorded size, each item in use sits
  at its descriptor's index, \<^verbatim>\<open>max_fd\<close> bounds them, and the two prototype sets hold exactly the
  descriptors with the corresponding interest.
\<close>

theorem selector_reachable_wf:
  assumes "sel_reach hs s" "closes_quietly hs"
  shows "wf_selector s"
  using assms(1)
proof induction
  case (reach_unregister s fd w st s' w')
  then show ?case using unregister_Inr_wf [OF assms(2)] by blast
qed (use new_Inr_wf register_Inr_wf set_interest_Inr_wf notify_wf in blast)+

definition no_callbacks :: "nat \<Rightarrow> (nat, nat, unit) fd_handler" where
  "no_callbacks _ = \<lparr>handle_read = None, handle_write = None, handle_block = None, handle_close = None\<rparr>"

theorem selector_reachable_wf_witness:
  "\<exists>s st s'. selector_new True True 0 = Inr (Some s) \<and>
     selector_register True (Some s) 0 (Some (7 :: nat)) OP_READ (None :: nat option) = Inr (st, Some s') \<and>
     wf_selector s' \<and> 0 \<in> sel_master_r s'"
proof -
  obtain s :: "(nat, nat) fdselector" where s: "selector_new True True 0 = Inr (Some s)" "0 < sel_fd_size s"
      "sel_map s = Map.empty" "wf_selector s"
    using new_wf [of 0] by auto
  have un: "\<not> used_at s 0" using s(3) by (metis option.distinct(1) sel_map_def)
  obtain s' where s': "selector_register True (Some s) (int 0) (Some 7) OP_READ None = Inr (SELECTOR_SUCCESS, Some s')"
    "sel_map s' = (sel_map s)(0 \<mapsto> (Some 7, OP_READ, None))"
    using register_core [OF s(4,2) _ un, of "Some 7" True OP_READ None] by (auto simp: ITEMS_MAX_SIZE_def)
  have "sel_reach no_callbacks s'"
    using reach_register [OF reach_new [OF s(1)] s'(1)] .
  moreover have "closes_quietly no_callbacks" by (simp add: closes_quietly_def no_callbacks_def)
  ultimately have wf: "wf_selector s'" by (rule selector_reachable_wf)
  have "used_at s' 0 \<and> it_interest (item_at s' 0) = OP_READ"
    using s'(2) by (auto simp: sel_map_def fun_eq_iff split: if_splits)
  then have "int 0 \<in> sel_master_r s'" using wf unfolding wf_selector_def OP_READ_def by auto
  with s s'(1) wf show ?thesis by auto
qed

text \<open>
  C19: on a well-formed selector the operations act on the map from descriptors to handler, interest
  and attachment, on every branch and for every descriptor. Registering refuses a descriptor the platform does not allow
  and a missing handler; otherwise it inserts a new descriptor, growing the table when the descriptor is beyond it and
  keeping every other entry, reports a descriptor in use, and leaves the map unchanged when memory runs out. Changing the
  interest replaces it and reports unknown descriptors; unregistering, after the close callback, removes the
  entry and recomputes the largest descriptor. Two cases the capacity tests miss are accesses out of bounds: registering the
  descriptor equal to the size of the table, and the other two operations on a descriptor beyond the table.
\<close>

theorem selector_refines_map:
  fixes fd :: int and s :: "('h, 'd) fdselector"
  assumes "wf_selector s"
    and close: "used_at s (nat fd) \<longrightarrow> call_close hs (the (it_handler (item_at s (nat fd))))
      \<lparr>sk_fd = fd, sk_data = it_data (item_at s (nat fd))\<rparr> s w = Inr (s, w')"
  shows "(if fd < 0 \<or> int ITEMS_MAX_SIZE \<le> fd \<or> handler = None
      then selector_register ok (Some s) fd handler interest data = Inr (SELECTOR_IARGS, Some s)
      else if nat fd = sel_fd_size s then selector_register ok (Some s) fd handler interest data = Inl OutOfBounds
      else \<exists>st s'. selector_register ok (Some s) fd handler interest data = Inr (st, Some s') \<and> wf_selector s' \<and>
        st = (if sel_map s (nat fd) \<noteq> None then SELECTOR_FDINUSE
              else if sel_fd_size s < nat fd \<and> \<not> ok then SELECTOR_ENOMEM else SELECTOR_SUCCESS) \<and>
        sel_map s' = (if st = SELECTOR_SUCCESS then (sel_map s)(nat fd \<mapsto> (handler, interest, data)) else sel_map s)) \<and>
    (if fd < 0 \<or> int ITEMS_MAX_SIZE \<le> fd then selector_set_interest s fd interest = Inr (SELECTOR_IARGS, s)
      else if sel_fd_size s \<le> nat fd then selector_set_interest s fd interest = Inl OutOfBounds
      else \<exists>s'. selector_set_interest s fd interest =
          Inr (if sel_map s (nat fd) = None then SELECTOR_IARGS else SELECTOR_SUCCESS, s') \<and> wf_selector s' \<and>
        sel_map s' = (case sel_map s (nat fd) of None \<Rightarrow> sel_map s
          | Some (h, _, d) \<Rightarrow> (sel_map s)(nat fd \<mapsto> (h, interest, d)))) \<and>
    (if fd < 0 \<or> int ITEMS_MAX_SIZE \<le> fd then selector_unregister_fd hs s fd w = Inr (SELECTOR_IARGS, s, w)
      else if sel_fd_size s \<le> nat fd then selector_unregister_fd hs s fd w = Inl OutOfBounds
      else \<exists>s' w''. selector_unregister_fd hs s fd w =
          Inr (if sel_map s (nat fd) = None then SELECTOR_IARGS else SELECTOR_SUCCESS, s', w'') \<and> wf_selector s' \<and>
        sel_map s' = (sel_map s)(nat fd := None) \<and> (sel_map s (nat fd) \<noteq> None \<longrightarrow> w'' = w' \<and>
          (sel_max_fd s' = 0 \<or> sel_map s' (nat (sel_max_fd s')) \<noteq> None)))"
proof (cases "fd < 0 \<or> int ITEMS_MAX_SIZE \<le> fd")
  case True
  then show ?thesis
    by (auto simp: selector_register_def selector_set_interest_def selector_unregister_fd_def INVALID_FD_def)
next
  case False
  then obtain i where i: "fd = int i" "i < ITEMS_MAX_SIZE" by (metis int_nat_eq linorder_not_less nat_less_iff)
  have r0: "selector_register ok (Some s) (int i) None interest data = Inr (SELECTOR_IARGS, Some s)"
    by (simp add: selector_register_def)
  have r1: "selector_register ok (Some s) (int i) handler interest data = Inl OutOfBounds" if "i = sel_fd_size s" "handler \<noteq> None"
    using register_out [OF assms(1)] i(2) that by simp
  note r = register_wf [OF assms(1) i(2), of handler ok interest data]
  note o = interest_beyond [OF assms(1) i(2), of interest] unregister_beyond [OF assms(1) i(2), of hs w]
  have c: "call_close hs (the (it_handler (item_at s i))) \<lparr>sk_fd = int i, sk_data = it_data (item_at s i)\<rparr> s w = Inr (s, w')"
    if "used_at s i" using close that i(1) by simp
  note n = set_interest_replaces [OF assms(1), of i interest] unregister_map [OF assms(1) i(2) _ c]
  show ?thesis using r0 r1 r o n i False by (auto simp del: fun_upd_apply)
qed

theorem selector_refines_map_witness:
  "\<exists>s s'. selector_new True True 5 = Inr (Some s) \<and> sel_fd_size s < 200 \<and>
     selector_register True (Some s) 200 (Some 7) OP_WRITE (Some 1) = Inr (SELECTOR_SUCCESS, Some s') \<and>
     sel_map s' 200 = Some (Some (7 :: nat), OP_WRITE, Some (1 :: nat))"
proof -
  obtain s :: "(nat, nat) fdselector" where s: "selector_new True True 5 = Inr (Some s)" "sel_fd_size s < 200"
      "sel_map s = Map.empty" "wf_selector s"
    using new_five by blast
  have "\<not> used_at s (nat 200)" using s(2) by (simp add: used_at_def)
  then have c: "used_at s (nat 200) \<longrightarrow> call_close no_callbacks (the (it_handler (item_at s (nat 200))))
      \<lparr>sk_fd = 200, sk_data = it_data (item_at s (nat 200))\<rparr> s () = Inr (s, ())" by blast
  show ?thesis
    using selector_refines_map [OF s(4) c, where handler = "Some 7" and ok = True and interest = OP_WRITE and data = "Some 1"] s
    by (auto simp: ITEMS_MAX_SIZE_def)
qed

text \<open>
  The capacity test of \<^const>\<open>selector_register\<close> is off by one: with a table of fewer entries
  than the platform allows, registering the descriptor equal to the table's size, a valid one, reads
  and writes one item past the table instead of growing it, whereas every larger valid descriptor
  grows it (or reports that memory ran out).
\<close>

theorem register_off_by_one:
  assumes "wf_selector s" "sel_fd_size s < ITEMS_MAX_SIZE" "handler \<noteq> None"
  shows "selector_register ok (Some s) (int (sel_fd_size s)) handler interest data = Inl OutOfBounds \<and>
    (\<forall>i. sel_fd_size s < i \<and> i < ITEMS_MAX_SIZE \<longrightarrow>
       (\<exists>s'. selector_register ok (Some s) (int i) handler interest data =
          Inr (if ok then SELECTOR_SUCCESS else SELECTOR_ENOMEM, Some s') \<and> wf_selector s'))"
proof -
  have "\<exists>s'. selector_register ok (Some s) (int i) handler interest data =
          Inr (if ok then SELECTOR_SUCCESS else SELECTOR_ENOMEM, Some s') \<and> wf_selector s'"
    if "sel_fd_size s < i" "i < ITEMS_MAX_SIZE" for i
  proof -
    have "sel_map s i = None" using that(1) by (simp add: sel_map_def used_at_def)
    with register_wf [OF assms(1) that(2) _ assms(3), of ok interest data] that(1) show ?thesis by auto
  qed
  with register_out [OF assms] show ?thesis by blast
qed

theorem register_off_by_one_witness:
  "\<exists>s. selector_new True True 0 = Inr (Some s) \<and>
     selector_register True (Some s) 2 (Some (7 :: nat)) OP_READ (None :: nat option) = Inl OutOfBounds"
proof -
  have c: "count_bits 0 0 = 0" by (simp add: count_bits.simps)
  let ?s = "\<lparr>sel_fds = Some (replicate 2 (item_init item_zero)), sel_fd_size = 2, sel_max_fd = 0,
     sel_master_r = {}, sel_master_w = {}, sel_slave_r = {}, sel_slave_w = {},
     sel_resolution_jobs = []\<rparr> :: (nat, nat) fdselector"
  have 1: "selector_new True True 0 = Inr (Some ?s)"
    by (simp add: selector_new_def ensure_capacity_def next_capacity_def c items_init_def
        ITEMS_MAX_SIZE_def numeral_2_eq_2)
  then have "wf_selector ?s" by (rule new_Inr_wf)
  from register_off_by_one [OF this, of "Some 7" True OP_READ None] 1 show ?thesis
    by (auto simp: ITEMS_MAX_SIZE_def)
qed

text \<open>
  A notification cannot be delivered without touching freed memory: whenever another thread has
  queued one, \<^const>\<open>handle_block_notifications\<close> reads the next pointer of the job it has just
  freed, or faults before that in the callback.
\<close>

theorem notification_use_after_free:
  assumes "wf_selector s" "selector_notify_block True s (int i) = (st, s')" "i < sel_fd_size s"
    and "used_at s i \<longrightarrow> (\<exists>cb. handle_block (hs (the (it_handler (item_at s i)))) = Some cb \<and>
      (\<exists>r. cb \<lparr>sk_fd = int i, sk_data = it_data (item_at s i)\<rparr> (s', w) = Inr r))"
  shows "handle_block_notifications hs s' w = Inl UseAfterFree"
proof -
  have s': "s' = s\<lparr>sel_resolution_jobs := int i # sel_resolution_jobs s\<rparr>"
    using assms(2) by (auto simp: selector_notify_block_def)
  have g: "get_item s' i = Inr (item_at s i)"
    using wf_selectorD(1) [OF assms(1,3)] by (simp add: s' get_item_def)
  show ?thesis
  proof (cases "used_at s i")
    case True
    obtain h where h: "it_handler (item_at s i) = Some h" using assms(1) True by (auto simp: wf_selector_def)
    have "it_fd (item_at s i) = int i" using wf_selectorD(3) [OF assms(1) True] by blast
    with assms(4) True h g show ?thesis
      by (auto simp: handle_block_notifications_def used_at_def the_ptr_def s')
  next
    case False
    with assms(3) g show ?thesis by (simp add: handle_block_notifications_def used_at_def s')
  qed
qed

theorem notification_use_after_free_witness:
  "\<exists>s. selector_new True True 0 = Inr (Some s) \<and>
     handle_block_notifications no_callbacks (snd (selector_notify_block True s 0)) () = Inl UseAfterFree"
proof -
  obtain s :: "(nat, nat) fdselector" where s: "selector_new True True 0 = Inr (Some s)" "0 < sel_fd_size s"
      "sel_map s = Map.empty" "wf_selector s"
    using new_wf [of 0] by auto
  have "\<not> used_at s 0" using s(3) by (metis option.distinct(1) sel_map_def)
  then show ?thesis
    using notification_use_after_free [OF s(4), of 0 _ "snd (selector_notify_block True s 0)" no_callbacks "()"] s
    by (auto simp: selector_notify_block_def)
qed

end
