(* ===== verification/Env.thy ===== *)
theory Env
  imports Buffer UserUtils Stadistics Selector
begin

text \<open>
  What the session handlers share: the operating system, an argument of every handler that calls it;
  the process-wide data (user list, metrics); the pointers the selector hands back to them; and the
  receive and send steps every handler is made of.

  An operating system is a record of functions over its own state \<open>'o\<close>, so that a handler threads
  that state through its system calls in the order the code makes them.
\<close>

section \<open>The operating system\<close>

record 'o os =
  os_recv :: "'o \<Rightarrow> int \<Rightarrow> nat \<Rightarrow> u8 list option \<times> 'o"
  os_send :: "'o \<Rightarrow> int \<Rightarrow> u8 list \<Rightarrow> int \<times> 'o"
  os_close :: "'o \<Rightarrow> int \<Rightarrow> int \<times> 'o"
  os_accept :: "'o \<Rightarrow> int \<Rightarrow> int \<times> 'o"
  os_malloc :: "'o \<Rightarrow> bool \<times> 'o"
  os_getfd :: "'o \<Rightarrow> int \<Rightarrow> int"
  os_setfl :: "'o \<Rightarrow> int \<Rightarrow> u32 \<Rightarrow> int"
  os_socket :: "'o \<Rightarrow> int \<Rightarrow> int \<times> 'o"
  os_connect :: "'o \<Rightarrow> int \<Rightarrow> u8 list \<Rightarrow> int option \<times> 'o"
  os_so_error :: "'o \<Rightarrow> int \<Rightarrow> int option \<times> 'o"
  os_shutdown :: "'o \<Rightarrow> int \<Rightarrow> bool \<Rightarrow> 'o"
  os_bind :: "'o \<Rightarrow> int \<Rightarrow> int \<times> 'o"
  os_listen :: "'o \<Rightarrow> int \<Rightarrow> int \<times> 'o"

text \<open>
  \<^verbatim>\<open>recv\<close> gives \<^const>\<open>None\<close> for \<open>-1\<close> and otherwise the bytes received, none at the end of the
  stream. The documented contract: never more bytes than asked for, and \<^verbatim>\<open>send\<close> reports \<open>-1\<close> or
  a number of bytes it was given. An \<^verbatim>\<open>accept\<close> that is
  repeated while it is interrupted stands for its last call. \<^verbatim>\<open>connect\<close> gives \<^const>\<open>None\<close> for success and otherwise the error number; the flag of \<^verbatim>\<open>shutdown\<close> is whether
  the writing direction is meant.
\<close>

definition os_ok :: "'o os \<Rightarrow> bool" where
  "os_ok os \<longleftrightarrow> (\<forall>st fd n xs st'. os_recv os st fd n = (Some xs, st') \<longrightarrow> length xs \<le> n) \<and>
     (\<forall>st fd xs n st'. os_send os st fd xs = (n, st') \<longrightarrow> - 1 \<le> n \<and> n \<le> int (length xs))"

lemma os_recv_le: "os_ok os \<Longrightarrow> os_recv os st fd n = (Some xs, st') \<Longrightarrow> length xs \<le> n"
  unfolding os_ok_def by blast

lemma os_send_range: "os_ok os \<Longrightarrow> os_send os st fd xs = (n, st') \<Longrightarrow> - 1 \<le> n \<and> n \<le> int (length xs)"
  unfolding os_ok_def by blast

text \<open>
  A concrete system, for the examples: the descriptors handed out and the messages that arrive are
  scripted, memory is never short, everything written is sent at once.
\<close>

type_synonym script = "int list \<times> u8 list list \<times> u8 list"

definition script_fd :: "script \<Rightarrow> int \<times> script" where
  "script_fd st = (case st of (f # fs, ms, out) \<Rightarrow> (f, fs, ms, out) | ([], ms, out) \<Rightarrow> (- 1, [], ms, out))"

definition script_os :: "script os" where
  "script_os = \<lparr>
     os_recv = (\<lambda>(fs, ms, out) fd n. case ms of m # ms' \<Rightarrow> (Some (take n m), fs, ms', out) | [] \<Rightarrow> (None, fs, ms, out)),
     os_send = (\<lambda>(fs, ms, out) fd xs. (int (length xs), fs, ms, out @ xs)),
     os_close = (\<lambda>st fd. (0, st)),
     os_accept = (\<lambda>st fd. script_fd st),
     os_malloc = (\<lambda>st. (True, st)),
     os_getfd = (\<lambda>st fd. if fd < 0 then - 1 else 0),
     os_setfl = (\<lambda>st fd x. 0),
     os_socket = (\<lambda>st dom. script_fd st),
     os_connect = (\<lambda>st fd a. (Some 115, st)),
     os_so_error = (\<lambda>st fd. (Some 0, st)),
     os_shutdown = (\<lambda>st fd b. st),
     os_bind = (\<lambda>st fd. (if fd < 0 then - 1 else 0, st)),
     os_listen = (\<lambda>st fd. (if fd < 0 then - 1 else 0, st))\<rparr>"

lemma script_os_ok [simp]: "os_ok script_os"
  by (auto simp: os_ok_def script_os_def split: list.splits)

section \<open>Process-wide state\<close>

record 'o env =
  e_users :: user_list
  e_stats :: stadistics
  e_os :: 'o

text \<open>The handlers that are registered and the attachments they get.\<close>

datatype handler_id =
  PRAWTOS_PASSIVE | PRAWTOS | SOCKS_PASSIVE_IPV4 | SOCKS_PASSIVE_IPV6 | CLIENT | SERVER

datatype ptr = PrawtosP nat | SessionP nat

type_synonym sel = "(handler_id, ptr) fdselector"
type_synonym key = "ptr selector_key"

section \<open>Receiving into and sending from a buffer\<close>

text \<open>
  \<^verbatim>\<open>ptr = buffer_write_ptr(b, &count); n = recv(fd, ptr, count, 0)\<close>: the kernel stores through
  the pointer, the write pointer does not move yet. The result is \<^verbatim>\<open>n\<close>.
\<close>

definition recv_step :: "'o os \<Rightarrow> int \<Rightarrow> buffer \<Rightarrow> 'o env \<Rightarrow> (int \<times> buffer \<times> 'o env) res" where
  "recv_step os fd b e =
     bindr (buffer_write_ptr b) (\<lambda>(count, p).
     case os_recv os (e_os e) fd count of
       (None, st) \<Rightarrow> Inr (- 1, b, e\<lparr>e_os := st\<rparr>)
     | (Some xs, st) \<Rightarrow> bindr (buffer_poke b p xs) (\<lambda>b'. Inr (int (length xs), b', e\<lparr>e_os := st\<rparr>)))"

text \<open>\<^verbatim>\<open>ptr = buffer_read_ptr(b, &count); n = send(fd, ptr, count, MSG_NOSIGNAL)\<close>.\<close>

definition send_step :: "'o os \<Rightarrow> int \<Rightarrow> buffer \<Rightarrow> 'o env \<Rightarrow> (int \<times> 'o env) res" where
  "send_step os fd b e =
     bindr (buffer_read_ptr b) (\<lambda>(count, p).
     bindr (buffer_peek b p count) (\<lambda>xs.
     let (n, st) = os_send os (e_os e) fd xs in Inr (n, e\<lparr>e_os := st\<rparr>)))"

lemma recv_step_ok:
  assumes "os_ok os" "wf_buffer b"
  obtains n b' e' where "recv_step os fd b e = Inr (n, b', e')" "e_users e' = e_users e"
    "e_stats e' = e_stats e" "n \<le> 0 \<Longrightarrow> n \<ge> - 1"
    "\<exists>b1. n > 0 \<longrightarrow> buffer_write_adv b' n = Inr b1 \<and> wf_buffer b1 \<and> b_limit b1 = b_limit b \<and>
       (\<exists>xs. int (length xs) = n \<and> buf_content b1 = buf_content b @ xs)"
    "wf_buffer b'" "b_limit b' = b_limit b"
proof (cases "os_recv os (e_os e) fd (buf_room b)")
  case (Pair r st)
  show thesis
  proof (cases r)
    case None
    with Pair assms show thesis by (intro that [of "- 1" b "e\<lparr>e_os := st\<rparr>"]) (auto simp: recv_step_def write_ptr_wf)
  next
    case (Some xs)
    then have le: "length xs \<le> buf_room b" using os_recv_le [OF assms(1)] Pair by simp
    obtain b1 b2 where b: "buffer_poke b (b_write b) xs = Inr b1"
      "buffer_write_adv b1 (int (length xs)) = Inr b2" "wf_buffer b2"
      "buf_content b2 = buf_content b @ xs" "b_limit b2 = b_limit b"
      using poke_adv_wf [OF assms(2) le] by metis
    have w: "wf_buffer b1" "b_limit b1 = b_limit b"
      using b(1) le assms(2) by (auto simp: buffer_poke_def res_simps wf_buffer_def buf_room_def)
    show thesis
    proof (rule that [of "int (length xs)" b1 "e\<lparr>e_os := st\<rparr>"])
      show "recv_step os fd b e = Inr (int (length xs), b1, e\<lparr>e_os := st\<rparr>)"
        using Pair Some b assms(2) by (simp add: recv_step_def write_ptr_wf)
      show "\<exists>b1'. int (length xs) > 0 \<longrightarrow> buffer_write_adv b1 (int (length xs)) = Inr b1' \<and>
          wf_buffer b1' \<and> b_limit b1' = b_limit b \<and>
          (\<exists>ys. int (length ys) = int (length xs) \<and> buf_content b1' = buf_content b @ ys)"
        using b by blast
    qed (use w in auto)
  qed
qed

lemma send_step_ok:
  assumes "os_ok os" "wf_buffer b"
  obtains n e' where "send_step os fd b e = Inr (n, e')" "e_users e' = e_users e" "e_stats e' = e_stats e"
    "- 1 \<le> n" "n \<le> int (length (buf_content b))"
proof -
  obtain n st where s: "os_send os (e_os e) fd (buf_content b) = (n, st)" by fastforce
  have "buffer_peek b (b_read b) (length (buf_content b)) = Inr (buf_content b)"
    using read_ptr_bytes [OF assms(2) order_refl] by simp
  with s assms(2) os_send_range [OF assms(1) s] show thesis
    by (intro that [of n "e\<lparr>e_os := st\<rparr>"]) (simp_all add: send_step_def read_ptr_wf)
qed

text \<open>A message in one segment.\<close>

lemma recv_step_bytes:
  assumes "wf_buffer b" "os_recv os (e_os e) fd (buf_room b) = (Some m, st)" "length m \<le> buf_room b"
  obtains b' b1 where "recv_step os fd b e = Inr (int (length m), b', e\<lparr>e_os := st\<rparr>)"
    "buffer_write_adv b' (int (length m)) = Inr b1" "wf_buffer b1" "buf_content b1 = buf_content b @ m"
    "b_limit b1 = b_limit b"
proof -
  obtain b1 b2 where "buffer_poke b (b_write b) m = Inr b1" "buffer_write_adv b1 (int (length m)) = Inr b2"
    "wf_buffer b2" "buf_content b2 = buf_content b @ m" "b_limit b2 = b_limit b"
    using poke_adv_wf [OF assms(1,3)] by metis
  with that assms show thesis by (simp add: recv_step_def write_ptr_wf)
qed

lemma send_step_all:
  assumes "wf_buffer b" "os_send os (e_os e) fd (buf_content b) = (int (length (buf_content b)), st)"
  obtains b' where "send_step os fd b e = Inr (int (length (buf_content b)), e\<lparr>e_os := st\<rparr>)"
    "buffer_read_adv b (int (length (buf_content b))) = Inr b'" "wf_buffer b'" "buf_content b' = []"
    "buf_room b' = b_limit b" "\<not> buffer_can_read b'"
proof -
  have s: "send_step os fd b e = Inr (int (length (buf_content b)), e\<lparr>e_os := st\<rparr>)"
    using assms read_ptr_bytes [OF assms(1) order_refl] by (simp add: send_step_def read_ptr_wf)
  obtain b' where "buffer_read_adv b (int (length (buf_content b))) = Inr b'" "wf_buffer b'"
    "buf_content b' = drop (length (buf_content b)) (buf_content b)" "b_limit b' = b_limit b"
    using read_adv_wf [OF assms(1) order_refl] by metis
  with s that rewound_room [of b'] read_adv_rewound show thesis by (force simp: can_read_content)
qed

end
