(* ===== verification/Prawtos.thy ===== *)
theory Prawtos
  imports Env Stm PrawtosParser
begin

text \<open>
  The management sessions: \<^verbatim>\<open>src/prawtos/auth_prawtos.c\<close>, \<^verbatim>\<open>src/prawtos/cmd_prawtos.c\<close>,
  \<^verbatim>\<open>src/prawtos/prawtos.c\<close> and \<^verbatim>\<open>include/prawtosutils.h\<close>.

  The buffer pointers of the two state structures always point to the session's own buffers, which
  are fields of the session here. The two structures share memory in a union; they are two fields
  here, which differs only in the values of fields that are read after they were written. The
  peer's address is not kept. The heap of sessions maps addresses to live sessions.
\<close>

section \<open>State\<close>

definition BUFFER_SIZE :: nat where "BUFFER_SIZE = 4096"

definition AUTH_READ_PRAWTOS :: nat where "AUTH_READ_PRAWTOS = 0"
definition AUTH_WRITE_PRAWTOS :: nat where "AUTH_WRITE_PRAWTOS = 1"
definition CMD_READ_PRAWTOS :: nat where "CMD_READ_PRAWTOS = 2"
definition CMD_WRITE_PRAWTOS :: nat where "CMD_WRITE_PRAWTOS = 3"
definition DONE_PRAWTOS :: nat where "DONE_PRAWTOS = 4"
definition ERROR_PRAWTOS :: nat where "ERROR_PRAWTOS = 5"

lemmas prawtos_states = AUTH_READ_PRAWTOS_def AUTH_WRITE_PRAWTOS_def CMD_READ_PRAWTOS_def
  CMD_WRITE_PRAWTOS_def DONE_PRAWTOS_def ERROR_PRAWTOS_def

record auth_st =
  as_parser :: auth_parser
  as_status :: u8

record cmd_prawtos_st =
  cs_parser :: prawtos_parser
  cs_status :: u8
  cs_args :: "u8 list"
  cs_nargs :: u8

record prawtos =
  pr_client_fd :: int
  pr_stm :: state_machine
  pr_auth :: auth_st
  pr_cmd :: cmd_prawtos_st
  pr_read_buffer :: buffer
  pr_write_buffer :: buffer

text \<open>What a state callback sees: its session, the selector, and the process-wide data.\<close>

record 'o pworld =
  pw_self :: prawtos
  pw_sel :: sel
  pw_env :: "'o env"

section \<open>Authentication\<close>

definition auth_prawtos_init :: "nat \<Rightarrow> key \<Rightarrow> 'o pworld \<Rightarrow> 'o pworld res" where
  "auth_prawtos_init st key w =
     (let p = pw_self w; a = pr_auth p in
      Inr (w\<lparr>pw_self := p\<lparr>pr_auth := a\<lparr>as_parser := auth_parser_init (as_parser a)\<rparr>\<rparr>\<rparr>))"

definition check_credentials :: "user_list \<Rightarrow> auth_st \<Rightarrow> u8 res" where
  "check_credentials l st =
     bindr (user_check_credentials l (au_uname (ap_auth (as_parser st))) (au_passwd (ap_auth (as_parser st)))) (\<lambda>r.
     Inr (if r = 0 then AUTH_SUCCESS else AUTH_BAD_CREDENTIALS))"

definition auth_prawtos_process :: "user_list \<Rightarrow> prawtos \<Rightarrow> (nat \<times> prawtos) res" where
  "auth_prawtos_process l p =
     bindr (check_credentials l (pr_auth p)) (\<lambda>status.
     bindr (auth_marshal (pr_write_buffer p) status) (\<lambda>(r, wb).
     let ret = (if r = - 1 then ERROR_PRAWTOS else AUTH_WRITE_PRAWTOS) in
     Inr (ret, p\<lparr>pr_write_buffer := wb, pr_auth := (pr_auth p)\<lparr>as_status := status\<rparr>\<rparr>)))"

definition auth_prawtos_read :: "'o os \<Rightarrow> key \<Rightarrow> 'o pworld \<Rightarrow> (nat \<times> 'o pworld) res" where
  "auth_prawtos_read os key w =
     (let p = pw_self w in
      bindr (recv_step os (sk_fd key) (pr_read_buffer p) (pw_env w)) (\<lambda>(n, rb, e).
      if n > 0 then
        bindr (buffer_write_adv rb n) (\<lambda>rb1.
        bindr (auth_consume rb1 (as_parser (pr_auth p)) False) (\<lambda>(rb2, ap, error).
        let p1 = p\<lparr>pr_read_buffer := rb2, pr_auth := (pr_auth p)\<lparr>as_parser := ap\<rparr>\<rparr>;
            w1 = w\<lparr>pw_self := p1, pw_env := e\<rparr> in
        if fst (auth_is_done (ap_state ap) False) then
          bindr (selector_set_interest_key key (pw_sel w1) OP_WRITE) (\<lambda>(st, s).
          if st = SELECTOR_SUCCESS then
            bindr (auth_prawtos_process (e_users e) p1) (\<lambda>(ret, p2).
            Inr (if error then ERROR_PRAWTOS else ret, w1\<lparr>pw_self := p2, pw_sel := s\<rparr>))
          else Inr (ERROR_PRAWTOS, w1\<lparr>pw_sel := s\<rparr>))
        else Inr (if error then ERROR_PRAWTOS else AUTH_READ_PRAWTOS, w1)))
      else Inr (ERROR_PRAWTOS, w\<lparr>pw_self := p\<lparr>pr_read_buffer := rb\<rparr>, pw_env := e\<rparr>)))"

definition auth_prawtos_write :: "'o os \<Rightarrow> key \<Rightarrow> 'o pworld \<Rightarrow> (nat \<times> 'o pworld) res" where
  "auth_prawtos_write os key w =
     (let p = pw_self w in
      bindr (send_step os (sk_fd key) (pr_write_buffer p) (pw_env w)) (\<lambda>(n, e).
      let w1 = w\<lparr>pw_env := e\<rparr> in
      if as_status (pr_auth p) \<noteq> AUTH_SUCCESS then Inr (ERROR_PRAWTOS, w1)
      else if n > 0 then
        bindr (buffer_read_adv (pr_write_buffer p) n) (\<lambda>wb.
        let w2 = w1\<lparr>pw_self := p\<lparr>pr_write_buffer := wb\<rparr>\<rparr> in
        if \<not> buffer_can_read wb then
          bindr (selector_set_interest_key key (pw_sel w2) OP_READ) (\<lambda>(st, s).
          Inr (if st = SELECTOR_SUCCESS then CMD_READ_PRAWTOS else ERROR_PRAWTOS, w2\<lparr>pw_sel := s\<rparr>))
        else Inr (AUTH_WRITE_PRAWTOS, w2))
      else Inr (AUTH_WRITE_PRAWTOS, w1)))"

section \<open>Commands\<close>

definition bytes_sent :: "stadistics \<Rightarrow> cmd_prawtos_st \<Rightarrow> nat \<times> cmd_prawtos_st" where
  "bytes_sent s st =
     (let bytes = get_bytes_sent s in
      (5, st\<lparr>cs_nargs := 0x01,
             cs_args := [0x04, ucast (drop_bit 24 bytes), ucast (drop_bit 16 bytes AND 255),
                         ucast (drop_bit 8 bytes AND 255), ucast (bytes AND 255)],
             cs_status := success\<rparr>))"

definition total_connections :: "stadistics \<Rightarrow> cmd_prawtos_st \<Rightarrow> nat \<times> cmd_prawtos_st" where
  "total_connections s st =
     (let connections = get_total_connections s in
      (3, st\<lparr>cs_nargs := 0x01,
             cs_args := [0x02, ucast (drop_bit 8 connections), ucast (connections AND 255)],
             cs_status := success\<rparr>))"

definition concurrent_connections :: "stadistics \<Rightarrow> cmd_prawtos_st \<Rightarrow> nat \<times> cmd_prawtos_st" where
  "concurrent_connections s st =
     (let connections = get_concurrent_connections s in
      (3, st\<lparr>cs_nargs := 0x01,
             cs_args := [0x02, ucast (drop_bit 8 connections), ucast (connections AND 255)],
             cs_status := success\<rparr>))"

definition get_users_func :: "user_list \<Rightarrow> cmd_prawtos_st \<Rightarrow> (nat \<times> cmd_prawtos_st) res" where
  "get_users_func l st =
     bindr (get_all_users l) (\<lambda>(users, nwrite).
     bindr (read_cells users 0 nwrite) (\<lambda>args.
     Inr (nwrite, st\<lparr>cs_nargs := of_int (get_nusers l), cs_args := args, cs_status := success\<rparr>)))"

text \<open>The table of handlers indexed by the metric.\<close>

definition get_handlers ::
  "(user_list \<Rightarrow> stadistics \<Rightarrow> cmd_prawtos_st \<Rightarrow> (nat \<times> cmd_prawtos_st) res) list" where
  "get_handlers = [\<lambda>l s st. Inr (bytes_sent s st), \<lambda>l s st. Inr (total_connections s st),
     \<lambda>l s st. Inr (concurrent_connections s st), \<lambda>l s st. get_users_func l st]"

definition create_user :: "user_list \<Rightarrow> cmd_prawtos_st \<Rightarrow> (user_list \<times> cmd_prawtos_st) res" where
  "create_user l st =
     (let u = pp_user (cs_parser st) in
      bindr (add_user l (us_uname u) (us_ulen u) (us_passwd u) (us_plen u) (us_admin u \<noteq> 0)) (\<lambda>(ans, l').
      Inr (l', st\<lparr>cs_status := if ans then success else user_credentia\<rparr>)))"

definition del_user :: "user_list \<Rightarrow> cmd_prawtos_st \<Rightarrow> (user_list \<times> cmd_prawtos_st) res" where
  "del_user l st =
     (let u = pp_user (cs_parser st) in
      bindr (delete_user l (us_uname u) (us_ulen u)) (\<lambda>(ans, l').
      Inr (l', st\<lparr>cs_status := if ans then success else user_credentia\<rparr>)))"

definition modify_user :: "user_list \<Rightarrow> cmd_prawtos_st \<Rightarrow> (user_list \<times> cmd_prawtos_st) res" where
  "modify_user l st =
     (let u = pp_user (cs_parser st) in
      bindr (edit_user l (us_uname u) (us_ulen u) (us_passwd u) (us_plen u)) (\<lambda>(ans, l').
      Inr (l', st\<lparr>cs_status := if ans then success else user_credentia\<rparr>)))"

definition user_handlers :: "(user_list \<Rightarrow> cmd_prawtos_st \<Rightarrow> (user_list \<times> cmd_prawtos_st) res) list" where
  "user_handlers = [create_user, del_user, modify_user]"

definition cmd_init :: "nat \<Rightarrow> key \<Rightarrow> 'o pworld \<Rightarrow> 'o pworld res" where
  "cmd_init st key w =
     (let p = pw_self w; c = pr_cmd p in
      Inr (w\<lparr>pw_self := p\<lparr>pr_cmd := c\<lparr>cs_parser := prawtos_parser_init (cs_parser c)\<rparr>\<rparr>\<rparr>))"

definition cmd_process :: "prawtos \<Rightarrow> 'o env \<Rightarrow> (nat \<times> prawtos \<times> 'o env) res" where
  "cmd_process p e =
     (let c = pr_cmd p; wb = pr_write_buffer p; type = pp_type (cs_parser c) in
      if type = 0x00 then
        bindr (peek_at get_handlers (unat (gt_cmd (pp_get (cs_parser c))))) (\<lambda>h.
        bindr (h (e_users e) (e_stats e) c) (\<lambda>(args_len, c1).
        bindr (get_marshal wb (cs_status c1) (gt_cmd (pp_get (cs_parser c1))) (cs_nargs c1) (cs_args c1) args_len) (\<lambda>(r, wb1).
        Inr (if r = - 1 then ERROR_PRAWTOS else CMD_WRITE_PRAWTOS,
             p\<lparr>pr_cmd := c1, pr_write_buffer := wb1\<rparr>, e))))
      else if type = 0x01 then
        bindr (peek_at user_handlers (unat (us_cmd (pp_user (cs_parser c))))) (\<lambda>h.
        bindr (h (e_users e) c) (\<lambda>(l, c1).
        bindr (user_marshal wb (cs_status c1)) (\<lambda>(r, wb1).
        Inr (if r = - 1 then ERROR_PRAWTOS else CMD_WRITE_PRAWTOS,
             p\<lparr>pr_cmd := c1, pr_write_buffer := wb1\<rparr>, e\<lparr>e_users := l\<rparr>))))
      else if type = 0x03 then
        let c1 = c\<lparr>cs_status := success\<rparr> in
        bindr (quit_marshal wb (cs_status c1)) (\<lambda>(r, wb1).
        Inr (if r = - 1 then ERROR_PRAWTOS else CMD_WRITE_PRAWTOS,
             p\<lparr>pr_cmd := c1, pr_write_buffer := wb1\<rparr>, e))
      else Inr (ERROR_PRAWTOS, p, e))"

definition cmd_read :: "'o os \<Rightarrow> key \<Rightarrow> 'o pworld \<Rightarrow> (nat \<times> 'o pworld) res" where
  "cmd_read os key w =
     (let p = pw_self w in
      bindr (recv_step os (sk_fd key) (pr_read_buffer p) (pw_env w)) (\<lambda>(n, rb, e).
      if n > 0 then
        bindr (buffer_write_adv rb n) (\<lambda>rb1.
        bindr (prawtos_consume rb1 (cs_parser (pr_cmd p)) False) (\<lambda>(rb2, pp, error).
        let p1 = p\<lparr>pr_read_buffer := rb2, pr_cmd := (pr_cmd p)\<lparr>cs_parser := pp\<rparr>\<rparr>;
            w1 = w\<lparr>pw_self := p1, pw_env := e\<rparr> in
        if fst (prawtos_is_done (pp_state pp) False) then
          bindr (selector_set_interest_key key (pw_sel w1) OP_WRITE) (\<lambda>(st, s).
          if st = SELECTOR_SUCCESS then
            bindr (cmd_process p1 e) (\<lambda>(ret, p2, e2).
            Inr (if error then ERROR_PRAWTOS else ret, w1\<lparr>pw_self := p2, pw_sel := s, pw_env := e2\<rparr>))
          else Inr (ERROR_PRAWTOS, w1\<lparr>pw_sel := s\<rparr>))
        else Inr (if error then ERROR_PRAWTOS else CMD_READ_PRAWTOS, w1)))
      else Inr (ERROR_PRAWTOS, w\<lparr>pw_self := p\<lparr>pr_read_buffer := rb\<rparr>, pw_env := e\<rparr>)))"

definition cmd_write :: "'o os \<Rightarrow> key \<Rightarrow> 'o pworld \<Rightarrow> (nat \<times> 'o pworld) res" where
  "cmd_write os key w =
     (let p = pw_self w in
      bindr (send_step os (sk_fd key) (pr_write_buffer p) (pw_env w)) (\<lambda>(n, e).
      let w1 = w\<lparr>pw_env := e\<rparr> in
      if cs_status (pr_cmd p) = cmd_not_supported then Inr (ERROR_PRAWTOS, w1)
      else if n > 0 then
        if pp_type (cs_parser (pr_cmd p)) = 0x03 then Inr (DONE_PRAWTOS, w1)
        else
          bindr (buffer_read_adv (pr_write_buffer p) n) (\<lambda>wb.
          let w2 = w1\<lparr>pw_self := p\<lparr>pr_write_buffer := wb\<rparr>\<rparr> in
          if \<not> buffer_can_read wb then
            bindr (selector_set_interest_key key (pw_sel w2) OP_READ) (\<lambda>(st, s).
            Inr (if st = SELECTOR_SUCCESS then CMD_READ_PRAWTOS else ERROR_PRAWTOS, w2\<lparr>pw_sel := s\<rparr>))
          else Inr (CMD_WRITE_PRAWTOS, w2))
      else Inr (CMD_WRITE_PRAWTOS, w1)))"

section \<open>The session\<close>

definition no_state :: "nat \<Rightarrow> (key, 'o pworld) state_definition" where
  "no_state n = \<lparr>sd_state = n, on_arrival = None, on_departure = None, on_read_ready = None,
     on_write_ready = None, on_block_ready = None\<rparr>"

definition prawtos_init_states :: "'o os \<Rightarrow> (key, 'o pworld) state_definition list" where
  "prawtos_init_states os =
     [(no_state AUTH_READ_PRAWTOS)\<lparr>on_arrival := Some auth_prawtos_init,
        on_read_ready := Some (auth_prawtos_read os)\<rparr>,
      (no_state AUTH_WRITE_PRAWTOS)\<lparr>on_write_ready := Some (auth_prawtos_write os)\<rparr>,
      (no_state CMD_READ_PRAWTOS)\<lparr>on_arrival := Some cmd_init, on_read_ready := Some (cmd_read os)\<rparr>,
      (no_state CMD_WRITE_PRAWTOS)\<lparr>on_write_ready := Some (cmd_write os)\<rparr>,
      no_state DONE_PRAWTOS,
      no_state ERROR_PRAWTOS]"

text \<open>\<^verbatim>\<open>memset(ret, 0x00, sizeof(*ret))\<close>\<close>

definition prawtos_zero :: prawtos where
  "prawtos_zero = \<lparr>pr_client_fd = 0, pr_stm = \<lparr>sm_initial = 0, sm_max_state = 0, sm_current = None\<rparr>,
     pr_auth = \<lparr>as_parser = \<lparr>ap_auth = auth_zero, ap_state = auth_version, ap_n = 0, ap_i = 0\<rparr>, as_status = 0\<rparr>,
     pr_cmd = \<lparr>cs_parser = \<lparr>pp_get = \<lparr>gt_cmd = 0\<rparr>, pp_user = user_zero, pp_type = 0,
         pp_state = prawtos_type, pp_n = 0, pp_i = 0\<rparr>, cs_status = 0, cs_args = [], cs_nargs = 0\<rparr>,
     pr_read_buffer = \<lparr>b_data = [], b_limit = 0, b_read = 0, b_write = 0\<rparr>,
     pr_write_buffer = \<lparr>b_data = [], b_limit = 0, b_read = 0, b_write = 0\<rparr>\<rparr>"

text \<open>The allocation is made by the caller here; its failure is \<^verbatim>\<open>NULL\<close>.\<close>

definition prawtos_arrival :: "'o os \<Rightarrow> int \<Rightarrow> prawtos res" where
  "prawtos_arrival os client_fd =
     (let ret = prawtos_zero\<lparr>pr_client_fd := client_fd\<rparr> in
      bindr (stm_init (prawtos_init_states os)
        \<lparr>sm_initial = AUTH_READ_PRAWTOS, sm_max_state = ERROR_PRAWTOS, sm_current = None\<rparr>) (\<lambda>stm.
      Inr (ret\<lparr>pr_stm := stm,
               pr_read_buffer := buffer_init (pr_read_buffer ret) BUFFER_SIZE (replicate BUFFER_SIZE 0),
               pr_write_buffer := buffer_init (pr_write_buffer ret) BUFFER_SIZE (replicate BUFFER_SIZE 0)\<rparr>)))"

section \<open>The handlers registered in the selector\<close>

record 'o world =
  w_prawtos :: "nat \<Rightarrow> prawtos option"
  w_next :: nat
  w_env :: "'o env"

text \<open>Following the attachment to the session.\<close>

definition deref_prawtos :: "key \<Rightarrow> 'o world \<Rightarrow> (nat \<times> prawtos) res" where
  "deref_prawtos key w =
     (case sk_data key of
        Some (PrawtosP a) \<Rightarrow> (case w_prawtos w a of Some p \<Rightarrow> Inr (a, p) | None \<Rightarrow> Inl UseAfterFree)
      | _ \<Rightarrow> Inl NullPointer)"

definition prawtos_close :: "key \<Rightarrow> sel \<times> 'o world \<Rightarrow> (sel \<times> 'o world) res" where
  "prawtos_close key sw =
     (let (s, w) = sw;
          w1 = (case sk_data key of Some (PrawtosP a) \<Rightarrow> w\<lparr>w_prawtos := (w_prawtos w)(a := None)\<rparr> | _ \<Rightarrow> w);
          e = w_env w1;
          e1 = (if get_concurrent_connections (e_stats e) > 0
                then e\<lparr>e_stats := stadistics_decrease_concurrent (e_stats e)\<rparr> else e) in
      Inr (s, w1\<lparr>w_env := e1\<rparr>))"

text \<open>The close callbacks, the part of the handlers \<^const>\<open>selector_unregister_fd\<close> uses.\<close>

definition close_callbacks :: "handler_id \<Rightarrow> (handler_id, ptr, 'o world) fd_handler" where
  "close_callbacks h = \<lparr>handle_read = None, handle_write = None, handle_block = None,
     handle_close = (if h = PRAWTOS then Some prawtos_close else None)\<rparr>"

definition prawtos_done :: "'o os \<Rightarrow> key \<Rightarrow> sel \<times> 'o world \<Rightarrow> (sel \<times> 'o world) res" where
  "prawtos_done os key sw =
     (let (s, w) = sw in
      bindr (deref_prawtos key w) (\<lambda>(_, p).
      let fd = pr_client_fd p in
      if fd \<noteq> - 1 then
        bindr (selector_unregister_fd close_callbacks s fd w) (\<lambda>(st, s1, w1).
        if SELECTOR_SUCCESS \<noteq> st then Inl Abort
        else let (_, o') = os_close os (e_os (w_env w1)) fd in
             Inr (s1, w1\<lparr>w_env := (w_env w1)\<lparr>e_os := o'\<rparr>\<rparr>))
      else Inr (s, w)))"

text \<open>\<^verbatim>\<open>prawtos_write\<close> and \<^verbatim>\<open>prawtos_read\<close>, which differ in the event.\<close>

definition prawtos_event ::
  "'o os \<Rightarrow> ((key, 'o pworld) state_definition list \<Rightarrow> state_machine \<Rightarrow> key \<Rightarrow> 'o pworld
       \<Rightarrow> (nat \<times> state_machine \<times> 'o pworld) res)
     \<Rightarrow> key \<Rightarrow> sel \<times> 'o world \<Rightarrow> (sel \<times> 'o world) res" where
  "prawtos_event os handler key sw =
     (let (s, w) = sw in
      bindr (deref_prawtos key w) (\<lambda>(a, p).
      bindr (handler (prawtos_init_states os) (pr_stm p) key \<lparr>pw_self = p, pw_sel = s, pw_env = w_env w\<rparr>) (\<lambda>(st, stm, pw).
      let p1 = (pw_self pw)\<lparr>pr_stm := stm\<rparr>;
          w1 = w\<lparr>w_prawtos := (w_prawtos w)(a \<mapsto> p1), w_env := pw_env pw\<rparr> in
      if ERROR_PRAWTOS = st \<or> DONE_PRAWTOS = st then prawtos_done os key (pw_sel pw, w1)
      else Inr (pw_sel pw, w1))))"

definition prawtos_write :: "'o os \<Rightarrow> key \<Rightarrow> sel \<times> 'o world \<Rightarrow> (sel \<times> 'o world) res" where
  "prawtos_write os = prawtos_event os stm_handler_write"

definition prawtos_read :: "'o os \<Rightarrow> key \<Rightarrow> sel \<times> 'o world \<Rightarrow> (sel \<times> 'o world) res" where
  "prawtos_read os = prawtos_event os stm_handler_read"

text \<open>
  The \<^verbatim>\<open>error\<close> label of \<^verbatim>\<open>prawtos_passive_accept\<close>: the new socket is closed, and then the close
  callback runs on the key of the listening socket.
\<close>

definition accept_error :: "'o os \<Rightarrow> int \<Rightarrow> key \<Rightarrow> sel \<times> 'o world \<Rightarrow> (sel \<times> 'o world) res" where
  "accept_error os client key sw =
     (let (s, w) = sw;
          w1 = (if client \<noteq> - 1
                then w\<lparr>w_env := (w_env w)\<lparr>e_os := snd (os_close os (e_os (w_env w)) client)\<rparr>\<rparr> else w) in
      prawtos_close key (s, w1))"

definition prawtos_passive_accept :: "'o os \<Rightarrow> key \<Rightarrow> sel \<times> 'o world \<Rightarrow> (sel \<times> 'o world) res" where
  "prawtos_passive_accept os key sw =
     (let (s, w) = sw;
          (client, o1) = os_accept os (e_os (w_env w)) (sk_fd key);
          w1 = w\<lparr>w_env := (w_env w)\<lparr>e_os := o1\<rparr>\<rparr> in
      if selector_fd_set_nio (os_getfd os o1) (os_setfl os o1) client = - 1
      then accept_error os client key (s, w1)
      else let (ok, o2) = os_malloc os o1; w2 = w1\<lparr>w_env := (w_env w1)\<lparr>e_os := o2\<rparr>\<rparr> in
      if \<not> ok then accept_error os client key (s, w2)
      else bindr (prawtos_arrival os client) (\<lambda>p.
      let a = w_next w2; w3 = w2\<lparr>w_prawtos := (w_prawtos w2)(a \<mapsto> p), w_next := Suc a\<rparr>;
          (grow_ok, o3) = os_malloc os o2; w4 = w3\<lparr>w_env := (w_env w3)\<lparr>e_os := o3\<rparr>\<rparr> in
      bindr (selector_register grow_ok (Some s) client (Some PRAWTOS) OP_READ (Some (PrawtosP a))) (\<lambda>(st, sp).
      bindr (the_ptr sp) (\<lambda>s1.
      if SELECTOR_SUCCESS \<noteq> st then accept_error os client key (s1, w4)
      else Inr (s1, w4\<lparr>w_env := (w_env w4)\<lparr>e_stats := stadistics_increase_concurrent (e_stats (w_env w4))\<rparr>\<rparr>)))))"

definition prawtos_handlers :: "'o os \<Rightarrow> handler_id \<Rightarrow> (handler_id, ptr, 'o world) fd_handler" where
  "prawtos_handlers os h =
     (case h of
        PRAWTOS \<Rightarrow> \<lparr>handle_read = Some (prawtos_read os), handle_write = Some (prawtos_write os),
                    handle_block = None, handle_close = Some prawtos_close\<rparr>
      | PRAWTOS_PASSIVE \<Rightarrow> \<lparr>handle_read = Some (prawtos_passive_accept os), handle_write = None,
                    handle_block = None, handle_close = None\<rparr>
      | _ \<Rightarrow> \<lparr>handle_read = None, handle_write = None, handle_block = None, handle_close = None\<rparr>)"

section \<open>Parsing never faults except out of bounds\<close>

lemma consume_loop_fault:
  assumes "\<And>p c. oob (feed p c)" "wf_buffer b"
  shows "oob (consume_loop feed is_done b p e f)"
  using assms(2)
proof (induction "buf_content b" arbitrary: b p e f)
  case Nil
  then show ?case by (simp add: consume_loop.simps can_read_content)
next
  case (Cons c cs)
  show ?case
  proof (cases "f")
    case False
    obtain b1 where b1: "buffer_read b = Inr (c, b1)" "wf_buffer b1" "buf_content b1 = cs"
      using Cons.prems Cons.hyps(2) [symmetric] by (rule read_wf) blast
    then have "oob (bindr (feed p c) (\<lambda>p'. let (ret, e') = is_done p' e in
        consume_loop feed is_done b1 p' e' ret))"
      using Cons.hyps(1) assms(1) by (auto intro!: oob_bindr split: prod.splits)
    then show ?thesis
      using False b1(1) Cons.prems Cons.hyps(2) [symmetric]
      by (subst consume_loop.simps) (simp add: can_read_content)
  qed (simp add: consume_loop.simps)
qed

lemma auth_feed_oob: "oob (auth_parser_feed p c)"
  unfolding auth_parser_feed_def uname_auth_def passwd_auth_def Let_def
  by (auto intro!: oob_intros split: auth_state.splits)

lemma prawtos_feed_oob: "oob (prawtos_parser_feed p c)"
  unfolding prawtos_parser_feed_def uname_prawtos_def passwd_prawtos_def Let_def
  by (auto intro!: oob_intros split: prawtos_parser_state.splits)

lemma poke_adv_any:
  assumes "wf_buffer b" "buffer_poke b (b_write b) xs = Inr b1"
  shows "\<exists>b2. buffer_write_adv b1 (int (length xs)) = Inr b2 \<and> wf_buffer b2 \<and> b_limit b2 = b_limit b \<and>
    b_write b2 = b_write b + length xs"
  using assms by (auto simp: buffer_poke_def buffer_write_adv_def res_simps wf_buffer_def Let_def)

lemma poke_oob [oob_intros]: "oob (buffer_poke b off xs)"
  unfolding buffer_poke_def by (intro oob_intros)

text \<open>A reply either keeps the buffer well-formed or goes out of bounds.\<close>

lemma get_marshal_any:
  assumes "wf_buffer b"
  shows "oob (get_marshal b status cmd nargs args n)"
    "get_marshal b status cmd nargs args n = Inr (r, b') \<Longrightarrow> wf_buffer b' \<and> b_limit b' = b_limit b"
proof -
  have second: "\<exists>b4. buffer_write_adv b3 (int n) = Inr b4 \<and> wf_buffer b4 \<and> b_limit b4 = b_limit b2"
    if "wf_buffer b2" "b_write b2 = p" "read_cells args 0 n = Inr xs" "buffer_poke b2 p xs = Inr b3" for b2 b3 p xs
  proof -
    have "length xs = n" using that(3) by (auto simp: res_simps)
    with poke_adv_any [of b2 xs b3] that show ?thesis by auto
  qed
  have first: "\<exists>b2. buffer_write_adv b1 3 = Inr b2 \<and> wf_buffer b2 \<and> b_limit b2 = b_limit b \<and>
      b_write b2 = b_write b + 3" if "buffer_poke b (b_write b) [status, cmd, nargs] = Inr b1" for b1
    using poke_adv_any [OF assms that] by (simp add: numeral_3_eq_3)
  show "oob (get_marshal b status cmd nargs args n)"
    unfolding get_marshal_def write_ptr_wf [OF assms] bindr_Inr prod.case
    by (intro oob_intros; use first second in fastforce)
  show "get_marshal b status cmd nargs args n = Inr (r, b') \<Longrightarrow> wf_buffer b' \<and> b_limit b' = b_limit b"
    using assms first second
    by (fastforce simp: get_marshal_def write_ptr_wf res_simps split: if_splits)
qed

lemma marshal_any:
  assumes "wf_buffer b"
  shows "\<exists>r b'. auth_marshal b st = Inr (r, b') \<and> wf_buffer b' \<and> b_limit b' = b_limit b"
    "\<exists>r b'. user_marshal b st = Inr (r, b') \<and> wf_buffer b' \<and> b_limit b' = b_limit b"
    "\<exists>r b'. quit_marshal b st = Inr (r, b') \<and> wf_buffer b' \<and> b_limit b' = b_limit b"
proof -
  show "\<exists>r b'. auth_marshal b st = Inr (r, b') \<and> wf_buffer b' \<and> b_limit b' = b_limit b"
  proof (cases "2 \<le> buf_room b")
    case True
    show ?thesis by (rule auth_marshal_wf [OF assms True]) blast
  qed (use assms auth_marshal_full in auto)
  have "\<exists>r b'. user_marshal b st = Inr (r, b') \<and> quit_marshal b st = Inr (r, b') \<and>
      wf_buffer b' \<and> b_limit b' = b_limit b"
  proof (cases "1 \<le> buf_room b")
    case True
    show ?thesis by (rule status_marshal_wf [OF assms True]) blast
  qed (use assms status_marshal_full in auto)
  then show "\<exists>r b'. user_marshal b st = Inr (r, b') \<and> wf_buffer b' \<and> b_limit b' = b_limit b"
    "\<exists>r b'. quit_marshal b st = Inr (r, b') \<and> wf_buffer b' \<and> b_limit b' = b_limit b" by blast+
qed

section \<open>What the callbacks keep\<close>

text \<open>
  \<open>sel_keeps i s0 s\<close>: compared with \<open>s0\<close>, the selector \<open>s\<close> has at most another interest for the
  descriptor \<open>i\<close>.
\<close>

definition sel_keeps :: "nat \<Rightarrow> ('h, 'd) fdselector \<Rightarrow> ('h, 'd) fdselector \<Rightarrow> bool" where
  "sel_keeps i s0 s \<longleftrightarrow> wf_selector s \<and> sel_fd_size s = sel_fd_size s0 \<and>
     sel_resolution_jobs s = sel_resolution_jobs s0 \<and>
     (\<forall>j. j \<noteq> i \<longrightarrow> sel_map s j = sel_map s0 j) \<and>
     (\<exists>h x0 x d. sel_map s0 i = Some (h, x0, d) \<and> sel_map s i = Some (h, x, d))"

lemma sel_keeps_refl: "wf_selector s \<Longrightarrow> used_at s i \<Longrightarrow> sel_keeps i s s"
  by (simp add: sel_keeps_def sel_map_def)

lemma sel_keeps_used: "sel_keeps i s0 s \<Longrightarrow> used_at s i"
  by (auto simp: sel_keeps_def sel_map_def split: if_splits)

lemma set_interest_key_keeps:
  assumes "sel_keeps i s0 s" "sk_fd key = int i"
  obtains s' where "selector_set_interest_key key s x = Inr (SELECTOR_SUCCESS, s')" "sel_keeps i s0 s'"
    "it_interest (item_at s' i) = x"
proof -
  note u = sel_keeps_used [OF assms(1)]
  have wf: "wf_selector s" using assms(1) by (simp add: sel_keeps_def)
  have v: "\<not> INVALID_FD (int i)" using wf_selectorD(3) [OF wf u] by (simp add: INVALID_FD_def)
  obtain s' where s': "selector_set_interest s (int i) x = Inr (SELECTOR_SUCCESS, s')" "wf_selector s'"
    "sel_map s' = (sel_map s)(i \<mapsto> (it_handler (item_at s i), x, it_data (item_at s i)))"
    "sel_fd_size s' = sel_fd_size s" "sel_resolution_jobs s' = sel_resolution_jobs s"
    using set_interest_wf [OF wf u, of x] by blast
  have "sel_map s i = Some (it_handler (item_at s i), it_interest (item_at s i), it_data (item_at s i))"
    using u by (simp add: sel_map_def)
  then have "sel_keeps i s0 s'" using assms(1) s' by (auto simp: sel_keeps_def)
  moreover have "it_interest (item_at s' i) = x"
    using s'(3) by (auto simp: sel_map_def fun_eq_iff split: if_splits)
  ultimately show thesis using that s'(1) v assms(2) by (simp add: selector_set_interest_key_def)
qed

text \<open>
  The part of the invariant every callback keeps: buffers, selector, user list, and the interest that
  goes with the state \<open>st\<close>; the full invariant adds the parser of the reading states.
\<close>

definition session_core :: "sel \<Rightarrow> key \<Rightarrow> 'o pworld \<Rightarrow> nat \<Rightarrow> bool" where
  "session_core s0 key w st \<longleftrightarrow> (\<exists>i. sk_fd key = int i \<and> sel_keeps i s0 (pw_sel w) \<and>
       (st \<in> {AUTH_READ_PRAWTOS, CMD_READ_PRAWTOS} \<longrightarrow> it_interest (item_at (pw_sel w) i) = OP_READ) \<and>
       (st \<in> {AUTH_WRITE_PRAWTOS, CMD_WRITE_PRAWTOS} \<longrightarrow> it_interest (item_at (pw_sel w) i) = OP_WRITE)) \<and>
     pr_client_fd (pw_self w) = sk_fd key \<and>
     wf_buffer (pr_read_buffer (pw_self w)) \<and> wf_buffer (pr_write_buffer (pw_self w)) \<and>
     users_len (e_users (pw_env w))"

definition session_inv :: "sel \<Rightarrow> key \<Rightarrow> 'o pworld \<Rightarrow> nat \<Rightarrow> bool" where
  "session_inv s0 key w st \<longleftrightarrow> session_core s0 key w st \<and>
     (st = AUTH_READ_PRAWTOS \<longrightarrow> auth_inv (as_parser (pr_auth (pw_self w))) \<and>
        \<not> auth_finished (as_parser (pr_auth (pw_self w)))) \<and>
     (st = CMD_READ_PRAWTOS \<longrightarrow> prawtos_inv (cs_parser (pr_cmd (pw_self w))) \<and>
        \<not> prawtos_finished (cs_parser (pr_cmd (pw_self w))))"

text \<open>How a callback in state \<open>st\<close> may end.\<close>

definition good_end :: "sel \<Rightarrow> key \<Rightarrow> nat \<Rightarrow> (nat \<times> 'o pworld) res \<Rightarrow> bool" where
  "good_end s0 key st r \<longleftrightarrow> (\<exists>j w'. r = Inr (j, w') \<and> j \<le> ERROR_PRAWTOS \<and> session_core s0 key w' j \<and>
       (j = AUTH_READ_PRAWTOS \<longrightarrow> st = AUTH_READ_PRAWTOS) \<and>
       (j = st \<longrightarrow> session_inv s0 key w' st)) \<or> r = Inl OutOfBounds"

lemma good_end_Inl: "oob (Inl e) \<Longrightarrow> good_end s0 key st (Inl e)"
  by (simp add: oob_def good_end_def)

lemma good_end_bindr:
  "oob m \<Longrightarrow> (\<And>x. m = Inr x \<Longrightarrow> good_end s0 key st (f x)) \<Longrightarrow> good_end s0 key st (bindr m f)"
  by (cases m) (auto simp: good_end_def oob_def)

lemma auth_prawtos_process_any:
  assumes "wf_buffer (pr_write_buffer p)"
  shows "auth_prawtos_process l p = Inl OutOfBounds \<or>
    (\<exists>ret p'. auth_prawtos_process l p = Inr (ret, p') \<and> ret \<in> {ERROR_PRAWTOS, AUTH_WRITE_PRAWTOS} \<and>
       wf_buffer (pr_write_buffer p') \<and> pr_read_buffer p' = pr_read_buffer p \<and>
       pr_client_fd p' = pr_client_fd p)"
proof (cases "check_credentials l (pr_auth p)")
  case (Inl e)
  have "oob (check_credentials l (pr_auth p))"
    unfolding check_credentials_def by (intro oob_intros)
  with Inl show ?thesis by (simp add: oob_def auth_prawtos_process_def)
next
  case (Inr st)
  obtain r b' where "auth_marshal (pr_write_buffer p) st = Inr (r, b')" "wf_buffer b'"
    using marshal_any(1) [OF assms] by blast
  with Inr show ?thesis by (auto simp: auth_prawtos_process_def Let_def)
qed

lemma auth_prawtos_read_good:
  assumes "os_ok os" "session_inv s0 key w AUTH_READ_PRAWTOS"
  shows "good_end s0 key AUTH_READ_PRAWTOS (auth_prawtos_read os key w)"
proof -
  let ?p = "pw_self w" and ?ap = "as_parser (pr_auth (pw_self w))"
  obtain i where i: "sk_fd key = int i" "sel_keeps i s0 (pw_sel w)"
    "it_interest (item_at (pw_sel w) i) = OP_READ"
    and fd: "pr_client_fd ?p = sk_fd key" and rb: "wf_buffer (pr_read_buffer ?p)"
    and wb: "wf_buffer (pr_write_buffer ?p)" and ul: "users_len (e_users (pw_env w))"
    and ap: "auth_inv ?ap" "\<not> auth_finished ?ap"
    using assms(2) by (auto simp: session_inv_def session_core_def)
  obtain n rb1 e where r: "recv_step os (sk_fd key) (pr_read_buffer ?p) (pw_env w) = Inr (n, rb1, e)"
    "e_users e = e_users (pw_env w)" "wf_buffer rb1"
    "\<exists>b1. n > 0 \<longrightarrow> buffer_write_adv rb1 n = Inr b1 \<and> wf_buffer b1"
    using recv_step_ok [OF assms(1) rb, of "sk_fd key" "pw_env w"] by metis
  show ?thesis
  proof (cases "n > 0")
    case False
    with r i fd wb ul show ?thesis
      by (auto simp: auth_prawtos_read_def good_end_def session_core_def prawtos_states)
  next
    case True
    then obtain b1 where b1: "buffer_write_adv rb1 n = Inr b1" "wf_buffer b1" using r(4) by blast
    show ?thesis
    proof (cases "auth_consume b1 ?ap False")
      case (Inl flt)
      then have "flt = OutOfBounds"
        using consume_loop_fault [OF auth_feed_oob b1(2)] by (auto simp: auth_consume_def oob_def)
      with Inl r b1 True show ?thesis by (simp add: auth_prawtos_read_def good_end_def)
    next
      case (Inr z)
      then obtain b2 ap' er where c: "auth_consume b1 ?ap False = Inr (b2, ap', er)" by (cases z) auto
      note inv = auth.consume_loop_pinv [OF b1(2) ap(2,1) c [unfolded auth_consume_def]]
      show ?thesis
      proof (cases "fst (auth_is_done (ap_state ap') False)")
        case False
        then have "\<not> auth_finished ap'" using auth.is_done_eq [of ap' False] by simp
        with False inv r b1 c True i fd wb ul show ?thesis
          by (auto simp: auth_prawtos_read_def Let_def good_end_def session_inv_def session_core_def
              auth_failed_def auth_finished_def prawtos_states)
      next
        case fin: True
        obtain s' where s': "selector_set_interest_key key (pw_sel w) OP_WRITE = Inr (SELECTOR_SUCCESS, s')"
          "sel_keeps i s0 s'" "it_interest (item_at s' i) = OP_WRITE"
          using set_interest_key_keeps [OF i(2,1)] by blast
        let ?p1 = "?p\<lparr>pr_read_buffer := b2, pr_auth := (pr_auth ?p)\<lparr>as_parser := ap'\<rparr>\<rparr>"
        have "wf_buffer (pr_write_buffer ?p1)" using wb by simp
        from auth_prawtos_process_any [OF this, of "e_users e"] show ?thesis
          using fin inv r b1 c True i fd ul s'
          by (elim disjE exE conjE)
            (auto simp: auth_prawtos_read_def Let_def good_end_def session_core_def prawtos_states)
      qed
    qed
  qed
qed

text \<open>The two writing callbacks end alike: what is left to send, or back to reading commands.\<close>

lemma drain_good:
  assumes "session_core s0 key w st" "st \<in> {AUTH_WRITE_PRAWTOS, CMD_WRITE_PRAWTOS}"
    and "0 < n" "n \<le> int (length (buf_content (pr_write_buffer (pw_self w))))"
    and e: "e_users e = e_users (pw_env w)"
  shows "good_end s0 key st (bindr (buffer_read_adv (pr_write_buffer (pw_self w)) n) (\<lambda>wb.
      let w2 = w\<lparr>pw_env := e, pw_self := (pw_self w)\<lparr>pr_write_buffer := wb\<rparr>\<rparr> in
      if \<not> buffer_can_read wb then
        bindr (selector_set_interest_key key (pw_sel w2) OP_READ) (\<lambda>(x, s).
        Inr (if x = SELECTOR_SUCCESS then CMD_READ_PRAWTOS else ERROR_PRAWTOS, w2\<lparr>pw_sel := s\<rparr>))
      else Inr (st, w2)))"
proof -
  let ?p = "pw_self w"
  obtain i where i: "sk_fd key = int i" "sel_keeps i s0 (pw_sel w)"
    "it_interest (item_at (pw_sel w) i) = OP_WRITE"
    and fd: "pr_client_fd ?p = sk_fd key" and rb: "wf_buffer (pr_read_buffer ?p)"
    and wb: "wf_buffer (pr_write_buffer ?p)" and ul: "users_len (e_users (pw_env w))"
    using assms(1,2) by (auto simp: session_core_def)
  have "nat n \<le> length (buf_content (pr_write_buffer ?p))" using assms(3,4) by simp
  from read_adv_wf [OF wb this] assms(3) obtain wb' where
    wb': "buffer_read_adv (pr_write_buffer ?p) n = Inr wb'" "wf_buffer wb'" by auto
  obtain s' where s': "selector_set_interest_key key (pw_sel w) OP_READ = Inr (SELECTOR_SUCCESS, s')"
    "sel_keeps i s0 s'" "it_interest (item_at s' i) = OP_READ"
    using set_interest_key_keeps [OF i(2,1)] by blast
  show ?thesis
    using wb' s' i fd rb ul assms(2) e
    by (auto simp: Let_def good_end_def session_core_def session_inv_def prawtos_states)
qed

lemma auth_prawtos_write_good:
  assumes "os_ok os" "session_inv s0 key w AUTH_WRITE_PRAWTOS"
  shows "good_end s0 key AUTH_WRITE_PRAWTOS (auth_prawtos_write os key w)"
proof -
  have core: "session_core s0 key w AUTH_WRITE_PRAWTOS" using assms(2) by (simp add: session_inv_def)
  then have wb: "wf_buffer (pr_write_buffer (pw_self w))" by (simp add: session_core_def)
  obtain n e where r: "send_step os (sk_fd key) (pr_write_buffer (pw_self w)) (pw_env w) = Inr (n, e)"
    "e_users e = e_users (pw_env w)" "n \<le> int (length (buf_content (pr_write_buffer (pw_self w))))"
    using send_step_ok [OF assms(1) wb, of "sk_fd key" "pw_env w"] by metis
  show ?thesis
  proof (cases "as_status (pr_auth (pw_self w)) = AUTH_SUCCESS \<and> n > 0")
    case True
    then show ?thesis
      using drain_good [OF core _ _ r(3,2)] r(1) by (simp add: auth_prawtos_write_def Let_def)
  next
    case False
    with r core show ?thesis
      by (auto simp: auth_prawtos_write_def Let_def good_end_def session_core_def session_inv_def prawtos_states)
  qed
qed

lemma cmd_write_good:
  assumes "os_ok os" "session_inv s0 key w CMD_WRITE_PRAWTOS"
  shows "good_end s0 key CMD_WRITE_PRAWTOS (cmd_write os key w)"
proof -
  have core: "session_core s0 key w CMD_WRITE_PRAWTOS" using assms(2) by (simp add: session_inv_def)
  then have wb: "wf_buffer (pr_write_buffer (pw_self w))" by (simp add: session_core_def)
  obtain n e where r: "send_step os (sk_fd key) (pr_write_buffer (pw_self w)) (pw_env w) = Inr (n, e)"
    "e_users e = e_users (pw_env w)" "n \<le> int (length (buf_content (pr_write_buffer (pw_self w))))"
    using send_step_ok [OF assms(1) wb, of "sk_fd key" "pw_env w"] by metis
  show ?thesis
  proof (cases "cs_status (pr_cmd (pw_self w)) \<noteq> cmd_not_supported \<and> n > 0 \<and>
      pp_type (cs_parser (pr_cmd (pw_self w))) \<noteq> 0x03")
    case True
    then show ?thesis
      using drain_good [OF core _ _ r(3,2)] r(1) by (simp add: cmd_write_def Let_def)
  next
    case False
    with r core show ?thesis
      by (auto simp: cmd_write_def Let_def good_end_def session_core_def session_inv_def prawtos_states)
  qed
qed

text \<open>
  The entries of the dispatch tables. A command the parser completed has one; a command it rejected
  is dispatched all the same, and its number need not be in range.
\<close>

lemma get_handlers_any:
  assumes "i < 4" "users_len l"
  shows "\<exists>h. peek_at get_handlers i = Inr h \<and> oob (h l s c)"
proof -
  have "oob (get_users_func l c)"
    unfolding get_users_func_def using assms(2) get_all_users_oob
    by (auto intro!: oob_intros)
  moreover from assms(1) have "i = 0 \<or> i = 1 \<or> i = 2 \<or> i = 3" by auto
  ultimately show ?thesis by (elim disjE) (simp_all add: get_handlers_def peek_at_def)
qed

lemma user_handlers_any:
  assumes "i < 3" "users_len l"
  shows "\<exists>h. peek_at user_handlers i = Inr h \<and> oob (h l c) \<and>
    (\<forall>l' c'. h l c = Inr (l', c') \<longrightarrow> users_len l')"
proof -
  have "oob (create_user l c) \<and> (\<forall>l' c'. create_user l c = Inr (l', c') \<longrightarrow> users_len l')"
    "oob (del_user l c) \<and> (\<forall>l' c'. del_user l c = Inr (l', c') \<longrightarrow> users_len l')"
    "oob (modify_user l c) \<and> (\<forall>l' c'. modify_user l c = Inr (l', c') \<longrightarrow> users_len l')"
    using add_user_len [OF assms(2)] delete_user_len [OF assms(2)] edit_user_len [OF assms(2)]
    unfolding create_user_def del_user_def modify_user_def Let_def
    by (auto simp: res_simps intro!: oob_intros)
  moreover from assms(1) have "i = 0 \<or> i = 1 \<or> i = 2" by auto
  ultimately show ?thesis by (elim disjE) (simp_all add: user_handlers_def peek_at_def)
qed

lemma cmd_process_any:
  assumes "wf_buffer (pr_write_buffer p)" "users_len (e_users e)"
  shows "cmd_process p e = Inl OutOfBounds \<or>
    (\<exists>ret p' e'. cmd_process p e = Inr (ret, p', e') \<and> ret \<in> {ERROR_PRAWTOS, CMD_WRITE_PRAWTOS} \<and>
       wf_buffer (pr_write_buffer p') \<and> pr_read_buffer p' = pr_read_buffer p \<and>
       pr_client_fd p' = pr_client_fd p \<and> users_len (e_users e'))"
proof -
  let ?pp = "cs_parser (pr_cmd p)"
  consider (get_out) "pp_type ?pp = 0" "unat (gt_cmd (pp_get ?pp)) \<ge> 4"
    | (get) "pp_type ?pp = 0" "unat (gt_cmd (pp_get ?pp)) < 4"
    | (user_out) "pp_type ?pp = 1" "unat (us_cmd (pp_user ?pp)) \<ge> 3"
    | (user) "pp_type ?pp = 1" "unat (us_cmd (pp_user ?pp)) < 3" | (quit) "pp_type ?pp = 3"
    | (other) "pp_type ?pp \<notin> {0, 1, 3}" by force
  then show ?thesis
  proof cases
    case get_out
    then show ?thesis by (simp add: cmd_process_def Let_def peek_at_def get_handlers_def)
  next
    case user_out
    then show ?thesis by (simp add: cmd_process_def Let_def peek_at_def user_handlers_def)
  next
    case get
    obtain h where h: "peek_at get_handlers (unat (gt_cmd (pp_get ?pp))) = Inr h"
      "oob (h (e_users e) (e_stats e) (pr_cmd p))"
      using get_handlers_any [OF get(2) assms(2)] by blast
    show ?thesis
    proof (cases "h (e_users e) (e_stats e) (pr_cmd p)")
      case (Inr z)
      obtain n c1 where z: "z = (n, c1)" by fastforce
      let ?g = "get_marshal (pr_write_buffer p) (cs_status c1) (gt_cmd (pp_get (cs_parser c1)))
        (cs_nargs c1) (cs_args c1) n"
      show ?thesis
      proof (cases ?g)
        case (Inl flt)
        with get_marshal_any(1) [OF assms(1)] have "flt = OutOfBounds" by (metis oob_def)
        with Inl Inr z h get show ?thesis by (simp add: cmd_process_def Let_def)
      next
        case (Inr q)
        obtain r b' where q: "q = (r, b')" by fastforce
        with get_marshal_any(2) [OF assms(1)] Inr have "wf_buffer b'" by blast
        with Inr q \<open>h _ _ _ = Inr z\<close> z h get assms(2) show ?thesis by (simp add: cmd_process_def Let_def)
      qed
    qed (use h get in \<open>simp add: cmd_process_def Let_def oob_def\<close>)
  next
    case user
    obtain h where h: "peek_at user_handlers (unat (us_cmd (pp_user ?pp))) = Inr h"
      "oob (h (e_users e) (pr_cmd p))" "\<forall>l' c'. h (e_users e) (pr_cmd p) = Inr (l', c') \<longrightarrow> users_len l'"
      using user_handlers_any [OF user(2) assms(2)] by blast
    show ?thesis
    proof (cases "h (e_users e) (pr_cmd p)")
      case (Inr z)
      obtain l c1 where z: "z = (l, c1)" by fastforce
      obtain r b' where "user_marshal (pr_write_buffer p) (cs_status c1) = Inr (r, b')" "wf_buffer b'"
        using marshal_any(2) [OF assms(1)] by blast
      with Inr z h user show ?thesis by (simp add: cmd_process_def Let_def)
    qed (use h user in \<open>simp add: cmd_process_def Let_def oob_def\<close>)
  next
    case quit
    obtain r b' where "quit_marshal (pr_write_buffer p) success = Inr (r, b')" "wf_buffer b'"
      using marshal_any(3) [OF assms(1)] by blast
    with quit assms(2) show ?thesis by (simp add: cmd_process_def Let_def)
  next
    case other
    with assms show ?thesis by (simp add: cmd_process_def Let_def)
  qed
qed

lemma cmd_read_good:
  assumes "os_ok os" "session_inv s0 key w CMD_READ_PRAWTOS"
  shows "good_end s0 key CMD_READ_PRAWTOS (cmd_read os key w)"
proof -
  let ?p = "pw_self w" and ?pp = "cs_parser (pr_cmd (pw_self w))"
  obtain i where i: "sk_fd key = int i" "sel_keeps i s0 (pw_sel w)"
    "it_interest (item_at (pw_sel w) i) = OP_READ"
    and fd: "pr_client_fd ?p = sk_fd key" and rb: "wf_buffer (pr_read_buffer ?p)"
    and wb: "wf_buffer (pr_write_buffer ?p)" and ul: "users_len (e_users (pw_env w))"
    and pp: "prawtos_inv ?pp" "\<not> prawtos_finished ?pp"
    using assms(2) by (auto simp: session_inv_def session_core_def)
  obtain n rb1 e where r: "recv_step os (sk_fd key) (pr_read_buffer ?p) (pw_env w) = Inr (n, rb1, e)"
    "e_users e = e_users (pw_env w)" "wf_buffer rb1"
    "\<exists>b1. n > 0 \<longrightarrow> buffer_write_adv rb1 n = Inr b1 \<and> wf_buffer b1"
    using recv_step_ok [OF assms(1) rb, of "sk_fd key" "pw_env w"] by metis
  show ?thesis
  proof (cases "n > 0")
    case False
    with r i fd wb ul show ?thesis
      by (auto simp: cmd_read_def good_end_def session_core_def prawtos_states)
  next
    case True
    then obtain b1 where b1: "buffer_write_adv rb1 n = Inr b1" "wf_buffer b1" using r(4) by blast
    show ?thesis
    proof (cases "prawtos_consume b1 ?pp False")
      case (Inl flt)
      then have "flt = OutOfBounds"
        using consume_loop_fault [OF prawtos_feed_oob b1(2)] by (auto simp: prawtos_consume_def oob_def)
      with Inl r b1 True show ?thesis by (simp add: cmd_read_def good_end_def)
    next
      case (Inr z)
      then obtain b2 pp' er where c: "prawtos_consume b1 ?pp False = Inr (b2, pp', er)" by (cases z) auto
      note inv = prw.consume_loop_pinv [OF b1(2) pp(2,1) c [unfolded prawtos_consume_def]]
      show ?thesis
      proof (cases "fst (prawtos_is_done (pp_state pp') False)")
        case False
        then have "\<not> prawtos_finished pp'" using prw.is_done_eq [of pp' False] by simp
        with False inv r b1 c True i fd wb ul show ?thesis
          by (auto simp: cmd_read_def Let_def good_end_def session_inv_def session_core_def
              prawtos_failed_def prawtos_finished_def prawtos_states)
      next
        case fin: True
        obtain s' where s': "selector_set_interest_key key (pw_sel w) OP_WRITE = Inr (SELECTOR_SUCCESS, s')"
          "sel_keeps i s0 s'" "it_interest (item_at s' i) = OP_WRITE"
          using set_interest_key_keeps [OF i(2,1)] by blast
        let ?p1 = "?p\<lparr>pr_read_buffer := b2, pr_cmd := (pr_cmd ?p)\<lparr>cs_parser := pp'\<rparr>\<rparr>"
        have "wf_buffer (pr_write_buffer ?p1)" "users_len (e_users e)" using wb ul r(2) by simp_all
        from cmd_process_any [OF this] show ?thesis
          using fin inv r b1 c True i fd ul s'
          by (elim disjE exE conjE)
            (auto simp: cmd_read_def Let_def good_end_def session_core_def prawtos_states)
      qed
    qed
  qed
qed

lemma prawtos_state_cases:
  assumes "i \<le> ERROR_PRAWTOS"
  obtains "i = 0" | "i = 1" | "i = 2" | "i = 3" | "i = 4" | "i = 5"
  using assms by (fastforce simp: ERROR_PRAWTOS_def)

text \<open>The arrival hooks prepare the parsers.\<close>

lemma auth_init_inv: "auth_inv (auth_parser_init p)"
  by (simp add: auth_inv_def auth_parser_init_def auth_zero_def)

lemma prawtos_init_inv: "prawtos_inv (prawtos_parser_init p)"
  by (simp add: prawtos_inv_def prawtos_parser_init_def user_zero_def)

lemma arrival_good:
  assumes "session_core s0 key w j" "j \<le> ERROR_PRAWTOS"
  shows "\<exists>w'. run_hook (on_arrival (prawtos_init_states os ! j)) j key w = Inr w' \<and> session_inv s0 key w' j"
proof -
  show ?thesis
    by (rule prawtos_state_cases [OF assms(2)]) (use assms(1) auth_init_inv prawtos_init_inv in \<open>auto simp: prawtos_init_states_def no_state_def
      auth_prawtos_init_def cmd_init_def session_inv_def session_core_def prawtos_states Let_def\<close>)
qed

text \<open>Every callback in the table ends well.\<close>

lemma callbacks_good:
  assumes "os_ok os" "session_inv s0 key w st" "st \<le> ERROR_PRAWTOS"
    and "f \<in> {on_read_ready, on_write_ready, on_block_ready}" "f (prawtos_init_states os ! st) = Some g"
  shows "good_end s0 key st (g key w)"
proof -
  show ?thesis
    by (rule prawtos_state_cases [OF assms(3)]) (use assms auth_prawtos_read_good [of os s0 key w] auth_prawtos_write_good [of os s0 key w]
      cmd_read_good [of os s0 key w] cmd_write_good [of os s0 key w]
      in \<open>auto simp: prawtos_init_states_def no_state_def prawtos_states\<close>)
qed

lemma prawtos_table: "wf_table (prawtos_init_states os) ERROR_PRAWTOS"
proof -
  have "sd_state (prawtos_init_states os ! i) = i" if "i \<le> ERROR_PRAWTOS" for i
    using that by (rule prawtos_state_cases) (simp_all add: prawtos_init_states_def no_state_def prawtos_states)
  then show ?thesis by (simp add: wf_table_def prawtos_init_states_def prawtos_states)
qed

lemma no_departure_hooks: "i \<le> ERROR_PRAWTOS \<Longrightarrow> on_departure (prawtos_init_states os ! i) = None"
  by (rule prawtos_state_cases) (auto simp: prawtos_init_states_def no_state_def)

interpretation pstm: stm_client "prawtos_init_states os" ERROR_PRAWTOS
  "\<lambda>key w st. os_ok os \<and> session_inv s0 key w st" "{OutOfBounds}"
  for os :: "'o os" and s0
proof unfold_locales
  show "wf_table (prawtos_init_states os) ERROR_PRAWTOS" by (rule prawtos_table)
next
  fix i assume "i \<le> ERROR_PRAWTOS"
  then show "on_departure (prawtos_init_states os ! i) = None" by (rule no_departure_hooks)
next
  fix i j k f g and w w' :: "'o pworld"
  assume a: "i \<le> ERROR_PRAWTOS" "j \<le> ERROR_PRAWTOS" "os_ok os \<and> session_inv s0 k w i"
    "f \<in> {on_read_ready, on_write_ready, on_block_ready}" "f (prawtos_init_states os ! i) = Some g"
    "g k w = Inr (j, w')" "j \<noteq> i"
  then have "session_core s0 k w' j"
    using callbacks_good [of os s0 k w i f g] by (auto simp: good_end_def)
  from arrival_good [OF this a(2)] a(3) show
    "\<exists>w''. run_hook (on_arrival (prawtos_init_states os ! j)) j k w' = Inr w'' \<and> os_ok os \<and> session_inv s0 k w'' j"
    by blast
next
  fix i k f g and w :: "'o pworld"
  assume "i \<le> ERROR_PRAWTOS" "os_ok os \<and> session_inv s0 k w i"
    "f \<in> {on_read_ready, on_write_ready, on_block_ready}" "f (prawtos_init_states os ! i) = Some g"
  then show "(\<exists>j w'. g k w = Inr (j, w') \<and> j \<le> ERROR_PRAWTOS \<and> (j = i \<longrightarrow> os_ok os \<and> session_inv s0 k w' i)) \<or>
      (\<exists>e \<in> {OutOfBounds}. g k w = Inl e)"
    using callbacks_good [of os s0 k w i f g] by (auto simp: good_end_def)
qed

section \<open>The heap of sessions\<close>

text \<open>
  A session in the heap, seen from the descriptor \<open>i\<close> it is registered for: its machine is either
  fresh or in one of the four working states, with the invariant of that state, and the descriptor's
  interest matches.
\<close>

definition live_session :: "nat \<Rightarrow> u32 \<Rightarrow> prawtos \<Rightarrow> bool" where
  "live_session i x p \<longleftrightarrow> pr_client_fd p = int i \<and> wf_buffer (pr_read_buffer p) \<and> wf_buffer (pr_write_buffer p) \<and>
     sm_initial (pr_stm p) = AUTH_READ_PRAWTOS \<and> sm_max_state (pr_stm p) = ERROR_PRAWTOS \<and>
     (case sm_current (pr_stm p) of
        None \<Rightarrow> x = OP_READ
      | Some st \<Rightarrow> st \<in> {AUTH_READ_PRAWTOS, AUTH_WRITE_PRAWTOS, CMD_READ_PRAWTOS, CMD_WRITE_PRAWTOS} \<and>
          (st \<in> {AUTH_READ_PRAWTOS, CMD_READ_PRAWTOS} \<longrightarrow> x = OP_READ) \<and>
          (st \<in> {AUTH_WRITE_PRAWTOS, CMD_WRITE_PRAWTOS} \<longrightarrow> x = OP_WRITE) \<and>
          (st = AUTH_READ_PRAWTOS \<longrightarrow> auth_inv (as_parser (pr_auth p)) \<and> \<not> auth_finished (as_parser (pr_auth p))) \<and>
          (st = CMD_READ_PRAWTOS \<longrightarrow> prawtos_inv (cs_parser (pr_cmd p)) \<and>
             \<not> prawtos_finished (cs_parser (pr_cmd p))))"

text \<open>
  The selector and the heap together: a table that never has to grow, every management descriptor
  attached to a live session of its own, every listening descriptor interested in reading only. Other descriptors are those
  that \<open>E\<close> admits; in a process that serves management only there are none.
\<close>

definition foreign :: "(handler_id option \<Rightarrow> u32 \<Rightarrow> ptr option \<Rightarrow> bool) \<Rightarrow> bool" where
  "foreign E \<longleftrightarrow> (\<forall>h x d. E h x d \<longrightarrow> h \<noteq> Some PRAWTOS \<and> h \<noteq> Some PRAWTOS_PASSIVE \<and> (\<forall>a. d \<noteq> Some (PrawtosP a)))"

definition table_inv :: "(handler_id option \<Rightarrow> u32 \<Rightarrow> ptr option \<Rightarrow> bool) \<Rightarrow> sel \<Rightarrow> 'o world \<Rightarrow> bool" where
  "table_inv E s w \<longleftrightarrow> foreign E \<and> wf_selector s \<and> sel_fd_size s = ITEMS_MAX_SIZE + 1 \<and> sel_resolution_jobs s = [] \<and> users_len (e_users (w_env w)) \<and>
     (\<forall>i h x d. sel_map s i = Some (h, x, d) \<longrightarrow> E h x d \<or>
        h = Some PRAWTOS_PASSIVE \<and> x = OP_READ \<and> d = None \<or>
        h = Some PRAWTOS \<and> (\<exists>a p. d = Some (PrawtosP a) \<and> a < w_next w \<and> w_prawtos w a = Some p \<and>
           live_session i x p)) \<and>
     (\<forall>i j h x h' x' a. sel_map s i = Some (h, x, Some (PrawtosP a)) \<longrightarrow>
        sel_map s j = Some (h', x', Some (PrawtosP a)) \<longrightarrow> i = j)"

abbreviation server_inv :: "sel \<Rightarrow> 'o world \<Rightarrow> bool" where
  "server_inv \<equiv> table_inv (\<lambda>h x d. False)"

lemma foreign_none [simp]: "foreign (\<lambda>h x d. False)"
  by (simp add: foreign_def)

lemma table_invD:
  assumes "table_inv E s w" "used_at s i"
  shows "E (it_handler (item_at s i)) (it_interest (item_at s i)) (it_data (item_at s i)) \<and>
      it_handler (item_at s i) \<noteq> Some PRAWTOS \<and> it_handler (item_at s i) \<noteq> Some PRAWTOS_PASSIVE \<and>
      (\<forall>a. it_data (item_at s i) \<noteq> Some (PrawtosP a)) \<or>
    it_handler (item_at s i) = Some PRAWTOS_PASSIVE \<and> it_interest (item_at s i) = OP_READ \<and>
      it_data (item_at s i) = None \<or>
    it_handler (item_at s i) = Some PRAWTOS \<and> (\<exists>a p. it_data (item_at s i) = Some (PrawtosP a) \<and>
      a < w_next w \<and> w_prawtos w a = Some p \<and> live_session i (it_interest (item_at s i)) p)"
proof -
  have "sel_map s i = Some (it_handler (item_at s i), it_interest (item_at s i), it_data (item_at s i))"
    using assms(2) by (simp add: sel_map_def)
  then show ?thesis using assms(1) unfolding table_inv_def foreign_def by blast
qed

text \<open>The session as its callbacks see it.\<close>

lemma live_session_inv:
  assumes "wf_selector s" "used_at s i" "users_len (e_users e)" "live_session i (it_interest (item_at s i)) p"
    "sk_fd key = int i" "sm_current (pr_stm p) = Some st"
  shows "session_inv s key \<lparr>pw_self = p, pw_sel = s, pw_env = e\<rparr> st"
  using assms sel_keeps_refl [OF assms(1,2)]
  by (auto simp: live_session_def session_inv_def session_core_def)

lemma live_session_first:
  assumes "wf_selector s" "used_at s i" "users_len (e_users e)" "live_session i (it_interest (item_at s i)) p"
    "sk_fd key = int i" "sm_current (pr_stm p) = None"
  shows "session_core s key \<lparr>pw_self = p, pw_sel = s, pw_env = e\<rparr> AUTH_READ_PRAWTOS"
  using assms sel_keeps_refl [OF assms(1,2)]
  by (auto simp: live_session_def session_core_def prawtos_states)

lemma inv_live_session:
  assumes "session_inv s0 key pw st" "sk_fd key = int i" "st \<le> ERROR_PRAWTOS"
    "st \<noteq> ERROR_PRAWTOS" "st \<noteq> DONE_PRAWTOS"
    "sm_initial stm = AUTH_READ_PRAWTOS" "sm_max_state stm = ERROR_PRAWTOS"
  shows "live_session i (it_interest (item_at (pw_sel pw) i)) ((pw_self pw)\<lparr>pr_stm := stm\<lparr>sm_current := Some st\<rparr>\<rparr>)"
  by (rule prawtos_state_cases [OF assms(3)])
    (use assms in \<open>auto simp: live_session_def session_inv_def session_core_def prawtos_states\<close>)

text \<open>An event of a live session, whatever state its machine is in.\<close>

lemma session_event_safe:
  assumes "os_ok os" "wf_selector s" "used_at s i" "users_len (e_users e)"
    "live_session i (it_interest (item_at s i)) p" "sk_fd key = int i"
    and f: "f = on_read_ready \<and> it_interest (item_at s i) = OP_READ \<or>
      f = on_write_ready \<and> it_interest (item_at s i) = OP_WRITE"
  shows "(\<exists>j pw. stm_event f (prawtos_init_states os) (pr_stm p) key \<lparr>pw_self = p, pw_sel = s, pw_env = e\<rparr> =
        Inr (j, (pr_stm p)\<lparr>sm_current := Some j\<rparr>, pw) \<and> j \<le> ERROR_PRAWTOS \<and> session_inv s key pw j) \<or>
    stm_event f (prawtos_init_states os) (pr_stm p) key \<lparr>pw_self = p, pw_sel = s, pw_env = e\<rparr> = Inl OutOfBounds"
proof -
  let ?w = "\<lparr>pw_self = p, pw_sel = s, pw_env = e\<rparr>"
  have stm: "sm_initial (pr_stm p) = 0" "sm_max_state (pr_stm p) = ERROR_PRAWTOS"
    using assms(5) by (simp_all add: live_session_def prawtos_states)
  have neq: "OP_READ \<noteq> OP_WRITE" by (simp add: OP_READ_def OP_WRITE_def)
  have step: "(\<exists>j pw. stm_event f (prawtos_init_states os) ((pr_stm p)\<lparr>sm_current := Some st\<rparr>) key w1 =
        Inr (j, (pr_stm p)\<lparr>sm_current := Some j\<rparr>, pw) \<and> j \<le> ERROR_PRAWTOS \<and> session_inv s key pw j) \<or>
      stm_event f (prawtos_init_states os) ((pr_stm p)\<lparr>sm_current := Some st\<rparr>) key w1 = Inl OutOfBounds"
    if "session_inv s key w1 st" "st \<le> ERROR_PRAWTOS" "f (prawtos_init_states os ! st) \<noteq> None" for st w1
    using pstm.event_safe [of "(pr_stm p)\<lparr>sm_current := Some st\<rparr>" st os s key w1 f] that f stm assms(1)
    by auto
  show ?thesis
  proof (cases "sm_current (pr_stm p)")
    case None
    from live_session_first [OF assms(2-6) None] have "session_core s key ?w AUTH_READ_PRAWTOS" .
    from arrival_good [OF this, of os] obtain w1 where
      w1: "run_hook (on_arrival (prawtos_init_states os ! 0)) 0 key ?w = Inr w1" "session_inv s key w1 0"
      by (auto simp: prawtos_states)
    have "f = on_read_ready" using assms(5) None f neq by (auto simp: live_session_def)
    then have "f (prawtos_init_states os ! 0) \<noteq> None" by (simp add: prawtos_init_states_def no_state_def)
    moreover have "stm_event f (prawtos_init_states os) (pr_stm p) key ?w =
        stm_event f (prawtos_init_states os) ((pr_stm p)\<lparr>sm_current := Some 0\<rparr>) key w1"
      using stm_event_first [OF None, of "prawtos_init_states os" key ?w w1 f] stm w1(1)
      by (simp add: prawtos_init_states_def no_state_def prawtos_states)
    ultimately show ?thesis using step [OF w1(2)] by simp
  next
    case (Some st)
    have x: "st \<in> {AUTH_READ_PRAWTOS, CMD_READ_PRAWTOS} \<and> f = on_read_ready \<or>
        st \<in> {AUTH_WRITE_PRAWTOS, CMD_WRITE_PRAWTOS} \<and> f = on_write_ready"
      using assms(5) Some f neq unfolding live_session_def by auto
    have st: "st \<le> ERROR_PRAWTOS" using x by (auto simp: prawtos_states)
    have "on_read_ready (prawtos_init_states os ! AUTH_READ_PRAWTOS) \<noteq> None"
      "on_read_ready (prawtos_init_states os ! CMD_READ_PRAWTOS) \<noteq> None"
      "on_write_ready (prawtos_init_states os ! AUTH_WRITE_PRAWTOS) \<noteq> None"
      "on_write_ready (prawtos_init_states os ! CMD_WRITE_PRAWTOS) \<noteq> None"
      by (simp_all add: prawtos_init_states_def no_state_def prawtos_states)
    with x have st': "f (prawtos_init_states os ! st) \<noteq> None" by blast
    have "(pr_stm p)\<lparr>sm_current := Some st\<rparr> = pr_stm p" using Some by simp
    with step [OF live_session_inv [OF assms(2-6) Some] st st'] show ?thesis by simp
  qed
qed

text \<open>Sessions of other descriptors do not notice.\<close>

lemma table_inv_step:
  assumes inv: "table_inv E s w" and a: "it_data (item_at s i) = Some (PrawtosP a)" "used_at s i"
    and s': "wf_selector s'" "sel_fd_size s' = sel_fd_size s" "sel_resolution_jobs s' = sel_resolution_jobs s"
      "\<forall>j. j \<noteq> i \<longrightarrow> sel_map s' j = sel_map s j"
    and i: "sel_map s' i = None \<or> (\<exists>x p. sel_map s' i = Some (Some PRAWTOS, x, Some (PrawtosP a)) \<and>
        w_prawtos w' a = Some p \<and> live_session i x p)"
    and w': "\<forall>b. b \<noteq> a \<longrightarrow> w_prawtos w' b = w_prawtos w b" "w_next w' = w_next w" "users_len (e_users (w_env w'))"
  shows "table_inv E s' w'"
proof -
  have ai: "\<exists>h x. sel_map s i = Some (h, x, Some (PrawtosP a))" using a by (simp add: sel_map_def)
  have "a < w_next w" using table_invD [OF inv a(2)] a(1) by auto
  have other: "b \<noteq> a" if "j \<noteq> i" "sel_map s j = Some (h, x, Some (PrawtosP b))" for j h x b
    using inv ai that unfolding table_inv_def by metis
  show ?thesis
    unfolding table_inv_def
  proof (intro conjI allI impI)
    fix j h x d
    assume j: "sel_map s' j = Some (h, x, d)"
    show "E h x d \<or> h = Some PRAWTOS_PASSIVE \<and> x = OP_READ \<and> d = None \<or>
        h = Some PRAWTOS \<and> (\<exists>a p. d = Some (PrawtosP a) \<and> a < w_next w' \<and> w_prawtos w' a = Some p \<and>
           live_session j x p)"
    proof (cases "j = i")
      case True
      with i j \<open>a < w_next w\<close> w'(2) show ?thesis by auto
    next
      case False
      with s'(4) j have "sel_map s j = Some (h, x, d)" by simp
      with inv False other w'(1,2) show ?thesis unfolding table_inv_def by metis
    qed
  next
    fix j k h x h' x' b
    assume "sel_map s' j = Some (h, x, Some (PrawtosP b))" "sel_map s' k = Some (h', x', Some (PrawtosP b))"
    note jk = this
    have no: False if "m \<noteq> i" "sel_map s' m = Some (h1, x1, Some (PrawtosP b))"
      "sel_map s' i = Some (h2, x2, Some (PrawtosP b))" for m h1 x1 h2 x2
      using that i s'(4) other [of m h1 x1 b] by auto
    have uniq: "j = k" if "j \<noteq> i" "k \<noteq> i"
      using that jk s'(4) inv unfolding table_inv_def by metis
    show "j = k" using jk no uniq by metis
  qed (use inv s' w' in \<open>auto simp: table_inv_def\<close>)
qed

lemma close_quiet: "closes_quietly close_callbacks"
  by (auto simp: closes_quietly_def close_callbacks_def prawtos_close_def Let_def)

lemma prawtos_done_safe:
  assumes inv: "table_inv E s w" and a: "it_data (item_at s i) = Some (PrawtosP a)" "used_at s i"
    and keeps: "sel_keeps i s s1" and key: "sk_data key = Some (PrawtosP a)"
    and p: "w_prawtos w1 a = Some p" "pr_client_fd p = int i"
    and w1: "\<forall>b. b \<noteq> a \<longrightarrow> w_prawtos w1 b = w_prawtos w b" "w_next w1 = w_next w" "users_len (e_users (w_env w1))"
  shows "\<exists>s2 w2. prawtos_done os key (s1, w1) = Inr (s2, w2) \<and> table_inv E s2 w2 \<and>
    sel_fd_size s2 = sel_fd_size s \<and> \<not> used_at s2 i \<and> it_interest (item_at s2 i) = 0 \<and> (\<forall>j. j \<noteq> i \<longrightarrow> sel_map s2 j = sel_map s j)"
proof -
  have u1: "used_at s1 i" using sel_keeps_used [OF keeps] .
  have wf1: "wf_selector s1" using keeps by (simp add: sel_keeps_def)
  obtain h x where m: "sel_map s i = Some (h, x, Some (PrawtosP a))" "h = Some PRAWTOS"
    using a table_invD [OF inv a(2)] by (auto simp: sel_map_def)
  then have it: "it_handler (item_at s1 i) = Some PRAWTOS" "it_data (item_at s1 i) = Some (PrawtosP a)"
    using keeps u1 by (auto simp: sel_keeps_def sel_map_def)
  define w2 where "w2 = snd (projr (prawtos_close \<lparr>sk_fd = int i, sk_data = Some (PrawtosP a)\<rparr> (s1, w1)))"
  have cl: "call_close close_callbacks (the (it_handler (item_at s1 i)))
      \<lparr>sk_fd = int i, sk_data = it_data (item_at s1 i)\<rparr> s1 w1 = Inr (s1, w2)"
    using it by (simp add: call_close_def close_callbacks_def w2_def prawtos_close_def Let_def)
  have w2: "w_prawtos w2 = (w_prawtos w1)(a := None)" "w_next w2 = w_next w1" "e_users (w_env w2) = e_users (w_env w1)"
    by (simp_all add: w2_def prawtos_close_def Let_def)
  obtain s2 where s2: "selector_unregister_fd close_callbacks s1 (int i) w1 = Inr (SELECTOR_SUCCESS, s2, w2)"
    "wf_selector s2" "sel_map s2 = (sel_map s1)(i := None)" "sel_fd_size s2 = sel_fd_size s1"
    "it_interest (item_at s2 i) = 0" "sel_resolution_jobs s2 = sel_resolution_jobs s1"
    using unregister_wf [OF wf1 u1 cl] by blast
  let ?w3 = "w2\<lparr>w_env := (w_env w2)\<lparr>e_os := snd (os_close os (e_os (w_env w2)) (int i))\<rparr>\<rparr>"
  have "prawtos_done os key (s1, w1) = Inr (s2, ?w3)"
    using key p s2(1) by (simp add: prawtos_done_def deref_prawtos_def Let_def split_beta)
  moreover have "table_inv E s2 ?w3"
    by (rule table_inv_step [OF inv a s2(2)]) (use s2 keeps w1 w2 in \<open>auto simp: sel_keeps_def\<close>)
  moreover have "\<not> used_at s2 i" using s2(3) by (auto simp: sel_map_def fun_eq_iff split: if_splits)
  moreover have "sel_fd_size s2 = sel_fd_size s" "\<forall>j. j \<noteq> i \<longrightarrow> sel_map s2 j = sel_map s j"
    using s2(3,4) keeps by (simp_all add: sel_keeps_def)
  ultimately show ?thesis using s2(5) by blast
qed

lemma prawtos_event_safe:
  assumes "os_ok os" "table_inv E s w" "used_at s i" "it_handler (item_at s i) = Some PRAWTOS"
    and f: "f = on_read_ready \<and> it_interest (item_at s i) = OP_READ \<or>
      f = on_write_ready \<and> it_interest (item_at s i) = OP_WRITE"
  shows "(\<exists>s' w'. prawtos_event os (stm_event f) \<lparr>sk_fd = int i, sk_data = it_data (item_at s i)\<rparr> (s, w) = Inr (s', w') \<and>
      table_inv E s' w' \<and> sel_fd_size s' = sel_fd_size s \<and>
      (used_at s' i \<longrightarrow> it_data (item_at s' i) = it_data (item_at s i)) \<and>
      (\<not> used_at s' i \<longrightarrow> it_interest (item_at s' i) = 0) \<and> (\<forall>j. j \<noteq> i \<longrightarrow> sel_map s' j = sel_map s j)) \<or>
    prawtos_event os (stm_event f) \<lparr>sk_fd = int i, sk_data = it_data (item_at s i)\<rparr> (s, w) = Inl OutOfBounds"
proof -
  obtain a p where a: "it_data (item_at s i) = Some (PrawtosP a)" "a < w_next w" "w_prawtos w a = Some p"
    "live_session i (it_interest (item_at s i)) p"
    using table_invD [OF assms(2,3)] assms(4) by auto
  let ?key = "\<lparr>sk_fd = int i, sk_data = Some (PrawtosP a)\<rparr>"
  let ?pw = "\<lparr>pw_self = p, pw_sel = s, pw_env = w_env w\<rparr>"
  have wf: "wf_selector s" "users_len (e_users (w_env w))" using assms(2) by (simp_all add: table_inv_def)
  have der: "deref_prawtos ?key w = Inr (a, p)" using a by (simp add: deref_prawtos_def)
  have stm: "sm_initial (pr_stm p) = AUTH_READ_PRAWTOS" "sm_max_state (pr_stm p) = ERROR_PRAWTOS"
    using a(4) by (simp_all add: live_session_def)
  have k: "sk_fd ?key = int i" by simp
  from session_event_safe [OF assms(1) wf(1) assms(3) wf(2) a(4) k f] show ?thesis
  proof (elim disjE exE conjE)
    fix j pw
    assume ev: "stm_event f (prawtos_init_states os) (pr_stm p) ?key ?pw =
        Inr (j, (pr_stm p)\<lparr>sm_current := Some j\<rparr>, pw)" and j: "j \<le> ERROR_PRAWTOS" "session_inv s ?key pw j"
    let ?p1 = "(pw_self pw)\<lparr>pr_stm := (pr_stm p)\<lparr>sm_current := Some j\<rparr>\<rparr>"
    let ?w1 = "w\<lparr>w_prawtos := (w_prawtos w)(a \<mapsto> ?p1), w_env := pw_env pw\<rparr>"
    have keeps: "sel_keeps i s (pw_sel pw)" and fd: "pr_client_fd ?p1 = int i"
      and ul: "users_len (e_users (w_env ?w1))"
      using j(2) by (auto simp: session_inv_def session_core_def)
    show ?thesis
    proof (cases "j = ERROR_PRAWTOS \<or> j = DONE_PRAWTOS")
      case True
      have "\<exists>s2 w2. prawtos_done os ?key (pw_sel pw, ?w1) = Inr (s2, w2) \<and> table_inv E s2 w2 \<and>
          sel_fd_size s2 = sel_fd_size s \<and> \<not> used_at s2 i \<and> it_interest (item_at s2 i) = 0 \<and> (\<forall>j. j \<noteq> i \<longrightarrow> sel_map s2 j = sel_map s j)"
        by (rule prawtos_done_safe [where p = ?p1, OF assms(2) a(1) assms(3) keeps _ _ fd _ _ ul]) simp_all
      with True ev der a(1) show ?thesis by (auto simp: prawtos_event_def Let_def)
    next
      case False
      then have live: "live_session i (it_interest (item_at (pw_sel pw) i)) ?p1"
        using inv_live_session [OF j(2) _ j(1) _ _ stm] by simp
      have u: "used_at (pw_sel pw) i" using sel_keeps_used [OF keeps] .
      have it: "it_handler (item_at (pw_sel pw) i) = Some PRAWTOS" "it_data (item_at (pw_sel pw) i) = Some (PrawtosP a)"
        using keeps u assms(3,4) a(1) by (auto simp: sel_keeps_def sel_map_def)
      have "table_inv E (pw_sel pw) ?w1"
        by (rule table_inv_step [OF assms(2) a(1) assms(3)])
          (use keeps u it live ul in \<open>auto simp: sel_keeps_def sel_map_def\<close>)
      moreover have "prawtos_event os (stm_event f) ?key (s, w) = Inr (pw_sel pw, ?w1)"
        using False ev der by (auto simp: prawtos_event_def Let_def)
      ultimately show ?thesis using a(1) it u keeps by (auto simp: sel_keeps_def)
    qed
  next
    assume "stm_event f (prawtos_init_states os) (pr_stm p) ?key ?pw = Inl OutOfBounds"
    then show ?thesis using der a(1) by (simp add: prawtos_event_def Let_def)
  qed
qed

section \<open>Accepting a management connection\<close>

text \<open>Updates of the world that keep the sessions and the users keep the invariant.\<close>

lemma table_inv_entry:
  assumes "table_inv E s w" "sel_map s i = Some (h, x, d)"
  obtains "E h x d" "\<And>a. d \<noteq> Some (PrawtosP a)" | "h = Some PRAWTOS_PASSIVE" "x = OP_READ" "d = None"
  | a p where "h = Some PRAWTOS" "d = Some (PrawtosP a)" "a < w_next w" "w_prawtos w a = Some p" "live_session i x p"
  using assms unfolding table_inv_def foreign_def by blast

lemma table_inv_unique:
  assumes "table_inv E s w" "sel_map s i = Some (h, x, Some (PrawtosP a))" "sel_map s j = Some (h', x', Some (PrawtosP a))"
  shows "i = j"
  using assms unfolding table_inv_def by blast

lemma table_inv_basic:
  assumes "table_inv E s w"
  shows "wf_selector s" "sel_fd_size s = ITEMS_MAX_SIZE + 1" "users_len (e_users (w_env w))"
    "sel_resolution_jobs s = []" "foreign E"
  using assms by (simp_all add: table_inv_def)

lemma table_inv_cong:
  assumes inv: "table_inv E s w" and "wf_selector s'" "sel_fd_size s' = sel_fd_size s"
    "sel_resolution_jobs s' = sel_resolution_jobs s" and m: "sel_map s' = sel_map s"
    and w: "\<forall>b. b < w_next w \<longrightarrow> w_prawtos w' b = w_prawtos w b" "w_next w \<le> w_next w'"
    "e_users (w_env w') = e_users (w_env w)"
  shows "table_inv E s' w'"
  unfolding table_inv_def m
proof (intro conjI allI impI)
  fix i h x d
  assume "sel_map s i = Some (h, x, d)"
  with inv show "E h x d \<or> h = Some PRAWTOS_PASSIVE \<and> x = OP_READ \<and> d = None \<or>
      h = Some PRAWTOS \<and> (\<exists>a p. d = Some (PrawtosP a) \<and> a < w_next w' \<and> w_prawtos w' a = Some p \<and> live_session i x p)"
    by (rule table_inv_entry) (use w in auto)
next
  fix i j h x h' x' a
  assume "sel_map s i = Some (h, x, Some (PrawtosP a))" "sel_map s j = Some (h', x', Some (PrawtosP a))"
  with inv show "i = j" by (rule table_inv_unique)
qed (use assms table_inv_basic [OF inv] in simp_all)

lemma table_inv_new:
  assumes inv: "table_inv E s w" and s': "wf_selector s'" "sel_fd_size s' = sel_fd_size s"
    "sel_resolution_jobs s' = sel_resolution_jobs s" and m: "sel_map s' = (sel_map s)(i \<mapsto> (Some PRAWTOS, x, Some (PrawtosP (w_next w))))"
    and w': "w_prawtos w' = (w_prawtos w)(w_next w \<mapsto> p)" "w_next w' = Suc (w_next w)" "live_session i x p"
    "e_users (w_env w') = e_users (w_env w)"
  shows "table_inv E s' w'"
proof -
  have fresh: "a \<noteq> w_next w" if "sel_map s j = Some (h, y, Some (PrawtosP a))" for j h y a
    using inv that by (rule table_inv_entry) auto
  show ?thesis
    unfolding table_inv_def
  proof (intro conjI allI impI)
    fix j h y d
    assume j: "sel_map s' j = Some (h, y, d)"
    show "E h y d \<or> h = Some PRAWTOS_PASSIVE \<and> y = OP_READ \<and> d = None \<or>
        h = Some PRAWTOS \<and> (\<exists>a p. d = Some (PrawtosP a) \<and> a < w_next w' \<and> w_prawtos w' a = Some p \<and> live_session j y p)"
    proof (cases "j = i")
      case False
      then have "sel_map s j = Some (h, y, d)" using j m by simp
      with inv show ?thesis by (rule table_inv_entry) (use w' in auto)
    qed (use j m w' in auto)
  next
    fix j k h y h' y' a
    assume jk: "sel_map s' j = Some (h, y, Some (PrawtosP a))" "sel_map s' k = Some (h', y', Some (PrawtosP a))"
    show "j = k"
    proof (cases "j = i \<or> k = i")
      case True
      then show ?thesis using jk fresh m by (auto split: if_splits)
    next
      case False
      then have "sel_map s j = Some (h, y, Some (PrawtosP a))" "sel_map s k = Some (h', y', Some (PrawtosP a))"
        using jk m by simp_all
      with inv show ?thesis by (rule table_inv_unique)
    qed
  qed (use table_inv_basic [OF inv] s' w' in simp_all)
qed

lemma prawtos_arrival_live:
  "\<exists>p. prawtos_arrival os (int i) = Inr p \<and> live_session i OP_READ p" "\<exists>p. prawtos_arrival os fd = Inr p"
proof -
  have "stm_init (prawtos_init_states os)
      \<lparr>sm_initial = AUTH_READ_PRAWTOS, sm_max_state = ERROR_PRAWTOS, sm_current = None\<rparr> =
      Inr \<lparr>sm_initial = AUTH_READ_PRAWTOS, sm_max_state = ERROR_PRAWTOS, sm_current = None\<rparr>"
    using prawtos_table [of os] by (subst stm_init_eq) (simp_all add: wf_table_def prawtos_states)
  then show "\<exists>p. prawtos_arrival os (int i) = Inr p \<and> live_session i OP_READ p" "\<exists>p. prawtos_arrival os fd = Inr p"
    by (simp_all add: prawtos_arrival_def live_session_def buffer_init_wf Let_def)
qed

lemma accept_error_safe:
  assumes "table_inv E s w" "sk_data key = None"
  shows "\<exists>w'. accept_error os client key (s, w) = Inr (s, w') \<and> table_inv E s w'"
  using assms(2) table_inv_cong [OF assms(1), of s] assms(1)
  by (auto simp: accept_error_def prawtos_close_def Let_def table_inv_def)

text \<open>Registering a descriptor in a table that never has to grow.\<close>

lemma register_full:
  assumes "wf_selector s" "sel_fd_size s = ITEMS_MAX_SIZE + 1" "handler \<noteq> None"
  shows "(\<exists>st. selector_register ok (Some s) fd handler interest data = Inr (st, Some s) \<and> st \<noteq> SELECTOR_SUCCESS) \<or>
    (\<exists>i s'. fd = int i \<and> i < ITEMS_MAX_SIZE \<and> sel_map s i = None \<and>
       selector_register ok (Some s) fd handler interest data = Inr (SELECTOR_SUCCESS, Some s') \<and>
       wf_selector s' \<and> sel_map s' = (sel_map s)(i \<mapsto> (handler, interest, data)) \<and> sel_fd_size s' = sel_fd_size s \<and>
       sel_resolution_jobs s' = sel_resolution_jobs s)"
proof (cases "INVALID_FD fd")
  case True
  then show ?thesis by (simp add: selector_register_def)
next
  case False
  then obtain i where i: "fd = int i" "i < ITEMS_MAX_SIZE" using valid_fd_nat by blast
  show ?thesis
  proof (cases "used_at s i")
    case True
    with assms i show ?thesis by (simp add: register_used)
  next
    case un: False
    then have "sel_map s i = None" by (simp add: sel_map_def)
    with register_core [OF assms(1) _ i(2) un assms(3), of ok interest data] assms(2) i show ?thesis by force
  qed
qed

lemma prawtos_passive_accept_safe:
  fixes os :: "'o os"
  assumes "table_inv E s w" "sk_data key = None"
  shows "\<exists>s' w'. prawtos_passive_accept os key (s, w) = Inr (s', w') \<and> table_inv E s' w' \<and>
    sel_fd_size s' = sel_fd_size s \<and> (\<forall>j. sel_map s' j = sel_map s j \<or> sel_map s j = None \<and> (\<exists>x d. sel_map s' j = Some (Some PRAWTOS, x, d)))"
proof -
  note basic = table_inv_basic [OF assms(1)]
  have err: "\<exists>s' w'. accept_error os client key (s, w1) = Inr (s', w') \<and> table_inv E s' w' \<and>
      sel_fd_size s' = sel_fd_size s \<and> (\<forall>j. sel_map s' j = sel_map s j \<or> sel_map s j = None \<and> (\<exists>x d. sel_map s' j = Some (Some PRAWTOS, x, d)))"
    if "\<forall>b. b < w_next w \<longrightarrow> w_prawtos w1 b = w_prawtos w b" "w_next w \<le> w_next w1"
      "e_users (w_env w1) = e_users (w_env w)" for client and w1 :: "'o world"
    using accept_error_safe [OF table_inv_cong [OF assms(1) basic(1) refl refl refl that] assms(2), of os client] by auto
  obtain client o1 where acc: "os_accept os (e_os (w_env w)) (sk_fd key) = (client, o1)" by fastforce
  obtain m o2 where m: "os_malloc os o1 = (m, o2)" by fastforce
  obtain g o3 where g: "os_malloc os o2 = (g, o3)" by fastforce
  obtain p where p: "prawtos_arrival os client = Inr p" using prawtos_arrival_live(2) by blast
  let ?a = "w_next w"
  let ?w4 = "w\<lparr>w_prawtos := (w_prawtos w)(?a \<mapsto> p), w_next := Suc ?a, w_env := (w_env w)\<lparr>e_os := o3\<rparr>\<rparr>"
  let ?r = "selector_register g (Some s) client (Some PRAWTOS) OP_READ (Some (PrawtosP ?a))"
  consider st where "?r = Inr (st, Some s)" "st \<noteq> SELECTOR_SUCCESS"
    | i s' where "client = int i" "?r = Inr (SELECTOR_SUCCESS, Some s')" "sel_map s i = None" "wf_selector s'"
      "sel_map s' = (sel_map s)(i \<mapsto> (Some PRAWTOS, OP_READ, Some (PrawtosP ?a)))" "sel_fd_size s' = sel_fd_size s"
      "sel_resolution_jobs s' = sel_resolution_jobs s"
    using register_full [OF basic(1,2), of "Some PRAWTOS" g client OP_READ "Some (PrawtosP ?a)"] by fastforce
  then show ?thesis
  proof cases
    case 1
    have "\<exists>s' w'. accept_error os client key (s, ?w4) = Inr (s', w') \<and> table_inv E s' w' \<and>
      sel_fd_size s' = sel_fd_size s \<and> (\<forall>j. sel_map s' j = sel_map s j \<or> sel_map s j = None \<and> (\<exists>x d. sel_map s' j = Some (Some PRAWTOS, x, d)))"
      by (rule err) auto
    with 1 acc m g p err show ?thesis by (auto simp: prawtos_passive_accept_def the_ptr_def Let_def)
  next
    case (2 i s')
    have live: "live_session i OP_READ p" using prawtos_arrival_live(1) [of os i] p 2(1) by auto
    let ?w5 = "?w4\<lparr>w_env := (w_env ?w4)\<lparr>e_stats := stadistics_increase_concurrent (e_stats (w_env ?w4))\<rparr>\<rparr>"
    have "table_inv E s' ?w5"
      by (rule table_inv_new [OF assms(1) 2(4,6,7,5) _ _ live]) simp_all
    with 2 acc m g p err show ?thesis by (auto simp: prawtos_passive_accept_def the_ptr_def Let_def)
  qed
qed

section \<open>The management server is safe\<close>

lemma op_bits [simp]: "OP_READ AND OP_READ \<noteq> 0" "OP_READ AND OP_WRITE = 0" "OP_WRITE AND OP_READ = 0"
    "OP_WRITE AND OP_WRITE \<noteq> 0" "OP_READ \<noteq> OP_WRITE"
  by (simp_all add: OP_READ_def OP_WRITE_def)

lemma live_session_interest: "live_session i x p \<Longrightarrow> x = OP_READ \<or> x = OP_WRITE"
  by (auto simp: live_session_def split: option.splits)

text \<open>
  The two callbacks of the management descriptors, in a table that may hold others: those stay as they are.
\<close>

definition managed :: "(handler_id option \<times> u32 \<times> ptr option) option \<Rightarrow> bool" where
  "managed v \<longleftrightarrow> (\<forall>h x d. v = Some (h, x, d) \<longrightarrow> h = Some PRAWTOS)"

definition others_kept :: "sel \<Rightarrow> sel \<Rightarrow> bool" where
  "others_kept s s' \<longleftrightarrow> (\<forall>j. sel_map s' j = sel_map s j \<or> managed (sel_map s j) \<and> managed (sel_map s' j))"

lemma event_others_kept:
  assumes "table_inv E s' w'" "used_at s i" "it_handler (item_at s i) = Some PRAWTOS" "it_data (item_at s i) = Some (PrawtosP a)"
    and "used_at s' i \<longrightarrow> it_data (item_at s' i) = it_data (item_at s i)" "\<forall>j. j \<noteq> i \<longrightarrow> sel_map s' j = sel_map s j"
  shows "others_kept s s'"
proof -
  have "managed (sel_map s i)" using assms(3) by (simp add: managed_def sel_map_def)
  moreover have "managed (sel_map s' i)"
    using table_invD [OF assms(1), of i] assms(4,5) by (auto simp: managed_def sel_map_def)
  ultimately show ?thesis using assms(6) by (auto simp: others_kept_def)
qed

lemma prawtos_read_safe:
  assumes a: "os_ok os" "table_inv E s w" "used_at s i" "it_handler (item_at s i) = Some h" "h = PRAWTOS \<or> h = PRAWTOS_PASSIVE"
    and rd: "OP_READ AND it_interest (item_at s i) \<noteq> 0"
  shows "\<exists>cb. handle_read (prawtos_handlers os h) = Some cb \<and>
    ((\<exists>s' w'. cb \<lparr>sk_fd = int i, sk_data = it_data (item_at s i)\<rparr> (s, w) = Inr (s', w') \<and> table_inv E s' w' \<and>
        sel_fd_size s' = sel_fd_size s \<and> (used_at s' i \<longrightarrow> it_data (item_at s' i) = it_data (item_at s i)) \<and>
        (\<not> used_at s' i \<longrightarrow> it_interest (item_at s' i) = 0) \<and> others_kept s s') \<or>
     cb \<lparr>sk_fd = int i, sk_data = it_data (item_at s i)\<rparr> (s, w) = Inl OutOfBounds)"
proof (cases "h = PRAWTOS")
  case True
  then obtain b p where b: "it_data (item_at s i) = Some (PrawtosP b)" "live_session i (it_interest (item_at s i)) p"
    using table_invD [OF a(2,3)] a(4) by auto
  then have "it_interest (item_at s i) = OP_READ" using rd live_session_interest by fastforce
  with prawtos_event_safe [OF a(1-3), of on_read_ready] a(4) True event_others_kept [OF _ a(3) _ b(1)] show ?thesis
    by (fastforce simp: prawtos_handlers_def prawtos_read_def stm_handler_read_def)
next
  case False
  then have d: "h = PRAWTOS_PASSIVE" "it_data (item_at s i) = None" using table_invD [OF a(2,3)] a(4,5) by auto
  obtain s' w' where r: "prawtos_passive_accept os \<lparr>sk_fd = int i, sk_data = None\<rparr> (s, w) = Inr (s', w')" "table_inv E s' w'"
    "sel_fd_size s' = sel_fd_size s"
    "\<forall>j. sel_map s' j = sel_map s j \<or> sel_map s j = None \<and> (\<exists>x d. sel_map s' j = Some (Some PRAWTOS, x, d))"
    using prawtos_passive_accept_safe [OF a(2), of "\<lparr>sk_fd = int i, sk_data = None\<rparr>" os] by auto
  have "sel_map s i \<noteq> None" using a(3) by (simp add: sel_map_def)
  then have "sel_map s' i = sel_map s i" using r(4) by metis
  then have "used_at s' i" "it_data (item_at s' i) = it_data (item_at s i)"
    using a(3) by (auto simp: sel_map_def split: if_splits)
  moreover have "others_kept s s'" using r(4) by (fastforce simp: others_kept_def managed_def)
  ultimately show ?thesis using r d by (simp add: prawtos_handlers_def)
qed

lemma prawtos_write_safe:
  assumes a: "os_ok os" "table_inv E s w" "used_at s i" "it_handler (item_at s i) = Some h" "h = PRAWTOS \<or> h = PRAWTOS_PASSIVE"
    and wr: "OP_WRITE AND it_interest (item_at s i) \<noteq> 0"
  shows "\<exists>cb. handle_write (prawtos_handlers os h) = Some cb \<and>
    ((\<exists>s' w'. cb \<lparr>sk_fd = int i, sk_data = it_data (item_at s i)\<rparr> (s, w) = Inr (s', w') \<and> table_inv E s' w' \<and>
        sel_fd_size s' = sel_fd_size s \<and> others_kept s s') \<or>
     cb \<lparr>sk_fd = int i, sk_data = it_data (item_at s i)\<rparr> (s, w) = Inl OutOfBounds)"
proof -
  obtain b p where b: "h = PRAWTOS" "it_data (item_at s i) = Some (PrawtosP b)" "live_session i (it_interest (item_at s i)) p"
    using table_invD [OF a(2,3)] a(4,5) wr by auto
  then have "it_interest (item_at s i) = OP_WRITE" using wr live_session_interest by fastforce
  with prawtos_event_safe [OF a(1-3), of on_write_ready] a(4) b(1) event_others_kept [OF _ a(3) _ b(2)] show ?thesis
    by (fastforce simp: prawtos_handlers_def prawtos_write_def stm_handler_write_def)
qed

interpretation psrv: fd_clients "prawtos_handlers os" "\<lambda>s w. os_ok os \<and> server_inv s w" "{OutOfBounds}"
  for os :: "'o os"
proof unfold_locales
  fix s :: sel and w :: "'o world"
  assume "os_ok os \<and> server_inv s w"
  then show "wf_selector s" using table_inv_basic(1) by blast
next
  fix s :: sel and w :: "'o world" and i h
  let ?key = "\<lparr>sk_fd = int i, sk_data = it_data (item_at s i)\<rparr>"
  assume a: "os_ok os \<and> server_inv s w" "used_at s i" "it_handler (item_at s i) = Some h"
  have h: "h = PRAWTOS \<or> h = PRAWTOS_PASSIVE" using table_invD [of "\<lambda>h x d. False" s w i] a by auto
  show "\<exists>cb. handle_read (prawtos_handlers os h) = Some cb \<and>
      ((\<exists>s' w'. cb ?key (s, w) = Inr (s', w') \<and> (os_ok os \<and> server_inv s' w') \<and> sel_fd_size s' = sel_fd_size s \<and>
          (used_at s' i \<longrightarrow> it_data (item_at s' i) = it_data (item_at s i)) \<and>
          (\<not> used_at s' i \<longrightarrow> it_interest (item_at s' i) = 0)) \<or>
       (\<exists>e \<in> {OutOfBounds}. cb ?key (s, w) = Inl e))" if "OP_READ AND it_interest (item_at s i) \<noteq> 0"
    using prawtos_read_safe [OF _ _ a(2,3) h that, of os "\<lambda>h x d. False" w] a(1) by auto
  show "\<exists>cb. handle_write (prawtos_handlers os h) = Some cb \<and>
      ((\<exists>s' w'. cb ?key (s, w) = Inr (s', w') \<and> (os_ok os \<and> server_inv s' w') \<and> sel_fd_size s' = sel_fd_size s) \<or>
       (\<exists>e \<in> {OutOfBounds}. cb ?key (s, w) = Inl e))" if "OP_WRITE AND it_interest (item_at s i) \<noteq> 0"
    using prawtos_write_safe [OF _ _ a(2,3) h that, of os "\<lambda>h x d. False" w] a(1) by auto
qed

interpretation psel: idle_clients "prawtos_handlers os" "\<lambda>s w. os_ok os \<and> server_inv s w" "{OutOfBounds}"
  for os :: "'o os"
proof unfold_locales
  fix s :: sel and w :: "'o world" and rs ws
  assume a: "os_ok os \<and> server_inv s w"
  then show "sel_resolution_jobs s = []" using table_inv_basic(4) by blast
  let ?s = "s\<lparr>sel_slave_r := rs, sel_slave_w := ws\<rparr>"
  have eq: "used_at ?s = used_at s" "item_at ?s = item_at s" "sel_map ?s = sel_map s"
    by (auto simp: item_at_def used_at_def sel_map_def fun_eq_iff)
  have "wf_selector ?s" using table_inv_basic(1) [of "\<lambda>h x d. False" s w] a by (simp add: wf_selector_def eq)
  with table_inv_cong [of "\<lambda>h x d. False" s w ?s w] a eq show "os_ok os \<and> server_inv ?s w" by simp
qed

end
