(* ===== verification/Args.thy ===== *)
theory Args
  imports Prelude
begin

text \<open>
  The command line: \<^verbatim>\<open>src/args.c\<close> and \<^verbatim>\<open>include/args.h\<close>.

  \<^verbatim>\<open>getopt_long\<close> is the C library's: what it returns is an argument of \<open>parse_args\<close>, the list of
  the option codes with their arguments in the order of the calls, and whether arguments are left
  when it returns \<open>-1\<close>. A call of \<^verbatim>\<open>exit\<close> is a value; the messages on the standard error are not
  modelled.
\<close>

section \<open>Data\<close>

definition MAX_USERS :: nat where "MAX_USERS = 10"
definition USHRT_MAX :: int where "USHRT_MAX = 65535"
definition LONG_MAX :: int where "LONG_MAX = 2 ^ 63 - 1"
definition LONG_MIN :: int where "LONG_MIN = - (2 ^ 63)"

text \<open>A \<^verbatim>\<open>char *\<close> is the block from the pointer on, \<^const>\<open>None\<close> for a null pointer.\<close>

record arg_user =
  usr_name :: "u8 list option"
  usr_pass :: "u8 list option"

record doh =
  doh_host :: "u8 list"
  doh_ip :: "u8 list"
  doh_port :: u16
  doh_path :: "u8 list"
  doh_query :: "u8 list"

record socks5args =
  sa_socks_addr :: "u8 list"
  sa_socks_port :: u16
  sa_mng_addr :: "u8 list"
  sa_mng_port :: u16
  sa_disectors_enabled :: bool
  sa_doh :: doh
  sa_user_count :: int
  sa_users :: "arg_user list"
  sa_admin :: arg_user

text \<open>The program ends with the given code, or goes on with a value.\<close>

datatype 'a run = Exit int | Go 'a

section \<open>Ports\<close>

definition isspace :: "u8 \<Rightarrow> bool" where
  "isspace c \<longleftrightarrow> c \<in> {9, 10, 11, 12, 13, 32}"

definition isdigit :: "u8 \<Rightarrow> bool" where
  "isdigit c \<longleftrightarrow> 48 \<le> c \<and> c \<le> 57"

definition digits_val :: "u8 list \<Rightarrow> int" where
  "digits_val ds = foldl (\<lambda>v c. 10 * v + (uint c - 48)) 0 ds"

text \<open>
  \<^verbatim>\<open>strtol(s, &end, 10)\<close>: the value, the offset of \<^verbatim>\<open>end\<close> from \<open>s\<close>, and whether it set
  \<^verbatim>\<open>errno\<close> to \<^verbatim>\<open>ERANGE\<close>.
\<close>

definition strtol :: "u8 list \<Rightarrow> int \<times> nat \<times> bool" where
  "strtol s =
     (let sp = length (takeWhile isspace s);
          t = drop sp s;
          sign = (case t of c # _ \<Rightarrow> c = 43 \<or> c = 45 | [] \<Rightarrow> False);
          neg = (case t of c # _ \<Rightarrow> c = 45 | [] \<Rightarrow> False);
          ds = takeWhile isdigit (if sign then tl t else t);
          v = (if neg then - digits_val ds else digits_val ds) in
      if ds = [] then (0, 0, False)
      else (max LONG_MIN (min LONG_MAX v), sp + (if sign then 1 else 0) + length ds,
            v < LONG_MIN \<or> v > LONG_MAX))"

definition port :: "u8 list \<Rightarrow> u16 run res" where
  "port s =
     (let (sl, end, range) = strtol s in
      if end = 0 then Inr (Exit 1)
      else bindr (peek_at s end) (\<lambda>c.
        if c \<noteq> 0 \<or> (LONG_MIN = sl \<or> LONG_MAX = sl) \<and> range \<or> sl < 0 \<or> sl > USHRT_MAX
        then Inr (Exit 1) else Inr (Go (of_int sl))))"

section \<open>Users\<close>

text \<open>\<^verbatim>\<open>strchr\<close>: the offset of the first such byte before the NUL.\<close>

fun c_strchr :: "u8 list \<Rightarrow> u8 \<Rightarrow> nat option res" where
  "c_strchr [] x = Inl OutOfBounds"
| "c_strchr (c # cs) x =
     (if c = x then Inr (Some 0) else if c = 0 then Inr None
      else bindr (c_strchr cs x) (\<lambda>r. Inr (map_option Suc r)))"

definition user :: "u8 list \<Rightarrow> arg_user run res" where
  "user s =
     bindr (c_strchr s 58) (\<lambda>p. case p of
       None \<Rightarrow> Inr (Exit 1)
     | Some p \<Rightarrow> Inr (Go \<lparr>usr_name = Some (s[p := 0]), usr_pass = Some (drop (Suc p) s)\<rparr>))"

section \<open>The options\<close>

definition no_user :: arg_user where
  "no_user = \<lparr>usr_name = None, usr_pass = None\<rparr>"

definition default_args :: socks5args where
  "default_args =
     \<lparr>sa_socks_addr = c_lit ''0.0.0.0'', sa_socks_port = 1080, sa_mng_addr = c_lit ''127.0.0.1'',
      sa_mng_port = 8080, sa_disectors_enabled = True,
      sa_doh = \<lparr>doh_host = c_lit ''localhost'', doh_ip = c_lit ''127.0.0.1'', doh_port = 8053,
                doh_path = c_lit ''/getnsrecord'', doh_query = c_lit ''?dns=''\<rparr>,
      sa_user_count = 0, sa_users = replicate MAX_USERS no_user, sa_admin = no_user\<rparr>"

text \<open>Continue with the value of a fallible step, unless the program ended.\<close>

definition go :: "'a run res \<Rightarrow> ('a \<Rightarrow> 'b run res) \<Rightarrow> 'b run res" where
  "go m f = bindr m (\<lambda>r. case r of Exit n \<Rightarrow> Inr (Exit n) | Go x \<Rightarrow> f x)"

text \<open>One round of the loop: the option \<open>c\<close> with its argument, after \<open>nusers\<close> users.\<close>

definition parse_option :: "int \<Rightarrow> u8 list \<Rightarrow> nat \<Rightarrow> socks5args \<Rightarrow> (nat \<times> socks5args) run res" where
  "parse_option c optarg nusers args =
     (if c = 104 then Inr (Exit 1)
      else if c = 108 then Inr (Go (nusers, args\<lparr>sa_socks_addr := optarg\<rparr>))
      else if c = 76 then Inr (Go (nusers, args\<lparr>sa_mng_addr := optarg\<rparr>))
      else if c = 78 then Inr (Go (nusers, args\<lparr>sa_disectors_enabled := False\<rparr>))
      else if c = 112 then go (port optarg) (\<lambda>p. Inr (Go (nusers, args\<lparr>sa_socks_port := p\<rparr>)))
      else if c = 80 then go (port optarg) (\<lambda>p. Inr (Go (nusers, args\<lparr>sa_mng_port := p\<rparr>)))
      else if c = 117 then
        if nusers \<ge> MAX_USERS then Inr (Exit 1)
        else go (user optarg) (\<lambda>u.
             bindr (poke_at (sa_users args) nusers u) (\<lambda>us.
             Inr (Go (Suc nusers, args\<lparr>sa_users := us\<rparr>))))
      else if c = 118 then Inr (Exit 0)
      else if c = 0xD001 then Inr (Go (nusers, args\<lparr>sa_doh := (sa_doh args)\<lparr>doh_ip := optarg\<rparr>\<rparr>))
      else if c = 0xD002 then
        go (port optarg) (\<lambda>p. Inr (Go (nusers, args\<lparr>sa_doh := (sa_doh args)\<lparr>doh_port := p\<rparr>\<rparr>)))
      else if c = 0xD003 then Inr (Go (nusers, args\<lparr>sa_doh := (sa_doh args)\<lparr>doh_host := optarg\<rparr>\<rparr>))
      else if c = 0xD004 then Inr (Go (nusers, args\<lparr>sa_doh := (sa_doh args)\<lparr>doh_path := optarg\<rparr>\<rparr>))
      else if c = 0xD005 then Inr (Go (nusers, args\<lparr>sa_doh := (sa_doh args)\<lparr>doh_query := optarg\<rparr>\<rparr>))
      else Inr (Exit 1))"

fun parse_loop :: "(int \<times> u8 list) list \<Rightarrow> nat \<Rightarrow> socks5args \<Rightarrow> (nat \<times> socks5args) run res" where
  "parse_loop [] nusers args = Inr (Go (nusers, args))"
| "parse_loop ((c, optarg) # opts) nusers args =
     go (parse_option c optarg nusers args) (\<lambda>(nusers', args'). parse_loop opts nusers' args')"

definition parse_args :: "(int \<times> u8 list) list \<Rightarrow> bool \<Rightarrow> socks5args run res" where
  "parse_args opts left =
     go (parse_loop opts 0 default_args) (\<lambda>(_, args). if left then Inr (Exit 1) else Inr (Go args))"

section \<open>Lemmas\<close>

lemma go_Inl [simp]: "go (Inl e) f = Inl e"
  by (simp add: go_def)

lemma go_Inr [simp]: "go (Inr (Exit n)) f = Inr (Exit n)" "go (Inr (Go x)) f = f x"
  by (simp_all add: go_def)

lemma go_eq_Go: "go m f = Inr (Go y) \<longleftrightarrow> (\<exists>x. m = Inr (Go x) \<and> f x = Inr (Go y))"
proof (cases m)
  case (Inr r)
  then show ?thesis by (cases r) simp_all
qed simp

lemma digits_val_snoc [simp]: "digits_val [] = 0" "digits_val (ds @ [c]) = 10 * digits_val ds + (uint c - 48)"
  by (simp_all add: digits_val_def)

text \<open>Decimal notation, the digits most significant first.\<close>

fun dec :: "nat \<Rightarrow> u8 list" where
  "dec n = (if n < 10 then [of_nat (48 + n)] else dec (n div 10) @ [of_nat (48 + n mod 10)])"

declare dec.simps [simp del]

lemma unat_digit: "n < 10 \<Longrightarrow> unat (of_nat (48 + n) :: u8) = 48 + n"
  by (rule unat_of_nat_u8) simp

lemma uint_digit: "n < 10 \<Longrightarrow> uint (of_nat (48 + n) :: u8) = 48 + int n"
  using unat_digit [of n] by (metis int_ops(5) of_nat_numeral of_nat_unat)

lemma isdigit_of_nat: "n < 10 \<Longrightarrow> isdigit (of_nat (48 + n))"
  unfolding isdigit_def word_le_nat_alt unat_digit by simp

lemma dec_ok: "digits_val (dec n) = int n \<and> list_all isdigit (dec n) \<and> dec n \<noteq> []"
proof (induction n rule: dec.induct)
  case (1 n)
  show ?case
  proof (cases "n < 10")
    case True
    have "digits_val [of_nat (48 + n)] = int n"
      using digits_val_snoc(2) [of "[]" "of_nat (48 + n)"] uint_digit [OF True] by simp
    with True isdigit_of_nat [OF True] show ?thesis by (simp add: dec.simps del: of_nat_add)
  next
    case False
    have m: "n mod 10 < 10" by simp
    have "10 * (int n div 10) + int n mod 10 = int n" by simp
    with 1 False uint_digit [OF m] isdigit_of_nat [OF m] show ?thesis
      by (simp add: dec.simps [of n] zdiv_int zmod_int del: of_nat_add)
  qed
qed

lemma takeWhile_digits: "list_all isdigit ds \<Longrightarrow> takeWhile isdigit (ds @ 0 # r) = ds"
  by (induction ds) (auto simp: isdigit_def)

lemma digit_first: "isdigit c \<Longrightarrow> \<not> isspace c \<and> c \<noteq> 43 \<and> c \<noteq> 45"
  by (auto simp: isdigit_def isspace_def)

lemma strtol_digits:
  assumes "list_all isdigit ds" "ds \<noteq> []"
  shows "strtol (ds @ 0 # r) = (max LONG_MIN (min LONG_MAX (digits_val ds)), length ds,
    digits_val ds < LONG_MIN \<or> digits_val ds > LONG_MAX)"
proof -
  obtain c cs where c: "ds = c # cs" using assms(2) by (cases ds) auto
  with assms(1) have "isdigit c" by simp
  with c digit_first [OF this] takeWhile_digits [OF assms(1), of r] show ?thesis
    by (simp add: strtol_def Let_def)
qed

lemma c_strchr_first: "x \<noteq> 0 \<Longrightarrow> x \<notin> set n \<Longrightarrow> 0 \<notin> set n \<Longrightarrow> c_strchr (n @ x # p) x = Inr (Some (length n))"
  by (induction n) auto

lemma user_splits:
  assumes "58 \<notin> set n" "0 \<notin> set n"
  shows "user (n @ 58 # p) = Inr (Go \<lparr>usr_name = Some (n @ 0 # p), usr_pass = Some p\<rparr>)"
  using c_strchr_first [of 58 n p] assms by (simp add: user_def)

text \<open>The users given so far fill the array from its start.\<close>

definition users_filled :: "arg_user list \<Rightarrow> socks5args \<Rightarrow> bool" where
  "users_filled us args \<longleftrightarrow> length us \<le> MAX_USERS \<and> sa_user_count args = 0 \<and>
     sa_users args = us @ replicate (MAX_USERS - length us) no_user"

lemma parse_option_users:
  assumes "users_filled us args" "parse_option c optarg (length us) args = Inr (Go (nusers', args'))"
  shows "\<exists>us'. nusers' = length us' \<and> users_filled us' args' \<and>
    (if c = 117 then \<exists>u. us' = us @ [u] \<and> user optarg = Inr (Go u) else us' = us)"
proof (cases "c = 117")
  case True
  with assms obtain u where u: "length us < MAX_USERS" "user optarg = Inr (Go u)"
    "poke_at (sa_users args) (length us) u = Inr (sa_users args')" "nusers' = Suc (length us)"
    "args' = args\<lparr>sa_users := sa_users args'\<rparr>"
    by (auto simp: parse_option_def go_eq_Go res_simps split: if_splits)
  have "replicate (MAX_USERS - length us) no_user = no_user # replicate (MAX_USERS - Suc (length us)) no_user"
    using u(1) by (simp add: Suc_diff_Suc flip: replicate_Suc)
  then have "sa_users args' = us @ [u] @ replicate (MAX_USERS - Suc (length us)) no_user"
    using u(1,3) assms(1) by (simp add: users_filled_def res_simps)
  moreover have "sa_user_count args' = 0" using assms(1) u(5) by (metis select_convs(7) socks5args.surjective update_convs(8) users_filled_def)
  ultimately have "users_filled (us @ [u]) args'" using u(1) by (simp add: users_filled_def)
  with True u show ?thesis by auto
next
  case False
  with assms have "nusers' = length us" "users_filled us args'"
    by (auto simp: parse_option_def go_eq_Go users_filled_def split: if_splits)
  with False show ?thesis by auto
qed

lemma parse_loop_users:
  assumes "users_filled us args" "parse_loop opts (length us) args = Inr (Go (k, args'))"
  shows "\<exists>us'. users_filled (us @ us') args' \<and>
    map (\<lambda>(c, a). user a) (filter (\<lambda>(c, a). c = 117) opts) = map (\<lambda>u. Inr (Go u)) us'"
  using assms
proof (induction opts arbitrary: us args)
  case Nil
  then show ?case by (auto intro: exI [of _ "[]"])
next
  case (Cons o1 opts)
  obtain c a where o1: "o1 = (c, a)" by (cases o1)
  with Cons.prems(2) obtain n1 a1 where s: "parse_option c a (length us) args = Inr (Go (n1, a1))"
    "parse_loop opts n1 a1 = Inr (Go (k, args'))" by (auto simp: go_eq_Go)
  from parse_option_users [OF Cons.prems(1) s(1)] obtain us1 where us1: "n1 = length us1" "users_filled us1 a1"
    "if c = 117 then \<exists>u. us1 = us @ [u] \<and> user a = Inr (Go u) else us1 = us" by blast
  from Cons.IH [OF us1(2)] s(2) us1(1) obtain us2 where us2: "users_filled (us1 @ us2) args'"
    "map (\<lambda>(c, a). user a) (filter (\<lambda>(c, a). c = 117) opts) = map (\<lambda>u. Inr (Go u)) us2" by auto
  show ?case
  proof (cases "c = 117")
    case True
    then obtain u where "us1 = us @ [u]" "user a = Inr (Go u)" using us1(3) by auto
    with us2 o1 True show ?thesis by (intro exI [of _ "u # us2"]) simp
  qed (use us1 us2 o1 in auto)
qed

text \<open>What \<^const>\<open>user\<close> stores of the string it splits.\<close>

lemma c_strchr_found:
  "c_strchr s x = Inr (Some k) \<Longrightarrow> x \<noteq> 0 \<Longrightarrow> \<exists>n p. s = n @ x # p \<and> length n = k \<and> x \<notin> set n \<and> 0 \<notin> set n"
proof (induction s arbitrary: k)
  case (Cons c cs)
  show ?case
  proof (cases "c = x")
    case True
    with Cons.prems show ?thesis by (intro exI [of _ "[]"] exI [of _ cs]) simp
  next
    case False
    with Cons.prems obtain j where j: "c \<noteq> 0" "c_strchr cs x = Inr (Some j)" "k = Suc j" by (auto simp: res_simps split: if_splits)
    from Cons.IH [OF j(2) Cons.prems(2)] obtain n p where "cs = n @ x # p" "length n = j" "x \<notin> set n" "0 \<notin> set n" by blast
    with False j show ?thesis by (intro exI [of _ "c # n"] exI [of _ p]) simp
  qed
qed simp

lemma user_named:
  assumes "user s = Inr (Go u)" "terminated s"
  shows "\<exists>n p. c_str s = n @ 58 # p \<and> 58 \<notin> set n \<and> map_option c_str (usr_name u) = Some n \<and> map_option c_str (usr_pass u) = Some p"
proof -
  obtain k where k: "c_strchr s 58 = Inr (Some k)" "u = \<lparr>usr_name = Some (s[k := 0]), usr_pass = Some (drop (Suc k) s)\<rparr>"
    using assms(1) by (auto simp: user_def res_simps split: option.splits)
  obtain n p where n: "s = n @ 58 # p" "length n = k" "58 \<notin> set n" "0 \<notin> set n" using c_strchr_found [OF k(1)] by auto
  then have "c_str s = n @ 58 # c_str p" "c_str (s[k := 0]) = n" by (auto simp: c_str_def takeWhile_append)
  with n k(2) show ?thesis by (intro exI [of _ n] exI [of _ "c_str p"]) simp
qed

lemma users_named:
  assumes "map (\<lambda>(c, a). user a) os = map (\<lambda>u. Inr (Go u)) us" "\<forall>(c, a) \<in> set os. terminated a"
  shows "\<exists>nps. map (\<lambda>(c, a). c_str a) os = map (\<lambda>(n, p). n @ 58 # p) nps \<and> (\<forall>(n, p) \<in> set nps. 58 \<notin> set n) \<and>
    map (\<lambda>u. (map_option c_str (usr_name u), map_option c_str (usr_pass u))) us = map (\<lambda>(n, p). (Some n, Some p)) nps"
  using assms
proof (induction os arbitrary: us)
  case (Cons o1 os)
  obtain c a where o1: "o1 = (c, a)" by (cases o1)
  from Cons.prems(1) o1 obtain u us1 where us: "us = u # us1" "user a = Inr (Go u)"
    "map (\<lambda>(c, a). user a) os = map (\<lambda>u. Inr (Go u)) us1" by auto
  obtain n p where "c_str a = n @ 58 # p" "58 \<notin> set n" "map_option c_str (usr_name u) = Some n" "map_option c_str (usr_pass u) = Some p"
    using user_named [OF us(2)] Cons.prems(2) o1 by auto
  moreover obtain nps where "map (\<lambda>(c, a). c_str a) os = map (\<lambda>(n, p). n @ 58 # p) nps" "\<forall>(n, p) \<in> set nps. 58 \<notin> set n"
    "map (\<lambda>u. (map_option c_str (usr_name u), map_option c_str (usr_pass u))) us1 = map (\<lambda>(n, p). (Some n, Some p)) nps"
    using Cons.IH [OF us(3)] Cons.prems(2) by auto
  ultimately show ?case using us(1) o1 by (intro exI [of _ "(n, p) # nps"]) simp
qed simp

lemma parse_args_user_count: "parse_args opts left = Inr (Go args) \<Longrightarrow> sa_user_count args = 0"
proof -
  assume "parse_args opts left = Inr (Go args)"
  then obtain k where "parse_loop opts (length ([] :: arg_user list)) default_args = Inr (Go (k, args))"
    by (auto simp: parse_args_def go_eq_Go split: if_splits)
  from parse_loop_users [OF _ this] show ?thesis by (auto simp: users_filled_def default_args_def)
qed

section \<open>Properties\<close>

text \<open>
  C35: a port is read back from its decimal notation. \<^const>\<open>port\<close> of the decimal digits of \<open>n\<close> is \<open>n\<close> when
  \<open>n\<close> fits in a \<^verbatim>\<open>unsigned short\<close>, 0 too, and ends the program with code 1 for every larger number,
  65536 and numbers beyond the range of \<^verbatim>\<open>long\<close> too. The message of that exit, \<^verbatim>\<open>port should in in the range of
  1-65536\<close> (\<^verbatim>\<open>args.c:18\<close>), names a range the code does not have.
\<close>

theorem port_reads_decimal:
  "port (dec n @ [0]) = Inr (if n \<le> 65535 then Go (of_nat n) else Exit 1)"
proof -
  have d: "digits_val (dec n) = int n" "list_all isdigit (dec n)" "dec n \<noteq> []" using dec_ok by blast+
  have "strtol (dec n @ 0 # []) = (min LONG_MAX (int n), length (dec n), int n > LONG_MAX)"
    unfolding strtol_digits [OF d(2,3)] d(1) by (simp add: LONG_MIN_def LONG_MAX_def)
  then show ?thesis
    using d(3) by (auto simp: port_def peek_at_def nth_append USHRT_MAX_def LONG_MAX_def LONG_MIN_def)
qed

text \<open>
  C36: the users of the command line are split at the colon and stored in order, at most ten of
  them, and their number is never stored. When \<^const>\<open>parse_args\<close> succeeds, every argument of a \<^verbatim>\<open>-u\<close> has a colon;
  what precedes the first one is the name and what follows it the password, further colons included; the array
  holds exactly these names and passwords, in the order of the options, and null pointers after them; the
  field \<^verbatim>\<open>user_count\<close> is 0 whatever the options are.
\<close>

theorem command_line_users:
  assumes "parse_args opts left = Inr (Go args)" "\<forall>(c, a) \<in> set opts. c = 117 \<longrightarrow> terminated a"
  shows "\<exists>nps. map (\<lambda>(c, a). c_str a) (filter (\<lambda>(c, a). c = 117) opts) = map (\<lambda>(n, p). n @ 58 # p) nps \<and>
    (\<forall>(n, p) \<in> set nps. 58 \<notin> set n) \<and> length nps \<le> MAX_USERS \<and>
    map (\<lambda>u. (map_option c_str (usr_name u), map_option c_str (usr_pass u))) (sa_users args) =
      map (\<lambda>(n, p). (Some n, Some p)) nps @ replicate (MAX_USERS - length nps) (None, None) \<and>
    sa_user_count args = 0"
proof -
  from assms(1) obtain k where "parse_loop opts (length ([] :: arg_user list)) default_args = Inr (Go (k, args))"
    by (auto simp: parse_args_def go_eq_Go split: if_splits)
  from parse_loop_users [OF _ this] obtain us where us: "users_filled us args"
    "map (\<lambda>(c, a). user a) (filter (\<lambda>(c, a). c = 117) opts) = map (\<lambda>u. Inr (Go u)) us"
    by (auto simp: users_filled_def default_args_def)
  obtain nps where "map (\<lambda>(c, a). c_str a) (filter (\<lambda>(c, a). c = 117) opts) = map (\<lambda>(n, p). n @ 58 # p) nps"
    "\<forall>(n, p) \<in> set nps. 58 \<notin> set n"
    "map (\<lambda>u. (map_option c_str (usr_name u), map_option c_str (usr_pass u))) us = map (\<lambda>(n, p). (Some n, Some p)) nps"
    using users_named [OF us(2)] assms(2) by auto
  moreover from this(3) have "length us = length nps" by (rule map_eq_imp_length_eq)
  ultimately show ?thesis using us(1) by (intro exI [of _ nps]) (simp add: users_filled_def no_user_def)
qed

theorem command_line_users_witness:
  "\<exists>args. parse_args [(112, [57, 57, 0]), (117, [97, 58, 98, 58, 99, 0])] False = Inr (Go args) \<and>
     map (\<lambda>u. (map_option c_str (usr_name u), map_option c_str (usr_pass u))) (sa_users args) =
       (Some [97], Some [98, 58, 99]) # replicate 9 (None, None) \<and> sa_user_count args = 0"
proof -
  let ?o = "[(112, [57, 57, 0]), (117, [97, 58, 98, 58, 99, 0])] :: (int \<times> u8 list) list"
  have "case parse_args ?o False of Inr (Go args) \<Rightarrow> True | _ \<Rightarrow> False" by code_simp
  then obtain args where a: "parse_args ?o False = Inr (Go args)" by (auto split: sum.splits run.splits)
  have "\<forall>(c, a) \<in> set ?o. c = 117 \<longrightarrow> terminated a" by simp
  note c = command_line_users [OF a this]
  have o: "map (\<lambda>(c, a). c_str a) (filter (\<lambda>(c, a). c = 117) ?o) = [[97, 58, 98, 58, 99]]" by simp
  from c [unfolded o] obtain nps where nps:
    "[[97, 58, 98, 58, 99]] = map (\<lambda>(n, p). n @ 58 # p) nps" "\<forall>(n, p) \<in> set nps. 58 \<notin> set n"
    "map (\<lambda>u. (map_option c_str (usr_name u), map_option c_str (usr_pass u))) (sa_users args) =
       map (\<lambda>(n, p). (Some n, Some p)) nps @ replicate (MAX_USERS - length nps) (None, None)" "sa_user_count args = 0"
    by (elim exE conjE) (rule that; assumption)
  from nps(1,2) have "nps = [([97], [98, 58, 99])]" by (auto simp: Cons_eq_append_conv map_eq_Cons_conv)
  with nps(3,4) a show ?thesis by (intro exI [of _ args]) (simp add: MAX_USERS_def)
qed

end
