(* ===== verification/Server.thy ===== *)
theory Server
  imports Prawtos Args
begin

text \<open>
  The start-up and the main loop: \<^verbatim>\<open>src/server.c\<close>.

  \<^verbatim>\<open>setsockopt\<close>, \<^verbatim>\<open>inet_pton\<close> and the messages on the standard output do not influence the
  control flow and are left out; \<open>sigprocmask\<close> and \<open>sigaction\<close> are the results of these calls in
  \<^verbatim>\<open>selector_init\<close>. The handlers of a descriptor are named by their tag, so that the same start-up
  serves every table of handlers.
\<close>

definition SELECTOR_COUNT :: nat where "SELECTOR_COUNT = 1024"
definition PF_INET :: int where "PF_INET = 2"
definition PF_INET6 :: int where "PF_INET6 = 10"

text \<open>
  A socket that listens without blocking, or \<open>-1\<close>; the descriptor is not closed on the error paths.
\<close>

definition generate_socket :: "'o os \<Rightarrow> int \<Rightarrow> 'o \<Rightarrow> int \<times> 'o" where
  "generate_socket os family o0 =
     (let (fd, o1) = os_socket os o0 family in
      if fd < 0 then (- 1, o1)
      else let selector_set = selector_fd_set_nio (os_getfd os o1) (os_setfl os o1) fd;
               (b, o2) = os_bind os o1 fd in
      if b < 0 then (- 1, o2)
      else let (l, o3) = os_listen os o2 fd in
      if l < 0 then (- 1, o3)
      else if selector_set = - 1 then (- 1, o3) else (fd, o3))"

text \<open>The two functions differ in the address family and in the handler they register.\<close>

definition generate_socket_passive :: "'o os \<Rightarrow> int \<Rightarrow> handler_id \<Rightarrow> sel \<Rightarrow> 'o \<Rightarrow> (int \<times> sel \<times> 'o) res" where
  "generate_socket_passive os family h s o0 =
     (let (fd, o1) = generate_socket os family o0 in
      if fd = - 1 then Inr (- 1, s, o1)
      else let (grow_ok, o2) = os_malloc os o1 in
      bindr (selector_register grow_ok (Some s) fd (Some h) OP_READ None) (\<lambda>(st, sp).
      bindr (the_ptr sp) (\<lambda>s1. Inr (if st \<noteq> SELECTOR_SUCCESS then - 1 else 0, s1, o2))))"

definition generate_socket_ipv4 :: "'o os \<Rightarrow> sel \<Rightarrow> 'o \<Rightarrow> (int \<times> sel \<times> 'o) res" where
  "generate_socket_ipv4 os = generate_socket_passive os PF_INET SOCKS_PASSIVE_IPV4"

definition generate_socket_ipv6 :: "'o os \<Rightarrow> sel \<Rightarrow> 'o \<Rightarrow> (int \<times> sel \<times> 'o) res" where
  "generate_socket_ipv6 os = generate_socket_passive os PF_INET6 SOCKS_PASSIVE_IPV6"

text \<open>A failure to listen for SOCKS connections is ignored.\<close>

definition listen_interfaces :: "'o os \<Rightarrow> sel \<Rightarrow> 'o \<Rightarrow> (sel \<times> 'o) res" where
  "listen_interfaces os s o0 =
     bindr (generate_socket_ipv4 os s o0) (\<lambda>(_, s1, o1).
     bindr (generate_socket_ipv6 os s1 o1) (\<lambda>(_, s2, o2). Inr (s2, o2)))"

definition init_selector :: "'o os \<Rightarrow> int \<Rightarrow> int \<Rightarrow> 'o \<Rightarrow> (sel option \<times> 'o) res" where
  "init_selector os sigprocmask sigaction o0 =
     (if selector_init sigprocmask sigaction \<noteq> SELECTOR_SUCCESS then Inr (None, o0)
      else let (malloc_ok, o1) = os_malloc os o0; (alloc_ok, o2) = os_malloc os o1 in
      bindr (selector_new malloc_ok alloc_ok SELECTOR_COUNT) (\<lambda>sp. Inr (sp, o2)))"

text \<open>
  \<^verbatim>\<open>sizeof(user.name)\<close> is the size of a pointer. A user of the array that was never filled in is a
  pair of null pointers.
\<close>

definition initialize_users :: "socks5args \<Rightarrow> user_list res" where
  "initialize_users args =
     bindr init_user_list (\<lambda>l0.
     fold (\<lambda>i r. bindr r (\<lambda>l.
         bindr (peek_at (sa_users args) i) (\<lambda>u.
         bindr (the_ptr (usr_name u)) (\<lambda>name.
         bindr (the_ptr (usr_pass u)) (\<lambda>pass.
         bindr (add_user l name 8 pass 8 False) (\<lambda>(_, l'). Inr l'))))))
       [0 ..< nat (sa_user_count args)] (Inr l0))"

text \<open>
  \<^verbatim>\<open>main\<close> up to its loop: the value it returns, or the selector and the process-wide data with which
  the loop is entered. A failure to register the management socket is ignored.
\<close>

definition main_start :: "'o os \<Rightarrow> socks5args \<Rightarrow> int \<Rightarrow> int \<Rightarrow> 'o \<Rightarrow> (sel \<times> 'o env) run res" where
  "main_start os args sigprocmask sigaction o0 =
     (let o1 = snd (os_close os o0 0) in
      bindr (init_selector os sigprocmask sigaction o1) (\<lambda>(sp, o2).
      case sp of
        None \<Rightarrow> Inr (Exit (- 1))
      | Some s0 \<Rightarrow>
      bindr (listen_interfaces os s0 o2) (\<lambda>(s1, o3).
      let (fd, o4) = os_socket os o3 PF_INET; (b, o5) = os_bind os o4 fd in
      if b < 0 then Inr (Exit (- 1))
      else let (l, o6) = os_listen os o5 fd in
      if l < 0 then Inr (Exit (- 1))
      else if selector_fd_set_nio (os_getfd os o6) (os_setfl os o6) fd = - 1 then Inr (Exit (- 1))
      else bindr (initialize_users args) (\<lambda>users.
      let (grow_ok, o7) = os_malloc os o6 in
      bindr (selector_register grow_ok (Some s1) fd (Some PRAWTOS_PASSIVE) OP_READ None) (\<lambda>(_, sp2).
      bindr (the_ptr sp2) (\<lambda>s2.
      Inr (Go (s2, \<lparr>e_users = users, e_stats = stadistics_init, e_os = o7\<rparr>))))))))"

text \<open>
  The loop, over the results of its calls of \<^verbatim>\<open>pselect\<close>; a failing \<^verbatim>\<open>selector_select\<close> is only
  reported.
\<close>

fun serve ::
  "('h \<Rightarrow> ('h, 'd, 'w) fd_handler) \<Rightarrow> select_result list \<Rightarrow> ('h, 'd) fdselector \<Rightarrow> 'w
     \<Rightarrow> (('h, 'd) fdselector \<times> 'w) res" where
  "serve hs [] s w = Inr (s, w)"
| "serve hs (r # rs) s w = bindr (selector_select hs r s w) (\<lambda>(ss, s1, w1). serve hs rs s1 w1)"

lemma serve_append:
  "serve hs (rs @ rs') s w = bindr (serve hs rs s w) (\<lambda>(s1, w1). serve hs rs' s1 w1)"
  by (induction rs arbitrary: s w) (auto simp: bindr_assoc intro!: arg_cong2 [where f = bindr])

section \<open>Starting\<close>

lemma new_full:
  "\<exists>s :: ('h, 'd) fdselector. selector_new True True SELECTOR_COUNT = Inr (Some s) \<and> wf_selector s \<and>
     sel_map s = Map.empty \<and> sel_fd_size s = ITEMS_MAX_SIZE + 1 \<and> sel_resolution_jobs s = []"
proof -
  obtain s :: "('h, 'd) fdselector" where s: "selector_new True True 1024 = Inr (Some s)" "wf_selector s"
    "sel_map s = Map.empty" "1024 < sel_fd_size s"
    using new_wf [of 1024] by (auto simp: ITEMS_MAX_SIZE_def)
  have "sel_fd_size s \<le> ITEMS_MAX_SIZE + 1" using s(2) by (simp add: wf_selector_def)
  then have "sel_fd_size s = ITEMS_MAX_SIZE + 1" using s(4) by (simp add: ITEMS_MAX_SIZE_def)
  moreover have "sel_resolution_jobs s = []"
    using s(1) by (auto simp: selector_new_def ensure_capacity_def items_init_def res_simps Let_def split: if_splits)
  ultimately show ?thesis using s by (auto simp: SELECTOR_COUNT_def)
qed

text \<open>No session yet.\<close>

definition no_sessions :: "'o env \<Rightarrow> 'o world" where
  "no_sessions e = \<lparr>w_prawtos = Map.empty, w_next = 0, w_env = e\<rparr>"

definition start_inv :: "sel \<Rightarrow> bool" where
  "start_inv s \<longleftrightarrow> wf_selector s \<and> sel_fd_size s = ITEMS_MAX_SIZE + 1 \<and> sel_resolution_jobs s = [] \<and>
     (\<forall>i h x d. sel_map s i = Some (h, x, d) \<longrightarrow>
        h \<in> {Some PRAWTOS_PASSIVE, Some SOCKS_PASSIVE_IPV4, Some SOCKS_PASSIVE_IPV6} \<and> x = OP_READ \<and> d = None)"

lemma register_start:
  assumes "start_inv s" "h \<in> {PRAWTOS_PASSIVE, SOCKS_PASSIVE_IPV4, SOCKS_PASSIVE_IPV6}"
  shows "\<exists>st s'. selector_register ok (Some s) fd (Some h) OP_READ None = Inr (st, Some s') \<and> start_inv s' \<and>
    (\<forall>i v. sel_map s' i = Some v \<longrightarrow> sel_map s i = Some v \<or> fst v = Some h)"
proof -
  have "wf_selector s" "sel_fd_size s = ITEMS_MAX_SIZE + 1" using assms by (simp_all add: start_inv_def)
  from register_full [OF this, of "Some h" ok fd OP_READ None] assms show ?thesis
    by (fastforce simp: start_inv_def split: if_splits)
qed

context idle_clients
begin

lemma serve_safe:
  assumes "sinv s w"
  shows "(\<exists>s' w'. serve hs rs s w = Inr (s', w') \<and> sinv s' w') \<or> (\<exists>e \<in> F. serve hs rs s w = Inl e)"
  using assms
proof (induction rs arbitrary: s w)
  case (Cons r rs)
  from select_safe [OF Cons.prems, of r]
  consider st s1 w1 where "selector_select hs r s w = Inr (st, s1, w1)" "sinv s1 w1"
    | e where "e \<in> F" "selector_select hs r s w = Inl e" by auto
  then show ?case using Cons.IH by cases auto
qed simp

end

lemma start_table_inv:
  assumes "start_inv s" "\<forall>i v. sel_map s i = Some v \<longrightarrow> fst v = Some PRAWTOS_PASSIVE" "users_len (e_users e)"
  shows "server_inv s (no_sessions e)"
proof -
  have "h = Some PRAWTOS_PASSIVE \<and> x = OP_READ \<and> d = None" if "sel_map s i = Some (h, x, d)" for i h x d
    using assms(1,2) that unfolding start_inv_def by (metis fst_conv)
  then have "\<forall>i h x d. sel_map s i = Some (h, x, d) \<longrightarrow> h = Some PRAWTOS_PASSIVE \<and> x = OP_READ \<and> d = None" by blast
  then show ?thesis using assms(1,3) by (auto simp: table_inv_def start_inv_def no_sessions_def)
qed

lemma generate_socket_passive_start:
  assumes "start_inv s" "h \<in> {PRAWTOS_PASSIVE, SOCKS_PASSIVE_IPV4, SOCKS_PASSIVE_IPV6}"
  shows "\<exists>r s' o'. generate_socket_passive os fam h s o0 = Inr (r, s', o') \<and> start_inv s'"
proof -
  obtain fd o1 where g: "generate_socket os fam o0 = (fd, o1)" by fastforce
  obtain ok o2 where m: "os_malloc os o1 = (ok, o2)" by fastforce
  obtain st s' where "selector_register ok (Some s) fd (Some h) OP_READ None = Inr (st, Some s')" "start_inv s'"
    using register_start [OF assms, of ok fd] by blast
  with g m assms show ?thesis by (simp add: generate_socket_passive_def the_ptr_def)
qed

lemma listen_interfaces_start:
  assumes "start_inv s"
  shows "\<exists>s' o'. listen_interfaces os s o0 = Inr (s', o') \<and> start_inv s'"
proof -
  obtain r1 s1 o1 where 1: "generate_socket_ipv4 os s o0 = Inr (r1, s1, o1)" "start_inv s1"
    using generate_socket_passive_start [OF assms, of SOCKS_PASSIVE_IPV4 os PF_INET o0]
    unfolding generate_socket_ipv4_def by blast
  obtain r2 s2 o2 where "generate_socket_ipv6 os s1 o1 = Inr (r2, s2, o2)" "start_inv s2"
    using generate_socket_passive_start [OF 1(2), of SOCKS_PASSIVE_IPV6 os PF_INET6 o1]
    unfolding generate_socket_ipv6_def by blast
  with 1 show ?thesis by (simp add: listen_interfaces_def)
qed

lemma new_start:
  "\<exists>sp :: sel option. selector_new m a SELECTOR_COUNT = Inr sp \<and> (\<forall>s. sp = Some s \<longrightarrow> start_inv s)"
proof (cases "m \<and> a")
  case True
  obtain s :: sel where "selector_new True True SELECTOR_COUNT = Inr (Some s)" "wf_selector s" "sel_map s = Map.empty"
    "sel_fd_size s = ITEMS_MAX_SIZE + 1" "sel_resolution_jobs s = []"
    using new_full by blast
  with True show ?thesis by (auto simp: start_inv_def)
next
  case False
  obtain c where "next_capacity SELECTOR_COUNT = Inr c"
    using next_capacity_ok [of SELECTOR_COUNT] by (auto simp: SELECTOR_COUNT_def ITEMS_MAX_SIZE_def)
  with False show ?thesis
    by (auto simp: selector_new_def ensure_capacity_def SELECTOR_COUNT_def ITEMS_MAX_SIZE_def Let_def)
qed

lemma init_selector_start:
  "\<exists>sp o'. init_selector os sp1 sa o0 = Inr (sp, o') \<and> (\<forall>s. sp = Some s \<longrightarrow> start_inv s)"
proof -
  obtain m o1 where m: "os_malloc os o0 = (m, o1)" by fastforce
  obtain a o2 where a: "os_malloc os o1 = (a, o2)" by fastforce
  show ?thesis using new_start [of m a] m a by (auto simp: init_selector_def)
qed

lemma initialize_users_default: "sa_user_count args = 0 \<Longrightarrow> initialize_users args = Inr default_users"
  by (simp add: initialize_users_def init_user_list_eq)

lemma default_users_len: "users_len default_users"
  using default_users_wf by (simp add: wf_users_def users_len_def)

lemma main_start_cases:
  assumes "initialize_users args = Inr users"
  shows "main_start os args m a o0 = Inr (Exit (- 1)) \<or>
    (\<exists>s e. main_start os args m a o0 = Inr (Go (s, e)) \<and> start_inv s \<and>
       e_users e = users \<and> e_stats e = stadistics_init)"
proof -
  obtain sp o2 where sp: "init_selector os m a (snd (os_close os o0 0)) = Inr (sp, o2)"
    "\<forall>s. sp = Some s \<longrightarrow> start_inv s"
    using init_selector_start [of os m a "snd (os_close os o0 0)"] by blast
  show ?thesis
  proof (cases sp)
    case None
    with sp show ?thesis by (simp add: main_start_def)
  next
    case (Some s0)
    then obtain s1 o3 where s1: "listen_interfaces os s0 o2 = Inr (s1, o3)" "start_inv s1"
      using sp(2) listen_interfaces_start [of s0 os o2] by blast
    obtain fd o4 where fd: "os_socket os o3 PF_INET = (fd, o4)" by fastforce
    obtain b o5 where b: "os_bind os o4 fd = (b, o5)" by fastforce
    obtain l o6 where l: "os_listen os o5 fd = (l, o6)" by fastforce
    obtain g o7 where g: "os_malloc os o6 = (g, o7)" by fastforce
    obtain st s2 where s2: "selector_register g (Some s1) fd (Some PRAWTOS_PASSIVE) OP_READ None = Inr (st, Some s2)"
      "start_inv s2" using register_start [OF s1(2), of PRAWTOS_PASSIVE g fd] by blast
    from assms Some sp(1) s1(1) fd b l g s2 show ?thesis by (simp add: main_start_def the_ptr_def)
  qed
qed

text \<open>A start at which only the management service listens.\<close>

lemma script_start:
  "\<exists>s e. main_start script_os default_args 0 0 ([- 1, - 1, 7], fs, []) = Inr (Go (s, e)) \<and>
     (\<forall>i v. sel_map s i = Some v \<longrightarrow> fst v = Some PRAWTOS_PASSIVE)"
proof -
  obtain s0 :: sel where s0: "selector_new True True SELECTOR_COUNT = Inr (Some s0)" "sel_map s0 = Map.empty" "start_inv s0"
    using new_full by (auto simp: start_inv_def)
  obtain st s where s: "selector_register True (Some s0) 7 (Some PRAWTOS_PASSIVE) OP_READ None = Inr (st, Some s)"
    "\<forall>i v. sel_map s i = Some v \<longrightarrow> sel_map s0 i = Some v \<or> fst v = Some PRAWTOS_PASSIVE"
    using register_start [OF s0(3), of PRAWTOS_PASSIVE True 7] by blast
  have u: "initialize_users default_args = Inr default_users"
    by (rule initialize_users_default) (simp add: default_args_def)
  obtain e where "main_start script_os default_args 0 0 ([- 1, - 1, 7], fs, []) = Inr (Go (s, e))"
    using s0(1) s(1) u
    by (simp add: main_start_def init_selector_def selector_init_def listen_interfaces_def generate_socket_ipv4_def
        generate_socket_ipv6_def generate_socket_passive_def generate_socket_def script_os_def script_fd_def
        the_ptr_def selector_fd_set_nio_def)
  moreover have "\<forall>i v. sel_map s i = Some v \<longrightarrow> fst v = Some PRAWTOS_PASSIVE" using s(2) s0(2) by auto
  ultimately show ?thesis by blast
qed

section \<open>Properties\<close>

text \<open>
  C30: the start-up never faults and always begins with the same users. Whatever the operating system
  answers, with the arguments of any command line \<^const>\<open>parse_args\<close> accepts, \<^const>\<open>main_start\<close> either
  returns \<open>-1\<close> or enters the loop with a well-formed selector in which every descriptor is a listener that waits to be
  read, with the three built-in administrators as the only users, those given with \<^verbatim>\<open>-u\<close> left out,
  and with all counters at zero.
\<close>

theorem main_start_never_faults:
  assumes "parse_args opts left = Inr (Go args)"
  shows "main_start os args m a o0 = Inr (Exit (- 1)) \<or>
    (\<exists>s e. main_start os args m a o0 = Inr (Go (s, e)) \<and> start_inv s \<and>
       e_users e = default_users \<and> e_stats e = stadistics_init)"
  using main_start_cases [OF initialize_users_default [OF parse_args_user_count [OF assms]], of os m a o0] .

theorem main_start_never_faults_witness:
  "\<exists>args. parse_args [(117, [97, 58, 98, 0])] False = Inr (Go args) \<and>
     (main_start script_os args 0 0 ([5, 6, 7], [], []) = Inr (Exit (- 1)) \<or>
      (\<exists>s e. main_start script_os args 0 0 ([5, 6, 7], [], []) = Inr (Go (s, e)) \<and> start_inv s \<and>
         e_users e = default_users \<and> e_stats e = stadistics_init))"
proof -
  have "case parse_args [(117, [97, 58, 98, 0])] False of Inr (Go args) \<Rightarrow> True | _ \<Rightarrow> False" by code_simp
  then obtain args where a: "parse_args [(117, [97, 58, 98, 0])] False = Inr (Go args)"
    by (auto split: sum.splits run.splits)
  from main_start_never_faults [OF a, of script_os 0 0 "([5, 6, 7], [], [])"] a show ?thesis by blast
qed

text \<open>
  The management service never takes the process down except through an access out of bounds.
  From the state \<^const>\<open>main_start\<close> ends in, when the only descriptors registered are management
  listeners, for every operating system that keeps its contract and every sequence of results of
  \<^verbatim>\<open>pselect\<close>: the loop of \<^verbatim>\<open>main\<close> over the management handlers keeps its invariant (every
  registered descriptor is a listener or has a live session of its own) and never calls
  \<^verbatim>\<open>abort\<close>, fails an assertion, follows a null pointer or uses a session after it was freed.
\<close>

theorem management_service_safe:
  assumes "os_ok os" "parse_args opts left = Inr (Go args)" "main_start os args m a o0 = Inr (Go (s, e))"
    and "\<forall>i v. sel_map s i = Some v \<longrightarrow> fst v = Some PRAWTOS_PASSIVE"
  shows "(\<exists>s' w'. serve (prawtos_handlers os) rs s (no_sessions e) = Inr (s', w') \<and> server_inv s' w') \<or>
    serve (prawtos_handlers os) rs s (no_sessions e) = Inl OutOfBounds"
proof -
  have "start_inv s" "e_users e = default_users"
    using main_start_cases [OF initialize_users_default [OF parse_args_user_count [OF assms(2)]], of os m a o0] assms(3)
    by auto
  then have "server_inv s (no_sessions e)" using start_table_inv assms(4) default_users_len by metis
  then show ?thesis using psel.serve_safe [of os s "no_sessions e" rs] assms(1) by auto
qed

theorem management_service_safe_witness:
  "\<exists>s e. main_start script_os default_args 0 0 ([- 1, - 1, 7], [[1, 1, 97, 1, 98]], []) = Inr (Go (s, e)) \<and>
     ((\<exists>s' w'. serve (prawtos_handlers script_os) [Ready {7} {}, Failed EINTR] s (no_sessions e) = Inr (s', w') \<and>
         server_inv s' w') \<or>
      serve (prawtos_handlers script_os) [Ready {7} {}, Failed EINTR] s (no_sessions e) = Inl OutOfBounds)"
proof -
  from script_start obtain s e where m: "main_start script_os default_args 0 0 ([- 1, - 1, 7], [[1, 1, 97, 1, 98]], []) = Inr (Go (s, e))"
    and p: "\<forall>i v. sel_map s i = Some v \<longrightarrow> fst v = Some PRAWTOS_PASSIVE" by blast
  have "parse_args [] False = Inr (Go default_args)" by (simp add: parse_args_def)
  from management_service_safe [OF script_os_ok this m p] m show ?thesis by blast
qed

end
