(* ===== verification/Management.thy ===== *)
theory Management
  imports Server
begin

text \<open>
  What a management connection observes of the handlers of \<^verbatim>\<open>src/prawtos\<close>: the authentication
  exchange and gate, the replies to the metric requests, and the commands that go wrong. There is no
  new code here; the theory composes the parsers, the user list, the counters, the selector and the
  state machine.
\<close>

section \<open>A message in one segment\<close>

text \<open>
  A management session of the descriptor \<open>i\<close> whose buffers are empty, and a system that delivers the
  message \<open>m\<close> to it.
\<close>

definition ready_session :: "'o os \<Rightarrow> key \<Rightarrow> nat \<Rightarrow> u8 list \<Rightarrow> 'o \<Rightarrow> 'o pworld \<Rightarrow> bool" where
  "ready_session os key i m st w \<longleftrightarrow>
     sk_fd key = int i \<and> wf_selector (pw_sel w) \<and> used_at (pw_sel w) i \<and>
     wf_buffer (pr_read_buffer (pw_self w)) \<and> buf_content (pr_read_buffer (pw_self w)) = [] \<and>
     wf_buffer (pr_write_buffer (pw_self w)) \<and> buf_content (pr_write_buffer (pw_self w)) = [] \<and>
     length m \<le> buf_room (pr_read_buffer (pw_self w)) \<and> 0 < length m \<and>
     os_recv os (e_os (pw_env w)) (int i) (buf_room (pr_read_buffer (pw_self w))) = (Some m, st)"

lemma ready_recv:
  assumes "ready_session os key i m st w"
  shows "\<exists>rb rb1. recv_step os (sk_fd key) (pr_read_buffer (pw_self w)) (pw_env w) =
      Inr (int (length m), rb, (pw_env w)\<lparr>e_os := st\<rparr>) \<and>
    buffer_write_adv rb (int (length m)) = Inr rb1 \<and> wf_buffer rb1 \<and> buf_content rb1 = m @ []"
proof -
  note d = assms [unfolded ready_session_def]
  show ?thesis
    by (rule recv_step_bytes [of "pr_read_buffer (pw_self w)" os "pw_env w" "int i" m st]) (use d in auto)
qed

lemma interest_write:
  assumes "wf_selector s" "used_at s i" "sk_fd key = int i"
  obtains s' where "selector_set_interest_key key s x = Inr (SELECTOR_SUCCESS, s')" "wf_selector s'" "used_at s' i"
  using set_interest_key_keeps [OF sel_keeps_refl [OF assms(1,2)] assms(3), of x] sel_keeps_used
  by (metis sel_keeps_def)

section \<open>Authentication\<close>

lemma check_credentials_names:
  assumes "wf_users l" "name_ok u" "name_ok pw" "0 \<notin> set u" "0 \<notin> set pw"
    and "au_uname (ap_auth (as_parser a)) = name_block u" "au_passwd (ap_auth (as_parser a)) = name_block pw"
  shows "check_credentials l a =
    Inr (if user_db l u = Some (pw, True) then AUTH_SUCCESS else AUTH_BAD_CREDENTIALS)"
proof -
  have t: "terminated (name_block u)" "terminated (name_block pw)" "c_str (name_block u) = u" "c_str (name_block pw) = pw"
    using assms by (simp_all add: name_ok_def name_block_terminated name_block_str)
  show ?thesis
    using user_check_credentials_ok [OF assms(1) t(1,2)] t assms(6,7) by (simp add: check_credentials_def)
qed

lemma auth_read_message:
  assumes r: "ready_session os key i (auth_message u pw) st w" and n: "name_ok u" "name_ok pw" "0 \<notin> set u" "0 \<notin> set pw"
    and p: "as_parser (pr_auth (pw_self w)) = auth_parser_init q" and l: "wf_users (e_users (pw_env w))"
    and room: "2 \<le> buf_room (pr_write_buffer (pw_self w))"
  shows "\<exists>w'. auth_prawtos_read os key w = Inr (AUTH_WRITE_PRAWTOS, w') \<and> pw_env w' = (pw_env w)\<lparr>e_os := st\<rparr> \<and>
    as_status (pr_auth (pw_self w')) =
      (if user_db (e_users (pw_env w)) u = Some (pw, True) then AUTH_SUCCESS else AUTH_BAD_CREDENTIALS) \<and>
    buf_content (pr_write_buffer (pw_self w')) = [0x01, as_status (pr_auth (pw_self w'))] \<and>
    wf_buffer (pr_write_buffer (pw_self w')) \<and> wf_selector (pw_sel w') \<and> used_at (pw_sel w') i"
proof -
  let ?p = "pw_self w" and ?e = "(pw_env w)\<lparr>e_os := st\<rparr>"
  note d = r [unfolded ready_session_def]
  obtain rb rb1 where rb: "recv_step os (sk_fd key) (pr_read_buffer ?p) (pw_env w) = Inr (int (length (auth_message u pw)), rb, ?e)"
    "buffer_write_adv rb (int (length (auth_message u pw))) = Inr rb1" "wf_buffer rb1"
    "buf_content rb1 = auth_message u pw @ []"
    using ready_recv [OF r] by blast
  obtain rb2 ap where ap: "auth_consume rb1 (auth_parser_init q) False = Inr (rb2, ap, False)"
    "ap_state ap = auth_done" "au_uname (ap_auth ap) = name_block u" "au_passwd (ap_auth ap) = name_block pw"
    using auth_message_consumed [OF rb(3,4), of q False] n by (auto simp: name_ok_def)
  obtain s' where s': "selector_set_interest_key key (pw_sel w) OP_WRITE = Inr (SELECTOR_SUCCESS, s')"
    "wf_selector s'" "used_at s' i" using interest_write d by metis
  let ?st = "if user_db (e_users (pw_env w)) u = Some (pw, True) then AUTH_SUCCESS else AUTH_BAD_CREDENTIALS"
  let ?a = "(pr_auth ?p)\<lparr>as_parser := ap\<rparr>"
  have c: "check_credentials (e_users (pw_env w)) ?a = Inr ?st"
    using check_credentials_names [OF l n, of ?a] ap by simp
  obtain wb where "auth_marshal (pr_write_buffer ?p) ?st = Inr (2, wb)" "wf_buffer wb" "buf_content wb = [0x01, ?st]"
    using auth_marshal_wf [OF _ room, of ?st] d by (metis append_Nil)
  with rb ap s' c p d show ?thesis
    by (simp add: auth_prawtos_read_def auth_prawtos_process_def auth_is_done_def Let_def)
qed

lemma auth_write_reply:
  assumes "wf_buffer (pr_write_buffer (pw_self w))" "buf_content (pr_write_buffer (pw_self w)) = m" "m \<noteq> []"
    and "os_send os (e_os (pw_env w)) (sk_fd key) m = (int (length m), st)"
    and "sk_fd key = int i" "wf_selector (pw_sel w)" "used_at (pw_sel w) i"
  shows "\<exists>w'. auth_prawtos_write os key w =
      Inr (if as_status (pr_auth (pw_self w)) = AUTH_SUCCESS then CMD_READ_PRAWTOS else ERROR_PRAWTOS, w') \<and>
    (as_status (pr_auth (pw_self w)) = AUTH_SUCCESS \<longrightarrow> buf_content (pr_write_buffer (pw_self w')) = [])"
proof -
  let ?wb = "pr_write_buffer (pw_self w)"
  have send: "send_step os (sk_fd key) ?wb (pw_env w) = Inr (int (length m), (pw_env w)\<lparr>e_os := st\<rparr>)"
    using assms read_ptr_bytes [OF assms(1) order_refl] by (simp add: send_step_def read_ptr_wf)
  obtain wb where wb: "buffer_read_adv ?wb (int (length m)) = Inr wb" "buf_content wb = []" "wf_buffer wb"
    using read_adv_wf [OF assms(1), of "length m"] assms(2) by auto
  obtain s' where "selector_set_interest_key key (pw_sel w) OP_READ = Inr (SELECTOR_SUCCESS, s')"
    using interest_write [OF assms(6,7,5)] by metis
  with send wb assms(3) show ?thesis
    by (simp add: auth_prawtos_write_def can_read_content Let_def)
qed

section \<open>The authentication gate\<close>

text \<open>
  The sessions of a management connection over all histories of events, with a flag that says whether
  a check of credentials has succeeded. Between two events the selector and the process-wide data may
  change in any way: other connections are served.
\<close>

inductive mgmt_reach :: "'o os \<Rightarrow> prawtos \<Rightarrow> bool \<Rightarrow> bool" for os :: "'o os" where
  accepted: "prawtos_arrival os fd = Inr p \<Longrightarrow> mgmt_reach os p False"
| event: "mgmt_reach os p auth \<Longrightarrow> f = on_read_ready \<or> f = on_write_ready \<Longrightarrow>
    stm_event f (prawtos_init_states os) (pr_stm p) key \<lparr>pw_self = p, pw_sel = s, pw_env = e\<rparr> = Inr (j, stm', pw) \<Longrightarrow>
    auth' = (auth \<or> j = AUTH_WRITE_PRAWTOS \<and>
       check_credentials (e_users e) (pr_auth (pw_self pw)) = Inr AUTH_SUCCESS) \<Longrightarrow>
    mgmt_reach os ((pw_self pw)\<lparr>pr_stm := stm'\<rparr>) auth'"

text \<open>What the gate keeps: an accepted answer and every command state need a successful check.\<close>

definition gate_inv :: "prawtos \<Rightarrow> bool \<Rightarrow> bool" where
  "gate_inv p auth \<longleftrightarrow> sm_initial (pr_stm p) = AUTH_READ_PRAWTOS \<and> sm_max_state (pr_stm p) = ERROR_PRAWTOS \<and>
     (case sm_current (pr_stm p) of None \<Rightarrow> True
      | Some st \<Rightarrow> st \<le> ERROR_PRAWTOS \<and>
          (st = AUTH_WRITE_PRAWTOS \<and> as_status (pr_auth p) = AUTH_SUCCESS \<longrightarrow> auth) \<and>
          (st \<in> {CMD_READ_PRAWTOS, CMD_WRITE_PRAWTOS} \<longrightarrow> auth))"

lemma auth_process_checks:
  assumes "auth_prawtos_process l p = Inr (j, p')"
  shows "check_credentials l (pr_auth p') = Inr (as_status (pr_auth p')) \<and> j \<in> {AUTH_WRITE_PRAWTOS, ERROR_PRAWTOS}"
  using assms by (auto simp: auth_prawtos_process_def res_simps check_credentials_def Let_def)

lemma recv_step_users: "recv_step os fd b e = Inr (n, b', e') \<Longrightarrow> e_users e' = e_users e"
  by (cases "buffer_write_ptr b"; cases "os_recv os (e_os e) fd (fst (projr (buffer_write_ptr b)))")
    (auto simp: recv_step_def res_simps split: option.splits)

lemma auth_read_gate:
  assumes "auth_prawtos_read os key w = Inr (j, w')"
  shows "j \<in> {AUTH_READ_PRAWTOS, ERROR_PRAWTOS} \<or> j = AUTH_WRITE_PRAWTOS \<and>
    check_credentials (e_users (pw_env w)) (pr_auth (pw_self w')) = Inr (as_status (pr_auth (pw_self w')))"
  using assms
  by (auto simp: auth_prawtos_read_def res_simps Let_def dest!: auth_process_checks recv_step_users
      split: if_splits)

lemma auth_write_gate:
  assumes "auth_prawtos_write os key w = Inr (j, w')"
  shows "pr_auth (pw_self w') = pr_auth (pw_self w) \<and> (j \<in> {AUTH_WRITE_PRAWTOS, ERROR_PRAWTOS} \<or>
    j = CMD_READ_PRAWTOS \<and> as_status (pr_auth (pw_self w)) = AUTH_SUCCESS)"
  using assms by (auto simp: auth_prawtos_write_def res_simps Let_def split: if_splits)

lemma arrival_hook_keeps:
  assumes "run_hook (on_arrival (prawtos_init_states os ! j)) st key w = Inr w'" "j \<le> ERROR_PRAWTOS"
  shows "pw_env w' = pw_env w \<and> (j \<noteq> AUTH_READ_PRAWTOS \<longrightarrow> pr_auth (pw_self w') = pr_auth (pw_self w))"
  by (rule prawtos_state_cases [OF assms(2)])
    (use assms(1) in \<open>auto simp: run_hook_def prawtos_init_states_def no_state_def auth_prawtos_init_def
      cmd_init_def prawtos_states Let_def\<close>)

lemma gate_event:
  assumes inv: "gate_inv p auth" and f: "f = on_read_ready \<or> f = on_write_ready"
    and ev: "stm_event f (prawtos_init_states os) (pr_stm p) key \<lparr>pw_self = p, pw_sel = s, pw_env = e\<rparr> = Inr (j, stm', pw)"
    and a: "auth' = (auth \<or> j = AUTH_WRITE_PRAWTOS \<and>
       check_credentials (e_users e) (pr_auth (pw_self pw)) = Inr AUTH_SUCCESS)"
  shows "gate_inv ((pw_self pw)\<lparr>pr_stm := stm'\<rparr>) auth'"
proof -
  let ?t = "prawtos_init_states os" and ?w = "\<lparr>pw_self = p, pw_sel = s, pw_env = e\<rparr>"
  from ev obtain c w1 cb w2 where
    c: "sm_current (pr_stm p) = Some c \<and> w1 = ?w \<or> sm_current (pr_stm p) = None \<and> c = sm_initial (pr_stm p) \<and>
       run_hook (on_arrival (?t ! c)) (sd_state (?t ! c)) key ?w = Inr w1"
    and cb: "f (?t ! c) = Some cb" "cb key w1 = Inr (j, w2)" and j: "j \<le> sm_max_state (pr_stm p)"
      "stm' = (pr_stm p)\<lparr>sm_current := Some j\<rparr>"
    and last: "j = c \<and> pw = w2 \<or> j \<noteq> c \<and> (\<exists>w3. run_hook (on_departure (?t ! c)) (sd_state (?t ! c)) key w2 = Inr w3 \<and>
       run_hook (on_arrival (?t ! j)) (sd_state (?t ! j)) key w3 = Inr pw)"
    by (rule stm_event_steps)
  have stm: "sm_initial (pr_stm p) = AUTH_READ_PRAWTOS" "sm_max_state (pr_stm p) = ERROR_PRAWTOS"
    using inv by (simp_all add: gate_inv_def)
  have cc: "c \<le> ERROR_PRAWTOS" using c inv stm by (auto simp: gate_inv_def prawtos_states)
  have w1: "pw_env w1 = e" "c \<noteq> AUTH_READ_PRAWTOS \<Longrightarrow> pw_self w1 = p"
    using c stm arrival_hook_keeps [of os c _ key ?w w1] cc by auto
  have w2: "pr_auth (pw_self pw) = pr_auth (pw_self w2)" if "j \<noteq> AUTH_READ_PRAWTOS"
    using last that arrival_hook_keeps [of os j _ key _ pw] j stm no_departure_hooks [OF cc, of os]
    by (auto simp: run_hook_def [of None])
  have cases: "j = AUTH_READ_PRAWTOS \<or> j = ERROR_PRAWTOS \<or> j = DONE_PRAWTOS \<or> auth \<or>
      j = AUTH_WRITE_PRAWTOS \<and> (as_status (pr_auth (pw_self w2)) = AUTH_SUCCESS \<longrightarrow>
        check_credentials (e_users e) (pr_auth (pw_self w2)) = Inr AUTH_SUCCESS)"
  proof (rule prawtos_state_cases [OF cc])
    assume "c = 0"
    then have "auth_prawtos_read os key w1 = Inr (j, w2)"
      using cb f by (auto simp: prawtos_init_states_def no_state_def prawtos_states)
    from auth_read_gate [OF this] w1(1) show ?thesis by auto
  next
    assume cw: "c = 1"
    then have "auth_prawtos_write os key w1 = Inr (j, w2)"
      using cb f by (auto simp: prawtos_init_states_def no_state_def prawtos_states)
    from auth_write_gate [OF this] cw w1(2) c inv stm show ?thesis
      by (auto simp: gate_inv_def prawtos_states)
  qed (use c inv stm cb f in \<open>auto simp: gate_inv_def prawtos_init_states_def no_state_def prawtos_states\<close>)
  then show ?thesis using w2 j stm a by (auto simp: gate_inv_def prawtos_states)
qed

lemma mgmt_reach_gate: "mgmt_reach os p auth \<Longrightarrow> gate_inv p auth"
proof (induction rule: mgmt_reach.induct)
  case (accepted fd p)
  then show ?case
    by (auto simp: prawtos_arrival_def stm_init_def gate_inv_def res_simps Let_def split: if_splits)
next
  case (event p auth f key s e j stm' pw auth')
  then show ?case using gate_event by blast
qed

section \<open>Commands\<close>

text \<open>A command in one segment, up to the call of \<^const>\<open>cmd_process\<close>.\<close>

lemma cmd_read_message:
  assumes r: "ready_session os key i m st w" and p: "cs_parser (pr_cmd (pw_self w)) = prawtos_parser_init q"
    and f: "prawtos_feed_all (prawtos_parser_init q) m = Inr (pp, rest)" "prawtos_finished pp"
  obtains rb s' where "wf_buffer rb" "wf_selector s'" "used_at s' i"
    "cmd_read os key w =
       bindr (cmd_process ((pw_self w)\<lparr>pr_read_buffer := rb, pr_cmd := (pr_cmd (pw_self w))\<lparr>cs_parser := pp\<rparr>\<rparr>)
           ((pw_env w)\<lparr>e_os := st\<rparr>)) (\<lambda>(ret, p2, e2).
         Inr (if prawtos_failed pp then ERROR_PRAWTOS else ret, w\<lparr>pw_self := p2, pw_sel := s', pw_env := e2\<rparr>))"
proof -
  note d = r [unfolded ready_session_def]
  obtain rb rb1 where rb: "recv_step os (sk_fd key) (pr_read_buffer (pw_self w)) (pw_env w) =
      Inr (int (length m), rb, (pw_env w)\<lparr>e_os := st\<rparr>)" "buffer_write_adv rb (int (length m)) = Inr rb1"
    "wf_buffer rb1" "buf_content rb1 = m" using ready_recv [OF r] by auto
  obtain rb2 where rb2: "prawtos_consume rb1 (prawtos_parser_init q) False = Inr (rb2, pp, prawtos_failed pp)" "wf_buffer rb2"
    using prw.consume_loop_Inr [OF rb(3) prawtos_init_not_finished, of q pp rest False] f(1) rb(4)
    by (auto simp: prawtos_consume_def)
  obtain s' where s': "selector_set_interest_key key (pw_sel w) OP_WRITE = Inr (SELECTOR_SUCCESS, s')"
    "wf_selector s'" "used_at s' i" using interest_write d by metis
  have "fst (prawtos_is_done (pp_state pp) False)"
    using f(2) by (auto simp: prawtos_is_done_def prawtos_finished_def)
  with rb rb2 s' p d show thesis
    by (intro that [of rb2 s']) (simp_all add: cmd_read_def Let_def split_beta)
qed

text \<open>The requests of the protocol reach \<^const>\<open>cmd_process\<close> with their fields in the parser.\<close>

lemma cmd_read_request:
  assumes "ready_session os key i (prawtos_message r) st w" "cs_parser (pr_cmd (pw_self w)) = prawtos_parser_init q"
    and "prawtos_request_ok r"
  obtains pp rb s' where "prawtos_holds pp r" "wf_selector s'" "used_at s' i"
    "cmd_read os key w =
       bindr (cmd_process ((pw_self w)\<lparr>pr_read_buffer := rb, pr_cmd := (pr_cmd (pw_self w))\<lparr>cs_parser := pp\<rparr>\<rparr>)
           ((pw_env w)\<lparr>e_os := st\<rparr>)) (\<lambda>(ret, p2, e2). Inr (ret, w\<lparr>pw_self := p2, pw_sel := s', pw_env := e2\<rparr>))"
proof -
  obtain pp where pp: "prawtos_feed_all (prawtos_parser_init q) (prawtos_message r) = Inr (pp, [])"
    "pp_state pp = prawtos_parser_done" "prawtos_holds pp r"
    using prawtos_feed_request [OF assms(3), of q "[]"] by auto
  then have "prawtos_finished pp" "\<not> prawtos_failed pp" by (simp_all add: prawtos_finished_def prawtos_failed_def)
  note fin = this
  show thesis
  proof (rule cmd_read_message [OF assms(1,2) pp(1) fin(1)], goal_cases)
    case (1 rb s')
    then show thesis using that [OF pp(3), of s' rb] fin(2) by simp
  qed
qed

subsection \<open>Metrics\<close>

text \<open>The value of bytes, most significant first.\<close>

definition be_value :: "u8 list \<Rightarrow> nat" where
  "be_value bs = foldl (\<lambda>v b. 256 * v + unat b) 0 bs"

lemma unat_ucast_u8: "unat (ucast w :: u8) = unat w mod 256"
  by (simp add: unsigned_ucast_eq take_bit_eq_mod)

lemma and_255: "(w :: u32) AND 255 = take_bit 8 w" "(v :: u16) AND 255 = take_bit 8 v"
  by (simp_all add: take_bit_eq_mask mask_eq_exp_minus_1)

lemma unat_byte_u32:
  "unat (ucast (drop_bit 24 (w :: u32)) :: u8) = unat w div 2 ^ 24 mod 256"
  "unat (ucast (w AND 255) :: u8) = unat w mod 256"
  unfolding and_255
  by (simp_all add: unsigned_ucast_eq unsigned_take_bit_eq unsigned_drop_bit_eq take_bit_eq_mod drop_bit_eq_div
      unat_div_distrib unat_mod_distrib)

lemma unat_byte_u16:
  "unat (ucast (drop_bit 8 (w :: u16)) :: u8) = unat w div 2 ^ 8 mod 256"
  "unat (ucast (w AND 255) :: u8) = unat w mod 256"
  unfolding and_255
  by (simp_all add: unsigned_ucast_eq unsigned_take_bit_eq unsigned_drop_bit_eq take_bit_eq_mod drop_bit_eq_div
      unat_div_distrib unat_mod_distrib)

lemma be_split: "256 * (n div (256 * m)) + n div m mod 256 = n div (m :: nat)"
  by (metis div_mult2_eq mult.commute mult_div_mod_eq)

lemma be_value_u32:
  "be_value [ucast (drop_bit 24 (w :: u32)), ucast (drop_bit 16 w AND 255), ucast (drop_bit 8 w AND 255), ucast (w AND 255)]
     = unat w"
proof -
  have d: "unat (drop_bit 16 w) = unat w div 2 ^ 16" "unat (drop_bit 8 w) = unat w div 2 ^ 8"
    by (simp_all add: drop_bit_eq_div unat_div_distrib)
  have "unat w < 2 ^ LENGTH(32)" by (rule unsigned_less)
  then have "unat w div 2 ^ 24 mod 256 = unat w div (256 * 2 ^ 16)" by simp
  moreover have "256 * (unat w div (256 * 2 ^ 16)) + unat w div 2 ^ 16 mod 256 = unat w div (256 * 2 ^ 8)"
    using be_split [of "unat w" "2 ^ 16"] by simp
  moreover have "256 * (unat w div (256 * 2 ^ 8)) + unat w div 2 ^ 8 mod 256 = unat w div (256 * 1)"
    using be_split [of "unat w" "2 ^ 8"] by simp
  moreover have "256 * (unat w div (256 * 1)) + unat w mod 256 = unat w"
    using be_split [of "unat w" 1] by simp
  ultimately show ?thesis unfolding be_value_def foldl.simps unat_byte_u32 d
    by (simp only: mult_0_right add_0)
qed

lemma be_value_u16: "be_value [ucast (drop_bit 8 (w :: u16)), ucast (w AND 255)] = unat w"
proof -
  have "unat w < 2 ^ LENGTH(16)" by (rule unsigned_less)
  then have "unat w div 2 ^ 8 mod 256 = unat w div (256 * 1)" by simp
  moreover have "256 * (unat w div (256 * 1)) + unat w mod 256 = unat w"
    using be_split [of "unat w" 1] by simp
  ultimately show ?thesis unfolding be_value_def foldl.simps unat_byte_u16 by (simp only: mult_0_right add_0)
qed

text \<open>The counter a metric request asks for.\<close>

definition metric_value :: "u8 \<Rightarrow> stadistics \<Rightarrow> nat" where
  "metric_value c s = (if c = get_transfered then unat (get_bytes_sent s)
     else if c = get_historical then unat (get_total_connections s) else unat (get_concurrent_connections s))"

lemma u8_lt_3: "(c :: u8) < 3 \<Longrightarrow> c = 0 \<or> c = 1 \<or> c = 2"
  by (auto simp: word_less_nat_alt word_unat_eq_iff)

lemma get_handlers_metric:
  assumes "c < 3"
  shows "\<exists>h c1 bs. peek_at get_handlers (unat c) = Inr h \<and>
    h l s st = Inr (Suc (length bs), c1) \<and> cs_args c1 = of_nat (length bs) # bs \<and> cs_nargs c1 = 1 \<and> cs_status c1 = success \<and>
    cs_parser c1 = cs_parser st \<and> be_value bs = metric_value c s \<and> length bs = (if c = 0 then 4 else 2)"
  using u8_lt_3 [OF assms]
proof (elim disjE)
  assume c: "c = 0"
  show ?thesis
    by (intro exI [of _ "get_handlers ! 0"] exI [of _ "snd (bytes_sent s st)"] exI [of _ "tl (cs_args (snd (bytes_sent s st)))"])
      (simp add: c get_handlers_def bytes_sent_def metric_value_def get_transfered_def be_value_u32 Let_def)
next
  assume c: "c = 1"
  show ?thesis
    by (intro exI [of _ "get_handlers ! 1"] exI [of _ "snd (total_connections s st)"]
        exI [of _ "tl (cs_args (snd (total_connections s st)))"])
      (simp add: c get_handlers_def total_connections_def metric_value_def get_transfered_def get_historical_def
        be_value_u16 Let_def)
next
  assume c: "c = 2"
  show ?thesis
    by (intro exI [of _ "get_handlers ! 2"] exI [of _ "snd (concurrent_connections s st)"]
        exI [of _ "tl (cs_args (snd (concurrent_connections s st)))"])
      (simp add: c get_handlers_def concurrent_connections_def metric_value_def get_transfered_def get_historical_def
        be_value_u16 Let_def)
qed

text \<open>A metric request in one segment, up to the reply in the write buffer.\<close>

lemma metric_read:
  assumes "ready_session os key i (prawtos_message (Get c)) st w" "c < 3"
    and "cs_parser (pr_cmd (pw_self w)) = prawtos_parser_init q" "8 \<le> buf_room (pr_write_buffer (pw_self w))"
  shows "\<exists>w' bs. cmd_read os key w = Inr (CMD_WRITE_PRAWTOS, w') \<and>
    buf_content (pr_write_buffer (pw_self w')) = [success, c, 1, of_nat (length bs)] @ bs \<and>
    be_value bs = metric_value c (e_stats (pw_env w)) \<and> length bs = (if c = 0 then 4 else 2)"
proof -
  have ok: "prawtos_request_ok (Get c)" using assms(2) by (simp add: order.strict_trans)
  obtain pp rb s' where pp: "prawtos_holds pp (Get c)" and rd: "cmd_read os key w =
      bindr (cmd_process ((pw_self w)\<lparr>pr_read_buffer := rb, pr_cmd := (pr_cmd (pw_self w))\<lparr>cs_parser := pp\<rparr>\<rparr>)
        ((pw_env w)\<lparr>e_os := st\<rparr>)) (\<lambda>(ret, p2, e2). Inr (ret, w\<lparr>pw_self := p2, pw_sel := s', pw_env := e2\<rparr>))"
    by (rule cmd_read_request [OF assms(1,3) ok])
  let ?c = "(pr_cmd (pw_self w))\<lparr>cs_parser := pp\<rparr>" and ?wb = "pr_write_buffer (pw_self w)"
  obtain h c1 bs where h: "peek_at get_handlers (unat c) = Inr h"
    "h (e_users (pw_env w)) (e_stats (pw_env w)) ?c = Inr (Suc (length bs), c1)" "cs_args c1 = of_nat (length bs) # bs"
    "cs_nargs c1 = 1" "cs_status c1 = success" "cs_parser c1 = pp" "be_value bs = metric_value c (e_stats (pw_env w))"
    "length bs = (if c = 0 then 4 else 2)"
    using get_handlers_metric [OF assms(2), of "e_users (pw_env w)" "e_stats (pw_env w)" ?c] by auto
  have wb: "wf_buffer ?wb" "buf_content ?wb = []" using assms(1) by (simp_all add: ready_session_def)
  obtain wb' where "get_marshal ?wb success c 1 (of_nat (length bs) # bs) (Suc (length bs)) = Inr (int (3 + Suc (length bs)), wb')"
    "buf_content wb' = [success, c, 1] @ of_nat (length bs) # bs"
    using get_marshal_wf [OF wb(1), of "Suc (length bs)" "of_nat (length bs) # bs" success c 1] assms(4) h(8) wb(2) by (auto split: if_splits)
  with h rd pp show ?thesis by (simp add: cmd_process_def prawtos_holds_def Let_def)
qed

subsection \<open>Users\<close>

lemma name_ok_args:
  assumes "name_ok u" "0 \<notin> set u"
  shows "terminated (name_block u)" "c_str (name_block u) = u" "length u \<le> length (name_block u)"
  using assms by (simp_all add: name_ok_def name_block_terminated name_block_str length_name_block)

text \<open>A user whose name was stored with a length that does not count the NUL.\<close>

lemma create_user_fresh:
  assumes l: "wf_users l" "\<forall>u \<in> set (ul_first l). exact_user u \<and> unat (u_ulen u) < 255"
    and h: "prawtos_holds (cs_parser st) (Create a u pw)"
    and n: "name_ok u" "name_ok pw" "0 \<notin> set u" "user_db l u = None"
  shows "\<exists>l' st'. create_user l st = Inr (l', st') \<and> cs_status st' = success \<and> cs_parser st' = cs_parser st \<and>
    get_all_users l' = Inl OutOfBounds"
proof -
  let ?us = "pp_user (cs_parser st)"
  have h': "us_uname ?us = name_block u" "unat (us_ulen ?us) = length u"
    "us_passwd ?us = name_block pw" "unat (us_plen ?us) = length pw"
    using h by (simp_all add: prawtos_holds_def)
  note nu = name_ok_args [OF n(1,3)]
  let ?v = "\<lparr>u_is_admin = us_admin ?us \<noteq> 0, u_username = u, u_ulen = us_ulen ?us, u_password = pw, u_upass = us_plen ?us\<rparr>"
  have w: "\<forall>v \<in> set (ul_first l). wf_user v" using l(1) by (simp add: wf_users_def)
  have fresh: "c_str (name_block u) \<notin> set (map user_name (ul_first l))" using n(4) nu(2) by (simp add: user_db_None)
  have "length pw \<le> length (name_block pw)" using n(2) by (simp add: name_ok_def length_name_block)
  then have "add_user_rec (ul_first l) (name_block u) (us_ulen ?us) (name_block pw) (us_plen ?us) (us_admin ?us \<noteq> 0)
      = Inr (ul_first l @ [?v], True)"
    using add_user_rec_fresh [OF w nu(1) fresh, of "us_ulen ?us" "us_plen ?us" "name_block pw" "us_admin ?us \<noteq> 0"] nu(3) h'
    by (simp add: name_block_def)
  moreover have "\<not> terminated u" using n(3) by (simp add: terminated_def)
  then have "get_all_loop (length (ul_first l) + Suc 0) (ul_first l @ [?v]) 255 (replicate 255 0) 0 = Inl OutOfBounds"
    using get_all_loop_unterminated [OF l(2), of ?v "replicate 255 0" 255 0 0 "[]"] by simp
  then have "get_all_users (l\<lparr>ul_first := ul_first l @ [?v], ul_size := ul_size l + 1\<rparr>) = Inl OutOfBounds"
    using l(1) by (simp add: get_all_users_def wf_users_def nat_add_distrib)
  ultimately show ?thesis using h' by (simp add: create_user_def add_user_def Let_def)
qed

lemma listing_out_of_bounds:
  assumes "ready_session os key i [0x00, get_users] st w" "cs_parser (pr_cmd (pw_self w)) = prawtos_parser_init q"
    and "get_all_users (e_users (pw_env w)) = Inl OutOfBounds"
  shows "cmd_read os key w = Inl OutOfBounds"
proof -
  have r: "ready_session os key i (prawtos_message (Get 3)) st w" using assms(1) by (simp add: get_users_def)
  obtain pp rb s' where "prawtos_holds pp (Get 3)" "cmd_read os key w =
      bindr (cmd_process ((pw_self w)\<lparr>pr_read_buffer := rb, pr_cmd := (pr_cmd (pw_self w))\<lparr>cs_parser := pp\<rparr>\<rparr>)
        ((pw_env w)\<lparr>e_os := st\<rparr>)) (\<lambda>(ret, p2, e2). Inr (ret, w\<lparr>pw_self := p2, pw_sel := s', pw_env := e2\<rparr>))"
    by (rule cmd_read_request [OF r assms(2)]) auto
  with assms(3) show ?thesis
    by (simp add: cmd_process_def prawtos_holds_def get_handlers_def get_users_func_def peek_at_def Let_def)
qed

section \<open>An example session\<close>

definition example_key :: key where
  "example_key = \<lparr>sk_fd = 7, sk_data = Some (PrawtosP 0)\<rparr>"

definition example_world :: "sel \<Rightarrow> u8 list \<Rightarrow> script pworld" where
  "example_world s m =
     (let b = buffer_init (pr_read_buffer prawtos_zero) BUFFER_SIZE (replicate BUFFER_SIZE 0) in
      \<lparr>pw_self = prawtos_zero\<lparr>pr_client_fd := 7, pr_read_buffer := b, pr_write_buffer := b,
          pr_auth := (pr_auth prawtos_zero)\<lparr>as_parser := auth_parser_init (as_parser (pr_auth prawtos_zero))\<rparr>,
          pr_cmd := (pr_cmd prawtos_zero)\<lparr>cs_parser := prawtos_parser_init (cs_parser (pr_cmd prawtos_zero))\<rparr>\<rparr>,
       pw_sel = s, pw_env = \<lparr>e_users = default_users, e_stats = stadistics_init, e_os = ([], [m], [])\<rparr>\<rparr>)"

lemma example_selector: "\<exists>s :: sel. wf_selector s \<and> used_at s 7"
proof -
  obtain s0 :: sel where s0: "wf_selector s0" "sel_map s0 = Map.empty" "sel_fd_size s0 = ITEMS_MAX_SIZE + 1"
    using new_full by blast
  have "\<not> used_at s0 7" using s0(2) by (metis option.distinct(1) sel_map_def)
  with register_core [OF s0(1), of 7 "Some PRAWTOS" True OP_READ None] s0(3)
  obtain s where "wf_selector s" "sel_map s = (sel_map s0)(7 \<mapsto> (Some PRAWTOS, OP_READ, None))"
    by (auto simp: ITEMS_MAX_SIZE_def)
  then have "wf_selector s \<and> used_at s 7" by (metis fun_upd_same option.distinct(1) sel_map_def)
  then show ?thesis by blast
qed

lemma example_ready:
  assumes "wf_selector s" "used_at s 7" "0 < length m" "length m \<le> 4096"
  shows "ready_session script_os example_key 7 m ([], [], []) (example_world s m)"
  using assms by (simp add: ready_session_def example_world_def example_key_def script_os_def BUFFER_SIZE_def Let_def)

lemma example_world_simps [simp]:
  "as_parser (pr_auth (pw_self (example_world s m))) = auth_parser_init (as_parser (pr_auth prawtos_zero))"
  "cs_parser (pr_cmd (pw_self (example_world s m))) = prawtos_parser_init (cs_parser (pr_cmd prawtos_zero))"
  "buf_room (pr_write_buffer (pw_self (example_world s m))) = 4096"
  "e_users (pw_env (example_world s m)) = default_users" "e_stats (pw_env (example_world s m)) = stadistics_init"
  by (simp_all add: example_world_def BUFFER_SIZE_def Let_def)

lemma script_send_all: "\<forall>m. fst (os_send script_os st fd m) = int (length m)"
  by (simp add: script_os_def split_beta)

text \<open>A history that ends in the command state.\<close>

lemma example_authenticated: "\<exists>p. mgmt_reach script_os p True \<and> sm_current (pr_stm p) = Some CMD_READ_PRAWTOS"
proof -
  let ?u = "[97, 100, 109, 105, 110] :: u8 list" and ?p = "[97, 108, 103, 103, 111] :: u8 list"
  let ?m = "auth_message ?u ?p" and ?t = "prawtos_init_states script_os"
  obtain s :: sel where s: "wf_selector s" "used_at s 7" using example_selector by blast
  obtain p0 where p0: "prawtos_arrival script_os 7 = Inr p0" using prawtos_arrival_live(2) by blast
  then have stm0: "pr_stm p0 = \<lparr>sm_initial = AUTH_READ_PRAWTOS, sm_max_state = ERROR_PRAWTOS, sm_current = None\<rparr>"
    by (auto simp: prawtos_arrival_def stm_init_def res_simps Let_def split: if_splits)
  let ?e = "\<lparr>e_users = default_users, e_stats = stadistics_init, e_os = ([], [?m], [])\<rparr> :: script env"
  let ?p1 = "p0\<lparr>pr_auth := (pr_auth p0)\<lparr>as_parser := auth_parser_init (as_parser (pr_auth p0))\<rparr>\<rparr>"
  let ?w1 = "\<lparr>pw_self = ?p1, pw_sel = s, pw_env = ?e\<rparr>"
  have b: "wf_buffer (pr_read_buffer p0)" "buf_content (pr_read_buffer p0) = []" "wf_buffer (pr_write_buffer p0)"
    "buf_content (pr_write_buffer p0) = []" "buf_room (pr_read_buffer p0) = 4096" "buf_room (pr_write_buffer p0) = 4096"
    using p0 by (auto simp: prawtos_arrival_def res_simps BUFFER_SIZE_def Let_def)
  have r: "ready_session script_os example_key 7 ?m ([], [], []) ?w1"
    using s b by (simp add: ready_session_def example_key_def script_os_def auth_message_def)
  obtain w2 where w2: "auth_prawtos_read script_os example_key ?w1 = Inr (AUTH_WRITE_PRAWTOS, w2)"
    "as_status (pr_auth (pw_self w2)) = AUTH_SUCCESS"
    "buf_content (pr_write_buffer (pw_self w2)) = [0x01, AUTH_SUCCESS]"
    "wf_buffer (pr_write_buffer (pw_self w2))" "wf_selector (pw_sel w2)" "used_at (pw_sel w2) 7"
    using auth_read_message [OF r, of "as_parser (pr_auth p0)"] b(6) default_users_wf
    by (auto simp: name_ok_def MAX_LEN_def user_db_def default_users_def lit_user_def user_entry_def c_lit_def of_char_def)
  let ?stm = "\<lambda>j. (pr_stm p0)\<lparr>sm_current := Some j\<rparr>"
  have "stm_event on_read_ready ?t (pr_stm p0) example_key \<lparr>pw_self = p0, pw_sel = s, pw_env = ?e\<rparr> =
      Inr (AUTH_WRITE_PRAWTOS, ?stm AUTH_WRITE_PRAWTOS, w2)"
    using w2(1) by (simp add: stm_event_def handle_first_def jump_def run_hook_def stm0 prawtos_init_states_def
        no_state_def auth_prawtos_init_def prawtos_states Let_def)
  moreover have "check_credentials (e_users ?e) (pr_auth (pw_self w2)) = Inr AUTH_SUCCESS"
    using auth_read_gate [OF w2(1)] w2(2) by (simp add: prawtos_states)
  ultimately have r1: "mgmt_reach script_os ((pw_self w2)\<lparr>pr_stm := ?stm AUTH_WRITE_PRAWTOS\<rparr>) True"
    using mgmt_reach.event [OF mgmt_reach.accepted [OF p0], of on_read_ready example_key s ?e] by auto
  let ?p2 = "(pw_self w2)\<lparr>pr_stm := ?stm AUTH_WRITE_PRAWTOS\<rparr>"
  let ?w2 = "\<lparr>pw_self = ?p2, pw_sel = pw_sel w2, pw_env = pw_env w2\<rparr>"
  obtain st' where "os_send script_os (e_os (pw_env ?w2)) (sk_fd example_key) [0x01, AUTH_SUCCESS] =
      (int (length [0x01, AUTH_SUCCESS]), st')" using script_send_all by (metis prod.collapse)
  then obtain w3 where w3: "auth_prawtos_write script_os example_key ?w2 = Inr (CMD_READ_PRAWTOS, w3)"
    using auth_write_reply [of ?w2 "[0x01, AUTH_SUCCESS]" script_os example_key st' 7] w2 by (auto simp: example_key_def)
  obtain w4 where "cmd_init CMD_READ_PRAWTOS example_key w3 = Inr w4" by (simp add: cmd_init_def Let_def)
  with w3 have "stm_event on_write_ready ?t (pr_stm ?p2) example_key ?w2 = Inr (CMD_READ_PRAWTOS, ?stm CMD_READ_PRAWTOS, w4)"
    by (simp add: stm_event_def handle_first_def jump_def run_hook_def stm0 prawtos_init_states_def no_state_def
        prawtos_states)
  from mgmt_reach.event [OF r1 _ this] have "mgmt_reach script_os ((pw_self w4)\<lparr>pr_stm := ?stm CMD_READ_PRAWTOS\<rparr>) True" by simp
  then show ?thesis by (intro exI [of _ "(pw_self w4)\<lparr>pr_stm := ?stm CMD_READ_PRAWTOS\<rparr>"]) simp
qed

section \<open>Properties\<close>

text \<open>
  C13: the authentication exchange. For a connection that has just sent a user name and a password,
  \<^const>\<open>auth_prawtos_read\<close> leaves in the output buffer exactly the version and a status that is success
  when, and only when, the user list has that name as an administrator with that password; once this
  answer is sent \<^const>\<open>auth_prawtos_write\<close> goes to the command state after success, and ends the
  session otherwise.
\<close>

theorem auth_exchange:
  assumes "ready_session os key i (auth_message u pw) st w" "name_ok u" "name_ok pw" "0 \<notin> set u" "0 \<notin> set pw"
    and "as_parser (pr_auth (pw_self w)) = auth_parser_init q" "wf_users (e_users (pw_env w))"
    and "2 \<le> buf_room (pr_write_buffer (pw_self w))"
    and "\<forall>m. fst (os_send os st (int i) m) = int (length m)"
  shows "\<exists>w1 w2. auth_prawtos_read os key w = Inr (AUTH_WRITE_PRAWTOS, w1) \<and>
    (let good = (user_db (e_users (pw_env w)) u = Some (pw, True)) in
     buf_content (pr_write_buffer (pw_self w1)) = [0x01, if good then AUTH_SUCCESS else AUTH_BAD_CREDENTIALS] \<and>
     auth_prawtos_write os key w1 = Inr (if good then CMD_READ_PRAWTOS else ERROR_PRAWTOS, w2))"
proof -
  have ne: "AUTH_SUCCESS \<noteq> AUTH_BAD_CREDENTIALS" by (simp add: AUTH_SUCCESS_def AUTH_BAD_CREDENTIALS_def)
  obtain w1 where w1: "auth_prawtos_read os key w = Inr (AUTH_WRITE_PRAWTOS, w1)" "pw_env w1 = (pw_env w)\<lparr>e_os := st\<rparr>"
    "as_status (pr_auth (pw_self w1)) =
      (if user_db (e_users (pw_env w)) u = Some (pw, True) then AUTH_SUCCESS else AUTH_BAD_CREDENTIALS)"
    "buf_content (pr_write_buffer (pw_self w1)) = [0x01, as_status (pr_auth (pw_self w1))]"
    "wf_buffer (pr_write_buffer (pw_self w1))" "wf_selector (pw_sel w1)" "used_at (pw_sel w1) i"
    using auth_read_message [OF assms(1-8)] by blast
  have fd: "sk_fd key = int i" using assms(1) by (simp add: ready_session_def)
  obtain st' where s: "os_send os (e_os (pw_env w1)) (sk_fd key) [0x01, as_status (pr_auth (pw_self w1))] =
      (int (length [0x01, as_status (pr_auth (pw_self w1))]), st')"
    using assms(9) w1(2) fd by (metis env.select_convs(3) env.update_convs(3) env.surjective prod.collapse)
  show ?thesis using auth_write_reply [OF w1(5,4) _ s fd w1(6,7)] w1(1,3,4) ne by (auto simp: Let_def)
qed

theorem auth_exchange_witness:
  "\<exists>s w1 w2. auth_prawtos_read script_os example_key (example_world s (auth_message [97, 100, 109, 105, 110] [97, 108, 103, 103, 111])) =
       Inr (AUTH_WRITE_PRAWTOS, w1) \<and>
     buf_content (pr_write_buffer (pw_self w1)) = [0x01, AUTH_SUCCESS] \<and>
     auth_prawtos_write script_os example_key w1 = Inr (CMD_READ_PRAWTOS, w2)"
proof -
  obtain s :: sel where s: "wf_selector s" "used_at s 7" using example_selector by blast
  let ?u = "[97, 100, 109, 105, 110] :: u8 list" and ?p = "[97, 108, 103, 103, 111] :: u8 list"
  have r: "ready_session script_os example_key 7 (auth_message ?u ?p) ([], [], []) (example_world s (auth_message ?u ?p))"
    by (rule example_ready [OF s]) (simp_all add: auth_message_def)
  have db: "user_db default_users ?u = Some (?p, True)"
    by (simp add: user_db_def default_users_def lit_user_def user_entry_def c_lit_def of_char_def)
  have "\<exists>w1 w2. auth_prawtos_read script_os example_key (example_world s (auth_message ?u ?p)) = Inr (AUTH_WRITE_PRAWTOS, w1) \<and>
    (let good = (user_db (e_users (pw_env (example_world s (auth_message ?u ?p)))) ?u = Some (?p, True)) in
     buf_content (pr_write_buffer (pw_self w1)) = [0x01, if good then AUTH_SUCCESS else AUTH_BAD_CREDENTIALS] \<and>
     auth_prawtos_write script_os example_key w1 = Inr (if good then CMD_READ_PRAWTOS else ERROR_PRAWTOS, w2))"
    by (rule auth_exchange [OF r, where q = "as_parser (pr_auth prawtos_zero)"])
      (simp_all add: name_ok_def MAX_LEN_def default_users_wf script_send_all)
  then show ?thesis using db by (simp add: Let_def) blast
qed

text \<open>
  C10: the authentication gate. In every history of events of a management connection, whatever the
  other connections do meanwhile, the session is in a command state only if before that a check of the
  credentials it sent had succeeded against the user list of that moment.
\<close>

theorem commands_need_authentication:
  assumes "mgmt_reach os p auth" "sm_current (pr_stm p) \<in> {Some CMD_READ_PRAWTOS, Some CMD_WRITE_PRAWTOS}"
  shows auth
  using mgmt_reach_gate [OF assms(1)] assms(2) by (auto simp: gate_inv_def prawtos_states)

theorem commands_need_authentication_witness:
  "\<exists>p auth. mgmt_reach script_os p auth \<and> sm_current (pr_stm p) = Some CMD_READ_PRAWTOS \<and> auth"
proof -
  obtain p auth where p: "mgmt_reach script_os p auth" "sm_current (pr_stm p) = Some CMD_READ_PRAWTOS"
    using example_authenticated by blast
  then have "sm_current (pr_stm p) \<in> {Some CMD_READ_PRAWTOS, Some CMD_WRITE_PRAWTOS}" by simp
  from commands_need_authentication [OF p(1) this] p show ?thesis by blast
qed

text \<open>
  The metric requests. For each of the three counters the reply is success, the command, one
  argument, its length and the counter's value, most significant byte first, which decodes to exactly
  the value the counter has.
\<close>

theorem metric_reply:
  assumes "ready_session os key i (prawtos_message (Get c)) st w" "c < 3"
    and "cs_parser (pr_cmd (pw_self w)) = prawtos_parser_init q" "8 \<le> buf_room (pr_write_buffer (pw_self w))"
  shows "\<exists>w' bs. cmd_read os key w = Inr (CMD_WRITE_PRAWTOS, w') \<and>
    buf_content (pr_write_buffer (pw_self w')) = [success, c, 1, of_nat (length bs)] @ bs \<and>
    be_value bs = metric_value c (e_stats (pw_env w))"
  using metric_read [OF assms] by blast

theorem metric_reply_witness:
  "\<exists>s w' bs. cmd_read script_os example_key (example_world s (prawtos_message (Get 2))) = Inr (CMD_WRITE_PRAWTOS, w') \<and>
     buf_content (pr_write_buffer (pw_self w')) = [success, 2, 1, of_nat (length bs)] @ bs \<and>
     be_value bs = metric_value 2 stadistics_init"
proof -
  obtain s :: sel where s: "wf_selector s" "used_at s 7" using example_selector by blast
  have r: "ready_session script_os example_key 7 (prawtos_message (Get 2)) ([], [], []) (example_world s (prawtos_message (Get 2)))"
    by (rule example_ready [OF s]) simp_all
  have "\<exists>w' bs. cmd_read script_os example_key (example_world s (prawtos_message (Get 2))) = Inr (CMD_WRITE_PRAWTOS, w') \<and>
      buf_content (pr_write_buffer (pw_self w')) = [success, 2, 1, of_nat (length bs)] @ bs \<and>
      be_value bs = metric_value 2 (e_stats (pw_env (example_world s (prawtos_message (Get 2)))))"
    by (rule metric_reply [OF r, where q = "cs_parser (pr_cmd prawtos_zero)"]) simp_all
  then show ?thesis by auto
qed

text \<open>
  Creating and editing users over the wire. The lengths of the protocol do not count the NUL and
  the handlers pass them on: after a successful \<^verbatim>\<open>create\<close> of a new name, answered with success,
  every later request for the list of users reads outside the stored name; and editing the password
  of an existing user writes outside the new password's block at once.
\<close>

theorem remote_create_and_edit_out_of_bounds:
  assumes "wf_users (e_users (pw_env w))" "\<forall>u \<in> set (ul_first (e_users (pw_env w))). exact_user u \<and> unat (u_ulen u) < 255"
    and "cs_parser (pr_cmd (pw_self w)) = prawtos_parser_init q" "1 \<le> buf_room (pr_write_buffer (pw_self w))"
    and "name_ok u" "name_ok pw" "0 \<notin> set u" "0 \<notin> set pw" "a < 2"
  shows "(ready_session os key i (prawtos_message (Create a u pw)) st w \<longrightarrow> user_db (e_users (pw_env w)) u = None \<longrightarrow>
      (\<exists>w'. cmd_read os key w = Inr (CMD_WRITE_PRAWTOS, w') \<and> buf_content (pr_write_buffer (pw_self w')) = [success] \<and>
        (\<forall>key2 j st2 w2. ready_session os key2 j [0x00, get_users] st2 w2 \<longrightarrow>
           cs_parser (pr_cmd (pw_self w2)) = prawtos_parser_init q \<longrightarrow> e_users (pw_env w2) = e_users (pw_env w') \<longrightarrow>
           cmd_read os key2 w2 = Inl OutOfBounds))) \<and>
    (ready_session os key i (prawtos_message (Edit u pw)) st w \<longrightarrow> user_db (e_users (pw_env w)) u \<noteq> None \<longrightarrow>
      cmd_read os key w = Inl OutOfBounds)"
proof (intro conjI impI)
  assume r: "ready_session os key i (prawtos_message (Create a u pw)) st w" and fresh: "user_db (e_users (pw_env w)) u = None"
  have ok: "prawtos_request_ok (Create a u pw)" using assms by simp
  obtain pp rb s' where pp: "prawtos_holds pp (Create a u pw)" and rd: "cmd_read os key w =
      bindr (cmd_process ((pw_self w)\<lparr>pr_read_buffer := rb, pr_cmd := (pr_cmd (pw_self w))\<lparr>cs_parser := pp\<rparr>\<rparr>)
        ((pw_env w)\<lparr>e_os := st\<rparr>)) (\<lambda>(ret, p2, e2). Inr (ret, w\<lparr>pw_self := p2, pw_sel := s', pw_env := e2\<rparr>))"
    by (rule cmd_read_request [OF r assms(3) ok])
  let ?c = "(pr_cmd (pw_self w))\<lparr>cs_parser := pp\<rparr>"
  obtain l' c' where c': "create_user (e_users (pw_env w)) ?c = Inr (l', c')" "cs_status c' = success"
    "get_all_users l' = Inl OutOfBounds"
    using create_user_fresh [OF assms(1,2), of ?c a u pw] pp assms(5-7) fresh by auto
  have wb: "wf_buffer (pr_write_buffer (pw_self w))" "buf_content (pr_write_buffer (pw_self w)) = []"
    using r by (simp_all add: ready_session_def)
  obtain wb' where wb': "user_marshal (pr_write_buffer (pw_self w)) success = Inr (1, wb')" "buf_content wb' = [success]"
    using status_marshal_wf [OF wb(1) assms(4), of success] wb(2) by (metis append_Nil)
  obtain w' where w': "cmd_read os key w = Inr (CMD_WRITE_PRAWTOS, w')" "pr_write_buffer (pw_self w') = wb'"
    "e_users (pw_env w') = l'"
    using rd pp c' wb'(1)
    by (simp add: cmd_process_def prawtos_holds_def user_handlers_def user_create_def peek_at_def Let_def)
  show "\<exists>w'. cmd_read os key w = Inr (CMD_WRITE_PRAWTOS, w') \<and> buf_content (pr_write_buffer (pw_self w')) = [success] \<and>
      (\<forall>key2 j st2 w2. ready_session os key2 j [0x00, get_users] st2 w2 \<longrightarrow>
         cs_parser (pr_cmd (pw_self w2)) = prawtos_parser_init q \<longrightarrow> e_users (pw_env w2) = e_users (pw_env w') \<longrightarrow>
         cmd_read os key2 w2 = Inl OutOfBounds)"
    using w' wb'(2) c'(3) by (intro exI [of _ w'] conjI allI impI) (simp_all, metis listing_out_of_bounds)
next
  assume r: "ready_session os key i (prawtos_message (Edit u pw)) st w" and known: "user_db (e_users (pw_env w)) u \<noteq> None"
  have ok: "prawtos_request_ok (Edit u pw)" using assms by simp
  obtain pp rb s' where pp: "prawtos_holds pp (Edit u pw)" and rd: "cmd_read os key w =
      bindr (cmd_process ((pw_self w)\<lparr>pr_read_buffer := rb, pr_cmd := (pr_cmd (pw_self w))\<lparr>cs_parser := pp\<rparr>\<rparr>)
        ((pw_env w)\<lparr>e_os := st\<rparr>)) (\<lambda>(ret, p2, e2). Inr (ret, w\<lparr>pw_self := p2, pw_sel := s', pw_env := e2\<rparr>))"
    by (rule cmd_read_request [OF r assms(3) ok])
  have "edit_user (e_users (pw_env w)) (name_block u) ul (name_block pw) pl = Inl OutOfBounds" if "unat pl = length pw" for ul pl
    using edit_user_overflow [OF assms(1) name_ok_args(1) [OF assms(5,7)] name_ok_args(1) [OF assms(6,8)]]
      name_ok_args(2) [OF assms(5,7)] name_ok_args(2) [OF assms(6,8)] known that by simp
  with rd pp show "cmd_read os key w = Inl OutOfBounds"
    by (simp add: cmd_process_def prawtos_holds_def user_handlers_def user_edit_def modify_user_def peek_at_def Let_def)
qed

theorem remote_create_and_edit_out_of_bounds_witness:
  "\<exists>s w'. cmd_read script_os example_key (example_world s (prawtos_message (Create 0 [98] [99]))) = Inr (CMD_WRITE_PRAWTOS, w') \<and>
     buf_content (pr_write_buffer (pw_self w')) = [success] \<and>
     cmd_read script_os example_key ((example_world s [0x00, get_users])\<lparr>pw_env :=
       (pw_env (example_world s [0x00, get_users]))\<lparr>e_users := e_users (pw_env w')\<rparr>\<rparr>) = Inl OutOfBounds"
proof -
  obtain s :: sel where s: "wf_selector s" "used_at s 7" using example_selector by blast
  let ?m = "prawtos_message (Create 0 [98] [99])" and ?q = "cs_parser (pr_cmd prawtos_zero)"
  have r: "ready_session script_os example_key 7 ?m ([], [], []) (example_world s ?m)"
    by (rule example_ready [OF s]) simp_all
  have r2: "ready_session script_os example_key 7 [0x00, get_users] ([], [], []) (example_world s [0x00, get_users])"
    by (rule example_ready [OF s]) simp_all
  have db: "user_db default_users [98] = None"
    by (simp add: user_db_def default_users_def lit_user_def user_entry_def c_lit_def of_char_def)
  have "\<exists>w'. cmd_read script_os example_key (example_world s ?m) = Inr (CMD_WRITE_PRAWTOS, w') \<and>
      buf_content (pr_write_buffer (pw_self w')) = [success] \<and>
      (\<forall>key2 j st2 w2. ready_session script_os key2 j [0x00, get_users] st2 w2 \<longrightarrow>
         cs_parser (pr_cmd (pw_self w2)) = prawtos_parser_init ?q \<longrightarrow> e_users (pw_env w2) = e_users (pw_env w') \<longrightarrow>
         cmd_read script_os key2 w2 = Inl OutOfBounds)"
    using remote_create_and_edit_out_of_bounds [of "example_world s ?m" ?q "[98]" "[99]" 0 script_os example_key 7 "([], [], [])"]
      default_users_wf default_users_exact db r by (simp add: name_ok_def MAX_LEN_def)
  then obtain w' where w': "cmd_read script_os example_key (example_world s ?m) = Inr (CMD_WRITE_PRAWTOS, w')"
    "buf_content (pr_write_buffer (pw_self w')) = [success]"
    "\<forall>key2 j st2 w2. ready_session script_os key2 j [0x00, get_users] st2 w2 \<longrightarrow>
         cs_parser (pr_cmd (pw_self w2)) = prawtos_parser_init ?q \<longrightarrow> e_users (pw_env w2) = e_users (pw_env w') \<longrightarrow>
         cmd_read script_os key2 w2 = Inl OutOfBounds" by blast
  let ?w2 = "(example_world s [0x00, get_users])\<lparr>pw_env := (pw_env (example_world s [0x00, get_users]))\<lparr>e_users := e_users (pw_env w')\<rparr>\<rparr>"
  have "ready_session script_os example_key 7 [0x00, get_users] ([], [], []) ?w2"
    using r2 by (simp add: ready_session_def)
  with w' show ?thesis by (intro exI [of _ s] exI [of _ w']) simp
qed

text \<open>
  A rejected command is executed all the same. The parser refuses a user command of 3 or more,
  but \<^const>\<open>cmd_read\<close> dispatches on it before it looks at the error, through an entry past the end
  of the table of handlers.
\<close>

theorem rejected_command_dispatched:
  assumes "ready_session os key i [0x01, c] st w" "3 \<le> c" "cs_parser (pr_cmd (pw_self w)) = prawtos_parser_init q"
  shows "cmd_read os key w = Inl OutOfBounds"
proof -
  have c: "c \<noteq> 0" "c \<noteq> 1" "c \<noteq> 2" "3 \<le> unat c" using assms(2) by (auto simp: word_le_nat_alt)
  let ?pp = "q\<lparr>pp_get := \<lparr>gt_cmd = 0\<rparr>, pp_user := user_zero\<lparr>us_cmd := c\<rparr>, pp_type := 1,
    pp_state := prawtos_error_unsupported_cmd\<rparr>"
  have f: "prawtos_feed_all (prawtos_parser_init q) [0x01, c] = Inr (?pp, [])" "prawtos_finished ?pp"
    using prawtos_feed_user_header [of q c "[]"] c by (simp_all add: prawtos_finished_def)
  obtain rb s' where "cmd_read os key w =
      bindr (cmd_process ((pw_self w)\<lparr>pr_read_buffer := rb, pr_cmd := (pr_cmd (pw_self w))\<lparr>cs_parser := ?pp\<rparr>\<rparr>)
        ((pw_env w)\<lparr>e_os := st\<rparr>)) (\<lambda>(ret, p2, e2). Inr (if prawtos_failed ?pp then ERROR_PRAWTOS else ret,
          w\<lparr>pw_self := p2, pw_sel := s', pw_env := e2\<rparr>))"
    by (rule cmd_read_message [OF assms(1,3) f])
  then show ?thesis using c(4) by (simp add: cmd_process_def user_handlers_def peek_at_def Let_def)
qed

theorem rejected_command_dispatched_witness:
  "\<exists>s. cmd_read script_os example_key (example_world s [0x01, 9]) = Inl OutOfBounds"
proof -
  obtain s :: sel where s: "wf_selector s" "used_at s 7" using example_selector by blast
  have r: "ready_session script_os example_key 7 [0x01, 9] ([], [], []) (example_world s [0x01, 9])"
    by (rule example_ready [OF s]) simp_all
  have "cmd_read script_os example_key (example_world s [0x01, 9]) = Inl OutOfBounds"
    by (rule rejected_command_dispatched [OF r, where q = "cs_parser (pr_cmd prawtos_zero)"]) simp_all
  then show ?thesis by blast
qed

text \<open>
  Deleting a user over the wire does exactly what it says: the reply is success when the name was
  there and a credentials error when it was not, and afterwards the user list stands for the same map
  without that name.
\<close>

theorem remote_delete:
  assumes "ready_session os key i (prawtos_message (Delete u)) st w" "wf_users (e_users (pw_env w))"
    and "cs_parser (pr_cmd (pw_self w)) = prawtos_parser_init q" "1 \<le> buf_room (pr_write_buffer (pw_self w))"
    and "name_ok u" "0 \<notin> set u"
  shows "\<exists>w'. cmd_read os key w = Inr (CMD_WRITE_PRAWTOS, w') \<and>
    buf_content (pr_write_buffer (pw_self w')) =
      [if user_db (e_users (pw_env w)) u = None then user_credentia else success] \<and>
    wf_users (e_users (pw_env w')) \<and> user_db (e_users (pw_env w')) = (user_db (e_users (pw_env w)))(u := None)"
proof -
  have ok: "prawtos_request_ok (Delete u)" using assms by simp
  obtain pp rb s' where pp: "prawtos_holds pp (Delete u)" and rd: "cmd_read os key w =
      bindr (cmd_process ((pw_self w)\<lparr>pr_read_buffer := rb, pr_cmd := (pr_cmd (pw_self w))\<lparr>cs_parser := pp\<rparr>\<rparr>)
        ((pw_env w)\<lparr>e_os := st\<rparr>)) (\<lambda>(ret, p2, e2). Inr (ret, w\<lparr>pw_self := p2, pw_sel := s', pw_env := e2\<rparr>))"
    by (rule cmd_read_request [OF assms(1,3) ok])
  note n = name_ok_args [OF assms(5,6)]
  obtain l' where l': "delete_user (e_users (pw_env w)) (name_block u) (us_ulen (pp_user pp)) =
      Inr (user_db (e_users (pw_env w)) u \<noteq> None, l')" "wf_users l'" "user_db l' = (user_db (e_users (pw_env w)))(u := None)"
    using delete_user_ok [OF assms(2) n(1), of "us_ulen (pp_user pp)"] n(2) by auto
  let ?st = "if user_db (e_users (pw_env w)) u \<noteq> None then success else user_credentia"
  have wb: "wf_buffer (pr_write_buffer (pw_self w))" "buf_content (pr_write_buffer (pw_self w)) = []"
    using assms(1) by (simp_all add: ready_session_def)
  obtain wb' where "user_marshal (pr_write_buffer (pw_self w)) ?st = Inr (1, wb')" "buf_content wb' = [?st]"
    using status_marshal_wf [OF wb(1) assms(4), of ?st] wb(2) by (metis append_Nil)
  with rd pp l' show ?thesis
    by (simp add: cmd_process_def prawtos_holds_def user_handlers_def user_delete_def del_user_def peek_at_def Let_def
        split: if_splits)
qed

theorem remote_delete_witness:
  "\<exists>s w'. cmd_read script_os example_key (example_world s (prawtos_message (Delete [98]))) = Inr (CMD_WRITE_PRAWTOS, w') \<and>
     buf_content (pr_write_buffer (pw_self w')) = [user_credentia] \<and> wf_users (e_users (pw_env w'))"
proof -
  obtain s :: sel where s: "wf_selector s" "used_at s 7" using example_selector by blast
  let ?m = "prawtos_message (Delete [98])"
  have r: "ready_session script_os example_key 7 ?m ([], [], []) (example_world s ?m)"
    by (rule example_ready [OF s]) simp_all
  have db: "user_db default_users [98] = None"
    by (simp add: user_db_def default_users_def lit_user_def user_entry_def c_lit_def of_char_def)
  show ?thesis
    using remote_delete [OF r, of "cs_parser (pr_cmd prawtos_zero)"] default_users_wf db
    by (fastforce simp: name_ok_def MAX_LEN_def)
qed

end
