(* ===== verification/Logger.thy ===== *)
theory Logger
  imports Env
begin

text \<open>
  The log of the proxy: the buffer of \<^verbatim>\<open>src/logger_write.c\<close> and the end of
  \<^verbatim>\<open>src/register.c\<close>'s \<^verbatim>\<open>print_log\<close>, which appends a line to it.
\<close>

definition MAX_BUFF :: nat where "MAX_BUFF = 2048"

text \<open>The raw buffer is the block of the buffer; the selector is the one of the process.\<close>

record logger =
  lg_write_buff :: buffer

datatype logger_ptr = LogNull | LogFreed | LogAt logger

text \<open>The static initial value of \<^verbatim>\<open>data\<close>. No function of the program calls \<open>init_logger\<close>.\<close>

definition logger_data :: logger_ptr where
  "logger_data = LogNull"

definition deref_logger :: "logger_ptr \<Rightarrow> logger res" where
  "deref_logger p = (case p of LogNull \<Rightarrow> Inl NullPointer | LogFreed \<Rightarrow> Inl UseAfterFree | LogAt l \<Rightarrow> Inr l)"

definition get_data_logger :: "logger_ptr \<Rightarrow> logger_ptr" where
  "get_data_logger data = data"

definition init_logger :: "bool \<Rightarrow> int \<times> logger_ptr" where
  "init_logger malloc_ok =
     (if \<not> malloc_ok then (- 1, LogNull)
      else (1, LogAt \<lparr>lg_write_buff =
        buffer_init \<lparr>b_data = [], b_limit = 0, b_read = 0, b_write = 0\<rparr> MAX_BUFF (replicate MAX_BUFF 0)\<rparr>))"

definition free_logger :: "logger_ptr \<Rightarrow> logger_ptr res" where
  "free_logger data = (case data of LogNull \<Rightarrow> Inr LogNull | LogFreed \<Rightarrow> Inl UseAfterFree | LogAt _ \<Rightarrow> Inr LogFreed)"

text \<open>
  \<^verbatim>\<open>n\<close> is what \<^verbatim>\<open>write\<close> returned, kept in a \<^verbatim>\<open>size_t\<close> and compared as an \<^verbatim>\<open>unsigned\<close>.
\<close>

definition write_logger :: "(u8 list \<Rightarrow> int) \<Rightarrow> key \<Rightarrow> logger_ptr \<Rightarrow> sel \<Rightarrow> (logger_ptr \<times> sel) res" where
  "write_logger write event data s =
     bindr (deref_logger data) (\<lambda>l.
     bindr (buffer_read_ptr (lg_write_buff l)) (\<lambda>(size, ptr).
     bindr (buffer_peek (lg_write_buff l) ptr size) (\<lambda>xs.
     let n = of_int (write xs) :: u64 in
     if n > 0 then
       if unat (ucast n :: u32) < size then
         bindr (buffer_read_adv (lg_write_buff l) (sint n)) (\<lambda>b. Inr (LogAt (l\<lparr>lg_write_buff := b\<rparr>), s))
       else
         bindr (buffer_read_adv (lg_write_buff l) (int size)) (\<lambda>b.
         bindr (selector_set_interest_key event s OP_NOOP) (\<lambda>(_, s1).
         Inr (LogAt (l\<lparr>lg_write_buff := b\<rparr>), s1)))
     else Inr (data, s))))"

text \<open>
  \<^verbatim>\<open>snprintf(ptr, count, ...)\<close> of a text: what fits is stored and terminated, the length of the whole
  text is returned.
\<close>

definition snprintf_bytes :: "nat \<Rightarrow> u8 list \<Rightarrow> u8 list" where
  "snprintf_bytes count text = (if count = 0 then [] else take (count - 1) text @ [0])"

text \<open>
  The end of \<^verbatim>\<open>print_log\<close>: a text, if there is one, is stored in the room of the buffer and the buffer
  advanced. The interest of descriptor 1 is set whether or not it is registered.
\<close>

definition store_line :: "logger \<Rightarrow> u8 list option \<Rightarrow> sel \<Rightarrow> (logger_ptr \<times> sel) res" where
  "store_line l text s =
     bindr (buffer_write_ptr (lg_write_buff l)) (\<lambda>(count, ptr).
     bindr (case text of None \<Rightarrow> Inr (lg_write_buff l, 0)
            | Some t \<Rightarrow> bindr (buffer_poke (lg_write_buff l) ptr (snprintf_bytes count t)) (\<lambda>b. Inr (b, length t))) (\<lambda>(b, n).
     bindr (buffer_write_adv b (int (if n > count then count else n))) (\<lambda>b1.
     bindr (selector_set_interest s 1 OP_WRITE) (\<lambda>(_, s1).
     Inr (LogAt (l\<lparr>lg_write_buff := b1\<rparr>), s1)))))"

section \<open>Lemmas\<close>

lemma poke_adv_prefix:
  assumes "wf_buffer b" "length xs \<le> buf_room b" "k \<le> length xs"
  shows "\<exists>b1 b2. buffer_poke b (b_write b) xs = Inr b1 \<and> buffer_write_adv b1 (int k) = Inr b2 \<and> wf_buffer b2 \<and>
    buf_content b2 = buf_content b @ take k xs \<and> b_limit b2 = b_limit b"
proof -
  define d where "d = take (b_write b) (b_data b) @ xs @ drop (b_write b + length xs) (b_data b)"
  have le: "b_read b \<le> b_write b" "b_write b + length xs \<le> length (b_data b)" "b_limit b = length (b_data b)"
    using assms by (auto simp: wf_buffer_def buf_room_def)
  have "take (b_write b + k) d = take (b_write b) (b_data b) @ take k xs"
    using assms(3) le by (simp add: d_def)
  then have "buf_content (b\<lparr>b_data := d, b_write := b_write b + k\<rparr>) = buf_content b @ take k xs"
    using le by (simp add: buf_content_def)
  moreover have "length d = length (b_data b)" using le by (simp add: d_def)
  ultimately show ?thesis
    using assms(3) le by (simp add: buffer_poke_def buffer_write_adv_def wf_buffer_def Let_def d_def [symmetric])
qed

text \<open>What a line adds to the log when there is room for it and its NUL.\<close>

lemma store_line_appends:
  assumes "wf_buffer (lg_write_buff l)" "length text < buf_room (lg_write_buff l)"
    and "selector_set_interest s 1 OP_WRITE = Inr (st, s')"
  shows "\<exists>l'. store_line l (Some text) s = Inr (LogAt l', s') \<and> wf_buffer (lg_write_buff l') \<and>
    buf_content (lg_write_buff l') = buf_content (lg_write_buff l) @ text"
proof -
  let ?b = "lg_write_buff l"
  have t: "snprintf_bytes (buf_room ?b) text = text @ [0]" using assms(2) by (simp add: snprintf_bytes_def)
  obtain b1 b2 where "buffer_poke ?b (b_write ?b) (text @ [0]) = Inr b1" "buffer_write_adv b1 (int (length text)) = Inr b2"
    "wf_buffer b2" "buf_content b2 = buf_content ?b @ text"
    using poke_adv_prefix [OF assms(1), of "text @ [0]" "length text"] assms(2) by auto
  with assms t show ?thesis by (simp add: store_line_def write_ptr_wf)
qed

text \<open>A line without room for itself and its NUL is cut, and the NUL stays in the log.\<close>

lemma store_line_truncates:
  assumes "wf_buffer (lg_write_buff l)" "0 < buf_room (lg_write_buff l)" "buf_room (lg_write_buff l) \<le> length text"
    and "selector_set_interest s 1 OP_WRITE = Inr (st, s')"
  shows "\<exists>l'. store_line l (Some text) s = Inr (LogAt l', s') \<and> wf_buffer (lg_write_buff l') \<and>
    buf_content (lg_write_buff l') =
      buf_content (lg_write_buff l) @ take (buf_room (lg_write_buff l) - 1) text @ [0]"
proof -
  let ?b = "lg_write_buff l" and ?t = "take (buf_room (lg_write_buff l) - 1) text @ [0]"
  have t: "snprintf_bytes (buf_room ?b) text = ?t" "length ?t = buf_room ?b" using assms(2,3) by (simp_all add: snprintf_bytes_def)
  obtain b1 b2 where "buffer_poke ?b (b_write ?b) ?t = Inr b1" "buffer_write_adv b1 (int (buf_room ?b)) = Inr b2"
    "wf_buffer b2" "buf_content b2 = buf_content ?b @ ?t"
    using poke_adv_prefix [OF assms(1), of ?t "buf_room ?b"] t(2) by auto
  moreover have "(if length text > buf_room ?b then buf_room ?b else length text) = buf_room ?b" using assms(3) by simp
  ultimately show ?thesis using assms t by (simp add: store_line_def write_ptr_wf)
qed

text \<open>A failing \<^verbatim>\<open>write\<close> returns \<open>-1\<close>, which as a \<^verbatim>\<open>size_t\<close> is positive: the log is emptied.\<close>

lemma write_logger_failure:
  assumes "wf_buffer (lg_write_buff l)" "length (b_data (lg_write_buff l)) = MAX_BUFF"
    and "write (buf_content (lg_write_buff l)) = - 1" "selector_set_interest_key event s OP_NOOP = Inr (st, s')"
  shows "\<exists>l'. write_logger write event (LogAt l) s = Inr (LogAt l', s') \<and> buf_content (lg_write_buff l') = []"
proof -
  let ?b = "lg_write_buff l" and ?k = "length (buf_content (lg_write_buff l))"
  have peek: "buffer_peek ?b (b_read ?b) ?k = Inr (buf_content ?b)" using read_ptr_bytes [OF assms(1) order_refl] by simp
  have "?k \<le> MAX_BUFF" using assms(2) by (simp add: buf_content_def)
  moreover have "unat (ucast (- 1 :: u64) :: u32) = 4294967295"
    by (simp add: unsigned_ucast_eq unsigned_minus_1_eq_mask mask_eq_exp_minus_1 take_bit_eq_mod)
  ultimately have "\<not> unat (ucast (- 1 :: u64) :: u32) < ?k" by (simp add: MAX_BUFF_def)
  moreover have "(- 1 :: u64) > 0" by (simp add: word_greater_zero_iff)
  moreover obtain b' where "buffer_read_adv ?b (int ?k) = Inr b'" "buf_content b' = []"
    using read_adv_wf [OF assms(1) order_refl] by (metis drop_all order_refl)
  ultimately show ?thesis
    using assms peek by (simp add: write_logger_def deref_logger_def read_ptr_wf Let_def)
qed

end
