(* ===== verification/Register.thy ===== *)
theory Register
  imports Logger HelloParser RequestParser Args
begin

text \<open>
  The lines of the log: \<^verbatim>\<open>src/register.c\<close> and the register of \<^verbatim>\<open>include/socks5utils.h\<close> it prints.

  A register knows its user by the pointer \<^verbatim>\<open>user_info.username\<close>, the one field of \<^verbatim>\<open>user_info\<close> that is read.
  The client's address is the 128 bytes of a \<^verbatim>\<open>struct sockaddr_storage\<close>. What comes from outside the program
  is the environment of a line: the broken-down time that \<^verbatim>\<open>gmtime\<close> gives, the notation of
  addresses, what arrays and blocks hold before they are written, and whether \<^verbatim>\<open>malloc\<close> succeeds.
\<close>

section \<open>Data\<close>

record register_st =
  rg_method :: u8
  rg_username :: "u8 list option"
  rg_status :: u32
  rg_atyp :: u32
  rg_client_addr :: "u8 list"
  rg_dest_addr :: socks_addr
  rg_dest_port :: "u8 list"
  rg_user :: "u8 list option"
  rg_passwd :: "u8 list option"

record tm =
  tm_sec :: int
  tm_min :: int
  tm_hour :: int
  tm_mday :: int
  tm_mon :: int
  tm_year :: int

type_synonym junk = "string \<Rightarrow> nat \<Rightarrow> u8"

definition array :: "junk \<Rightarrow> string \<Rightarrow> nat \<Rightarrow> u8 list" where
  "array junk name n = map (junk name) [0..<n]"

record log_env =
  le_tm :: tm
  le_ntop :: "nat \<Rightarrow> u8 list \<Rightarrow> u8 list"
  le_junk :: junk
  le_malloc_ok :: bool

definition DATE_SIZE :: nat where "DATE_SIZE = 21"
definition INET_ADDRSTRLEN :: nat where "INET_ADDRSTRLEN = 16"
definition INET6_ADDRSTRLEN :: nat where "INET6_ADDRSTRLEN = 46"

section \<open>Formatted output\<close>

text \<open>
  \<^verbatim>\<open>snprintf\<close> with the conversions the program uses. A conversion without its argument reads what is not
  there.
\<close>

datatype printf_arg = StrArg "u8 list option" | UIntArg nat | IntArg int

definition chars :: "string \<Rightarrow> u8 list" where
  "chars s = map of_char s"

definition dec_int :: "int \<Rightarrow> u8 list" where
  "dec_int z = (if z < 0 then 45 # dec (nat (- z)) else dec (nat z))"

definition c_text :: "u8 list option \<Rightarrow> u8 list res" where
  "c_text p = bindr (the_ptr p) (\<lambda>d. bindr (c_strlen d) (\<lambda>n. Inr (take n d)))"

definition convert :: "char \<Rightarrow> printf_arg \<Rightarrow> u8 list res" where
  "convert c a = (case a of
     StrArg p \<Rightarrow> if c = CHR ''s'' then c_text p else Inl OutOfBounds
   | UIntArg n \<Rightarrow> if c = CHR ''u'' then Inr (dec n) else Inl OutOfBounds
   | IntArg z \<Rightarrow> if c = CHR ''d'' then Inr (dec_int z) else Inl OutOfBounds)"

fun printf_text :: "string \<Rightarrow> printf_arg list \<Rightarrow> u8 list res" where
  "printf_text [] as = Inr []"
| "printf_text (c # cs) as =
     (if c = CHR ''%'' then
        (case (cs, as) of
           (d # ds, a # bs) \<Rightarrow> bindr (convert d a) (\<lambda>t. bindr (printf_text ds bs) (\<lambda>r. Inr (t @ r)))
         | _ \<Rightarrow> Inl OutOfBounds)
      else bindr (printf_text cs as) (\<lambda>r. Inr (of_char c # r)))"

abbreviation tab :: char where "tab \<equiv> CHR 0x09"
abbreviation newline :: char where "newline \<equiv> CHR 0x0A"

definition access_format :: string where
  "access_format = ''[%s]'' @ [tab] @ ''%s'' @ [tab] @ ''A'' @ [tab] @ ''%s'' @ [tab] @ ''%u'' @ [tab] @ ''%s'' @ [tab] @
     ''%u'' @ [tab] @ ''status=%d'' @ [newline]"

definition sniff_format :: string where
  "sniff_format = ''[%s]'' @ [tab] @ ''%s'' @ [tab] @ ''POP3'' @ [tab] @ ''%s'' @ [tab] @ ''%u'' @ [tab] @ ''%s'' @ [tab] @
     ''%s'' @ [newline]"

text \<open>\<^verbatim>\<open>strftime\<close> with the format \<^verbatim>\<open>%Y-%m-%dT%TZ\<close>. A text that does not fit leaves the array undetermined.\<close>

definition two_digits :: "int \<Rightarrow> u8 list" where
  "two_digits z = (if 0 \<le> z \<and> z < 10 then 48 # dec (nat z) else dec_int z)"

definition date_text :: "tm \<Rightarrow> u8 list" where
  "date_text t = dec_int (tm_year t + 1900) @ chars ''-'' @ two_digits (tm_mon t + 1) @ chars ''-'' @ two_digits (tm_mday t) @
     chars ''T'' @ two_digits (tm_hour t) @ chars '':'' @ two_digits (tm_min t) @ chars '':'' @ two_digits (tm_sec t) @ chars ''Z''"

section \<open>Addresses\<close>

text \<open>
  The bytes of a \<^verbatim>\<open>struct sockaddr\<close>: the family in the order of the host, the port in network order at 2,
  \<^verbatim>\<open>sin_addr\<close> at 4, \<^verbatim>\<open>sin6_addr\<close> at 8.
\<close>

definition sa_family :: "u8 list \<Rightarrow> nat res" where
  "sa_family a = bindr (peek_at a 0) (\<lambda>lo. bindr (peek_at a 1) (\<lambda>hi. Inr (unat lo + 256 * unat hi)))"

definition sa_addr :: "u8 list \<Rightarrow> nat \<Rightarrow> u8 list res" where
  "sa_addr a family = (if family = AF_INET then read_cells a 4 4 else read_cells a 8 16)"

definition ntohs :: "u8 list \<Rightarrow> nat res" where
  "ntohs p = bindr (peek_at p 0) (\<lambda>hi. bindr (peek_at p 1) (\<lambda>lo. Inr (256 * unat hi + unat lo)))"

text \<open>
  \<open>ntop\<close> is the notation of an address of a family. \<^verbatim>\<open>inet_ntop\<close> stores it with its NUL, or stores nothing and
  returns 0 when it does not fit or the family has no notation.
\<close>

definition inet_ntop :: "(nat \<Rightarrow> u8 list \<Rightarrow> u8 list) \<Rightarrow> nat \<Rightarrow> u8 list \<Rightarrow> u8 list \<Rightarrow> nat \<Rightarrow> (bool \<times> u8 list) res" where
  "inet_ntop ntop family p buff sz =
     (if (family = AF_INET \<or> family = AF_INET6) \<and> length (ntop family p) < sz
      then bindr (blit buff 0 (ntop family p @ [0])) (\<lambda>b. Inr (True, b))
      else Inr (False, buff))"

section \<open>Lines\<close>

definition date_to_string :: "log_env \<Rightarrow> u8 list res" where
  "date_to_string env =
     (let date = array (le_junk env) ''date'' DATE_SIZE; text = date_text (le_tm env) in
      if length text < DATE_SIZE then blit date 0 (text @ [0]) else Inr date)"

definition ip_to_string :: "log_env \<Rightarrow> u8 list \<Rightarrow> u8 list \<Rightarrow> nat \<Rightarrow> (bool \<times> u8 list) res" where
  "ip_to_string env addr ret len =
     bindr (sa_family addr) (\<lambda>family.
     bindr (sa_addr addr family) (\<lambda>p. inet_ntop (le_ntop env) family p ret len))"

definition user_to_string :: "register_st \<Rightarrow> u8 list option" where
  "user_to_string r =
     (if rg_method r = METHOD_NO_AUTHENTICATION_REQUIRED then Some (c_lit ''----'') else rg_username r)"

definition addr_port :: "u8 list \<Rightarrow> u8 list res" where
  "addr_port addr = bindr (sa_family addr) (\<lambda>family. if family = AF_INET then read_cells addr 2 2 else read_cells addr 2 2)"

text \<open>The result of \<^verbatim>\<open>malloc\<close> is written through without a look at it.\<close>

definition malloc_block :: "log_env \<Rightarrow> nat \<Rightarrow> u8 list res" where
  "malloc_block env n = the_ptr (if le_malloc_ok env then Some (array (le_junk env) ''ip'' n) else None)"

definition dest_addr_to_string :: "log_env \<Rightarrow> register_st \<Rightarrow> u8 list option res" where
  "dest_addr_to_string env r =
     (let ntop = le_ntop env; a = rg_dest_addr r in
      if rg_atyp r = ucast socks_addr_type_ipv4 then
        bindr (malloc_block env INET_ADDRSTRLEN) (\<lambda>ip.
        bindr (read_cells a 4 4) (\<lambda>p.
        bindr (inet_ntop ntop AF_INET p ip INET_ADDRSTRLEN) (\<lambda>(_, ip1). Inr (Some ip1))))
      else if rg_atyp r = ucast socks_addr_type_ipv6 then
        bindr (malloc_block env INET6_ADDRSTRLEN) (\<lambda>ip.
        bindr (read_cells a 8 16) (\<lambda>p.
        bindr (inet_ntop ntop AF_INET6 p ip INET6_ADDRSTRLEN) (\<lambda>(_, ip1). Inr (Some ip1))))
      else if rg_atyp r = ucast socks_addr_type_domain then
        bindr (c_strlen (take sizeof_fdqn a)) (\<lambda>n.
        bindr (malloc_block env (n + 1)) (\<lambda>ip.
        bindr (c_strcpy ip 0 (take sizeof_fdqn a)) (\<lambda>ip1. Inr (Some ip1))))
      else Inr None)"

text \<open>The text that \<^verbatim>\<open>snprintf\<close> prints, if the kind of line is known.\<close>

definition line_text :: "char \<Rightarrow> register_st \<Rightarrow> u8 list \<Rightarrow> u8 list \<Rightarrow> u8 list option \<Rightarrow> u8 list option res" where
  "line_text kind r date ret dest_ip =
     (if kind = CHR ''A'' then
        bindr (addr_port (rg_client_addr r)) (\<lambda>cp. bindr (ntohs cp) (\<lambda>client_port. bindr (ntohs (rg_dest_port r)) (\<lambda>dest_port.
        bindr (printf_text access_format [StrArg (Some date), StrArg (user_to_string r), StrArg (Some ret),
          UIntArg client_port, StrArg dest_ip, UIntArg dest_port, IntArg (sint (rg_status r))]) (\<lambda>t. Inr (Some t)))))
      else if kind = CHR ''P'' then
        bindr (ntohs (rg_dest_port r)) (\<lambda>dest_port.
        bindr (printf_text sniff_format [StrArg (Some date), StrArg (user_to_string r), StrArg dest_ip,
          UIntArg dest_port, StrArg (rg_user r), StrArg (rg_passwd r)]) (\<lambda>t. Inr (Some t)))
      else Inr None)"

definition print_log :: "log_env \<Rightarrow> logger_ptr \<Rightarrow> register_st \<Rightarrow> char \<Rightarrow> sel \<Rightarrow> (logger_ptr \<times> sel) res" where
  "print_log env data r kind s =
     bindr (date_to_string env) (\<lambda>date.
     bindr (sa_family (rg_client_addr r)) (\<lambda>family.
     let len = (if family = AF_INET then INET_ADDRSTRLEN else INET6_ADDRSTRLEN) in
     bindr (ip_to_string env (rg_client_addr r) (array (le_junk env) ''ret'' len) len) (\<lambda>(_, ret).
     bindr (dest_addr_to_string env r) (\<lambda>dest_ip.
     bindr (deref_logger (get_data_logger data)) (\<lambda>l.
     bindr (line_text kind r date ret dest_ip) (\<lambda>text. store_line l text s))))))"

definition log_access :: "log_env \<Rightarrow> logger_ptr \<Rightarrow> register_st \<Rightarrow> sel \<Rightarrow> (logger_ptr \<times> sel) res" where
  "log_access env data r s = print_log env data r CHR ''A'' s"

definition log_sniff :: "log_env \<Rightarrow> logger_ptr \<Rightarrow> register_st \<Rightarrow> sel \<Rightarrow> (logger_ptr \<times> sel) res" where
  "log_sniff env data r s = print_log env data r CHR ''P'' s"

section \<open>Lemmas\<close>

lemma dec_digits: "c \<in> set (dec n) \<Longrightarrow> 48 \<le> c \<and> c \<le> 57"
  using dec_ok [of n] by (auto simp: list_all_iff isdigit_def)

lemma dec_chars: "0 \<notin> set (dec n)" "9 \<notin> set (dec n)" "10 \<notin> set (dec n)"
  using dec_digits by fastforce+

lemma dec_int_chars: "0 \<notin> set (dec_int z)" "9 \<notin> set (dec_int z)" "10 \<notin> set (dec_int z)"
  by (simp_all add: dec_int_def dec_chars)

lemma two_digits_chars: "0 \<notin> set (two_digits z)" "9 \<notin> set (two_digits z)" "10 \<notin> set (two_digits z)"
  by (simp_all add: two_digits_def dec_chars dec_int_chars)

lemma chars_simps [simp]: "chars [] = []" "chars (c # cs) = of_char c # chars cs" "chars (xs @ ys) = chars xs @ chars ys"
  by (simp_all add: chars_def)

lemma date_text_chars: "0 \<notin> set (date_text t)" "9 \<notin> set (date_text t)" "10 \<notin> set (date_text t)"
  by (simp_all add: date_text_def dec_int_chars two_digits_chars of_char_def)

text \<open>The time of a clock, in a year of four digits.\<close>

definition tm_ok :: "tm \<Rightarrow> bool" where
  "tm_ok t \<longleftrightarrow> 1000 \<le> tm_year t + 1900 \<and> tm_year t + 1900 \<le> 9999 \<and> 0 \<le> tm_mon t \<and> tm_mon t < 12 \<and>
     1 \<le> tm_mday t \<and> tm_mday t \<le> 31 \<and> 0 \<le> tm_hour t \<and> tm_hour t < 24 \<and> 0 \<le> tm_min t \<and> tm_min t < 60 \<and>
     0 \<le> tm_sec t \<and> tm_sec t \<le> 60"

lemma length_dec: "10 ^ k \<le> n \<Longrightarrow> n < 10 ^ Suc k \<Longrightarrow> length (dec n) = Suc k"
proof (induction k arbitrary: n)
  case 0
  then show ?case by (simp add: dec.simps)
next
  case (Suc k)
  have "(10 :: nat) \<le> 10 * 10 ^ k" by simp
  then have "\<not> n < 10" using Suc.prems(1) by (simp only: power_Suc)
  moreover have "10 ^ k \<le> n div 10" "n div 10 < 10 ^ Suc k"
    using Suc.prems by (auto simp: less_mult_imp_div_less mult.commute less_eq_div_iff_mult_less_eq)
  ultimately show ?case using Suc.IH by (simp add: dec.simps [of n])
qed

lemma length_two_digits:
  assumes "0 \<le> z" "z < 100"
  shows "length (two_digits z) = 2"
proof (cases "z < 10")
  case True
  with assms show ?thesis by (simp add: two_digits_def dec.simps)
next
  case False
  then show ?thesis using assms length_dec [of 1 "nat z"] by (simp add: two_digits_def dec_int_def)
qed

lemma length_year: "1000 \<le> z \<Longrightarrow> z \<le> 9999 \<Longrightarrow> length (dec_int z) = 4"
  using length_dec [of 3 "nat z"] by (simp add: dec_int_def)

lemma length_date_text: "tm_ok t \<Longrightarrow> length (date_text t) = 20"
  by (simp add: tm_ok_def date_text_def length_year length_two_digits)

lemma date_to_string_ok: "tm_ok (le_tm env) \<Longrightarrow> date_to_string env = Inr (date_text (le_tm env) @ [0])"
  by (simp add: date_to_string_def length_date_text DATE_SIZE_def array_def Let_def)

lemma c_text_terminated [simp]: "0 \<notin> set t \<Longrightarrow> c_text (Some (t @ 0 # r)) = Inr t"
  by (simp add: c_text_def the_ptr_def)

lemma inet_ntop_ok:
  "family = AF_INET \<or> family = AF_INET6 \<Longrightarrow> length (ntop family p) < sz \<Longrightarrow> length buff = sz \<Longrightarrow>
     inet_ntop ntop family p buff sz = Inr (True, ntop family p @ 0 # drop (Suc (length (ntop family p))) buff)"
  by (simp add: inet_ntop_def)

lemma length_array [simp]: "length (array junk name n) = n"
  by (simp add: array_def)

section \<open>What a line says\<close>

text \<open>The fields of a line are separated by tabs.\<close>

fun split_tabs :: "u8 list \<Rightarrow> u8 list list" where
  "split_tabs [] = [[]]"
| "split_tabs (c # cs) =
     (if c = 9 then [] # split_tabs cs else (case split_tabs cs of [] \<Rightarrow> [[c]] | f # fs \<Rightarrow> (c # f) # fs))"

fun tabbed :: "u8 list list \<Rightarrow> u8 list" where
  "tabbed [] = []"
| "tabbed [f] = f"
| "tabbed (f # fs) = f @ 9 # tabbed fs"

lemma split_tabs_field: "9 \<notin> set f \<Longrightarrow> split_tabs (f @ 9 # r) = f # split_tabs r" "9 \<notin> set f \<Longrightarrow> split_tabs f = [f]"
  by (induction f) auto

lemma split_tabbed: "fs \<noteq> [] \<Longrightarrow> \<forall>f \<in> set fs. 9 \<notin> set f \<Longrightarrow> split_tabs (tabbed fs) = fs"
  by (induction fs rule: tabbed.induct) (simp_all add: split_tabs_field)

text \<open>The user, the client and the destination a register stands for.\<close>

definition user_is :: "register_st \<Rightarrow> u8 list \<Rightarrow> bool" where
  "user_is r u \<longleftrightarrow> (if rg_method r = METHOD_NO_AUTHENTICATION_REQUIRED then u = chars ''----''
     else (case rg_username r of None \<Rightarrow> False | Some d \<Rightarrow> terminated d \<and> u = c_str d))"

definition client_is :: "log_env \<Rightarrow> register_st \<Rightarrow> u8 list \<Rightarrow> nat \<Rightarrow> bool" where
  "client_is env r ip pt \<longleftrightarrow>
     (case rg_client_addr r of
        f0 # f1 # hi # lo # a \<Rightarrow>
          pt = 256 * unat hi + unat lo \<and> f1 = 0 \<and> 0 \<notin> set ip \<and>
          (f0 = of_nat AF_INET \<and> 4 \<le> length a \<and> ip = le_ntop env AF_INET (take 4 a) \<and> length ip < INET_ADDRSTRLEN \<or>
           f0 = of_nat AF_INET6 \<and> 20 \<le> length a \<and> ip = le_ntop env AF_INET6 (take 16 (drop 4 a)) \<and>
             length ip < INET6_ADDRSTRLEN)
      | _ \<Rightarrow> False)"

definition dest_is :: "log_env \<Rightarrow> register_st \<Rightarrow> u8 list \<Rightarrow> nat \<Rightarrow> bool" where
  "dest_is env r t pt \<longleftrightarrow>
     (case rg_dest_port r of [hi, lo] \<Rightarrow> pt = 256 * unat hi + unat lo | _ \<Rightarrow> False) \<and> 0 \<notin> set t \<and>
     length (rg_dest_addr r) = sizeof_socks_addr \<and>
     (rg_atyp r = 1 \<and> t = le_ntop env AF_INET (take 4 (drop 4 (rg_dest_addr r))) \<and> length t < INET_ADDRSTRLEN \<or>
      rg_atyp r = 4 \<and> t = le_ntop env AF_INET6 (take 16 (drop 8 (rg_dest_addr r))) \<and> length t < INET6_ADDRSTRLEN \<or>
      rg_atyp r = 3 \<and> terminated (take sizeof_fdqn (rg_dest_addr r)) \<and> t = c_str (take sizeof_fdqn (rg_dest_addr r)))"

lemma c_text_is: "terminated d \<Longrightarrow> c_text (Some d) = Inr (c_str d)"
  using takeWhile_eq_take [of "\<lambda>c. c \<noteq> 0" d, symmetric] by (simp add: c_text_def the_ptr_def c_str_def [symmetric])

lemma user_text: "user_is r u \<Longrightarrow> c_text (user_to_string r) = Inr u"
  by (auto simp: user_is_def user_to_string_def c_text_is split: if_splits option.splits)
     (simp add: c_text_def the_ptr_def c_lit_def chars_def of_char_def)

lemma client_text:
  assumes "client_is env r ip pt"
  obtains family ret rest where "sa_family (rg_client_addr r) = Inr family"
    "let len = (if family = AF_INET then INET_ADDRSTRLEN else INET6_ADDRSTRLEN) in
       ip_to_string env (rg_client_addr r) (array (le_junk env) ''ret'' len) len = Inr (True, ip @ 0 # rest)"
    "bindr (addr_port (rg_client_addr r)) ntohs = Inr pt" "0 \<notin> set ip"
proof -
  obtain f0 f1 hi lo a where shape: "rg_client_addr r = f0 # f1 # hi # lo # a"
    using assms by (simp add: client_is_def split: list.splits)
  with assms have a: "rg_client_addr r = f0 # 0 # hi # lo # a" "pt = 256 * unat hi + unat lo" "0 \<notin> set ip"
    "f0 = of_nat AF_INET \<and> 4 \<le> length a \<and> ip = le_ntop env AF_INET (take 4 a) \<and> length ip < INET_ADDRSTRLEN \<or>
     f0 = of_nat AF_INET6 \<and> 20 \<le> length a \<and> ip = le_ntop env AF_INET6 (take 16 (drop 4 a)) \<and> length ip < INET6_ADDRSTRLEN"
    by (simp_all add: client_is_def)
  have pt: "bindr (addr_port (rg_client_addr r)) ntohs = Inr pt"
    by (simp add: a(1,2) addr_port_def sa_family_def peek_at_def ntohs_def read_cells_def)
  show thesis
  proof (cases "f0 = of_nat AF_INET")
    case True
    then have fam: "sa_family (rg_client_addr r) = Inr AF_INET" using a(1) by (simp add: sa_family_def peek_at_def AF_INET_def)
    have "read_cells (rg_client_addr r) 4 4 = Inr (take 4 a)" using a True by (auto simp: read_cells_def AF_INET_def AF_INET6_def)
    moreover have "ip = le_ntop env AF_INET (take 4 a)" "length ip < INET_ADDRSTRLEN"
      using a(4) True by (auto simp: AF_INET_def AF_INET6_def)
    ultimately show thesis using fam pt a(3) inet_ntop_ok [of AF_INET "le_ntop env" "take 4 a" INET_ADDRSTRLEN "array (le_junk env) ''ret'' INET_ADDRSTRLEN"]
      by (intro that [of AF_INET]) (simp_all add: ip_to_string_def sa_addr_def Let_def)
  next
    case False
    then have f: "f0 = of_nat AF_INET6" using a(4) by auto
    then have fam: "sa_family (rg_client_addr r) = Inr AF_INET6" "AF_INET6 \<noteq> AF_INET"
      using a(1) by (simp_all add: sa_family_def peek_at_def AF_INET_def AF_INET6_def)
    have "read_cells (rg_client_addr r) 8 16 = Inr (take 16 (drop 4 a))" using a False by (auto simp: read_cells_def)
    moreover have "ip = le_ntop env AF_INET6 (take 16 (drop 4 a))" "length ip < INET6_ADDRSTRLEN" using a(4) False by auto
    ultimately show thesis using fam pt a(3) inet_ntop_ok [of AF_INET6 "le_ntop env" "take 16 (drop 4 a)" INET6_ADDRSTRLEN "array (le_junk env) ''ret'' INET6_ADDRSTRLEN"]
      by (intro that [of AF_INET6]) (simp_all add: ip_to_string_def sa_addr_def Let_def)
  qed
qed

lemma dest_text:
  assumes "dest_is env r t pt" "le_malloc_ok env"
  obtains d where "dest_addr_to_string env r = Inr (Some d)" "c_text (Some d) = Inr t" "ntohs (rg_dest_port r) = Inr pt"
proof -
  let ?a = "rg_dest_addr r"
  have p: "ntohs (rg_dest_port r) = Inr pt" using assms(1) by (auto simp: dest_is_def ntohs_def peek_at_def split: list.splits)
  have l: "length ?a = 256" "0 \<notin> set t" using assms(1) by (simp_all add: dest_is_def sizeof_defs)
  consider (v4) "rg_atyp r = 1" "t = le_ntop env AF_INET (take 4 (drop 4 ?a))" "length t < INET_ADDRSTRLEN"
    | (v6) "rg_atyp r = 4" "t = le_ntop env AF_INET6 (take 16 (drop 8 ?a))" "length t < INET6_ADDRSTRLEN"
    | (name) "rg_atyp r = 3" "terminated (take sizeof_fdqn ?a)" "t = c_str (take sizeof_fdqn ?a)"
    using assms(1) by (auto simp: dest_is_def)
  then show thesis
  proof cases
    case v4
    let ?d = "t @ 0 # drop (Suc (length t)) (array (le_junk env) ''ip'' INET_ADDRSTRLEN)"
    have "dest_addr_to_string env r = Inr (Some ?d)"
      using v4 l assms(2) inet_ntop_ok [of AF_INET "le_ntop env" "take 4 (drop 4 ?a)" INET_ADDRSTRLEN "array (le_junk env) ''ip'' INET_ADDRSTRLEN"]
      by (simp add: dest_addr_to_string_def malloc_block_def the_ptr_def socks_atyp_defs)
    then show thesis by (rule that [OF _ c_text_terminated [OF l(2)] p])
  next
    case v6
    let ?d = "t @ 0 # drop (Suc (length t)) (array (le_junk env) ''ip'' INET6_ADDRSTRLEN)"
    have "dest_addr_to_string env r = Inr (Some ?d)"
      using v6 l assms(2) inet_ntop_ok [of AF_INET6 "le_ntop env" "take 16 (drop 8 ?a)" INET6_ADDRSTRLEN "array (le_junk env) ''ip'' INET6_ADDRSTRLEN"]
      by (simp add: dest_addr_to_string_def malloc_block_def the_ptr_def socks_atyp_defs)
    then show thesis by (rule that [OF _ c_text_terminated [OF l(2)] p])
  next
    case name
    have "c_strcpy (array (le_junk env) ''ip'' (Suc (length t))) 0 (take sizeof_fdqn ?a) = Inr (t @ [0])"
      unfolding c_strcpy_def using name(2,3) take_Suc_c_str [OF name(2)] by (simp del: take_take)
    then have "dest_addr_to_string env r = Inr (Some (t @ [0]))"
      using l assms(2) name by (simp add: dest_addr_to_string_def malloc_block_def the_ptr_def socks_atyp_defs)
    then show thesis by (rule that [OF _ c_text_terminated [OF l(2)] p])
  qed
qed

definition access_fields :: "log_env \<Rightarrow> register_st \<Rightarrow> u8 list \<Rightarrow> u8 list \<Rightarrow> nat \<Rightarrow> u8 list \<Rightarrow> nat \<Rightarrow> u8 list list" where
  "access_fields env r u ip cp t dp =
     [chars ''['' @ date_text (le_tm env) @ chars '']'', u, chars ''A'', ip, dec cp, t, dec dp,
      chars ''status='' @ dec_int (sint (rg_status r))]"

definition sniff_fields :: "log_env \<Rightarrow> u8 list \<Rightarrow> u8 list \<Rightarrow> nat \<Rightarrow> u8 list \<Rightarrow> u8 list \<Rightarrow> u8 list list" where
  "sniff_fields env u t dp name pass =
     [chars ''['' @ date_text (le_tm env) @ chars '']'', u, chars ''POP3'', t, dec dp, name, pass]"

text \<open>What the two formats print.\<close>

lemma access_text:
  assumes "c_text (Some date) = Inr (date_text (le_tm env))" "c_text ud = Inr u" "c_text (Some ret) = Inr ip" "c_text d = Inr t"
  shows "printf_text access_format [StrArg (Some date), StrArg ud, StrArg (Some ret), UIntArg cp, StrArg d, UIntArg dp,
      IntArg (sint (rg_status r))] = Inr (tabbed (access_fields env r u ip cp t dp) @ [10])"
  using assms by (simp add: access_format_def access_fields_def convert_def of_char_def)

lemma access_line:
  assumes "user_is r u" "c_text (Some date) = Inr (date_text (le_tm env))" "c_text (Some ret) = Inr ip" "c_text (Some d) = Inr t"
    "bindr (addr_port (rg_client_addr r)) ntohs = Inr cp" "ntohs (rg_dest_port r) = Inr dp"
  shows "line_text CHR ''A'' r date ret (Some d) = Inr (Some (tabbed (access_fields env r u ip cp t dp) @ [10]))"
  using assms(5,6) access_text [OF assms(2) user_text [OF assms(1)] assms(3,4), of cp dp r]
  by (simp add: line_text_def bindr_assoc [symmetric])

lemma sniff_text:
  assumes "c_text (Some date) = Inr (date_text (le_tm env))" "c_text ud = Inr u" "c_text d = Inr t" "c_text un = Inr name"
    "c_text pw = Inr pass"
  shows "printf_text sniff_format [StrArg (Some date), StrArg ud, StrArg d, UIntArg dp, StrArg un, StrArg pw] =
      Inr (tabbed (sniff_fields env u t dp name pass) @ [10])"
  using assms by (simp add: sniff_format_def sniff_fields_def convert_def of_char_def)

text \<open>Everything before \<^verbatim>\<open>snprintf\<close>.\<close>

lemma print_log_eq:
  assumes "tm_ok (le_tm env)" "le_malloc_ok env" "client_is env r ip cp" "dest_is env r t dp"
  obtains date ret d where "c_text (Some date) = Inr (date_text (le_tm env))" "c_text (Some ret) = Inr ip" "c_text (Some d) = Inr t"
    "bindr (addr_port (rg_client_addr r)) ntohs = Inr cp" "ntohs (rg_dest_port r) = Inr dp"
    "\<And>kind. print_log env (LogAt l) r kind s = bindr (line_text kind r date ret (Some d)) (\<lambda>text. store_line l text s)"
proof -
  obtain family ret rest where c: "sa_family (rg_client_addr r) = Inr family"
    "let len = (if family = AF_INET then INET_ADDRSTRLEN else INET6_ADDRSTRLEN) in
       ip_to_string env (rg_client_addr r) (array (le_junk env) ''ret'' len) len = Inr (True, ip @ 0 # rest)"
    "bindr (addr_port (rg_client_addr r)) ntohs = Inr cp" "0 \<notin> set ip"
    using client_text [OF assms(3)] by metis
  obtain d where d: "dest_addr_to_string env r = Inr (Some d)" "c_text (Some d) = Inr t" "ntohs (rg_dest_port r) = Inr dp"
    using dest_text [OF assms(4,2)] by metis
  show thesis
  proof (rule that [OF _ _ d(2) c(3) d(3)])
    show "c_text (Some (date_text (le_tm env) @ [0])) = Inr (date_text (le_tm env))" using date_text_chars by simp
    show "c_text (Some (ip @ 0 # rest)) = Inr ip" using c(4) by simp
    show "print_log env (LogAt l) r kind s =
        bindr (line_text kind r (date_text (le_tm env) @ [0]) (ip @ 0 # rest) (Some d)) (\<lambda>text. store_line l text s)" for kind
      using c(2) by (simp add: print_log_def date_to_string_ok [OF assms(1)] c(1) d(1) deref_logger_def get_data_logger_def Let_def)
  qed
qed

text \<open>A register, an environment and a new log to apply the properties to.\<close>

definition example_env :: log_env where
  "example_env = \<lparr>le_tm = \<lparr>tm_sec = 9, tm_min = 5, tm_hour = 10, tm_mday = 21, tm_mon = 5, tm_year = 122\<rparr>,
     le_ntop = (\<lambda>family p. if family = AF_INET then dec (unat (p ! 0)) @ 46 # dec (unat (p ! 1)) @ 46 # dec (unat (p ! 2)) @ 46 # dec (unat (p ! 3))
       else chars ''::1''),
     le_junk = (\<lambda>_ _. 7), le_malloc_ok = True\<rparr>"

definition example_register :: register_st where
  "example_register = \<lparr>rg_method = 2, rg_username = Some [117, 0], rg_status = 0, rg_atyp = 3,
     rg_client_addr = [2, 0, 18, 52, 10, 0, 0, 1] @ replicate 120 0, rg_dest_addr = 97 # replicate 255 0, rg_dest_port = [0, 110],
     rg_user = Some [98, 0], rg_passwd = Some [99, 0]\<rparr>"

definition example_logger :: logger where
  "example_logger = \<lparr>lg_write_buff = buffer_init \<lparr>b_data = [], b_limit = 0, b_read = 0, b_write = 0\<rparr> MAX_BUFF (replicate MAX_BUFF 0)\<rparr>"

lemma example_ok: "wf_buffer (lg_write_buff example_logger)" "tm_ok (le_tm example_env)" "le_malloc_ok example_env"
  "user_is example_register [117]" "client_is example_env example_register (chars ''10.0.0.1'') 4660"
  "dest_is example_env example_register [97] 110" "buf_room (lg_write_buff example_logger) = 2048"
proof -
  show "wf_buffer (lg_write_buff example_logger)" by (simp add: example_logger_def)
  show "buf_room (lg_write_buff example_logger) = 2048"
    by (simp add: example_logger_def buf_room_def buffer_init_def buffer_reset_def MAX_BUFF_def)
  show "tm_ok (le_tm example_env)" "le_malloc_ok example_env" by (simp_all add: example_env_def tm_ok_def)
  show "user_is example_register [117]"
    by (simp add: example_register_def user_is_def METHOD_NO_AUTHENTICATION_REQUIRED_def terminated_def)
  show "client_is example_env example_register (chars ''10.0.0.1'') 4660"
    by (simp add: example_env_def example_register_def client_is_def AF_INET_def AF_INET6_def INET_ADDRSTRLEN_def of_char_def dec.simps)
  have "c_str (97 # replicate 254 0) = [97]" by (simp add: c_str_def takeWhile_replicate)
  then show "dest_is example_env example_register [97] 110"
    by (simp add: example_register_def dest_is_def sizeof_defs terminated_def)
qed

lemma example_date: "date_text (le_tm example_env) = chars ''2022-06-21T10:05:09Z''"
  by (simp add: example_env_def date_text_def dec_int_def two_digits_def dec.simps of_char_def)

lemma example_sel:
  obtains s :: sel and st s' where "selector_set_interest s 1 OP_WRITE = Inr (st, s')"
proof -
  obtain s :: sel where s: "1 < sel_fd_size s" "sel_map s = Map.empty" "wf_selector s"
    using new_wf [of 1] by (auto simp: ITEMS_MAX_SIZE_def)
  have "\<not> used_at s 1" using s(2) by (metis option.distinct(1) sel_map_def)
  then show thesis using set_interest_unused [OF s(3) _ s(1)] that by force
qed

section \<open>Properties\<close>

text \<open>
  C27: a connection is logged as one line. With a register of a user, a client and a destination that have
  their notations, and room for the line and a NUL, \<^const>\<open>log_access\<close> appends one line to the log. Cut at
  its tabs the line gives back exactly the date, the user, the mark of an access, the
  addresses and ports of both sides in decimal, and the status. The fields are those \<^verbatim>\<open>socks5d.8\<close> documents, in its
  order, but for the spelling of two: the date is in brackets and the status has the prefix \<^verbatim>\<open>status=\<close> in the code, and stand
  bare in the document.
\<close>

theorem access_line_logged:
  assumes "wf_buffer (lg_write_buff l)" "tm_ok (le_tm env)" "le_malloc_ok env"
    and "user_is r u" "client_is env r ip cp" "dest_is env r t dp"
    and "9 \<notin> set u" "9 \<notin> set ip" "9 \<notin> set t"
    and "length (tabbed (access_fields env r u ip cp t dp)) + 1 < buf_room (lg_write_buff l)"
    and "selector_set_interest s 1 OP_WRITE = Inr (st, s')"
  shows "\<exists>l' line. log_access env (LogAt l) r s = Inr (LogAt l', s') \<and> wf_buffer (lg_write_buff l') \<and>
    buf_content (lg_write_buff l') = buf_content (lg_write_buff l) @ line @ [10] \<and>
    split_tabs line = access_fields env r u ip cp t dp"
proof -
  obtain date ret d where p: "c_text (Some date) = Inr (date_text (le_tm env))" "c_text (Some ret) = Inr ip" "c_text (Some d) = Inr t"
    "bindr (addr_port (rg_client_addr r)) ntohs = Inr cp" "ntohs (rg_dest_port r) = Inr dp"
    "\<And>kind. print_log env (LogAt l) r kind s = bindr (line_text kind r date ret (Some d)) (\<lambda>text. store_line l text s)"
    using print_log_eq [OF assms(2,3,5,6)] by metis
  let ?line = "tabbed (access_fields env r u ip cp t dp)"
  have "line_text CHR ''A'' r date ret (Some d) = Inr (Some (?line @ [10]))"
    using access_line [OF assms(4) p(1-5)] .
  moreover have "split_tabs ?line = access_fields env r u ip cp t dp"
    using assms(7-9) date_text_chars dec_chars dec_int_chars by (intro split_tabbed) (simp_all add: access_fields_def of_char_def)
  ultimately show ?thesis
    using p(6) store_line_appends [OF assms(1) _ assms(11), of "?line @ [10]"] assms(10) by (simp add: log_access_def) blast
qed

theorem access_line_logged_witness:
  "\<exists>s l' s' line. log_access example_env (LogAt example_logger) example_register s = Inr (LogAt l', s') \<and>
     buf_content (lg_write_buff l') = line @ [10] \<and>
     split_tabs line = map chars [''[2022-06-21T10:05:09Z]'', ''u'', ''A'', ''10.0.0.1'', ''4660'', ''a'', ''110'', ''status=0'']"
proof -
  obtain s :: sel and st s' where s: "selector_set_interest s 1 OP_WRITE = Inr (st, s')" by (rule example_sel)
  have f: "access_fields example_env example_register [117] (chars ''10.0.0.1'') 4660 [97] 110 =
      map chars [''[2022-06-21T10:05:09Z]'', ''u'', ''A'', ''10.0.0.1'', ''4660'', ''a'', ''110'', ''status=0'']"
    by (simp add: access_fields_def example_date example_register_def dec.simps dec_int_def of_char_def)
  have e: "buf_content (lg_write_buff example_logger) = []" by (simp add: example_logger_def MAX_BUFF_def)
  show ?thesis
    using access_line_logged [OF example_ok(1-6) _ _ _ _ s, unfolded f e example_ok(7)] by (simp add: of_char_def) blast
qed

text \<open>
  A sniffed login is logged as one line, under the same conditions. Cut at its tabs the line gives back the
  date, the user, the mark of the sniffer, the destination and its port, and the two names of the register.
\<close>

theorem sniff_line_logged:
  assumes "wf_buffer (lg_write_buff l)" "tm_ok (le_tm env)" "le_malloc_ok env"
    and "user_is r u" "client_is env r ip cp" "dest_is env r t dp"
    and "rg_user r = Some un" "terminated un" "rg_passwd r = Some pw" "terminated pw"
    and "9 \<notin> set u" "9 \<notin> set t" "9 \<notin> set (c_str un)" "9 \<notin> set (c_str pw)"
    and "length (tabbed (sniff_fields env u t dp (c_str un) (c_str pw))) + 1 < buf_room (lg_write_buff l)"
    and "selector_set_interest s 1 OP_WRITE = Inr (st, s')"
  shows "\<exists>l' line. log_sniff env (LogAt l) r s = Inr (LogAt l', s') \<and> wf_buffer (lg_write_buff l') \<and>
    buf_content (lg_write_buff l') = buf_content (lg_write_buff l) @ line @ [10] \<and>
    split_tabs line = sniff_fields env u t dp (c_str un) (c_str pw)"
proof -
  obtain date ret d where p: "c_text (Some date) = Inr (date_text (le_tm env))" "c_text (Some d) = Inr t"
    "ntohs (rg_dest_port r) = Inr dp"
    "\<And>kind. print_log env (LogAt l) r kind s = bindr (line_text kind r date ret (Some d)) (\<lambda>text. store_line l text s)"
    using print_log_eq [OF assms(2,3,5,6)] by metis
  let ?line = "tabbed (sniff_fields env u t dp (c_str un) (c_str pw))"
  have "line_text CHR ''P'' r date ret (Some d) = Inr (Some (?line @ [10]))"
    using sniff_text [OF p(1) user_text [OF assms(4)] p(2) c_text_is [OF assms(8)] c_text_is [OF assms(10)], of dp]
    by (simp add: line_text_def p(3) assms(7,9))
  moreover have "split_tabs ?line = sniff_fields env u t dp (c_str un) (c_str pw)"
    using assms(11-14) date_text_chars dec_chars by (intro split_tabbed) (simp_all add: sniff_fields_def of_char_def)
  ultimately show ?thesis
    using p(4) store_line_appends [OF assms(1) _ assms(16), of "?line @ [10]"] assms(15) by (simp add: log_sniff_def) blast
qed

theorem sniff_line_logged_witness:
  "\<exists>s l' s' line. log_sniff example_env (LogAt example_logger) example_register s = Inr (LogAt l', s') \<and>
     buf_content (lg_write_buff l') = line @ [10] \<and>
     split_tabs line = map chars [''[2022-06-21T10:05:09Z]'', ''u'', ''POP3'', ''a'', ''110'', ''b'', ''c'']"
proof -
  obtain s :: sel and st s' where s: "selector_set_interest s 1 OP_WRITE = Inr (st, s')" by (rule example_sel)
  have f: "sniff_fields example_env [117] [97] 110 [98] [99] =
      map chars [''[2022-06-21T10:05:09Z]'', ''u'', ''POP3'', ''a'', ''110'', ''b'', ''c'']"
    by (simp add: sniff_fields_def example_date dec.simps of_char_def)
  have e: "buf_content (lg_write_buff example_logger) = []" by (simp add: example_logger_def MAX_BUFF_def)
  have r: "rg_user example_register = Some [98, 0]" "terminated [98, 0 :: u8]" "rg_passwd example_register = Some [99, 0]"
    "terminated [99, 0 :: u8]" by (simp_all add: example_register_def terminated_def)
  show ?thesis
    using sniff_line_logged [OF example_ok(1-6) r _ _ _ _ _ s] by (simp add: f [simplified] e example_ok(7)) blast
qed

text \<open>
  C29: the log never grows past its buffer, and a line without room for itself and a NUL is cut: what is
  appended is the beginning of the line and the NUL that \<^verbatim>\<open>snprintf\<close> wrote, which fill the buffer.
\<close>

theorem full_log_cuts_line:
  assumes "wf_buffer (lg_write_buff l)" "tm_ok (le_tm env)" "le_malloc_ok env"
    and "user_is r u" "client_is env r ip cp" "dest_is env r t dp"
    and "0 < buf_room (lg_write_buff l)"
    and "buf_room (lg_write_buff l) \<le> length (tabbed (access_fields env r u ip cp t dp)) + 1"
    and "selector_set_interest s 1 OP_WRITE = Inr (st, s')"
  shows "\<exists>l'. log_access env (LogAt l) r s = Inr (LogAt l', s') \<and> wf_buffer (lg_write_buff l') \<and>
    buf_content (lg_write_buff l') = buf_content (lg_write_buff l) @
      take (buf_room (lg_write_buff l) - 1) (tabbed (access_fields env r u ip cp t dp)) @ [0]"
proof -
  obtain date ret d where p: "c_text (Some date) = Inr (date_text (le_tm env))" "c_text (Some ret) = Inr ip" "c_text (Some d) = Inr t"
    "bindr (addr_port (rg_client_addr r)) ntohs = Inr cp" "ntohs (rg_dest_port r) = Inr dp"
    "\<And>kind. print_log env (LogAt l) r kind s = bindr (line_text kind r date ret (Some d)) (\<lambda>text. store_line l text s)"
    using print_log_eq [OF assms(2,3,5,6)] by metis
  let ?line = "tabbed (access_fields env r u ip cp t dp)"
  have "line_text CHR ''A'' r date ret (Some d) = Inr (Some (?line @ [10]))"
    using access_line [OF assms(4) p(1-5)] .
  then show ?thesis
    using p(6) store_line_truncates [OF assms(1,7) _ assms(9), of "?line @ [10]"] assms(8) by (simp add: log_access_def)
qed

theorem full_log_cuts_line_witness:
  "\<exists>s l l' s'. length (b_data (lg_write_buff l)) = 5 \<and> log_access example_env (LogAt l) example_register s = Inr (LogAt l', s') \<and>
     buf_content (lg_write_buff l') = chars ''[202'' @ [0]"
proof -
  obtain s :: sel and st s' where s: "selector_set_interest s 1 OP_WRITE = Inr (st, s')" by (rule example_sel)
  let ?l = "\<lparr>lg_write_buff = \<lparr>b_data = replicate 5 0, b_limit = 5, b_read = 0, b_write = 0\<rparr>\<rparr>"
  have f: "access_fields example_env example_register [117] (chars ''10.0.0.1'') 4660 [97] 110 =
      map chars [''[2022-06-21T10:05:09Z]'', ''u'', ''A'', ''10.0.0.1'', ''4660'', ''a'', ''110'', ''status=0'']"
    by (simp add: access_fields_def example_date example_register_def dec.simps dec_int_def of_char_def)
  have l: "wf_buffer (lg_write_buff ?l)" "buf_room (lg_write_buff ?l) = 5" "buf_content (lg_write_buff ?l) = []"
    by (simp_all add: wf_buffer_def buf_room_def buf_content_def)
  obtain l' where "log_access example_env (LogAt ?l) example_register s = Inr (LogAt l', s')"
    "buf_content (lg_write_buff l') = chars ''[202'' @ [0]"
    using full_log_cuts_line [OF l(1) example_ok(2-6) _ _ s, unfolded f l] by (auto simp: of_char_def)
  then show ?thesis by (intro exI [of _ s] exI [of _ ?l] exI [of _ l'] exI [of _ s']) simp
qed

text \<open>The log is never created, so a line that is logged writes through a null pointer.\<close>

lemma log_never_created:
  assumes "tm_ok (le_tm env)" "le_malloc_ok env" "client_is env r ip cp" "dest_is env r t dp"
  shows "log_access env logger_data r s = Inl NullPointer"
proof -
  obtain family ret rest where c: "sa_family (rg_client_addr r) = Inr family"
    "let len = (if family = AF_INET then INET_ADDRSTRLEN else INET6_ADDRSTRLEN) in
       ip_to_string env (rg_client_addr r) (array (le_junk env) ''ret'' len) len = Inr (True, ip @ 0 # rest)"
    using client_text [OF assms(3)] by metis
  obtain d where "dest_addr_to_string env r = Inr (Some d)" using dest_text [OF assms(4,2)] by metis
  with c date_to_string_ok [OF assms(1)] show ?thesis
    by (simp add: log_access_def print_log_def logger_data_def deref_logger_def get_data_logger_def Let_def)
qed

end
