(* ===== verification/Pop3sniff.thy ===== *)
theory Pop3sniff
  imports Register
begin

text \<open>
  The POP3 credential sniffer: \<^verbatim>\<open>src/pop3sniff.c\<close> and the types of \<^verbatim>\<open>include/socks5utils.h\<close> it uses.

  The file holds the remains of a merge: a head of \<^verbatim>\<open>sniffer\<close> with four parameters before the one with
  five (line 39), and calls with four arguments before those with five (lines 118 and 125). The model has
  the function and the calls with five; the earlier assignments to \<^verbatim>\<open>state\<close> in its body are overwritten
  by the last one. Messages on the standard output are left out.
\<close>

section \<open>State\<close>

definition MAX_SIZE_USER :: nat where "MAX_SIZE_USER = 255"
definition MAX_BUFFER_POP3_SIZE :: nat where "MAX_BUFFER_POP3_SIZE = 4096"

definition POP3_INITIAL :: u32 where "POP3_INITIAL = 0"
definition POP3_USER :: u32 where "POP3_USER = 1"
definition POP3_READ_USER :: u32 where "POP3_READ_USER = 2"
definition POP3_PASSWORD :: u32 where "POP3_PASSWORD = 3"
definition POP3_READ_PASSWORD :: u32 where "POP3_READ_PASSWORD = 4"
definition POP3_CHECK :: u32 where "POP3_CHECK = 5"
definition POP3_SUCCESS :: u32 where "POP3_SUCCESS = 6"
definition POP3_DONE :: u32 where "POP3_DONE = 7"

lemmas pop3_states = POP3_INITIAL_def POP3_USER_def POP3_READ_USER_def POP3_PASSWORD_def
  POP3_READ_PASSWORD_def POP3_CHECK_def POP3_SUCCESS_def POP3_DONE_def

text \<open>The raw buffer is the block of the buffer once \<open>pop3_init\<close> has run.\<close>

record pop3_sniff =
  sn_state :: u32
  sn_buffer :: buffer
  sn_username :: "u8 list"
  sn_password :: "u8 list"
  sn_read :: u8
  sn_remaining :: u8
  sn_check_read :: u8
  sn_check_remaining :: u8
  sn_parsing :: bool

definition pop3_OK :: "u8 list" where "pop3_OK = c_lit ''+OK''"
definition USER :: "u8 list" where "USER = c_lit ''USER ''"
definition PASSWORD :: "u8 list" where "PASSWORD = c_lit ''PASS ''"
definition ERROR_SNIFF :: "u8 list" where "ERROR_SNIFF = c_lit ''-ERR''"

text \<open>\<^verbatim>\<open>tolower\<close> in the C locale.\<close>

definition tolower :: "u8 \<Rightarrow> u8" where
  "tolower c = (if 65 \<le> c \<and> c \<le> 90 then c + 32 else c)"

section \<open>Operations\<close>

definition reset_sniff :: "pop3_sniff \<Rightarrow> u8 \<Rightarrow> pop3_sniff" where
  "reset_sniff s left = s\<lparr>sn_read := 0, sn_remaining := left\<rparr>"

definition strlen8 :: "u8 list \<Rightarrow> u8" where
  "strlen8 d = of_nat (length (c_str d))"

definition pop3_init :: "pop3_sniff \<Rightarrow> pop3_sniff" where
  "pop3_init s = s\<lparr>sn_state := POP3_INITIAL,
     sn_buffer := buffer_init (sn_buffer s) MAX_BUFFER_POP3_SIZE (replicate MAX_BUFFER_POP3_SIZE 0),
     sn_read := 0, sn_remaining := strlen8 pop3_OK, sn_parsing := True\<rparr>"

definition initial_msg :: "pop3_sniff \<Rightarrow> u8 \<Rightarrow> (u32 \<times> pop3_sniff) res" where
  "initial_msg s b =
     bindr (peek_at pop3_OK (unat (sn_read s))) (\<lambda>c.
     if tolower b = tolower c then
       let s1 = s\<lparr>sn_read := sn_read s + 1, sn_remaining := sn_remaining s - 1\<rparr> in
       if sn_remaining s1 = 0
       then Inr (POP3_USER, s1\<lparr>sn_read := 0, sn_remaining := strlen8 USER\<rparr>)
       else Inr (POP3_INITIAL, s1)
     else Inr (POP3_DONE, s))"

definition sniffer :: "pop3_sniff \<Rightarrow> u8 \<Rightarrow> u8 list \<Rightarrow> u32 \<Rightarrow> u32 \<Rightarrow> (u32 \<times> pop3_sniff) res" where
  "sniffer s b sniffing initial_state next_state =
     bindr (peek_at sniffing (unat (sn_read s))) (\<lambda>c.
     if tolower b = tolower c then
       let s1 = s\<lparr>sn_read := sn_read s + 1, sn_remaining := sn_remaining s - 1\<rparr> in
       if sn_remaining s1 = 0 then Inr (next_state, s1\<lparr>sn_read := 0\<rparr>) else Inr (initial_state, s1)
     else if sn_read s \<noteq> 0 then Inr (initial_state, reset_sniff s (strlen8 sniffing))
     else Inr (initial_state, s))"

definition read_user :: "pop3_sniff \<Rightarrow> u8 \<Rightarrow> (u32 \<times> pop3_sniff) res" where
  "read_user s b =
     (if b \<noteq> 10 then
        if unat (sn_read s) < MAX_SIZE_USER
        then bindr (poke_at (sn_username s) (unat (sn_read s)) b) (\<lambda>d.
             Inr (POP3_READ_USER, s\<lparr>sn_username := d, sn_read := sn_read s + 1\<rparr>))
        else Inr (POP3_READ_USER, s)
      else bindr (poke_at (sn_username s) (unat (sn_read s)) 0) (\<lambda>d.
           Inr (POP3_PASSWORD, s\<lparr>sn_username := d, sn_read := 0, sn_remaining := strlen8 PASSWORD,
                sn_check_read := 0, sn_check_remaining := strlen8 ERROR_SNIFF\<rparr>)))"

definition read_password :: "pop3_sniff \<Rightarrow> u8 \<Rightarrow> (u32 \<times> pop3_sniff) res" where
  "read_password s b =
     (if b \<noteq> 10 then
        if unat (sn_read s) < MAX_SIZE_USER
        then bindr (poke_at (sn_password s) (unat (sn_read s)) b) (\<lambda>d.
             Inr (POP3_READ_PASSWORD, s\<lparr>sn_password := d, sn_read := sn_read s + 1\<rparr>))
        else Inr (POP3_READ_PASSWORD, s)
      else bindr (poke_at (sn_password s) (unat (sn_read s)) 0) (\<lambda>d.
           Inr (POP3_CHECK, s\<lparr>sn_password := d, sn_read := 0, sn_check_read := 0\<rparr>)))"

definition check_sniff :: "pop3_sniff \<Rightarrow> u8 \<Rightarrow> (u32 \<times> pop3_sniff) res" where
  "check_sniff s b =
     bindr (peek_at pop3_OK (unat (sn_read s))) (\<lambda>c.
     if tolower b = tolower c then
       let s1 = s\<lparr>sn_read := sn_read s + 1\<rparr> in
       Inr (if sn_read s1 = strlen8 pop3_OK then POP3_SUCCESS else POP3_CHECK, s1)
     else bindr (peek_at ERROR_SNIFF (unat (sn_check_read s))) (\<lambda>c'.
       if tolower b = tolower c' then
         let s1 = s\<lparr>sn_check_read := sn_check_read s + 1\<rparr> in
         Inr (if sn_check_read s1 = strlen8 ERROR_SNIFF then POP3_USER else POP3_CHECK, s1)
       else Inr (POP3_CHECK, s)))"

definition pop3_parse :: "pop3_sniff \<Rightarrow> u8 \<Rightarrow> pop3_sniff res" where
  "pop3_parse s b =
     (let st = sn_state s; set = (\<lambda>(st', s'). Inr (s'\<lparr>sn_state := st'\<rparr>)) in
      if st = POP3_INITIAL then bindr (initial_msg s b) set
      else if st = POP3_USER then bindr (sniffer s b USER POP3_USER POP3_READ_USER) set
      else if st = POP3_READ_USER then bindr (read_user s b) set
      else if st = POP3_PASSWORD then bindr (sniffer s b PASSWORD POP3_PASSWORD POP3_READ_PASSWORD) set
      else if st = POP3_READ_PASSWORD then bindr (read_password s b) set
      else if st = POP3_CHECK then bindr (check_sniff s b) set
      else Inr s)"

definition pop3_done :: "pop3_sniff \<Rightarrow> bool" where
  "pop3_done s \<longleftrightarrow> sn_state s = POP3_DONE \<or> sn_state s = POP3_SUCCESS"

definition pop3_parsing :: "pop3_sniff \<Rightarrow> bool" where
  "pop3_parsing s = sn_parsing s"

text \<open>
  The loop is that of the message parsers, on the sniffer's own buffer. After a successful login the
  names are copied through the register's pointers and a line is written to the log.
\<close>

definition pop3_consume ::
  "log_env \<Rightarrow> logger_ptr \<Rightarrow> pop3_sniff \<Rightarrow> register_st \<Rightarrow> sel
     \<Rightarrow> (u32 \<times> pop3_sniff \<times> register_st \<times> logger_ptr \<times> sel) res" where
  "pop3_consume env data s logger sl =
     bindr (consume_loop pop3_parse (\<lambda>s e. (pop3_done s, e)) (sn_buffer s) s False (pop3_done s)) (\<lambda>(buf, s1, _).
     let s2 = s1\<lparr>sn_buffer := buf\<rparr> in
     if sn_state s2 = POP3_SUCCESS then
       bindr (the_ptr (rg_user logger)) (\<lambda>u.
       bindr (c_strcpy u 0 (sn_username s2)) (\<lambda>u1.
       bindr (the_ptr (rg_passwd logger)) (\<lambda>p.
       bindr (c_strcpy p 0 (sn_password s2)) (\<lambda>p1.
       let logger1 = logger\<lparr>rg_user := Some u1, rg_passwd := Some p1\<rparr> in
       bindr (log_sniff env data logger1 sl) (\<lambda>(data1, sl1). Inr (sn_state s2, s2, logger1, data1, sl1))))))
     else Inr (sn_state s2, s2, logger, data, sl))"

section \<open>The sniffer as a byte parser\<close>

definition pop3_inv :: "pop3_sniff \<Rightarrow> bool" where
  "pop3_inv s \<longleftrightarrow> length (sn_username s) = MAX_SIZE_USER \<and> length (sn_password s) = MAX_SIZE_USER"

lemma lit_simps: "pop3_OK = [43, 79, 75, 0]" "USER = [85, 83, 69, 82, 32, 0]" "PASSWORD = [80, 65, 83, 83, 32, 0]"
    "ERROR_SNIFF = [45, 69, 82, 82, 0]"
  by (simp_all add: pop3_OK_def USER_def PASSWORD_def ERROR_SNIFF_def c_lit_def of_char_def)

lemma pop3_parse_inv: "pop3_inv s \<Longrightarrow> pop3_parse s b = Inr s' \<Longrightarrow> pop3_inv s'"
  by (auto simp: pop3_parse_def initial_msg_def sniffer_def read_user_def read_password_def check_sniff_def
      reset_sniff_def pop3_inv_def res_simps Let_def split: if_splits)

interpretation pop3: byte_parser pop3_parse "\<lambda>s e. (pop3_done s, e)" pop3_done "\<lambda>s. False" pop3_inv
  by unfold_locales (auto intro: pop3_parse_inv)

abbreviation pop3_feed_all :: "pop3_sniff \<Rightarrow> u8 list \<Rightarrow> (pop3_sniff \<times> u8 list) res" where
  "pop3_feed_all \<equiv> feed_all pop3_parse pop3_done"

text \<open>Bytes that do not start the word looked for change nothing.\<close>

lemma sniffer_skips:
  assumes "sn_state s = POP3_USER \<and> c = 85 \<or> sn_state s = POP3_PASSWORD \<and> c = 80" "sn_read s = 0"
    "\<forall>b \<in> set junk. tolower b \<noteq> tolower c"
  shows "pop3_feed_all s (junk @ rest) = pop3_feed_all s rest"
  using assms(3)
proof (induction junk)
  case (Cons b junk)
  have "s\<lparr>sn_state := sn_state s\<rparr> = s" by simp
  then have "pop3_parse s b = Inr s"
    using assms(1,2) Cons.prems by (auto simp: pop3_parse_def sniffer_def lit_simps pop3_states)
  moreover have "\<not> pop3_done s" using assms(1) by (auto simp: pop3_done_def pop3_states)
  ultimately show ?case using Cons by simp
qed simp

text \<open>A name up to the end of its line.\<close>

definition line_block :: "u8 list \<Rightarrow> u8 list \<Rightarrow> u8 list" where
  "line_block n d = n @ 0 # drop (Suc (length n)) d"

lemma read_user_line:
  assumes "sn_state s = POP3_READ_USER" "10 \<notin> set n" "unat (sn_read s) + length n < 255" "length (sn_username s) = 255"
  shows "pop3_feed_all s (n @ 10 # rest) =
    pop3_feed_all (s\<lparr>sn_state := POP3_PASSWORD,
      sn_username := take (unat (sn_read s)) (sn_username s) @ line_block n (drop (unat (sn_read s)) (sn_username s)),
      sn_read := 0, sn_remaining := 5, sn_check_read := 0, sn_check_remaining := 4\<rparr>) rest"
  using assms
proof (induction n arbitrary: s)
  case Nil
  let ?s = "s\<lparr>sn_state := POP3_PASSWORD,
      sn_username := take (unat (sn_read s)) (sn_username s) @ line_block [] (drop (unat (sn_read s)) (sn_username s)),
      sn_read := 0, sn_remaining := 5, sn_check_read := 0, sn_check_remaining := 4\<rparr>"
  have "pop3_parse s 10 = Inr ?s"
    using Nil by (cases s) (simp add: pop3_parse_def read_user_def pop3_states strlen8_def lit_simps line_block_def
        upd_conv_take_nth_drop)
  moreover have "\<not> pop3_done ?s" by (simp add: pop3_done_def pop3_states)
  ultimately show ?case by simp
next
  case (Cons b n)
  let ?s = "s\<lparr>sn_username := (sn_username s)[unat (sn_read s) := b], sn_read := sn_read s + 1\<rparr>"
  have i: "unat (sn_read s + 1) = Suc (unat (sn_read s))" using Cons.prems(3) by (intro unat_inc_u8) simp
  have "pop3_parse s b = Inr ?s"
    using Cons.prems by (cases s) (simp add: pop3_parse_def read_user_def MAX_SIZE_USER_def pop3_states)
  moreover have "\<not> pop3_done ?s" using Cons.prems(1) by (simp add: pop3_done_def pop3_states)
  moreover have "take (Suc (unat (sn_read s))) ((sn_username s)[unat (sn_read s) := b]) = take (unat (sn_read s)) (sn_username s) @ [b]"
    using Cons.prems(3,4) by (intro take_list_update_snoc) simp
  ultimately show ?case
    using Cons.IH [of ?s] Cons.prems i by (simp add: line_block_def Suc_diff_le)
qed

lemma read_password_line:
  assumes "sn_state s = POP3_READ_PASSWORD" "10 \<notin> set n" "unat (sn_read s) + length n < 255" "length (sn_password s) = 255"
  shows "pop3_feed_all s (n @ 10 # rest) =
    pop3_feed_all (s\<lparr>sn_state := POP3_CHECK,
      sn_password := take (unat (sn_read s)) (sn_password s) @ line_block n (drop (unat (sn_read s)) (sn_password s)),
      sn_read := 0, sn_check_read := 0\<rparr>) rest"
  using assms
proof (induction n arbitrary: s)
  case Nil
  let ?s = "s\<lparr>sn_state := POP3_CHECK,
      sn_password := take (unat (sn_read s)) (sn_password s) @ line_block [] (drop (unat (sn_read s)) (sn_password s)),
      sn_read := 0, sn_check_read := 0\<rparr>"
  have "pop3_parse s 10 = Inr ?s"
    using Nil by (cases s) (simp add: pop3_parse_def read_password_def pop3_states line_block_def upd_conv_take_nth_drop)
  moreover have "\<not> pop3_done ?s" by (simp add: pop3_done_def pop3_states)
  ultimately show ?case by simp
next
  case (Cons b n)
  let ?s = "s\<lparr>sn_password := (sn_password s)[unat (sn_read s) := b], sn_read := sn_read s + 1\<rparr>"
  have i: "unat (sn_read s + 1) = Suc (unat (sn_read s))" using Cons.prems(3) by (intro unat_inc_u8) simp
  have "pop3_parse s b = Inr ?s"
    using Cons.prems by (cases s) (simp add: pop3_parse_def read_password_def MAX_SIZE_USER_def pop3_states)
  moreover have "\<not> pop3_done ?s" using Cons.prems(1) by (simp add: pop3_done_def pop3_states)
  moreover have "take (Suc (unat (sn_read s))) ((sn_password s)[unat (sn_read s) := b]) = take (unat (sn_read s)) (sn_password s) @ [b]"
    using Cons.prems(3,4) by (intro take_list_update_snoc) simp
  ultimately show ?case
    using Cons.IH [of ?s] Cons.prems i by (simp add: line_block_def Suc_diff_le)
qed

text \<open>One byte in each state.\<close>

abbreviation set_state :: "u32 \<times> pop3_sniff \<Rightarrow> pop3_sniff res" where
  "set_state \<equiv> \<lambda>(st', s'). Inr (s'\<lparr>sn_state := st'\<rparr>)"

lemma pop3_parse_state:
  "sn_state s = POP3_INITIAL \<Longrightarrow> pop3_parse s b = bindr (initial_msg s b) set_state"
  "sn_state s = POP3_USER \<Longrightarrow> pop3_parse s b = bindr (sniffer s b USER POP3_USER POP3_READ_USER) set_state"
  "sn_state s = POP3_PASSWORD \<Longrightarrow>
     pop3_parse s b = bindr (sniffer s b PASSWORD POP3_PASSWORD POP3_READ_PASSWORD) set_state"
  "sn_state s = POP3_CHECK \<Longrightarrow> pop3_parse s b = bindr (check_sniff s b) set_state"
  by (simp_all add: pop3_parse_def pop3_states)

lemma pop3_done_state:
  "sn_state s = POP3_INITIAL \<or> sn_state s = POP3_USER \<or> sn_state s = POP3_READ_USER \<or> sn_state s = POP3_PASSWORD \<or>
     sn_state s = POP3_READ_PASSWORD \<or> sn_state s = POP3_CHECK \<Longrightarrow> \<not> pop3_done s"
  "sn_state s = POP3_SUCCESS \<Longrightarrow> pop3_done s"
  by (auto simp: pop3_done_def pop3_states)

lemmas pop3_step = pop3_parse_state pop3_done_state initial_msg_def sniffer_def check_sniff_def lit_simps
  strlen8_def tolower_def

text \<open>The words the sniffer looks for.\<close>

lemma feed_greeting:
  "sn_state s = POP3_INITIAL \<Longrightarrow> sn_read s = 0 \<Longrightarrow> sn_remaining s = 3 \<Longrightarrow>
     pop3_feed_all s ([43, 79, 75] @ rest) =
       pop3_feed_all (s\<lparr>sn_state := POP3_USER, sn_read := 0, sn_remaining := 5\<rparr>) rest"
  by (cases s) (simp add: pop3_step)

lemma feed_USER:
  "sn_state s = POP3_USER \<Longrightarrow> sn_read s = 0 \<Longrightarrow> sn_remaining s = 5 \<Longrightarrow>
     pop3_feed_all s ([85, 83, 69, 82, 32] @ rest) =
       pop3_feed_all (s\<lparr>sn_state := POP3_READ_USER, sn_read := 0, sn_remaining := 0\<rparr>) rest"
  by (cases s) (simp add: pop3_step)

lemma feed_PASS:
  "sn_state s = POP3_PASSWORD \<Longrightarrow> sn_read s = 0 \<Longrightarrow> sn_remaining s = 5 \<Longrightarrow>
     pop3_feed_all s ([80, 65, 83, 83, 32] @ rest) =
       pop3_feed_all (s\<lparr>sn_state := POP3_READ_PASSWORD, sn_read := 0, sn_remaining := 0\<rparr>) rest"
  by (cases s) (simp add: pop3_step)

lemma feed_OK:
  "sn_state s = POP3_CHECK \<Longrightarrow> sn_read s = 0 \<Longrightarrow>
     pop3_feed_all s ([43, 79, 75] @ rest) = Inr (s\<lparr>sn_state := POP3_SUCCESS, sn_read := 3\<rparr>, rest)"
  by (cases s) (simp add: pop3_step)

text \<open>The bytes of a login: greeting, \<^verbatim>\<open>USER\<close>, \<^verbatim>\<open>PASS\<close> and the server's consent, with other lines between.\<close>

definition pop3_login :: "u8 list \<Rightarrow> u8 list \<Rightarrow> u8 list \<Rightarrow> u8 list \<Rightarrow> u8 list" where
  "pop3_login junk1 name junk2 pass =
     [43, 79, 75] @ junk1 @ [85, 83, 69, 82, 32] @ name @ [10] @ junk2 @ [80, 65, 83, 83, 32] @ pass @ [10] @ [43, 79, 75]"

lemma feed_login:
  assumes "pop3_inv s" "10 \<notin> set name" "10 \<notin> set pass" "length name < 255" "length pass < 255"
    "\<forall>b \<in> set junk1. tolower b \<noteq> tolower 85" "\<forall>b \<in> set junk2. tolower b \<noteq> tolower 80"
  shows "\<exists>s'. pop3_feed_all ((pop3_init s)\<lparr>sn_buffer := b\<rparr>) (pop3_login junk1 name junk2 pass @ rest) = Inr (s', rest) \<and>
    sn_state s' = POP3_SUCCESS \<and> sn_username s' = line_block name (sn_username s) \<and>
    sn_password s' = line_block pass (sn_password s)"
proof -
  have len: "length (sn_username s) = 255" "length (sn_password s) = 255"
    using assms(1) by (simp_all add: pop3_inv_def MAX_SIZE_USER_def)
  let ?s0 = "(pop3_init s)\<lparr>sn_buffer := b\<rparr>"
  let ?s1 = "?s0\<lparr>sn_state := POP3_USER, sn_read := 0, sn_remaining := 5\<rparr>"
  let ?s2 = "?s1\<lparr>sn_state := POP3_READ_USER, sn_read := 0, sn_remaining := 0\<rparr>"
  let ?s3 = "?s2\<lparr>sn_state := POP3_PASSWORD, sn_username := line_block name (sn_username s),
    sn_read := 0, sn_remaining := 5, sn_check_read := 0, sn_check_remaining := 4\<rparr>"
  let ?s4 = "?s3\<lparr>sn_state := POP3_READ_PASSWORD, sn_read := 0, sn_remaining := 0\<rparr>"
  let ?s5 = "?s4\<lparr>sn_state := POP3_CHECK, sn_password := line_block pass (sn_password s), sn_read := 0, sn_check_read := 0\<rparr>"
  let ?r5 = "[43, 79, 75] @ rest" and ?r4 = "pass @ 10 # [43, 79, 75] @ rest"
  let ?r3 = "[80, 65, 83, 83, 32] @ ?r4" and ?r2 = "name @ 10 # junk2 @ [80, 65, 83, 83, 32] @ ?r4"
  have "pop3_feed_all ?s0 (pop3_login junk1 name junk2 pass @ rest) =
      pop3_feed_all ?s1 (junk1 @ [85, 83, 69, 82, 32] @ ?r2)"
    using feed_greeting [of ?s0] by (simp add: pop3_login_def pop3_init_def strlen8_def lit_simps del: feed_all.simps)
  also have "\<dots> = pop3_feed_all ?s1 ([85, 83, 69, 82, 32] @ ?r2)"
    by (rule sniffer_skips [where c = 85]) (use assms(6) in simp_all)
  also have "\<dots> = pop3_feed_all ?s2 ?r2" by (rule feed_USER) simp_all
  also have "\<dots> = pop3_feed_all ?s3 (junk2 @ ?r3)"
    using read_user_line [of ?s2 name "junk2 @ ?r3"] assms(2,4) len(1) by (simp add: pop3_init_def del: feed_all.simps)
  also have "\<dots> = pop3_feed_all ?s3 ?r3"
    by (rule sniffer_skips [where c = 80]) (use assms(7) in simp_all)
  also have "\<dots> = pop3_feed_all ?s4 ?r4" by (rule feed_PASS) simp_all
  also have "\<dots> = pop3_feed_all ?s5 ?r5"
    using read_password_line [of ?s4 pass ?r5] assms(3,5) len(2) by (simp add: pop3_init_def del: feed_all.simps)
  also have "\<dots> = Inr (?s5\<lparr>sn_state := POP3_SUCCESS, sn_read := 3\<rparr>, rest)" by (rule feed_OK) simp_all
  finally show ?thesis by (intro exI [of _ "?s5\<lparr>sn_state := POP3_SUCCESS, sn_read := 3\<rparr>"]) simp
qed

lemma line_block_str: "0 \<notin> set n \<Longrightarrow> c_str (line_block n d) = n"
  by (simp add: line_block_def)

section \<open>Properties\<close>

text \<open>
  The sniffer finds the credentials of a POP3 login. From its initial state, on a stream with the
  greeting, a \<^verbatim>\<open>USER\<close> line, a \<^verbatim>\<open>PASS\<close> line and the server's consent, with other bytes between them that do not
  contain the first letter of the word looked for, and names shorter than 255 bytes, the loop of
  \<^const>\<open>pop3_consume\<close> ends in \<^const>\<open>POP3_SUCCESS\<close> with exactly the two names NUL-terminated in their
  arrays, leaving the bytes after the login.
\<close>

theorem pop3_login_sniffed:
  assumes "pop3_inv s" "wf_buffer b" "buf_content b = pop3_login junk1 name junk2 pass @ rest"
    and "10 \<notin> set name" "10 \<notin> set pass" "0 \<notin> set name" "0 \<notin> set pass" "length name < 255" "length pass < 255"
    and "\<forall>c \<in> set junk1. tolower c \<noteq> tolower 85" "\<forall>c \<in> set junk2. tolower c \<noteq> tolower 80"
  shows "\<exists>b' s'. consume_loop pop3_parse (\<lambda>s e. (pop3_done s, e)) b (pop3_init s) False (pop3_done (pop3_init s)) =
      Inr (b', s', False) \<and> sn_state s' = POP3_SUCCESS \<and> c_str (sn_username s') = name \<and>
    c_str (sn_password s') = pass \<and> buf_content b' = rest"
proof -
  obtain s' where s': "pop3_feed_all (pop3_init s) (buf_content b) = Inr (s', rest)" "sn_state s' = POP3_SUCCESS"
    "sn_username s' = line_block name (sn_username s)" "sn_password s' = line_block pass (sn_password s)"
    using feed_login [OF assms(1,4,5,8,9,10,11), of "sn_buffer (pop3_init s)" rest] assms(3) by auto
  have nd: "\<not> pop3_done (pop3_init s)" by (simp add: pop3_init_def pop3_done_def pop3_states)
  obtain b' where "consume_loop pop3_parse (\<lambda>s e. (pop3_done s, e)) b (pop3_init s) False False = Inr (b', s', False)"
    "buf_content b' = rest"
    using pop3.consume_loop_Inr [OF assms(2) nd s'(1), of False] by auto
  with nd s' assms(6,7) show ?thesis by (simp add: line_block_str)
qed

theorem pop3_login_sniffed_witness:
  "\<exists>s b b' s'. buf_content b = [43, 79, 75, 13, 10, 85, 83, 69, 82, 32, 98, 10, 80, 65, 83, 83, 32, 99, 10, 43, 79, 75, 13] \<and>
     consume_loop pop3_parse (\<lambda>s e. (pop3_done s, e)) b (pop3_init s) False (pop3_done (pop3_init s)) = Inr (b', s', False) \<and>
     sn_state s' = POP3_SUCCESS \<and> c_str (sn_username s') = [98] \<and> c_str (sn_password s') = [99]"
proof -
  let ?d = "[43, 79, 75, 13, 10, 85, 83, 69, 82, 32, 98, 10, 80, 65, 83, 83, 32, 99, 10, 43, 79, 75, 13] :: u8 list"
  let ?b = "\<lparr>b_data = ?d, b_limit = 23, b_read = 0, b_write = 23\<rparr>"
  let ?s = "\<lparr>sn_state = 0, sn_buffer = ?b, sn_username = replicate 255 0, sn_password = replicate 255 0, sn_read = 0,
    sn_remaining = 0, sn_check_read = 0, sn_check_remaining = 0, sn_parsing = False\<rparr>"
  have i: "pop3_inv ?s" by (simp add: pop3_inv_def MAX_SIZE_USER_def)
  have w: "wf_buffer ?b" by (simp add: wf_buffer_def)
  have c: "buf_content ?b = pop3_login [13, 10] [98] [] [99] @ [13]" by (simp add: buf_content_def pop3_login_def)
  have "buf_content ?b = ?d" by (simp add: buf_content_def)
  with pop3_login_sniffed [OF i w c] show ?thesis by (fastforce simp: tolower_def)
qed

text \<open>
  C26: a POP3 login becomes a line of the log. From its initial state, with the stream of
  \<^const>\<open>pop3_login\<close> in its buffer, a register whose pointers designate blocks that can hold the two names,
  and an environment and a log with room in which lines are printed, \<^const>\<open>pop3_consume\<close> ends in
  \<^const>\<open>POP3_SUCCESS\<close>, leaves the names in the register, and appends one line whose fields are the date, the
  user, the protocol, the destination and its port, and exactly the two names of the login. This is not the line
  \<^verbatim>\<open>socks5d.8\<close> documents: that has a field P for the kind of record between the user and the protocol, and the date without
  the brackets the code puts around it.
\<close>

theorem pop3_login_logged:
  assumes "pop3_inv s" "wf_buffer b" "buf_content b = pop3_login junk1 name junk2 pass @ rest"
    and "10 \<notin> set name" "10 \<notin> set pass" "0 \<notin> set name" "0 \<notin> set pass" "length name < 255" "length pass < 255"
    and "\<forall>c \<in> set junk1. tolower c \<noteq> tolower 85" "\<forall>c \<in> set junk2. tolower c \<noteq> tolower 80"
    and "rg_user r = Some un" "length name < length un" "rg_passwd r = Some pw" "length pass < length pw"
    and "wf_buffer (lg_write_buff l)" "tm_ok (le_tm env)" "le_malloc_ok env"
    and "user_is r u" "client_is env r ip cp" "dest_is env r t dp"
    and "9 \<notin> set u" "9 \<notin> set t" "9 \<notin> set name" "9 \<notin> set pass"
    and "length (tabbed (sniff_fields env u t dp name pass)) + 1 < buf_room (lg_write_buff l)"
    and "selector_set_interest sl 1 OP_WRITE = Inr (st, sl')"
  shows "\<exists>s' r' l' line. pop3_consume env (LogAt l) ((pop3_init s)\<lparr>sn_buffer := b\<rparr>) r sl =
      Inr (POP3_SUCCESS, s', r', LogAt l', sl') \<and>
    map_option c_str (rg_user r') = Some name \<and> map_option c_str (rg_passwd r') = Some pass \<and>
    buf_content (lg_write_buff l') = buf_content (lg_write_buff l) @ line @ [10] \<and>
    split_tabs line = sniff_fields env u t dp name pass"
proof -
  let ?s = "(pop3_init s)\<lparr>sn_buffer := b\<rparr>"
  obtain s' where s': "pop3_feed_all ?s (buf_content b) = Inr (s', rest)" "sn_state s' = POP3_SUCCESS"
    "sn_username s' = line_block name (sn_username s)" "sn_password s' = line_block pass (sn_password s)"
    using feed_login [OF assms(1,4,5,8,9,10,11), of b rest] assms(3) by auto
  have nd: "\<not> pop3_done ?s" by (simp add: pop3_init_def pop3_done_def pop3_states)
  obtain b' where b': "consume_loop pop3_parse (\<lambda>s e. (pop3_done s, e)) b ?s False False = Inr (b', s', False)"
    using pop3.consume_loop_Inr [OF assms(2) nd s'(1), of False] by auto
  let ?un = "name @ 0 # drop (Suc (length name)) un" and ?pw = "pass @ 0 # drop (Suc (length pass)) pw"
  have cp: "c_strcpy un 0 (sn_username s') = Inr ?un" "c_strcpy pw 0 (sn_password s') = Inr ?pw"
    using assms(6,7,13,15) s'(3,4) by (simp_all add: c_strcpy_def line_block_def terminated_def)
  let ?r = "r\<lparr>rg_user := Some ?un, rg_passwd := Some ?pw\<rparr>"
  have strs: "c_str ?un = name" "c_str ?pw = pass" "terminated ?un" "terminated ?pw"
    using assms(6,7) by (simp_all add: terminated_def)
  have same: "user_is ?r u" "client_is env ?r ip cp" "dest_is env ?r t dp"
    using assms(19-21) by (simp_all add: user_is_def client_is_def dest_is_def)
  obtain l' line where line: "log_sniff env (LogAt l) ?r sl = Inr (LogAt l', sl')"
    "buf_content (lg_write_buff l') = buf_content (lg_write_buff l) @ line @ [10]"
    "split_tabs line = sniff_fields env u t dp name pass"
    using sniff_line_logged [OF assms(16-18) same _ strs(3) _ strs(4) assms(22,23) _ _ _ assms(27)] strs(1,2) assms(24-26)
    by auto
  have "pop3_consume env (LogAt l) ?s r sl = Inr (POP3_SUCCESS, s'\<lparr>sn_buffer := b'\<rparr>, ?r, LogAt l', sl')"
    using b' nd s'(2) assms(12,14) cp line(1) by (simp add: pop3_consume_def the_ptr_def Let_def)
  with line(2,3) strs(1,2) show ?thesis by auto
qed

theorem pop3_login_logged_witness:
  "\<exists>s sl s' r' l' sl' line. buf_content (sn_buffer s) = [43, 79, 75, 13, 10, 85, 83, 69, 82, 32, 98, 10, 80, 65, 83, 83, 32, 99, 10, 43, 79, 75, 13] \<and>
     pop3_consume example_env (LogAt example_logger) s (example_register\<lparr>rg_user := Some [9, 9, 9], rg_passwd := Some [8, 8]\<rparr>) sl =
       Inr (POP3_SUCCESS, s', r', LogAt l', sl') \<and>
     buf_content (lg_write_buff l') = line @ [10] \<and>
     split_tabs line = map chars [''[2022-06-21T10:05:09Z]'', ''u'', ''POP3'', ''a'', ''110'', ''b'', ''c'']"
proof -
  let ?d = "[43, 79, 75, 13, 10, 85, 83, 69, 82, 32, 98, 10, 80, 65, 83, 83, 32, 99, 10, 43, 79, 75, 13] :: u8 list"
  let ?b = "\<lparr>b_data = ?d, b_limit = 23, b_read = 0, b_write = 23\<rparr>"
  let ?s = "\<lparr>sn_state = 0, sn_buffer = ?b, sn_username = replicate 255 0, sn_password = replicate 255 0, sn_read = 0,
    sn_remaining = 0, sn_check_read = 0, sn_check_remaining = 0, sn_parsing = False\<rparr>"
  let ?r = "example_register\<lparr>rg_user := Some [9, 9, 9], rg_passwd := Some [8, 8]\<rparr>"
  obtain sl :: sel and st sl' where sl: "selector_set_interest sl 1 OP_WRITE = Inr (st, sl')" by (rule example_sel)
  have i: "pop3_inv ?s" by (simp add: pop3_inv_def MAX_SIZE_USER_def)
  have w: "wf_buffer ?b" by (simp add: wf_buffer_def)
  have c: "buf_content ?b = pop3_login [13, 10] [98] [] [99] @ [13]" by (simp add: buf_content_def pop3_login_def)
  have d: "buf_content ?b = ?d" by (simp add: buf_content_def)
  have r: "user_is ?r [117]" "client_is example_env ?r (chars ''10.0.0.1'') 4660" "dest_is example_env ?r [97] 110"
    using example_ok(4-6) by (simp_all add: user_is_def client_is_def dest_is_def)
  have p: "rg_user ?r = Some [9, 9, 9]" "rg_passwd ?r = Some [8, 8]" by simp_all
  have f: "sniff_fields example_env [117] [97] 110 [98] [99] =
      map chars [''[2022-06-21T10:05:09Z]'', ''u'', ''POP3'', ''a'', ''110'', ''b'', ''c'']"
    by (simp add: sniff_fields_def example_date dec.simps of_char_def)
  have e: "buf_content (lg_write_buff example_logger) = []" by (simp add: example_logger_def MAX_BUFF_def)
  obtain s' r' l' line where "pop3_consume example_env (LogAt example_logger) ((pop3_init ?s)\<lparr>sn_buffer := ?b\<rparr>) ?r sl =
      Inr (POP3_SUCCESS, s', r', LogAt l', sl')" "buf_content (lg_write_buff l') = line @ [10]"
    "split_tabs line = map chars [''[2022-06-21T10:05:09Z]'', ''u'', ''POP3'', ''a'', ''110'', ''b'', ''c'']"
    using pop3_login_logged [OF i w c _ _ _ _ _ _ _ _ p(1) _ p(2) _ example_ok(1-3) r _ _ _ _ _ sl]
    by (auto simp: tolower_def f [simplified] e example_ok(7))
  then show ?thesis
    using d by (intro exI [of _ "(pop3_init ?s)\<lparr>sn_buffer := ?b\<rparr>"] exI [of _ sl] exI [of _ s'] exI [of _ r'] exI [of _ l'] exI [of _ sl'] exI [of _ line]) simp
qed

end
