(* ===== verification/Socks.thy ===== *)
theory Socks
  imports Env Stm HelloParser AuthParser RequestParser Pop3sniff
begin

text \<open>
  The SOCKS sessions: \<^verbatim>\<open>include/socks5utils.h\<close>, \<^verbatim>\<open>src/stm/hello.c\<close>, \<^verbatim>\<open>src/stm/auth.c\<close>,
  \<^verbatim>\<open>src/stm/request.c\<close>, \<^verbatim>\<open>src/stm/copy.c\<close>, \<^verbatim>\<open>src/stm/stm_initialize.c\<close> and \<^verbatim>\<open>src/socks5.c\<close>.

  The pointers to buffers and descriptors in the state structures always point to the session's own
  fields, which stand for them here. The structures of the unions are separate fields, which differs
  only in the values of fields that are read after they were written, or that still have the value
  \<^verbatim>\<open>0x05\<close> of the initial \<^verbatim>\<open>memset\<close>. Fields nobody reads (addresses of the peers, times) are left out.

  \<^verbatim>\<open>request_process\<close> has a closing brace too many (line 180 of \<^verbatim>\<open>request.c\<close>), so that the file does not
  compile; the model reads the \<^verbatim>\<open>default\<close> label after it as that of the inner switch, as the indentation
  and the comments around it have it.
\<close>

section \<open>State\<close>

definition HELLO_READ :: nat where "HELLO_READ = 0"
definition HELLO_WRITE :: nat where "HELLO_WRITE = 1"
definition REQUEST_READ :: nat where "REQUEST_READ = 2"
definition REQUEST_CONNECTING :: nat where "REQUEST_CONNECTING = 3"
definition REQUEST_WRITE :: nat where "REQUEST_WRITE = 4"
definition COPY :: nat where "COPY = 5"
definition ERROR :: nat where "ERROR = 6"
definition DONE :: nat where "DONE = 7"
definition AUTH_READ :: nat where "AUTH_READ = 8"
definition AUTH_WRITE :: nat where "AUTH_WRITE = 9"

lemmas socks_states = HELLO_READ_def HELLO_WRITE_def REQUEST_READ_def REQUEST_CONNECTING_def REQUEST_WRITE_def
  COPY_def ERROR_def DONE_def AUTH_READ_def AUTH_WRITE_def

text \<open>The object the parser of the greeting reports to is \<^verbatim>\<open>method\<close>.\<close>

record hello_st =
  hs_parser :: "u8 hello_parser"

record socks_auth_st =
  sa_parser :: auth_parser
  sa_method :: u8

record request_st =
  rs_parser :: request_parser
  rs_status :: u8
  rs_server_fd :: int

record session =
  ss_stm :: state_machine
  ss_input :: buffer
  ss_output :: buffer
  ss_client_fd :: int
  ss_server_fd :: int
  ss_server_domain :: int
  ss_server_address :: "u8 list"
  ss_server_address_len :: nat
  ss_register :: register_st
  ss_sniff :: pop3_sniff
  ss_hello :: hello_st
  ss_auth :: socks_auth_st
  ss_request :: request_st
  ss_client_duplex :: u32
  ss_server_duplex :: u32

text \<open>What a state callback sees: its session, the selector, and the process-wide data.\<close>

record 'o sworld =
  sw_self :: session
  sw_sel :: sel
  sw_env :: "'o env"
  sw_log :: logger_ptr

abbreviation hello_method :: "session \<Rightarrow> u8" where
  "hello_method p \<equiv> hp_data (hs_parser (ss_hello p))"

abbreviation sw_os :: "'o sworld \<Rightarrow> 'o" where
  "sw_os w \<equiv> e_os (sw_env w)"

abbreviation set_os :: "'o \<Rightarrow> 'o sworld \<Rightarrow> 'o sworld" where
  "set_os st w \<equiv> w\<lparr>sw_env := (sw_env w)\<lparr>e_os := st\<rparr>\<rparr>"

section \<open>Method negotiation\<close>

definition on_hello_method :: "u8 \<Rightarrow> u8 \<Rightarrow> u8" where
  "on_hello_method selected method =
     (if selected \<noteq> METHOD_USERNAME_PASSWORD then
        if method = METHOD_NO_AUTHENTICATION_REQUIRED \<or> method = METHOD_USERNAME_PASSWORD then method
        else selected
      else selected)"

definition hello_arrival :: "nat \<Rightarrow> key \<Rightarrow> 'o sworld \<Rightarrow> 'o sworld res" where
  "hello_arrival st event w =
     (let p = sw_self w; h = ss_hello p;
          parser = hello_parser_init ((hello_parser_init (hs_parser h))\<lparr>on_authentication_method := Some on_hello_method\<rparr>) in
      Inr (w\<lparr>sw_self := p\<lparr>ss_hello := h\<lparr>hs_parser := parser\<rparr>\<rparr>\<rparr>))"

definition hello_process :: "session \<Rightarrow> (nat \<times> session) res" where
  "hello_process p =
     (let method = hello_method p in
      bindr (hello_marshall (ss_output p) method) (\<lambda>(r, b).
      let ret = (if - 1 = r then ERROR else HELLO_WRITE);
          ret1 = (if method = METHOD_NO_ACCEPTABLE_METHODS then ERROR else ret) in
      Inr (ret1, p\<lparr>ss_output := b\<rparr>)))"

definition hello_read :: "'o os \<Rightarrow> key \<Rightarrow> 'o sworld \<Rightarrow> (nat \<times> 'o sworld) res" where
  "hello_read os event w =
     (let p = sw_self w in
      bindr (recv_step os (sk_fd event) (ss_input p) (sw_env w)) (\<lambda>(n, rb, e).
      if n > 0 then
        bindr (buffer_write_adv rb n) (\<lambda>rb1.
        bindr (hello_consume rb1 (hs_parser (ss_hello p)) False) (\<lambda>(rb2, hp, error).
        let p1 = p\<lparr>ss_input := rb2, ss_hello := (ss_hello p)\<lparr>hs_parser := hp\<rparr>\<rparr>;
            w1 = w\<lparr>sw_self := p1, sw_env := e\<rparr> in
        if fst (hello_is_done (hp_state hp) False) then
          bindr (selector_set_interest_key event (sw_sel w1) OP_WRITE) (\<lambda>(st, s).
          if st = SELECTOR_SUCCESS then
            bindr (hello_process p1) (\<lambda>(ret, p2).
            Inr (if error then ERROR else ret, w1\<lparr>sw_self := p2, sw_sel := s\<rparr>))
          else Inr (ERROR, w1\<lparr>sw_sel := s\<rparr>))
        else Inr (if error then ERROR else HELLO_READ, w1)))
      else Inr (ERROR, w\<lparr>sw_self := p\<lparr>ss_input := rb\<rparr>, sw_env := e\<rparr>)))"

definition hello_write :: "'o os \<Rightarrow> key \<Rightarrow> 'o sworld \<Rightarrow> (nat \<times> 'o sworld) res" where
  "hello_write os event w =
     (let p = sw_self w in
      bindr (send_step os (sk_fd event) (ss_output p) (sw_env w)) (\<lambda>(n, e).
      let w1 = w\<lparr>sw_env := e\<rparr> in
      if n = - 1 then Inr (ERROR, w1)
      else bindr (buffer_read_adv (ss_output p) n) (\<lambda>wb.
        let w2 = w1\<lparr>sw_self := p\<lparr>ss_output := wb\<rparr>\<rparr> in
        if \<not> buffer_can_read wb then
          bindr (selector_set_interest_key event (sw_sel w2) OP_READ) (\<lambda>(st, s).
          Inr (if st = SELECTOR_SUCCESS
               then if hello_method p = METHOD_USERNAME_PASSWORD then AUTH_READ else REQUEST_READ
               else ERROR, w2\<lparr>sw_sel := s\<rparr>))
        else Inr (HELLO_WRITE, w2))))"

section \<open>User name and password\<close>

text \<open>The states of \<^verbatim>\<open>auth.c\<close> are not in the table of states.\<close>

definition auth_arrival :: "nat \<Rightarrow> key \<Rightarrow> 'o sworld \<Rightarrow> 'o sworld res" where
  "auth_arrival st event w = Inr w"

definition auth_process :: "session \<Rightarrow> (nat \<times> session) res" where
  "auth_process p =
     (let method = sa_method (ss_auth p) in
      bindr (auth_marshal (ss_output p) method) (\<lambda>(r, b).
      let ret = (if - 1 = r then ERROR else AUTH_WRITE);
          ret1 = (if method = METHOD_NO_ACCEPTABLE_METHODS then ERROR else ret) in
      Inr (ret1, p\<lparr>ss_output := b\<rparr>)))"

definition auth_read :: "'o os \<Rightarrow> key \<Rightarrow> 'o sworld \<Rightarrow> (nat \<times> 'o sworld) res" where
  "auth_read os event w =
     (let p = sw_self w in
      bindr (recv_step os (sk_fd event) (ss_input p) (sw_env w)) (\<lambda>(n, rb, e).
      if n > 0 then
        bindr (buffer_write_adv rb n) (\<lambda>rb1.
        bindr (auth_consume rb1 (sa_parser (ss_auth p)) False) (\<lambda>(rb2, ap, error).
        let p1 = p\<lparr>ss_input := rb2, ss_auth := (ss_auth p)\<lparr>sa_parser := ap\<rparr>\<rparr>;
            w1 = w\<lparr>sw_self := p1, sw_env := e\<rparr> in
        if fst (auth_is_done (ap_state ap) False) then
          bindr (selector_set_interest_key event (sw_sel w1) OP_WRITE) (\<lambda>(st, s).
          if st = SELECTOR_SUCCESS then
            bindr (auth_process p1) (\<lambda>(ret, p2).
            Inr (if error then ERROR else ret, w1\<lparr>sw_self := p2, sw_sel := s\<rparr>))
          else Inr (ERROR, w1\<lparr>sw_sel := s\<rparr>))
        else Inr (if error then ERROR else AUTH_READ, w1)))
      else Inr (ERROR, w\<lparr>sw_self := p\<lparr>ss_input := rb\<rparr>, sw_env := e\<rparr>)))"

definition auth_write :: "'o os \<Rightarrow> key \<Rightarrow> 'o sworld \<Rightarrow> (nat \<times> 'o sworld) res" where
  "auth_write os event w =
     (let p = sw_self w in
      bindr (send_step os (sk_fd event) (ss_output p) (sw_env w)) (\<lambda>(n, e).
      let w1 = w\<lparr>sw_env := e\<rparr> in
      if n = - 1 then Inr (ERROR, w1)
      else if n > 0 then
        bindr (buffer_read_adv (ss_output p) n) (\<lambda>wb.
        let w2 = w1\<lparr>sw_self := p\<lparr>ss_output := wb\<rparr>\<rparr> in
        if \<not> buffer_can_read wb then
          bindr (selector_set_interest_key event (sw_sel w2) OP_READ) (\<lambda>(st, s).
          Inr (if st = SELECTOR_SUCCESS then REQUEST_READ else ERROR, w2\<lparr>sw_sel := s\<rparr>))
        else Inr (AUTH_WRITE, w2))
      else Inr (AUTH_WRITE, w1)))"

section \<open>Requests\<close>

definition EINPROGRESS :: int where "EINPROGRESS = 115"

abbreviation set_status :: "u8 \<Rightarrow> session \<Rightarrow> session" where
  "set_status st p \<equiv> p\<lparr>ss_request := (ss_request p)\<lparr>rs_status := st\<rparr>\<rparr>"

abbreviation the_request :: "session \<Rightarrow> request" where
  "the_request p \<equiv> rp_request (rs_parser (ss_request p))"

definition request_arrival :: "nat \<Rightarrow> key \<Rightarrow> 'o sworld \<Rightarrow> 'o sworld res" where
  "request_arrival st event w =
     (let p = sw_self w; r = ss_request p in
      Inr (w\<lparr>sw_self := p\<lparr>ss_request := r\<lparr>rs_status := status_general_SOCKS_server_failure,
         rs_parser := request_parser_init (rs_parser r), rs_server_fd := ss_server_fd p\<rparr>\<rparr>\<rparr>))"

text \<open>The reply with the session's status and the destination of the request, appended to the output.\<close>

definition marshal_reply :: "session \<Rightarrow> (int \<times> session) res" where
  "marshal_reply p =
     (let r = the_request p in
      bindr (request_marshal (ss_output p) (rs_status (ss_request p)) (rq_atyp r) (rq_addr r) (rq_port r)) (\<lambda>(n, b).
      Inr (n, p\<lparr>ss_output := b\<rparr>)))"

text \<open>The two outcomes of a \<^verbatim>\<open>connect\<close> that returned \<open>-1\<close>: still in progress, and failed.\<close>

definition connect_in_progress :: "'o os \<Rightarrow> key \<Rightarrow> bool \<Rightarrow> int \<Rightarrow> 'o sworld \<Rightarrow> (nat \<times> 'o sworld) res" where
  "connect_in_progress os event fd_registered fd w =
     bindr (selector_set_interest_key event (sw_sel w) OP_NOOP) (\<lambda>(st, s).
     if st \<noteq> SELECTOR_SUCCESS then Inr (ERROR, w\<lparr>sw_sel := s\<rparr>)
     else if \<not> fd_registered then
       let (grow_ok, o1) = os_malloc os (sw_os w) in
       bindr (selector_register grow_ok (Some s) fd (Some CLIENT) OP_WRITE (sk_data event)) (\<lambda>(st1, sp).
       bindr (the_ptr sp) (\<lambda>s1.
       Inr (if st1 \<noteq> SELECTOR_SUCCESS then ERROR else REQUEST_CONNECTING, (set_os o1 w)\<lparr>sw_sel := s1\<rparr>)))
     else
       bindr (selector_set_interest s fd OP_WRITE) (\<lambda>(st1, s1).
       Inr (if st1 \<noteq> SELECTOR_SUCCESS then ERROR else REQUEST_CONNECTING, w\<lparr>sw_sel := s1\<rparr>)))"

definition connect_failed :: "'o os \<Rightarrow> key \<Rightarrow> int \<Rightarrow> int \<Rightarrow> 'o sworld \<Rightarrow> (nat \<times> 'o sworld) res" where
  "connect_failed os event errno fd w =
     bindr (marshal_reply (set_status (errno_to_socks errno) (sw_self w))) (\<lambda>(n, p).
     if - 1 \<noteq> n then
       bindr (selector_set_interest (sw_sel w) (ss_client_fd p) OP_WRITE) (\<lambda>(_, s).
       let (grow_ok, o1) = os_malloc os (sw_os w) in
       bindr (selector_register grow_ok (Some s) fd (Some CLIENT) OP_NOOP (sk_data event)) (\<lambda>(st, sp).
       bindr (the_ptr sp) (\<lambda>s1.
       Inr (if st \<noteq> SELECTOR_SUCCESS then ERROR else REQUEST_WRITE, (set_os o1 w)\<lparr>sw_self := p, sw_sel := s1\<rparr>))))
     else Inr (ERROR, w\<lparr>sw_self := p\<rparr>))"

definition request_connect :: "'o os \<Rightarrow> key \<Rightarrow> 'o sworld \<Rightarrow> (nat \<times> 'o sworld) res" where
  "request_connect os event w =
     (let p = sw_self w; old = rs_server_fd (ss_request p); fd_registered = (old \<noteq> - 1);
          (c, o1) = (if fd_registered then os_close os (sw_os w) old else (0, sw_os w)) in
      if c = - 1 then Inr (ERROR, set_os o1 w)
      else let (fd, o2) = os_socket os o1 (ss_server_domain p);
               w1 = (set_os o2 w)\<lparr>sw_self := p\<lparr>ss_server_fd := fd, ss_request := (ss_request p)\<lparr>rs_server_fd := fd\<rparr>\<rparr>\<rparr> in
      if fd = - 1 then Inr (ERROR, w1)
      else if selector_fd_set_nio (os_getfd os o2) (os_setfl os o2) fd = - 1 then Inr (REQUEST_CONNECTING, w1)
      else bindr (read_cells (ss_server_address p) 0 (ss_server_address_len p)) (\<lambda>address.
        case os_connect os o2 fd address of
          (None, o3) \<Rightarrow> Inr (REQUEST_CONNECTING, set_os o3 w1)
        | (Some errno, o3) \<Rightarrow>
            if errno = EINPROGRESS then connect_in_progress os event fd_registered fd (set_os o3 w1)
            else connect_failed os event errno fd (set_os o3 w1)))"

text \<open>
  The two address cases of \<^verbatim>\<open>request_process\<close>: the port goes into the address, which is copied into the
  session. \<^verbatim>\<open>sin_port\<close> and \<^verbatim>\<open>sin6_port\<close> have the same offset.
\<close>

definition connect_to :: "'o os \<Rightarrow> key \<Rightarrow> nat \<Rightarrow> nat \<Rightarrow> 'o sworld \<Rightarrow> (nat \<times> 'o sworld) res" where
  "connect_to os event domain len w =
     (let p = sw_self w; rq = ss_request p; r = the_request p in
      bindr (blit (rq_addr r) 2 (rq_port r)) (\<lambda>addr.
      bindr (read_cells addr 0 len) (\<lambda>bytes.
      bindr (blit (ss_server_address p) 0 bytes) (\<lambda>address.
      request_connect os event (w\<lparr>sw_self := p\<lparr>ss_server_domain := int domain, ss_server_address_len := len,
        ss_server_address := address,
        ss_request := rq\<lparr>rs_parser := (rs_parser rq)\<lparr>rp_request := r\<lparr>rq_addr := addr\<rparr>\<rparr>\<rparr>\<rparr>\<rparr>)))))"

definition request_process :: "'o os \<Rightarrow> key \<Rightarrow> 'o sworld \<Rightarrow> (nat \<times> 'o sworld) res" where
  "request_process os event w =
     (let p = sw_self w; r = the_request p in
      if rq_cmd r = socks_req_cmd_connect then
        if rq_atyp r = socks_addr_type_ipv4 then connect_to os event AF_INET sizeof_sockaddr_in w
        else if rq_atyp r = socks_addr_type_ipv6 then connect_to os event AF_INET6 sizeof_sockaddr_in6 w
        else if rq_atyp r = socks_addr_type_domain then Inr (REQUEST_CONNECTING, w)
        else bindr (selector_set_interest_key event (sw_sel w) OP_WRITE) (\<lambda>(_, s).
             Inr (REQUEST_WRITE, w\<lparr>sw_self := set_status status_address_type_not_supported p, sw_sel := s\<rparr>))
      else Inr (REQUEST_WRITE, w\<lparr>sw_self := set_status status_command_not_supported p\<rparr>))"

definition request_read :: "'o os \<Rightarrow> key \<Rightarrow> 'o sworld \<Rightarrow> (nat \<times> 'o sworld) res" where
  "request_read os event w =
     (let p = sw_self w in
      bindr (recv_step os (sk_fd event) (ss_input p) (sw_env w)) (\<lambda>(n, rb, e).
      if n > 0 then
        bindr (buffer_write_adv rb n) (\<lambda>rb1.
        bindr (request_consume rb1 (rs_parser (ss_request p)) False) (\<lambda>(rb2, rp, error).
        let p1 = p\<lparr>ss_input := rb2, ss_request := (ss_request p)\<lparr>rs_parser := rp\<rparr>\<rparr>;
            w1 = w\<lparr>sw_self := p1, sw_env := e\<rparr> in
        if fst (request_is_done (rp_state rp) False) then
          bindr (request_process os event w1) (\<lambda>(ret, w2). Inr (if error then ERROR else ret, w2))
        else Inr (if error then ERROR else REQUEST_READ, w1)))
      else Inr (ERROR, w\<lparr>sw_self := p\<lparr>ss_input := rb\<rparr>, sw_env := e\<rparr>)))"

definition request_write :: "'o os \<Rightarrow> key \<Rightarrow> 'o sworld \<Rightarrow> (nat \<times> 'o sworld) res" where
  "request_write os event w =
     (let p = sw_self w in
      bindr (send_step os (sk_fd event) (ss_output p) (sw_env w)) (\<lambda>(n, e).
      let w1 = w\<lparr>sw_env := e\<rparr> in
      if n = - 1 then Inr (ERROR, w1)
      else bindr (buffer_read_adv (ss_output p) n) (\<lambda>wb.
        let w2 = w1\<lparr>sw_self := p\<lparr>ss_output := wb\<rparr>\<rparr> in
        if \<not> buffer_can_read wb then
          bindr (selector_set_interest_key event (sw_sel w2) OP_READ) (\<lambda>(st, s).
          Inr (if SELECTOR_SUCCESS = st then COPY else ERROR, w2\<lparr>sw_sel := s\<rparr>))
        else Inr (REQUEST_WRITE, w2))))"

text \<open>\<^verbatim>\<open>request_connecting_arrival\<close> only sets pointers to fields of the session.\<close>

definition request_connecting_arrival :: "nat \<Rightarrow> key \<Rightarrow> 'o sworld \<Rightarrow> 'o sworld res" where
  "request_connecting_arrival st event w = Inr w"

text \<open>\<open>os_so_error\<close> is \<^verbatim>\<open>getsockopt\<close> of \<^verbatim>\<open>SO_ERROR\<close>: \<^const>\<open>None\<close> when the call fails.\<close>

definition request_connecting :: "'o os \<Rightarrow> key \<Rightarrow> 'o sworld \<Rightarrow> (nat \<times> 'o sworld) res" where
  "request_connecting os event w =
     (let p = sw_self w; (ret_sock, o1) = os_so_error os (sw_os w) (ss_server_fd p); w1 = set_os o1 w in
      case ret_sock of
        None \<Rightarrow> Inr (REQUEST_CONNECTING, w1)
      | Some error \<Rightarrow>
          bindr (selector_set_interest (sw_sel w1) (ss_client_fd p) OP_WRITE) (\<lambda>(_, s).
          bindr (marshal_reply (if error = 0 then set_status status_succeeded p else p)) (\<lambda>(n, p1).
          if - 1 \<noteq> n then
            bindr (selector_set_interest s (ss_server_fd p1) OP_READ) (\<lambda>(_, s1).
            Inr (REQUEST_WRITE, w1\<lparr>sw_self := p1, sw_sel := s1\<rparr>))
          else Inr (ERROR, w1\<lparr>sw_self := p1, sw_sel := s\<rparr>))))"

section \<open>Copying\<close>

text \<open>
  The two \<^verbatim>\<open>copy_st\<close> of a session: which descriptor, which buffers and which duplex each designates.
\<close>

datatype side = ClientSide | ServerSide

fun copy_other :: "side \<Rightarrow> side" where
  "copy_other ClientSide = ServerSide"
| "copy_other ServerSide = ClientSide"

fun copy_fd :: "side \<Rightarrow> session \<Rightarrow> int" where
  "copy_fd ClientSide p = ss_client_fd p"
| "copy_fd ServerSide p = ss_server_fd p"

fun copy_read_buff :: "side \<Rightarrow> session \<Rightarrow> buffer" where
  "copy_read_buff ClientSide p = ss_input p"
| "copy_read_buff ServerSide p = ss_output p"

fun copy_write_buff :: "side \<Rightarrow> session \<Rightarrow> buffer" where
  "copy_write_buff ClientSide p = ss_output p"
| "copy_write_buff ServerSide p = ss_input p"

fun copy_duplex :: "side \<Rightarrow> session \<Rightarrow> u32" where
  "copy_duplex ClientSide p = ss_client_duplex p"
| "copy_duplex ServerSide p = ss_server_duplex p"

fun set_read_buff :: "side \<Rightarrow> buffer \<Rightarrow> session \<Rightarrow> session" where
  "set_read_buff ClientSide b p = p\<lparr>ss_input := b\<rparr>"
| "set_read_buff ServerSide b p = p\<lparr>ss_output := b\<rparr>"

fun set_write_buff :: "side \<Rightarrow> buffer \<Rightarrow> session \<Rightarrow> session" where
  "set_write_buff ClientSide b p = p\<lparr>ss_output := b\<rparr>"
| "set_write_buff ServerSide b p = p\<lparr>ss_input := b\<rparr>"

fun set_duplex :: "side \<Rightarrow> u32 \<Rightarrow> session \<Rightarrow> session" where
  "set_duplex ClientSide d p = p\<lparr>ss_client_duplex := d\<rparr>"
| "set_duplex ServerSide d p = p\<lparr>ss_server_duplex := d\<rparr>"

definition check_interest :: "side \<Rightarrow> session \<Rightarrow> sel \<Rightarrow> (u32 \<times> sel) res" where
  "check_interest state p s =
     (if copy_fd state p \<noteq> - 1 then
        let ret = (if copy_duplex state p AND OP_READ \<noteq> 0 \<and> buffer_can_write (copy_read_buff state p)
                   then OP_NOOP OR OP_READ else OP_NOOP);
            ret1 = (if copy_duplex state p AND OP_WRITE \<noteq> 0 \<and> buffer_can_read (copy_write_buff state p)
                    then ret OR OP_WRITE else ret) in
        bindr (selector_set_interest s (copy_fd state p) ret1) (\<lambda>(st, s1).
        if SELECTOR_SUCCESS \<noteq> st then Inl Abort else Inr (ret1, s1))
      else Inr (OP_NOOP, s))"

definition copy_arrival :: "nat \<Rightarrow> key \<Rightarrow> 'o sworld \<Rightarrow> 'o sworld res" where
  "copy_arrival st event w =
     Inr (w\<lparr>sw_self := (sw_self w)\<lparr>ss_client_duplex := OP_READ OR OP_WRITE, ss_server_duplex := OP_READ OR OP_WRITE\<rparr>\<rparr>)"

definition copy_ptr :: "key \<Rightarrow> session \<Rightarrow> side" where
  "copy_ptr event p = (if copy_fd ClientSide p = sk_fd event then ClientSide else copy_other ClientSide)"

definition origin_fd :: "key \<Rightarrow> session \<Rightarrow> bool" where
  "origin_fd event p \<longleftrightarrow> sk_fd event = ss_server_fd p"

text \<open>\<open>bytes\<close> are the \<^verbatim>\<open>size\<close> bytes at \<^verbatim>\<open>ptr\<close>; \<open>env\<close> is the environment of the lines of the log.\<close>

definition pop3sniff :: "log_env \<Rightarrow> u8 list \<Rightarrow> 'o sworld \<Rightarrow> 'o sworld res" where
  "pop3sniff env bytes w =
     (let p = sw_self w; s = ss_sniff p; s1 = (if \<not> pop3_parsing s then pop3_init s else s) in
      if \<not> pop3_done s1 then
        bindr (buffer_write_ptr (sn_buffer s1)) (\<lambda>(count, pop3_ptr).
        let size = (if length bytes \<le> count then length bytes else count) in
        bindr (buffer_poke (sn_buffer s1) pop3_ptr (take size bytes)) (\<lambda>b.
        bindr (buffer_write_adv b (int size)) (\<lambda>b1.
        bindr (pop3_consume env (sw_log w) (s1\<lparr>sn_buffer := b1\<rparr>) (ss_register p) (sw_sel w)) (\<lambda>(_, s2, rg, log, sl).
        Inr (w\<lparr>sw_self := p\<lparr>ss_sniff := s2, ss_register := rg\<rparr>, sw_sel := sl, sw_log := log\<rparr>)))))
      else Inr (w\<lparr>sw_self := p\<lparr>ss_sniff := s1\<rparr>\<rparr>))"

text \<open>
  The end of both handlers: the interests of the two descriptors, then the next state. The end of a
  direction: \<open>half_close state flag other_flag\<close> shuts down both ends of it.
\<close>

definition copy_finish :: "side \<Rightarrow> 'o sworld \<Rightarrow> (nat \<times> 'o sworld) res" where
  "copy_finish state w =
     bindr (check_interest state (sw_self w) (sw_sel w)) (\<lambda>(_, s1).
     bindr (check_interest (copy_other state) (sw_self w) s1) (\<lambda>(_, s2).
     Inr (if copy_duplex state (sw_self w) = OP_NOOP then DONE else COPY, w\<lparr>sw_sel := s2\<rparr>)))"

definition half_close :: "'o os \<Rightarrow> side \<Rightarrow> u32 \<Rightarrow> u32 \<Rightarrow> 'o sworld \<Rightarrow> 'o sworld" where
  "half_close os state flag other_flag w =
     (let p = sw_self w; other = copy_other state;
          o1 = os_shutdown os (sw_os w) (copy_fd state p) (flag = OP_WRITE);
          p1 = set_duplex state (copy_duplex state p AND NOT flag) p in
      if copy_fd other p1 \<noteq> - 1 then
        let o2 = os_shutdown os o1 (copy_fd other p1) (other_flag = OP_WRITE) in
        (set_os o2 w)\<lparr>sw_self := set_duplex other (copy_duplex other p1 AND NOT other_flag) p1\<rparr>
      else (set_os o1 w)\<lparr>sw_self := p1\<rparr>)"

definition copy_read :: "'o os \<Rightarrow> log_env \<Rightarrow> key \<Rightarrow> 'o sworld \<Rightarrow> (nat \<times> 'o sworld) res" where
  "copy_read os env event w =
     (let p = sw_self w; state = copy_ptr event p in
      bindr (assert_c (copy_fd state p = sk_fd event)) (\<lambda>_.
      bindr (recv_step os (sk_fd event) (copy_read_buff state p) (sw_env w)) (\<lambda>(n, b, e).
      let w1 = w\<lparr>sw_self := set_read_buff state b p, sw_env := e\<rparr> in
      if n \<le> 0 then copy_finish state (half_close os state OP_READ OP_WRITE w1)
      else
        bindr (if origin_fd event p
               then bindr (buffer_peek b (b_write b) (nat n)) (\<lambda>bytes. pop3sniff env bytes w1)
               else Inr w1) (\<lambda>w2.
        bindr (buffer_write_adv b n) (\<lambda>b1.
        copy_finish state (w2\<lparr>sw_self := set_read_buff state b1 (sw_self w2)\<rparr>))))))"

definition copy_write :: "'o os \<Rightarrow> log_env \<Rightarrow> key \<Rightarrow> 'o sworld \<Rightarrow> (nat \<times> 'o sworld) res" where
  "copy_write os env event w =
     (let p = sw_self w; state = copy_ptr event p; b = copy_write_buff state p in
      bindr (assert_c (copy_fd state p = sk_fd event)) (\<lambda>_.
      bindr (send_step os (sk_fd event) b (sw_env w)) (\<lambda>(n, e).
      let w1 = w\<lparr>sw_env := e\<rparr> in
      if n = - 1 then copy_finish state (half_close os state OP_WRITE OP_READ w1)
      else
        let w2 = w1\<lparr>sw_env := e\<lparr>e_stats := stadistics_increase_bytes_sent (e_stats e) (of_int n)\<rparr>\<rparr> in
        bindr (if origin_fd event p
               then bindr (buffer_peek b (b_read b) (nat n)) (\<lambda>bytes. pop3sniff env bytes w2)
               else Inr w2) (\<lambda>w3.
        bindr (buffer_read_adv b n) (\<lambda>b1.
        copy_finish state (w3\<lparr>sw_self := set_write_buff state b1 (sw_self w3)\<rparr>))))))"

end
