(* ===== verification/Socks5.thy ===== *)
theory Socks5
  imports Socks
begin

text \<open>
  The table of states, \<^verbatim>\<open>src/stm/stm_initialize.c\<close>, and the handlers of the SOCKS sockets,
  \<^verbatim>\<open>src/socks5.c\<close>. The heap of sessions maps addresses to live sessions, as for the management
  sessions. \<open>env\<close> is the environment of the lines of the log.
\<close>

section \<open>The table of states\<close>

definition blank_state :: "nat \<Rightarrow> (key, 'o sworld) state_definition" where
  "blank_state n = \<lparr>sd_state = n, on_arrival = None, on_departure = None, on_read_ready = None,
     on_write_ready = None, on_block_ready = None\<rparr>"

definition hello_state_def :: "'o os \<Rightarrow> (key, 'o sworld) state_definition" where
  "hello_state_def os = (blank_state HELLO_READ)\<lparr>on_arrival := Some hello_arrival, on_read_ready := Some (hello_read os)\<rparr>"

definition hello_write_state_def :: "'o os \<Rightarrow> (key, 'o sworld) state_definition" where
  "hello_write_state_def os = (blank_state HELLO_WRITE)\<lparr>on_write_ready := Some (hello_write os)\<rparr>"

definition request_read_state_def :: "'o os \<Rightarrow> (key, 'o sworld) state_definition" where
  "request_read_state_def os =
     (blank_state REQUEST_READ)\<lparr>on_arrival := Some request_arrival, on_read_ready := Some (request_read os)\<rparr>"

definition request_write_state_def :: "'o os \<Rightarrow> (key, 'o sworld) state_definition" where
  "request_write_state_def os = (blank_state REQUEST_WRITE)\<lparr>on_write_ready := Some (request_write os)\<rparr>"

definition request_connecting_state_def :: "'o os \<Rightarrow> (key, 'o sworld) state_definition" where
  "request_connecting_state_def os =
     (blank_state REQUEST_CONNECTING)\<lparr>on_arrival := Some request_connecting_arrival,
       on_write_ready := Some (request_connecting os)\<rparr>"

definition copy_state_def :: "'o os \<Rightarrow> log_env \<Rightarrow> (key, 'o sworld) state_definition" where
  "copy_state_def os env =
     (blank_state COPY)\<lparr>on_arrival := Some copy_arrival, on_read_ready := Some (copy_read os env),
       on_write_ready := Some (copy_write os env)\<rparr>"

definition error_state_def :: "(key, 'o sworld) state_definition" where
  "error_state_def = blank_state ERROR"

definition done_state_def :: "(key, 'o sworld) state_definition" where
  "done_state_def = blank_state DONE"

text \<open>The two entries of \<^verbatim>\<open>auth.c\<close>, which are not in the table.\<close>

definition auth_read_state_def :: "'o os \<Rightarrow> (key, 'o sworld) state_definition" where
  "auth_read_state_def os = (blank_state AUTH_READ)\<lparr>on_arrival := Some auth_arrival, on_read_ready := Some (auth_read os)\<rparr>"

definition auth_write_state_def :: "'o os \<Rightarrow> (key, 'o sworld) state_definition" where
  "auth_write_state_def os = (blank_state AUTH_WRITE)\<lparr>on_write_ready := Some (auth_write os)\<rparr>"

text \<open>What \<^verbatim>\<open>stm_map\<close> stores in \<^verbatim>\<open>session_state_def\<close>.\<close>

definition stm_map :: "'o os \<Rightarrow> log_env \<Rightarrow> (key, 'o sworld) state_definition list" where
  "stm_map os env =
     [hello_state_def os, hello_write_state_def os, request_read_state_def os, request_connecting_state_def os,
      request_write_state_def os, copy_state_def os env, error_state_def, done_state_def]"

definition stm_create :: "'o os \<Rightarrow> log_env \<Rightarrow> state_machine \<Rightarrow> state_machine res" where
  "stm_create os env s_machine =
     stm_init (stm_map os env) (s_machine\<lparr>sm_initial := HELLO_READ, sm_max_state := DONE\<rparr>)"

section \<open>Sessions\<close>

definition INPUT_BUFFER_SIZE :: nat where "INPUT_BUFFER_SIZE = 100"
definition OUTPUT_BUFFER_SIZE :: nat where "OUTPUT_BUFFER_SIZE = 100"

text \<open>
  \<^verbatim>\<open>memset(session, 0x05, sizeof(*session))\<close>. The pointers of the sniffer's buffer are equal, so that it
  has neither content nor room; the flag \<^verbatim>\<open>parsing\<close> is not 0; the pointers of the register designate no
  block. The states of the parsers are no enumerator; the hooks set them before they are read.
\<close>

definition fives :: nat where "fives = 0x05050505"

definition session_05 :: session where
  "session_05 = \<lparr>
     ss_stm = \<lparr>sm_initial = fives, sm_max_state = fives, sm_current = None\<rparr>,
     ss_input = \<lparr>b_data = [], b_limit = 0, b_read = 0, b_write = 0\<rparr>,
     ss_output = \<lparr>b_data = [], b_limit = 0, b_read = 0, b_write = 0\<rparr>,
     ss_client_fd = int fives, ss_server_fd = int fives, ss_server_domain = int fives,
     ss_server_address = replicate 128 5, ss_server_address_len = fives,
     ss_register = \<lparr>rg_method = 5, rg_username = None, rg_status = of_nat fives, rg_atyp = of_nat fives,
       rg_client_addr = replicate 128 5, rg_dest_addr = replicate sizeof_socks_addr 5, rg_dest_port = [5, 5],
       rg_user = None, rg_passwd = None\<rparr>,
     ss_sniff = \<lparr>sn_state = of_nat fives, sn_buffer = \<lparr>b_data = [], b_limit = 0, b_read = 0, b_write = 0\<rparr>,
       sn_username = replicate MAX_SIZE_USER 5, sn_password = replicate MAX_SIZE_USER 5,
       sn_read = 5, sn_remaining = 5, sn_check_read = 5, sn_check_remaining = 5, sn_parsing = True\<rparr>,
     ss_hello = \<lparr>hs_parser = \<lparr>on_authentication_method = None, hp_data = 5, hp_state = hello_done, hp_remaining = 5\<rparr>\<rparr>,
     ss_auth = \<lparr>sa_parser = \<lparr>ap_auth = auth_zero, ap_state = auth_version, ap_n = 5, ap_i = 5\<rparr>, sa_method = 5\<rparr>,
     ss_request = \<lparr>rs_parser = \<lparr>rp_request = request_zero, rp_state = request_done, rp_n = 5, rp_i = 5\<rparr>,
       rs_status = 5, rs_server_fd = int fives\<rparr>,
     ss_client_duplex = of_nat fives, ss_server_duplex = of_nat fives\<rparr>"

definition initialize_session :: "'o os \<Rightarrow> log_env \<Rightarrow> 'o \<Rightarrow> (session option \<times> 'o) res" where
  "initialize_session os env o0 =
     (let (session_ok, o1) = os_malloc os o0 in
      if \<not> session_ok then Inr (None, o1)
      else let (input_ok, o2) = os_malloc os o1 in
      if \<not> input_ok then Inr (None, o2)
      else let (output_ok, o3) = os_malloc os o2 in
      if \<not> output_ok then Inr (None, o3)
      else bindr (stm_create os env (ss_stm session_05)) (\<lambda>stm.
        Inr (Some (session_05\<lparr>
          ss_input := buffer_init (ss_input session_05) INPUT_BUFFER_SIZE (replicate INPUT_BUFFER_SIZE 0),
          ss_output := buffer_init (ss_output session_05) OUTPUT_BUFFER_SIZE (replicate OUTPUT_BUFFER_SIZE 0),
          ss_stm := stm\<rparr>), o3)))"

section \<open>The handlers registered in the selector\<close>

record 'o kworld =
  k_sessions :: "nat \<Rightarrow> session option"
  k_next :: nat
  k_env :: "'o env"
  k_log :: logger_ptr

definition deref_session :: "key \<Rightarrow> 'o kworld \<Rightarrow> (nat \<times> session) res" where
  "deref_session event w =
     (case sk_data event of
        Some (SessionP a) \<Rightarrow> (case k_sessions w a of Some p \<Rightarrow> Inr (a, p) | None \<Rightarrow> Inl UseAfterFree)
      | _ \<Rightarrow> Inl NullPointer)"

definition os_step :: "('o \<Rightarrow> 'x \<times> 'o) \<Rightarrow> 'o kworld \<Rightarrow> 'x \<times> 'o kworld" where
  "os_step f w = (let (x, o1) = f (e_os (k_env w)) in (x, w\<lparr>k_env := (k_env w)\<lparr>e_os := o1\<rparr>\<rparr>))"

definition client_close :: "'o os \<Rightarrow> key \<Rightarrow> sel \<times> 'o kworld \<Rightarrow> (sel \<times> 'o kworld) res" where
  "client_close os event sw =
     (let (s, w) = sw in
      bindr (deref_session event w) (\<lambda>(a, session).
      let (_, w1) = os_step (\<lambda>o0. os_close os o0 (ss_client_fd session)) w in
      Inr (s, w1\<lparr>k_sessions := (k_sessions w1)(a := None)\<rparr>)))"

definition server_close :: "'o os \<Rightarrow> key \<Rightarrow> sel \<times> 'o kworld \<Rightarrow> (sel \<times> 'o kworld) res" where
  "server_close os event sw =
     (let (s, w) = sw; (_, w1) = os_step (\<lambda>o0. os_close os o0 (sk_fd event)) w in Inr (s, w1))"

text \<open>The close callbacks, the part of the handlers \<^const>\<open>selector_unregister_fd\<close> uses.\<close>

definition socks_closing :: "'o os \<Rightarrow> handler_id \<Rightarrow> (handler_id, ptr, 'o kworld) fd_handler" where
  "socks_closing os h = \<lparr>handle_read = None, handle_write = None, handle_block = None,
     handle_close = (if h = CLIENT then Some (client_close os) else if h = SERVER then Some (server_close os) else None)\<rparr>"

text \<open>After the unregistration, which runs \<open>client_close\<close>, the descriptor is read from the session again.\<close>

definition close_session :: "'o os \<Rightarrow> key \<Rightarrow> sel \<times> 'o kworld \<Rightarrow> (sel \<times> 'o kworld) res" where
  "close_session os event sw =
     (let (s, w) = sw in
      bindr (deref_session event w) (\<lambda>(_, session).
      bindr (selector_unregister_fd (socks_closing os) s (ss_client_fd session) w) (\<lambda>(_, s1, w1).
      let e = k_env w1;
          w2 = (if get_concurrent_connections (e_stats e) > 0
                then w1\<lparr>k_env := e\<lparr>e_stats := stadistics_decrease_concurrent (e_stats e)\<rparr>\<rparr> else w1) in
      bindr (deref_session event w2) (\<lambda>(_, session2).
      let (_, w3) = os_step (\<lambda>o0. os_close os o0 (ss_client_fd session2)) w2 in Inr (s1, w3)))))"

text \<open>\<^verbatim>\<open>client_write\<close> and \<^verbatim>\<open>client_read\<close>, which differ in the event.\<close>

definition client_event ::
  "'o os \<Rightarrow> log_env \<Rightarrow> ((key, 'o sworld) state_definition list \<Rightarrow> state_machine \<Rightarrow> key \<Rightarrow> 'o sworld
       \<Rightarrow> (nat \<times> state_machine \<times> 'o sworld) res)
     \<Rightarrow> key \<Rightarrow> sel \<times> 'o kworld \<Rightarrow> (sel \<times> 'o kworld) res" where
  "client_event os env handler event sw =
     (let (s, w) = sw in
      bindr (deref_session event w) (\<lambda>(a, p).
      bindr (handler (stm_map os env) (ss_stm p) event
          \<lparr>sw_self = p, sw_sel = s, sw_env = k_env w, sw_log = k_log w\<rparr>) (\<lambda>(st, stm, sw1).
      let w1 = w\<lparr>k_sessions := (k_sessions w)(a \<mapsto> (sw_self sw1)\<lparr>ss_stm := stm\<rparr>), k_env := sw_env sw1,
                 k_log := sw_log sw1\<rparr> in
      if ERROR = st \<or> DONE = st then close_session os event (sw_sel sw1, w1)
      else Inr (sw_sel sw1, w1))))"

definition client_write ::
  "'o os \<Rightarrow> log_env \<Rightarrow> key \<Rightarrow> sel \<times> 'o kworld \<Rightarrow> (sel \<times> 'o kworld) res" where
  "client_write os env = client_event os env stm_handler_write"

definition client_read ::
  "'o os \<Rightarrow> log_env \<Rightarrow> key \<Rightarrow> sel \<times> 'o kworld \<Rightarrow> (sel \<times> 'o kworld) res" where
  "client_read os env = client_event os env stm_handler_read"

text \<open>
  The two functions differ in the size of the peer's address, which is not kept here. The results of
  \<^verbatim>\<open>accept\<close> and of the registration are not looked at.
\<close>

definition new_connection ::
  "'o os \<Rightarrow> log_env \<Rightarrow> key \<Rightarrow> sel \<times> 'o kworld \<Rightarrow> (sel \<times> 'o kworld) res" where
  "new_connection os env event sw =
     (let (s, w) = sw; (fd, w1) = os_step (\<lambda>o0. os_accept os o0 (sk_fd event)) w in
      bindr (initialize_session os env (e_os (k_env w1))) (\<lambda>(sp, o2).
      let w2 = w1\<lparr>k_env := (k_env w1)\<lparr>e_os := o2\<rparr>\<rparr> in
      case sp of
        None \<Rightarrow> let (_, w3) = os_step (\<lambda>o0. os_close os o0 fd) w2 in Inr (s, w3)
      | Some session \<Rightarrow>
          let a = k_next w2; session1 = session\<lparr>ss_client_fd := fd, ss_server_fd := - 1\<rparr>;
              w3 = w2\<lparr>k_sessions := (k_sessions w2)(a \<mapsto> session1), k_next := Suc a\<rparr>;
              (grow_ok, w4) = os_step (os_malloc os) w3 in
          bindr (selector_register grow_ok (Some s) fd (Some CLIENT) OP_READ (Some (SessionP a))) (\<lambda>(_, sp1).
          bindr (the_ptr sp1) (\<lambda>s1.
          Inr (s1, w4\<lparr>k_env := (k_env w4)\<lparr>e_stats := stadistics_increase_concurrent (e_stats (k_env w4))\<rparr>\<rparr>)))))"

definition new_connection_ipv4 ::
  "'o os \<Rightarrow> log_env \<Rightarrow> key \<Rightarrow> sel \<times> 'o kworld \<Rightarrow> (sel \<times> 'o kworld) res" where
  "new_connection_ipv4 os env = new_connection os env"

definition new_connection_ipv6 ::
  "'o os \<Rightarrow> log_env \<Rightarrow> key \<Rightarrow> sel \<times> 'o kworld \<Rightarrow> (sel \<times> 'o kworld) res" where
  "new_connection_ipv6 os env = new_connection os env"

text \<open>
  The handlers of \<^verbatim>\<open>server_handler\<close>, which is never registered; \<open>interrupted\<close> is whether \<^verbatim>\<open>errno\<close> is
  \<^verbatim>\<open>EINTR\<close> after a failed call. The result of \<^verbatim>\<open>send\<close> is kept in an unsigned variable.
\<close>

definition server_read :: "'o os \<Rightarrow> bool \<Rightarrow> key \<Rightarrow> sel \<times> 'o kworld \<Rightarrow> (sel \<times> 'o kworld) res" where
  "server_read os interrupted event sw =
     (let (s, w) = sw in
      bindr (deref_session event w) (\<lambda>(a, session).
      if \<not> buffer_can_write (ss_output session) then Inr (s, w)
      else bindr (recv_step os (sk_fd event) (ss_output session) (k_env w)) (\<lambda>(readBytes, b, e).
        let w1 = w\<lparr>k_env := e, k_sessions := (k_sessions w)(a \<mapsto> session\<lparr>ss_output := b\<rparr>)\<rparr> in
        if readBytes \<ge> 0 then
          bindr (buffer_write_adv b readBytes) (\<lambda>b1.
          Inr (s, w1\<lparr>k_sessions := (k_sessions w)(a \<mapsto> session\<lparr>ss_output := b1\<rparr>)\<rparr>))
        else if \<not> interrupted then close_session os event (s, w1) else Inr (s, w1))))"

definition server_write :: "'o os \<Rightarrow> bool \<Rightarrow> key \<Rightarrow> sel \<times> 'o kworld \<Rightarrow> (sel \<times> 'o kworld) res" where
  "server_write os interrupted event sw =
     (let (s, w) = sw in
      bindr (deref_session event w) (\<lambda>(a, session).
      if \<not> buffer_can_read (ss_output session) then Inr (s, w)
      else
        bindr (buffer_read_ptr (ss_output session)) (\<lambda>(bytes, _).
        bindr (send_step os (sk_fd event) (ss_output session) (k_env w)) (\<lambda>(n, e).
        let w1 = w\<lparr>k_env := e\<rparr>; write_bytes = of_int n :: u64 in
        if write_bytes > 0 then
          bindr (buffer_read_adv (ss_output session) (sint write_bytes)) (\<lambda>b.
          Inr (s, w1\<lparr>k_sessions := (k_sessions w1)(a \<mapsto> session\<lparr>ss_output := b\<rparr>),
                     k_env := e\<lparr>e_stats := stadistics_increase_bytes_sent (e_stats e) (of_nat bytes)\<rparr>\<rparr>))
        else if \<not> interrupted then close_session os event (s, w1) else Inr (s, w1)))))"

definition socks_handlers ::
  "'o os \<Rightarrow> log_env \<Rightarrow> handler_id \<Rightarrow> (handler_id, ptr, 'o kworld) fd_handler" where
  "socks_handlers os env h =
     (case h of
        CLIENT \<Rightarrow> \<lparr>handle_read = Some (client_read os env), handle_write = Some (client_write os env),
                   handle_block = None, handle_close = Some (client_close os)\<rparr>
      | SOCKS_PASSIVE_IPV4 \<Rightarrow> \<lparr>handle_read = Some (new_connection_ipv4 os env), handle_write = None,
                   handle_block = None, handle_close = None\<rparr>
      | SOCKS_PASSIVE_IPV6 \<Rightarrow> \<lparr>handle_read = Some (new_connection_ipv6 os env), handle_write = None,
                   handle_block = None, handle_close = None\<rparr>
      | _ \<Rightarrow> \<lparr>handle_read = None, handle_write = None, handle_block = None, handle_close = None\<rparr>)"

section \<open>An example selector\<close>

text \<open>Room for 1025 descriptors, of which 7, or 7 and 8, are registered.\<close>

lemma one_selector:
  "\<exists>s :: sel. wf_selector s \<and> sel_fd_size s = 1025 \<and> sel_map s = [7 \<mapsto> (Some CLIENT, OP_READ, Some (SessionP 0))]"
proof -
  obtain s0 :: sel where s0: "wf_selector s0" "sel_map s0 = Map.empty" "1024 < sel_fd_size s0"
    using new_wf [of 1024] by (auto simp: ITEMS_MAX_SIZE_def)
  have "sel_fd_size s0 = 1025" using s0(1,3) by (simp add: wf_selector_def ITEMS_MAX_SIZE_def)
  moreover have "\<not> used_at s0 7" using s0(2) by (metis option.distinct(1) sel_map_def)
  ultimately show ?thesis
    using register_core [OF s0(1), of 7 "Some CLIENT" True OP_READ "Some (SessionP 0)"] s0
    by (auto simp: ITEMS_MAX_SIZE_def)
qed

lemma pair_selector:
  "\<exists>s :: sel. wf_selector s \<and> sel_fd_size s = 1025 \<and>
     sel_map s = [7 \<mapsto> (Some CLIENT, OP_READ, Some (SessionP 0)), 8 \<mapsto> (Some CLIENT, OP_READ, Some (SessionP 0))]"
proof -
  obtain s0 :: sel where s0: "wf_selector s0" "sel_fd_size s0 = 1025" "sel_map s0 = [7 \<mapsto> (Some CLIENT, OP_READ, Some (SessionP 0))]"
    using one_selector by blast
  have "sel_map s0 8 = None" using s0(3) by simp
  then have "\<not> used_at s0 8" by (metis option.distinct(1) sel_map_def)
  then show ?thesis
    using register_core [OF s0(1), of 8 "Some CLIENT" True OP_READ "Some (SessionP 0)"] s0
    by (auto simp: ITEMS_MAX_SIZE_def)
qed

lemma used_at_map: "used_at s i \<longleftrightarrow> sel_map s i \<noteq> None"
  by (simp add: sel_map_def)

end
