(* ===== verification/Tap.thy ===== *)
theory Tap
  imports Env
begin

text \<open>
  An observed operating system: it behaves like a given one and records, per descriptor, the bytes
  received and the bytes sent. It is what the theorems on streams of bytes speak about; no code of
  the program is modelled here.
\<close>

type_synonym 'o tapped = "'o \<times> (int \<Rightarrow> u8 list) \<times> (int \<Rightarrow> u8 list)"

definition tap_call :: "('o \<Rightarrow> 'x \<times> 'o) \<Rightarrow> 'o tapped \<Rightarrow> 'x \<times> 'o tapped" where
  "tap_call f st = (let (x, o1) = f (fst st) in (x, o1, snd st))"

definition tap :: "'o os \<Rightarrow> 'o tapped os" where
  "tap os = \<lparr>
     os_recv = (\<lambda>(o0, r, t) fd n. let (x, o1) = os_recv os o0 fd n in
       (x, o1, (case x of None \<Rightarrow> r | Some xs \<Rightarrow> r(fd := r fd @ xs)), t)),
     os_send = (\<lambda>(o0, r, t) fd xs. let (n, o1) = os_send os o0 fd xs in
       (n, o1, r, t(fd := t fd @ take (nat n) xs))),
     os_close = (\<lambda>st fd. tap_call (\<lambda>o0. os_close os o0 fd) st),
     os_accept = (\<lambda>st fd. tap_call (\<lambda>o0. os_accept os o0 fd) st),
     os_malloc = (\<lambda>st. tap_call (os_malloc os) st),
     os_getfd = (\<lambda>st fd. os_getfd os (fst st) fd),
     os_setfl = (\<lambda>st fd x. os_setfl os (fst st) fd x),
     os_socket = (\<lambda>st dom. tap_call (\<lambda>o0. os_socket os o0 dom) st),
     os_connect = (\<lambda>st fd a. tap_call (\<lambda>o0. os_connect os o0 fd a) st),
     os_so_error = (\<lambda>st fd. tap_call (\<lambda>o0. os_so_error os o0 fd) st),
     os_shutdown = (\<lambda>st fd b. (os_shutdown os (fst st) fd b, snd st)),
     os_bind = (\<lambda>st fd. tap_call (\<lambda>o0. os_bind os o0 fd) st),
     os_listen = (\<lambda>st fd. tap_call (\<lambda>o0. os_listen os o0 fd) st)\<rparr>"

text \<open>The receive and the send steps under observation.\<close>

lemma recv_tap:
  assumes "os_ok os" "wf_buffer b"
  obtains (none) n b' o1 where "recv_step (tap os) fd b e = Inr (n, b', e\<lparr>e_os := (o1, snd (e_os e))\<rparr>)" "n \<le> 0"
      "wf_buffer b'" "buf_content b' = buf_content b"
  | (some) xs b' b1 o1 where
      "recv_step (tap os) fd b e = Inr (int (length xs), b', e\<lparr>e_os := (o1, (fst (snd (e_os e)))(fd := fst (snd (e_os e)) fd @ xs), snd (snd (e_os e)))\<rparr>)"
      "xs \<noteq> []" "buffer_peek b' (b_write b') (length xs) = Inr xs"
      "buffer_write_adv b' (int (length xs)) = Inr b1" "wf_buffer b1" "buf_content b1 = buf_content b @ xs"
proof -
  obtain o0 r t where e: "e_os e = (o0, r, t)" by (cases "e_os e") auto
  obtain x o1 where x: "os_recv os o0 fd (buf_room b) = (x, o1)" by fastforce
  show thesis
  proof (cases x)
    case None
    with x e assms(2) show thesis by (intro none [of "- 1" b o1]) (auto simp: recv_step_def write_ptr_wf tap_def)
  next
    case (Some xs)
    have le: "length xs \<le> buf_room b" using os_recv_le [OF assms(1)] x Some by simp
    obtain b' b1 where b: "buffer_poke b (b_write b) xs = Inr b'" "buffer_write_adv b' (int (length xs)) = Inr b1"
      "wf_buffer b1" "buf_content b1 = buf_content b @ xs"
      using poke_adv_wf [OF assms(2) le] by metis
    have step: "recv_step (tap os) fd b e = Inr (int (length xs), b', e\<lparr>e_os := (o1, r(fd := r fd @ xs), t)\<rparr>)"
      using x e Some b(1) assms(2) by (simp add: recv_step_def write_ptr_wf tap_def)
    show thesis
    proof (cases "xs = []")
      case True
      with b(1) have "b' = b" by (cases b) (auto simp: buffer_poke_def res_simps)
      with step True e assms(2) show thesis by (intro none [of 0 b o1]) (simp_all add: fun_upd_idem)
    next
      case False
      have "buffer_peek b' (b_write b') (length xs) = Inr xs"
        using b(1) le assms(2) by (auto simp: buffer_poke_def buffer_peek_def res_simps wf_buffer_def buf_room_def)
      with step False b e show thesis by (intro some [of xs b' o1 b1]) simp_all
    qed
  qed
qed

lemma send_tap:
  assumes "os_ok os" "wf_buffer b"
  obtains (none) o1 where "send_step (tap os) fd b e = Inr (- 1, e\<lparr>e_os := (o1, snd (e_os e))\<rparr>)"
  | (some) n b1 o1 where
      "send_step (tap os) fd b e = Inr (int n, e\<lparr>e_os := (o1, fst (snd (e_os e)), (snd (snd (e_os e)))(fd := snd (snd (e_os e)) fd @ take n (buf_content b)))\<rparr>)"
      "n \<le> length (buf_content b)" "buffer_peek b (b_read b) n = Inr (take n (buf_content b))"
      "buffer_read_adv b (int n) = Inr b1" "wf_buffer b1" "buf_content b1 = drop n (buf_content b)"
proof -
  obtain o0 r t where e: "e_os e = (o0, r, t)" by (cases "e_os e") auto
  obtain n o1 where x: "os_send os o0 fd (buf_content b) = (n, o1)" by fastforce
  have n: "- 1 \<le> n" "n \<le> int (length (buf_content b))" using os_send_range [OF assms(1) x] by auto
  have peek: "buffer_peek b (b_read b) (length (buf_content b)) = Inr (buf_content b)"
    using read_ptr_bytes [OF assms(2) order_refl] by simp
  have step: "send_step (tap os) fd b e = Inr (n, e\<lparr>e_os := (o1, r, t(fd := t fd @ take (nat n) (buf_content b)))\<rparr>)"
    using x e peek assms(2) by (simp add: send_step_def read_ptr_wf tap_def)
  show thesis
  proof (cases "n = - 1")
    case True
    with step e show thesis by (intro none [of o1]) (simp add: fun_upd_idem)
  next
    case False
    then have nn: "nat n \<le> length (buf_content b)" "int (nat n) = n" using n by auto
    obtain b1 where "buffer_read_adv b (int (nat n)) = Inr b1" "wf_buffer b1" "buf_content b1 = drop (nat n) (buf_content b)"
      using read_adv_wf [OF assms(2) nn(1)] by metis
    with step e nn read_ptr_bytes [OF assms(2) nn(1)] show thesis by (intro some [of "nat n" o1 b1]) simp_all
  qed
qed

end
