(* ===== verification/Relay.thy ===== *)
theory Relay
  imports Socks5 Tap
begin

text \<open>
  What the copying state of a session does to the two streams of bytes. The system calls are observed
  by the operating system \<open>tap\<close>.
\<close>

section \<open>Observed system calls\<close>

definition rcvd :: "'o tapped sworld \<Rightarrow> int \<Rightarrow> u8 list" where
  "rcvd w = fst (snd (sw_os w))"

definition sent :: "'o tapped sworld \<Rightarrow> int \<Rightarrow> u8 list" where
  "sent w = snd (snd (sw_os w))"

lemma sent_sel [simp]: "sent (w\<lparr>sw_sel := s\<rparr>) = sent w"
  by (simp add: sent_def)

section \<open>The sniffer of a fresh session\<close>

text \<open>As \<^const>\<open>session_05\<close> leaves it: marked as running, in no state of its own, with a buffer without room.\<close>

definition inert :: "pop3_sniff \<Rightarrow> bool" where
  "inert s \<longleftrightarrow> sn_parsing s \<and> \<not> pop3_done s \<and> sn_buffer s = \<lparr>b_data = [], b_limit = 0, b_read = 0, b_write = 0\<rparr>"

lemma inert_session_05: "inert (ss_sniff session_05)"
  by (simp add: inert_def session_05_def pop3_done_def pop3_states fives_def)

lemma pop3sniff_inert:
  assumes "inert (ss_sniff (sw_self w))"
  shows "pop3sniff env bytes w = Inr w"
proof -
  let ?s = "ss_sniff (sw_self w)" and ?b = "\<lparr>b_data = [], b_limit = 0, b_read = 0, b_write = 0\<rparr> :: buffer"
  have s: "sn_parsing ?s" "\<not> pop3_done ?s" "sn_buffer ?s = ?b" "?s\<lparr>sn_buffer := ?b\<rparr> = ?s"
    using assms by (auto simp: inert_def)
  have take0: "take (if length bytes \<le> 0 then length bytes else 0) bytes = []" by simp
  have b: "buffer_write_ptr ?b = Inr (0, 0)" "buffer_poke ?b 0 [] = Inr ?b" "buffer_write_adv ?b 0 = Inr ?b"
    by (simp_all add: buffer_write_ptr_def buffer_poke_def buffer_write_adv_def)
  have "consume_loop pop3_parse (\<lambda>s e. (pop3_done s, e)) ?b ?s False (pop3_done ?s) = Inr (?b, ?s, False)"
    by (simp add: consume_loop.simps buffer_can_read_def)
  then have "pop3_consume env (sw_log w) ?s (ss_register (sw_self w)) (sw_sel w) =
      Inr (sn_state ?s, ?s, ss_register (sw_self w), sw_log w, sw_sel w)"
    using s by (simp add: pop3_consume_def pop3_done_def)
  with s(1-3) b show ?thesis by (simp add: pop3sniff_def pop3_parsing_def Let_def s(4))
qed

section \<open>One event\<close>

lemma copy_sides [simp]:
  "copy_other (copy_other sd) = sd" "copy_other sd \<noteq> sd" "sd \<noteq> copy_other sd"
  "copy_write_buff sd p = copy_read_buff (copy_other sd) p" "set_write_buff sd b p = set_read_buff (copy_other sd) b p"
  by (cases sd; simp)+

lemma copy_fields [simp]:
  "copy_fd sd (set_read_buff sd' b p) = copy_fd sd p" "copy_fd sd (set_duplex sd' d p) = copy_fd sd p"
  "copy_read_buff sd (set_read_buff sd' b p) = (if sd = sd' then b else copy_read_buff sd p)"
  "copy_read_buff sd (set_duplex sd' d p) = copy_read_buff sd p"
  "copy_duplex sd (set_duplex sd' d p) = (if sd = sd' then d else copy_duplex sd p)"
  "copy_duplex sd (set_read_buff sd' b p) = copy_duplex sd p"
  "ss_sniff (set_read_buff sd' b p) = ss_sniff p" "ss_sniff (set_duplex sd' d p) = ss_sniff p"
  "set_read_buff sd b (set_read_buff sd b' p) = set_read_buff sd b p"
  by (cases sd; cases sd'; simp)+

lemma sworld_swap: "w\<lparr>sw_env := e, sw_self := p\<rparr> = w\<lparr>sw_self := p, sw_env := e\<rparr>" for w :: "'o sworld"
  by simp

text \<open>
  What holds while a fresh session copies: well-formed buffers, an idle sniffer, and two different
  descriptors that are both registered.
\<close>

definition registered :: "sel \<Rightarrow> int \<Rightarrow> bool" where
  "registered s fd \<longleftrightarrow> (\<exists>i. fd = int i \<and> used_at s i)"

definition copy_inv :: "'o sworld \<Rightarrow> bool" where
  "copy_inv w \<longleftrightarrow> wf_selector (sw_sel w) \<and> inert (ss_sniff (sw_self w)) \<and>
     ss_client_fd (sw_self w) \<noteq> ss_server_fd (sw_self w) \<and>
     (\<forall>sd. wf_buffer (copy_read_buff sd (sw_self w)) \<and> registered (sw_sel w) (copy_fd sd (sw_self w)))"

lemma copy_fd_inj: "copy_inv w \<Longrightarrow> copy_fd sd (sw_self w) = copy_fd sd' (sw_self w) \<longleftrightarrow> sd = sd'"
  by (cases sd; cases sd') (auto simp: copy_inv_def)

text \<open>Whose descriptor it is: the handler and the data of an entry. Interests change, the entries stay.\<close>

definition owner :: "sel \<Rightarrow> nat \<Rightarrow> (handler_id option \<times> ptr option) option" where
  "owner s i = map_option (\<lambda>(h, x, d). (h, d)) (sel_map s i)"

definition same_entries :: "sel \<Rightarrow> sel \<Rightarrow> bool" where
  "same_entries s s' \<longleftrightarrow> owner s' = owner s \<and> sel_fd_size s' = sel_fd_size s"

lemma same_entries_trans: "same_entries s s1 \<Longrightarrow> same_entries s1 s2 \<Longrightarrow> same_entries s s2"
  by (simp add: same_entries_def)

lemma set_interest_registered:
  assumes "wf_selector s" "registered s fd"
  obtains s' where "selector_set_interest s fd x = Inr (SELECTOR_SUCCESS, s')" "wf_selector s'"
    "\<And>fd'. registered s' fd' \<longleftrightarrow> registered s fd'" "it_interest (item_at s' (nat fd)) = x"
    "\<And>i. used_at s i \<Longrightarrow> int i \<noteq> fd \<Longrightarrow> it_interest (item_at s' i) = it_interest (item_at s i)" "same_entries s s'"
proof -
  obtain i where i: "fd = int i" "used_at s i" using assms(2) by (auto simp: registered_def)
  obtain s' where s': "selector_set_interest s (int i) x = Inr (SELECTOR_SUCCESS, s')" "wf_selector s'"
    "sel_map s' = (sel_map s)(i \<mapsto> (it_handler (item_at s i), x, it_data (item_at s i)))" "sel_fd_size s' = sel_fd_size s"
    using set_interest_wf [OF assms(1) i(2)] by metis
  have "same_entries s s'"
    using s'(3,4) i(2) by (auto simp: same_entries_def owner_def fun_eq_iff sel_map_def split: if_splits)
  have used: "used_at s' j \<longleftrightarrow> used_at s j" for j
    using fun_cong [OF s'(3), of j] i(2) by (auto simp: sel_map_def split: if_splits)
  have int: "it_interest (item_at s' j) = (if j = i then x else it_interest (item_at s j))" if "used_at s j" for j
    using fun_cong [OF s'(3), of j] that used [of j] by (auto simp: sel_map_def split: if_splits)
  show thesis
    by (rule that [of s']) (use s' i used int \<open>same_entries s s'\<close> in \<open>auto simp: registered_def\<close>)
qed

text \<open>The interest \<^const>\<open>check_interest\<close> asks for.\<close>

definition wanted :: "side \<Rightarrow> session \<Rightarrow> u32" where
  "wanted sd p = (let r = (if copy_duplex sd p AND OP_READ \<noteq> 0 \<and> buffer_can_write (copy_read_buff sd p) then OP_NOOP OR OP_READ else OP_NOOP)
     in if copy_duplex sd p AND OP_WRITE \<noteq> 0 \<and> buffer_can_read (copy_write_buff sd p) then r OR OP_WRITE else r)"

lemma check_interest_registered:
  assumes "wf_selector s" "registered s (copy_fd sd p)"
  obtains s' where "check_interest sd p s = Inr (wanted sd p, s')" "wf_selector s'"
    "\<And>fd'. registered s' fd' \<longleftrightarrow> registered s fd'" "it_interest (item_at s' (nat (copy_fd sd p))) = wanted sd p"
    "\<And>i. used_at s i \<Longrightarrow> int i \<noteq> copy_fd sd p \<Longrightarrow> it_interest (item_at s' i) = it_interest (item_at s i)" "same_entries s s'"
proof -
  have "copy_fd sd p \<noteq> - 1" using assms(2) by (auto simp: registered_def)
  then have eq: "check_interest sd p s = bindr (selector_set_interest s (copy_fd sd p) (wanted sd p)) (\<lambda>(st, s1).
      if SELECTOR_SUCCESS \<noteq> st then Inl Abort else Inr (wanted sd p, s1))"
    by (simp only: check_interest_def wanted_def Let_def if_True not_False_eq_True)
  show thesis
  proof (rule set_interest_registered [OF assms, of "wanted sd p"])
    fix s' assume "selector_set_interest s (copy_fd sd p) (wanted sd p) = Inr (SELECTOR_SUCCESS, s')" "wf_selector s'"
      "\<And>fd'. registered s' fd' \<longleftrightarrow> registered s fd'" "it_interest (item_at s' (nat (copy_fd sd p))) = wanted sd p"
      "\<And>i. used_at s i \<Longrightarrow> int i \<noteq> copy_fd sd p \<Longrightarrow> it_interest (item_at s' i) = it_interest (item_at s i)" "same_entries s s'"
    then show thesis by (intro that [of s']) (simp_all add: eq)
  qed
qed

lemma copy_finish_ok:
  assumes "copy_inv w"
  obtains s' where "copy_finish sd w = Inr (if copy_duplex sd (sw_self w) = OP_NOOP then DONE else COPY, w\<lparr>sw_sel := s'\<rparr>)"
    "copy_inv (w\<lparr>sw_sel := s'\<rparr>)"
    "\<And>sd'. it_interest (item_at s' (nat (copy_fd sd' (sw_self w)))) = wanted sd' (sw_self w)" "same_entries (sw_sel w) s'"
proof -
  let ?p = "sw_self w" and ?o = "copy_other sd"
  note inv = assms [unfolded copy_inv_def]
  obtain s1 where s1: "check_interest sd ?p (sw_sel w) = Inr (wanted sd ?p, s1)" "wf_selector s1"
    "\<And>fd'. registered s1 fd' \<longleftrightarrow> registered (sw_sel w) fd'" "it_interest (item_at s1 (nat (copy_fd sd ?p))) = wanted sd ?p"
    "same_entries (sw_sel w) s1"
    using check_interest_registered [of "sw_sel w" sd ?p] inv by metis
  have o: "registered s1 (copy_fd ?o ?p)" using s1(3) inv by blast
  obtain s2 where s2: "check_interest ?o ?p s1 = Inr (wanted ?o ?p, s2)" "wf_selector s2"
    "\<And>fd'. registered s2 fd' \<longleftrightarrow> registered s1 fd'" "it_interest (item_at s2 (nat (copy_fd ?o ?p))) = wanted ?o ?p"
    "\<And>i. used_at s1 i \<Longrightarrow> int i \<noteq> copy_fd ?o ?p \<Longrightarrow> it_interest (item_at s2 i) = it_interest (item_at s1 i)" "same_entries s1 s2"
    using check_interest_registered [OF s1(2) o] by metis
  have "registered s1 (copy_fd sd ?p)" using s1(3) inv by blast
  then obtain i where i: "copy_fd sd ?p = int i" "used_at s1 i" by (auto simp: registered_def)
  have "int i \<noteq> copy_fd ?o ?p" using copy_fd_inj [OF assms, of sd ?o] i(1) by simp
  then have sd: "it_interest (item_at s2 (nat (copy_fd sd ?p))) = wanted sd ?p"
    using s2(5) [OF i(2)] s1(4) i(1) by simp
  show thesis
  proof (rule that [of s2])
    show "copy_inv (w\<lparr>sw_sel := s2\<rparr>)" using inv s2(2,3) s1(3) by (simp add: copy_inv_def)
    show "it_interest (item_at s2 (nat (copy_fd sd' ?p))) = wanted sd' ?p" for sd'
      using sd s2(4) by (cases sd; cases sd') simp_all
    show "same_entries (sw_sel w) s2" using s1(5) s2(6) by (rule same_entries_trans)
  qed (use s1(1) s2(1) in \<open>simp add: copy_finish_def\<close>)
qed

text \<open>
  The bytes received from each side are, after those that were in its buffer at first, those sent to
  the other side followed by those still in the buffer.
\<close>

definition relayed :: "(side \<Rightarrow> u8 list) \<Rightarrow> 'o tapped sworld \<Rightarrow> bool" where
  "relayed base w \<longleftrightarrow> (\<forall>sd. base sd @ rcvd w (copy_fd sd (sw_self w)) =
     sent w (copy_fd (copy_other sd) (sw_self w)) @ buf_content (copy_read_buff sd (sw_self w)))"

text \<open>The interests of both descriptors are the wanted ones.\<close>

definition settled :: "'o sworld \<Rightarrow> bool" where
  "settled w \<longleftrightarrow> (\<forall>sd. it_interest (item_at (sw_sel w) (nat (copy_fd sd (sw_self w)))) = wanted sd (sw_self w))"

text \<open>
  How a step of the session may end, when it sends at most to \<open>fds\<close>: directions that were shut down
  stay so, and the interests are settled. Unless the stream \<open>ended\<close> no direction is shut down; the session is
  done only with a side that is shut down both ways.
\<close>

definition copy_step_ok :: "int set \<Rightarrow> bool \<Rightarrow> 'o tapped sworld \<Rightarrow> (nat \<times> 'o tapped sworld) res \<Rightarrow> bool" where
  "copy_step_ok fds ended w r \<longleftrightarrow> (\<exists>ret w'. r = Inr (ret, w') \<and> ret \<in> {COPY, DONE} \<and> copy_inv w' \<and>
     (\<forall>sd. copy_fd sd (sw_self w') = copy_fd sd (sw_self w)) \<and> (\<forall>base. relayed base w \<longrightarrow> relayed base w') \<and>
     (\<forall>fd. fd \<notin> fds \<longrightarrow> sent w' fd = sent w fd) \<and>
     (\<forall>sd x. copy_duplex sd (sw_self w) AND x = 0 \<longrightarrow> copy_duplex sd (sw_self w') AND x = 0) \<and>
     settled w' \<and> same_entries (sw_sel w) (sw_sel w') \<and> (\<not> ended \<longrightarrow> (\<forall>sd. copy_duplex sd (sw_self w') = copy_duplex sd (sw_self w))) \<and>
     (ret = DONE \<longrightarrow> (\<exists>sd. copy_duplex sd (sw_self w') = OP_NOOP)))"

lemma copy_finish_step:
  assumes "copy_inv w1" "\<forall>sd. copy_fd sd (sw_self w1) = copy_fd sd (sw_self w)" "\<And>base. relayed base w \<Longrightarrow> relayed base w1"
    "\<forall>fd. fd \<notin> fds \<longrightarrow> sent w1 fd = sent w fd"
    "\<And>sd x. copy_duplex sd (sw_self w) AND x = 0 \<Longrightarrow> copy_duplex sd (sw_self w1) AND x = 0"
    "sw_sel w1 = sw_sel w" "\<And>sd. \<not> ended \<Longrightarrow> copy_duplex sd (sw_self w1) = copy_duplex sd (sw_self w)"
  shows "copy_step_ok fds ended w (copy_finish sd w1)"
proof -
  obtain s' where s': "copy_finish sd w1 = Inr (if copy_duplex sd (sw_self w1) = OP_NOOP then DONE else COPY, w1\<lparr>sw_sel := s'\<rparr>)"
    "copy_inv (w1\<lparr>sw_sel := s'\<rparr>)" "\<And>sd'. it_interest (item_at s' (nat (copy_fd sd' (sw_self w1)))) = wanted sd' (sw_self w1)"
    "same_entries (sw_sel w1) s'"
    using copy_finish_ok [OF assms(1)] by metis
  have "relayed base (w1\<lparr>sw_sel := s'\<rparr>)" if "relayed base w" for base
    using assms(3) [OF that] by (simp add: relayed_def rcvd_def sent_def)
  with s' assms(2,4-7) show ?thesis by (auto simp: copy_step_ok_def settled_def COPY_def DONE_def)
qed

lemma half_close_keeps:
  fixes os :: "'o os"
  shows "copy_inv (half_close (tap os) sd f g w) \<longleftrightarrow> copy_inv w"
    "relayed base (half_close (tap os) sd f g w) \<longleftrightarrow> relayed base w"
    "copy_fd sd' (sw_self (half_close (tap os) sd f g w)) = copy_fd sd' (sw_self w)"
    "sent (half_close (tap os) sd f g w) = sent w"
    "copy_duplex sd' (sw_self w) AND x = 0 \<Longrightarrow> copy_duplex sd' (sw_self (half_close (tap os) sd f g w)) AND x = 0"
    "sw_sel (half_close (tap os) sd f g w) = sw_sel w"
proof -
  have fds: "ss_client_fd p = copy_fd ClientSide p" "ss_server_fd p = copy_fd ServerSide p" for p by simp_all
  have shut: "snd (os_shutdown (tap os) st fd b) = snd st" for st fd b by (simp add: tap_def)
  show "copy_inv (half_close (tap os) sd f g w) \<longleftrightarrow> copy_inv w"
    by (simp add: copy_inv_def half_close_def Let_def fds del: copy_fd.simps)
  show "relayed base (half_close (tap os) sd f g w) \<longleftrightarrow> relayed base w"
    by (simp add: relayed_def rcvd_def sent_def half_close_def Let_def shut)
  show "copy_fd sd' (sw_self (half_close (tap os) sd f g w)) = copy_fd sd' (sw_self w)"
    by (simp add: half_close_def Let_def)
  show "sent (half_close (tap os) sd f g w) = sent w" by (simp add: sent_def half_close_def Let_def shut)
  have masked: "(d AND m) AND x = 0" if "d AND x = 0" for d m :: u32
  proof -
    have "(d AND m) AND x = m AND (d AND x)" by (simp only: and.assoc and.commute and.left_commute)
    with that show ?thesis by simp
  qed
  show "copy_duplex sd' (sw_self w) AND x = 0 \<Longrightarrow> copy_duplex sd' (sw_self (half_close (tap os) sd f g w)) AND x = 0"
    by (auto simp: half_close_def Let_def masked)
  show "sw_sel (half_close (tap os) sd f g w) = sw_sel w" by (simp add: half_close_def Let_def)
qed

lemma copy_ptr_key: "copy_inv w \<Longrightarrow> sk_fd event = copy_fd sd (sw_self w) \<Longrightarrow> copy_ptr event (sw_self w) = sd"
  using copy_fd_inj [of w ClientSide sd] by (cases sd) (simp_all add: copy_ptr_def)

lemma copy_inv_upd:
  assumes "copy_inv w" "wf_buffer b"
  shows "copy_inv (w\<lparr>sw_self := set_read_buff sd b (sw_self w), sw_env := e\<rparr>)"
proof -
  have fds: "ss_client_fd p = copy_fd ClientSide p" "ss_server_fd p = copy_fd ServerSide p" for p by simp_all
  show ?thesis using assms by (simp add: copy_inv_def fds del: copy_fd.simps)
qed

lemma copy_read_ok:
  assumes "os_ok os" "copy_inv w" "sk_fd event = copy_fd sd (sw_self w)"
  shows "copy_step_ok {} (fst (os_recv os (fst (sw_os w)) (sk_fd event) (buf_room (copy_read_buff sd (sw_self w)))) \<in> {None, Some []})
    w (copy_read (tap os) env event w)" (is "copy_step_ok _ ?ended _ _")
proof -
  let ?p = "sw_self w" and ?b = "copy_read_buff sd (sw_self w)"
  have wf: "wf_buffer ?b" "inert (ss_sniff ?p)" using assms(2) by (simp_all add: copy_inv_def)
  note ptr = copy_ptr_key [OF assms(2,3)]
  show ?thesis
  proof (rule recv_tap [OF assms(1) wf(1), of "sk_fd event" "sw_env w"])
    fix n b' o1 assume r: "recv_step (tap os) (sk_fd event) ?b (sw_env w) = Inr (n, b', (sw_env w)\<lparr>e_os := (o1, snd (e_os (sw_env w)))\<rparr>)"
      "n \<le> 0" "wf_buffer b'" "buf_content b' = buf_content ?b"
    let ?w = "w\<lparr>sw_self := set_read_buff sd b' ?p, sw_env := (sw_env w)\<lparr>e_os := (o1, snd (e_os (sw_env w)))\<rparr>\<rparr>"
    have "copy_read (tap os) env event w = copy_finish sd (half_close (tap os) sd OP_READ OP_WRITE ?w)"
      using r ptr assms(3) by (simp add: copy_read_def Let_def)
    moreover have "relayed base ?w" if "relayed base w" for base
      using that r(4) by (auto simp: relayed_def rcvd_def sent_def)
    moreover have sent: "sent ?w = sent w" by (simp add: sent_def)
    moreover have ?ended
      using r(1,2) wf(1) by (auto simp: recv_step_def tap_def write_ptr_wf res_simps split: prod.splits option.splits)
    ultimately show ?thesis
      using copy_finish_step [of "half_close (tap os) sd OP_READ OP_WRITE ?w" w "{}" ?ended sd] copy_inv_upd [OF assms(2) r(3)]
      by (simp add: half_close_keeps sent)
  next
    fix xs b' b1 o1
    let ?e = "(sw_env w)\<lparr>e_os := (o1, (fst (snd (e_os (sw_env w))))(sk_fd event := fst (snd (e_os (sw_env w))) (sk_fd event) @ xs), snd (snd (e_os (sw_env w))))\<rparr>"
    assume r: "recv_step (tap os) (sk_fd event) ?b (sw_env w) = Inr (int (length xs), b', ?e)"
      "xs \<noteq> []" "buffer_peek b' (b_write b') (length xs) = Inr xs"
      "buffer_write_adv b' (int (length xs)) = Inr b1" "wf_buffer b1" "buf_content b1 = buf_content ?b @ xs"
    let ?w = "w\<lparr>sw_self := set_read_buff sd b1 ?p, sw_env := ?e\<rparr>"
    have "copy_read (tap os) env event w = copy_finish sd ?w"
      using r ptr assms(3) wf(2) by (simp add: copy_read_def Let_def pop3sniff_inert sworld_swap)
    moreover have "relayed base ?w" if "relayed base w" for base
      using that r(6) assms(3) copy_fd_inj [OF assms(2)] by (auto simp: relayed_def rcvd_def sent_def)
    ultimately show ?thesis
      using copy_finish_step [of ?w w "{}" ?ended sd] copy_inv_upd [OF assms(2) r(5), where sd = sd and e = ?e] by (simp add: sent_def)
  qed
qed

lemma copy_write_ok:
  assumes "os_ok os" "copy_inv w" "sk_fd event = copy_fd sd (sw_self w)"
  shows "copy_step_ok {copy_fd sd (sw_self w)} (fst (os_send os (fst (sw_os w)) (sk_fd event) (buf_content (copy_write_buff sd (sw_self w)))) < 0)
    w (copy_write (tap os) env event w)" (is "copy_step_ok _ ?ended _ _")
proof -
  let ?p = "sw_self w" and ?b = "copy_read_buff (copy_other sd) (sw_self w)"
  have wf: "wf_buffer ?b" "inert (ss_sniff ?p)" using assms(2) by (simp_all add: copy_inv_def)
  note ptr = copy_ptr_key [OF assms(2,3)]
  show ?thesis
  proof (rule send_tap [OF assms(1) wf(1), of "sk_fd event" "sw_env w"])
    fix o1 assume r: "send_step (tap os) (sk_fd event) ?b (sw_env w) = Inr (- 1, (sw_env w)\<lparr>e_os := (o1, snd (e_os (sw_env w)))\<rparr>)"
    let ?w = "w\<lparr>sw_env := (sw_env w)\<lparr>e_os := (o1, snd (e_os (sw_env w)))\<rparr>\<rparr>"
    have "copy_write (tap os) env event w = copy_finish sd (half_close (tap os) sd OP_WRITE OP_READ ?w)"
      using r ptr assms(3) by (simp add: copy_write_def Let_def)
    moreover have "relayed base ?w" if "relayed base w" for base
      using that by (auto simp: relayed_def rcvd_def sent_def)
    moreover have "copy_inv ?w" using assms(2) by (simp add: copy_inv_def)
    moreover have sent: "sent ?w = sent w" by (simp add: sent_def)
    moreover have ?ended
      using r wf(1) read_ptr_bytes [OF wf(1) order_refl]
      by (auto simp: send_step_def tap_def read_ptr_wf res_simps split: prod.splits)
    ultimately show ?thesis
      using copy_finish_step [of "half_close (tap os) sd OP_WRITE OP_READ ?w" w "{copy_fd sd (sw_self w)}" ?ended sd] by (simp add: half_close_keeps sent)
  next
    fix n b1 o1
    let ?e = "(sw_env w)\<lparr>e_os := (o1, fst (snd (e_os (sw_env w))), (snd (snd (e_os (sw_env w))))(sk_fd event := snd (snd (e_os (sw_env w))) (sk_fd event) @ take n (buf_content ?b)))\<rparr>"
    assume r: "send_step (tap os) (sk_fd event) ?b (sw_env w) = Inr (int n, ?e)" "n \<le> length (buf_content ?b)"
      "buffer_peek ?b (b_read ?b) n = Inr (take n (buf_content ?b))"
      "buffer_read_adv ?b (int n) = Inr b1" "wf_buffer b1" "buf_content b1 = drop n (buf_content ?b)"
    let ?e1 = "?e\<lparr>e_stats := stadistics_increase_bytes_sent (e_stats (sw_env w)) (of_int (int n))\<rparr>"
    let ?w = "w\<lparr>sw_self := set_read_buff (copy_other sd) b1 ?p, sw_env := ?e1\<rparr>"
    have "copy_write (tap os) env event w = copy_finish sd ?w"
      using r ptr assms(3) wf(2) by (simp add: copy_write_def Let_def pop3sniff_inert sworld_swap)
    moreover have "relayed base ?w" if "relayed base w" for base
      using that r(6) assms(3) copy_fd_inj [OF assms(2)] by (auto simp: relayed_def rcvd_def sent_def)
    ultimately show ?thesis
      using copy_finish_step [of ?w w "{copy_fd sd (sw_self w)}" ?ended sd] assms(3) copy_inv_upd [OF assms(2) r(5), where sd = "copy_other sd" and e = ?e1] by (simp add: sent_def)
  qed
qed

section \<open>Sequences of events\<close>

text \<open>The selector reports one event after the other, until the session is done.\<close>

datatype copy_event = Readable side | Writable side

definition copy_handle ::
  "'o os \<Rightarrow> log_env \<Rightarrow> ptr option \<Rightarrow> copy_event \<Rightarrow> 'o sworld \<Rightarrow> (nat \<times> 'o sworld) res" where
  "copy_handle os env d ev w =
     (case ev of
        Readable sd \<Rightarrow> copy_read os env \<lparr>sk_fd = copy_fd sd (sw_self w), sk_data = d\<rparr> w
      | Writable sd \<Rightarrow> copy_write os env \<lparr>sk_fd = copy_fd sd (sw_self w), sk_data = d\<rparr> w)"

fun copy_run ::
  "'o os \<Rightarrow> log_env \<Rightarrow> ptr option \<Rightarrow> copy_event list \<Rightarrow> 'o sworld \<Rightarrow> (nat \<times> 'o sworld) res" where
  "copy_run os env d [] w = Inr (COPY, w)"
| "copy_run os env d (ev # evs) w =
     bindr (copy_handle os env d ev w) (\<lambda>(st, w'). if st = DONE then Inr (DONE, w') else copy_run os env d evs w')"

definition ev_sends :: "copy_event \<Rightarrow> 'o sworld \<Rightarrow> int set" where
  "ev_sends ev w = (case ev of Readable sd \<Rightarrow> {} | Writable sd \<Rightarrow> {copy_fd sd (sw_self w)})"

text \<open>What the event finds: the end of a stream, or an error.\<close>

definition ev_ended :: "'o os \<Rightarrow> copy_event \<Rightarrow> 'o tapped sworld \<Rightarrow> bool" where
  "ev_ended os ev w = (case ev of
     Readable sd \<Rightarrow> fst (os_recv os (fst (sw_os w)) (copy_fd sd (sw_self w)) (buf_room (copy_read_buff sd (sw_self w)))) \<in> {None, Some []}
   | Writable sd \<Rightarrow> fst (os_send os (fst (sw_os w)) (copy_fd sd (sw_self w)) (buf_content (copy_write_buff sd (sw_self w)))) < 0)"

lemma copy_handle_ok:
  assumes "os_ok os" "copy_inv w"
  shows "copy_step_ok (ev_sends ev w) (ev_ended os ev w) w (copy_handle (tap os) env d ev w)"
proof (cases ev)
  case (Readable sd)
  then show ?thesis
    using copy_read_ok [OF assms, of "\<lparr>sk_fd = copy_fd sd (sw_self w), sk_data = d\<rparr>" sd env]
    by (simp add: copy_handle_def ev_sends_def ev_ended_def)
next
  case (Writable sd)
  then show ?thesis
    using copy_write_ok [OF assms, of "\<lparr>sk_fd = copy_fd sd (sw_self w), sk_data = d\<rparr>" sd env]
    by (simp add: copy_handle_def ev_sends_def ev_ended_def)
qed

lemma copy_run_ok:
  assumes "os_ok os" "copy_inv w" "relayed base w"
  shows "\<exists>st w'. copy_run (tap os) env d evs w = Inr (st, w') \<and> st \<in> {COPY, DONE} \<and> relayed base w' \<and>
    (\<forall>sd. copy_fd sd (sw_self w') = copy_fd sd (sw_self w))"
  using assms(2,3)
proof (induction evs arbitrary: w)
  case (Cons ev evs)
  obtain st w1 where w1: "copy_handle (tap os) env d ev w = Inr (st, w1)" "st \<in> {COPY, DONE}" "copy_inv w1"
    "\<forall>sd. copy_fd sd (sw_self w1) = copy_fd sd (sw_self w)" "relayed base w1"
    using copy_handle_ok [OF assms(1) Cons.prems(1), of ev env d] Cons.prems(2) by (auto simp: copy_step_ok_def)
  show ?case
  proof (cases "st = DONE")
    case True
    with w1 show ?thesis by simp
  next
    case False
    with w1 Cons.IH [OF w1(3,5)] show ?thesis by auto
  qed
qed simp

text \<open>
  The events the selector can dispatch: those in which the descriptor's interest is set. A direction
  that was shut down for writing is never written again.
\<close>

definition dispatched :: "copy_event \<Rightarrow> 'o sworld \<Rightarrow> bool" where
  "dispatched ev w =
     (case ev of
        Readable sd \<Rightarrow> OP_READ AND it_interest (item_at (sw_sel w) (nat (copy_fd sd (sw_self w)))) \<noteq> 0
      | Writable sd \<Rightarrow> OP_WRITE AND it_interest (item_at (sw_sel w) (nat (copy_fd sd (sw_self w)))) \<noteq> 0)"

inductive copy_steps :: "'o os \<Rightarrow> log_env \<Rightarrow> ptr option \<Rightarrow> 'o sworld \<Rightarrow> 'o sworld \<Rightarrow> bool"
  for os :: "'o os" and env d w where
  refl: "copy_steps os env d w w"
| step: "copy_steps os env d w w1 \<Longrightarrow> dispatched ev w1 \<Longrightarrow> copy_handle os env d ev w1 = Inr (st, w2) \<Longrightarrow>
    copy_steps os env d w w2"

definition shut_for_writing :: "side \<Rightarrow> 'o sworld \<Rightarrow> bool" where
  "shut_for_writing sd w \<longleftrightarrow> copy_inv w \<and> copy_duplex sd (sw_self w) AND OP_WRITE = 0 \<and> settled w"

lemma wanted_shut: "copy_duplex sd p AND OP_WRITE = 0 \<Longrightarrow> OP_WRITE AND wanted sd p = 0"
  by (simp add: wanted_def Let_def OP_NOOP_def OP_READ_def OP_WRITE_def)

lemma shut_stays:
  assumes "os_ok os" "copy_steps (tap os) env d w w'" "shut_for_writing sd w"
  shows "shut_for_writing sd w' \<and> copy_fd sd (sw_self w') = copy_fd sd (sw_self w) \<and>
    sent w' (copy_fd sd (sw_self w)) = sent w (copy_fd sd (sw_self w))"
  using assms(2)
proof (induction rule: copy_steps.induct)
  case refl
  with assms(3) show ?case by simp
next
  case (step w1 ev st w2)
  then have w1: "copy_inv w1" "copy_duplex sd (sw_self w1) AND OP_WRITE = 0"
    "settled w1"
    by (simp_all add: shut_for_writing_def)
  have ok: "copy_inv w2 \<and> (\<forall>sd. copy_fd sd (sw_self w2) = copy_fd sd (sw_self w1)) \<and>
      (\<forall>fd. fd \<notin> ev_sends ev w1 \<longrightarrow> sent w2 fd = sent w1 fd) \<and>
      (\<forall>sd x. copy_duplex sd (sw_self w1) AND x = 0 \<longrightarrow> copy_duplex sd (sw_self w2) AND x = 0) \<and>
      settled w2"
    using copy_handle_ok [OF assms(1) w1(1), of ev env d] unfolding copy_step_ok_def step.hyps(3)
    by (auto simp only: sum.inject prod.inject)
  have "ev \<noteq> Writable sd"
    using step.hyps(2) w1(3) wanted_shut [OF w1(2)] by (auto simp: dispatched_def settled_def)
  then have "copy_fd sd (sw_self w1) \<notin> ev_sends ev w1"
    using copy_fd_inj [OF w1(1)] by (auto simp: ev_sends_def split: copy_event.splits)
  with ok step.IH w1 show ?case by (simp add: shut_for_writing_def)
qed

lemma eof_shuts:
  assumes "os_ok os" "copy_inv w" "fst (os_recv os (fst (sw_os w)) (copy_fd sd (sw_self w)) (buf_room (copy_read_buff sd (sw_self w)))) \<in> {None, Some []}"
    and "copy_handle (tap os) env d (Readable sd) w = Inr (st, w')"
  shows "shut_for_writing (copy_other sd) w' \<and> sent w' = sent w \<and> (\<forall>sd'. copy_fd sd' (sw_self w') = copy_fd sd' (sw_self w))"
proof -
  let ?p = "sw_self w" and ?b = "copy_read_buff sd (sw_self w)" and ?key = "\<lparr>sk_fd = copy_fd sd (sw_self w), sk_data = d\<rparr>"
  have wf: "wf_buffer ?b" using assms(2) by (simp add: copy_inv_def)
  have run: "copy_read (tap os) env ?key w = Inr (st, w')" using assms(4) by (simp add: copy_handle_def)
  show ?thesis
  proof (rule recv_tap [OF assms(1) wf, of "copy_fd sd ?p" "sw_env w"])
    fix n b' o1 assume r: "recv_step (tap os) (copy_fd sd ?p) ?b (sw_env w) = Inr (n, b', (sw_env w)\<lparr>e_os := (o1, snd (e_os (sw_env w)))\<rparr>)"
      "n \<le> 0" "wf_buffer b'" "buf_content b' = buf_content ?b"
    let ?w = "w\<lparr>sw_self := set_read_buff sd b' ?p, sw_env := (sw_env w)\<lparr>e_os := (o1, snd (e_os (sw_env w)))\<rparr>\<rparr>"
    let ?w1 = "half_close (tap os) sd OP_READ OP_WRITE ?w"
    have inv: "copy_inv ?w1" using copy_inv_upd [OF assms(2) r(3)] by (simp add: half_close_keeps)
    have eq: "copy_finish sd ?w1 = Inr (st, w')"
      using run r copy_ptr_key [OF assms(2), of ?key sd] by (simp add: copy_read_def Let_def)
    obtain s' where s': "w' = ?w1\<lparr>sw_sel := s'\<rparr>" "copy_inv w'"
      "\<And>sd'. it_interest (item_at s' (nat (copy_fd sd' (sw_self ?w1)))) = wanted sd' (sw_self ?w1)"
      by (rule copy_finish_ok [OF inv, of sd]) (use eq in simp)
    have reg: "copy_fd (copy_other sd) ?p \<noteq> - 1" using assms(2) by (auto simp: copy_inv_def registered_def dest: spec [of _ "copy_other sd"])
    have "copy_duplex (copy_other sd) (sw_self ?w1) AND OP_WRITE = 0"
      using reg by (simp add: half_close_def Let_def and.assoc OP_WRITE_def)
    moreover have "sent ?w1 = sent w" using half_close_keeps(4) [of os sd OP_READ OP_WRITE ?w] by (simp add: sent_def)
    ultimately show ?thesis
      using s' by (simp add: shut_for_writing_def settled_def half_close_keeps)
  next
    fix xs b' b1 o1
    assume "recv_step (tap os) (copy_fd sd ?p) ?b (sw_env w) = Inr (int (length xs), b', (sw_env w)\<lparr>e_os := (o1,
        (fst (snd (e_os (sw_env w))))(copy_fd sd ?p := fst (snd (e_os (sw_env w))) (copy_fd sd ?p) @ xs), snd (snd (e_os (sw_env w))))\<rparr>)" "xs \<noteq> []"
    with assms(3) wf show ?thesis
      by (auto simp: recv_step_def tap_def write_ptr_wf res_simps split: prod.splits option.splits)
  qed
qed

section \<open>Properties\<close>

text \<open>
  C5: the proxy relays both streams unchanged. Whatever events the selector reports for the two
  sockets of a fresh session in the copying state, and however many bytes the system receives and
  accepts at each call, every event is handled without a fault; and in each direction the bytes that
  were buffered at first, followed by those received, are exactly those sent to the other side,
  in order and each once, followed by those still in the buffer.
\<close>

theorem relay_preserves_streams:
  assumes "os_ok os" "copy_inv w" "sw_os w = (o0, (\<lambda>_. []), (\<lambda>_. []))"
  shows "\<exists>st w'. copy_run (tap os) env d evs w = Inr (st, w') \<and> st \<in> {COPY, DONE} \<and>
    buf_content (ss_input (sw_self w)) @ rcvd w' (ss_client_fd (sw_self w)) =
      sent w' (ss_server_fd (sw_self w)) @ buf_content (ss_input (sw_self w')) \<and>
    buf_content (ss_output (sw_self w)) @ rcvd w' (ss_server_fd (sw_self w)) =
      sent w' (ss_client_fd (sw_self w)) @ buf_content (ss_output (sw_self w'))"
proof -
  let ?base = "\<lambda>sd. buf_content (copy_read_buff sd (sw_self w))"
  have "relayed ?base w" using assms(3) by (simp add: relayed_def rcvd_def sent_def)
  from copy_run_ok [OF assms(1,2) this, of env d evs] obtain st w' where
    w': "copy_run (tap os) env d evs w = Inr (st, w')" "st \<in> {COPY, DONE}" "relayed ?base w'"
    "\<forall>sd. copy_fd sd (sw_self w') = copy_fd sd (sw_self w)" by blast
  have fds: "ss_client_fd (sw_self w') = ss_client_fd (sw_self w)" "ss_server_fd (sw_self w') = ss_server_fd (sw_self w)"
    using w'(4) [rule_format, of ClientSide] w'(4) [rule_format, of ServerSide] by simp_all
  show ?thesis
    using w'(1,2) w'(3) [unfolded relayed_def, rule_format, of ClientSide]
      w'(3) [unfolded relayed_def, rule_format, of ServerSide] fds by auto
qed

text \<open>A session in the copying state: the client on descriptor 7, the destination on 8.\<close>

definition copy_example :: "sel \<Rightarrow> u8 list list \<Rightarrow> script tapped sworld" where
  "copy_example s ms =
     (let b = buffer_init (ss_input session_05) INPUT_BUFFER_SIZE (replicate INPUT_BUFFER_SIZE 0) in
      \<lparr>sw_self = session_05\<lparr>ss_input := b, ss_output := b, ss_client_fd := 7, ss_server_fd := 8,
          ss_client_duplex := OP_READ OR OP_WRITE, ss_server_duplex := OP_READ OR OP_WRITE\<rparr>,
       sw_sel = s, sw_env = \<lparr>e_users = default_users, e_stats = stadistics_init,
         e_os = (([], ms, []), (\<lambda>_. []), (\<lambda>_. []))\<rparr>, sw_log = logger_data\<rparr>)"

lemma copy_example_inv:
  assumes "wf_selector s" "used_at s 7" "used_at s 8"
  shows "copy_inv (copy_example s ms)"
proof -
  have "registered s 7" "registered s 8"
    using assms unfolding registered_def by (metis of_nat_numeral)+
  then have "\<forall>sd. wf_buffer (copy_read_buff sd (sw_self (copy_example s ms))) \<and> registered s (copy_fd sd (sw_self (copy_example s ms)))"
    by (intro allI, rename_tac sd, case_tac sd) (simp_all add: copy_example_def Let_def)
  then show ?thesis
    using assms(1) inert_session_05 by (simp add: copy_inv_def copy_example_def Let_def)
qed

theorem relay_preserves_streams_witness:
  "\<exists>(w :: script tapped sworld) st w'. buf_content (ss_input (sw_self w)) = [] \<and>
     copy_run (tap script_os) example_env None [Readable ClientSide, Writable ServerSide] w = Inr (st, w') \<and>
     rcvd w' 7 = sent w' 8 @ buf_content (ss_input (sw_self w'))"
proof -
  obtain s :: sel where s: "wf_selector s" "used_at s 7" "used_at s 8"
    using pair_selector by (force simp: used_at_map)
  let ?w = "copy_example s [[1, 2, 3]]"
  have fds: "ss_client_fd (sw_self ?w) = 7" "ss_server_fd (sw_self ?w) = 8" "buf_content (ss_input (sw_self ?w)) = []"
    by (simp_all add: copy_example_def Let_def)
  have os: "sw_os ?w = (([], [[1, 2, 3]], []), (\<lambda>_. []), (\<lambda>_. []))" by (simp add: copy_example_def Let_def)
  from relay_preserves_streams [OF script_os_ok copy_example_inv [OF s] os, of example_env None "[Readable ClientSide, Writable ServerSide]"]
  show ?thesis unfolding fds by (metis append_Nil fds(3))
qed

text \<open>
  C37: the end of one stream discards what was still to be delivered. When a side closes its stream
  (or the connection fails), the other socket is shut down for writing at once, whatever the
  buffer still holds: in no continuation, of any events the selector can dispatch, is another byte
  sent to it.
\<close>

theorem end_of_stream_discards_pending:
  assumes "os_ok os" "copy_inv w"
    and "fst (os_recv os (fst (sw_os w)) (copy_fd sd (sw_self w)) (buf_room (copy_read_buff sd (sw_self w)))) \<in> {None, Some []}"
    and "copy_handle (tap os) env d (Readable sd) w = Inr (st, w1)" "copy_steps (tap os) env d w1 w2"
  shows "sent w2 (copy_fd (copy_other sd) (sw_self w)) = sent w (copy_fd (copy_other sd) (sw_self w))"
  using eof_shuts [OF assms(1-4)] shut_stays [OF assms(1,5), of "copy_other sd"] by simp

theorem end_of_stream_discards_pending_witness:
  "\<exists>(w :: script tapped sworld) st w1. buf_content (ss_input (sw_self w)) = [1] \<and>
     copy_handle (tap script_os) example_env None (Readable ClientSide) w = Inr (st, w1) \<and>
     (\<forall>w2. copy_steps (tap script_os) example_env None w1 w2 \<longrightarrow> sent w2 8 = [])"
proof -
  obtain s :: sel where s: "wf_selector s" "used_at s 7" "used_at s 8"
    using pair_selector by (force simp: used_at_map)
  let ?b = "\<lparr>b_data = [1], b_limit = 1, b_read = 0, b_write = 1\<rparr> :: buffer"
  let ?w0 = "copy_example s []"
  let ?w = "?w0\<lparr>sw_self := set_read_buff ClientSide ?b (sw_self ?w0), sw_env := sw_env ?w0\<rparr>"
  have inv: "copy_inv ?w" by (rule copy_inv_upd [OF copy_example_inv [OF s]]) (simp add: wf_buffer_def)
  have eof: "fst (os_recv script_os (fst (sw_os ?w)) (copy_fd ClientSide (sw_self ?w))
      (buf_room (copy_read_buff ClientSide (sw_self ?w)))) \<in> {None, Some []}"
    by (simp add: copy_example_def script_os_def Let_def)
  obtain st w1 where w1: "copy_handle (tap script_os) example_env None (Readable ClientSide) ?w = Inr (st, w1)"
    using copy_handle_ok [OF script_os_ok inv, of "Readable ClientSide" example_env None] by (auto simp: copy_step_ok_def)
  have "sent w2 8 = []" if "copy_steps (tap script_os) example_env None w1 w2" for w2
    using end_of_stream_discards_pending [OF script_os_ok inv eof w1 that]
    by (simp add: copy_example_def sent_def Let_def)
  moreover have "buf_content (ss_input (sw_self ?w)) = [1]" by (simp add: buf_content_def)
  ultimately show ?thesis using w1 by blast
qed

end
