(* ===== verification/Negotiation.thy ===== *)
theory Negotiation
  imports Socks5
begin

text \<open>
  A SOCKS session from its first byte to the copying state, through the handlers the selector calls:
  the greeting, the request, the connection to the destination and the reply; and how sessions end.
\<close>

section \<open>Events of a session\<close>

lemma stm_map_length [simp]: "length (stm_map os env) = 8"
  by (simp add: stm_map_def)

lemma stm_map_entries:
  "stm_map os env ! HELLO_READ = hello_state_def os" "stm_map os env ! HELLO_WRITE = hello_write_state_def os"
  "stm_map os env ! REQUEST_READ = request_read_state_def os"
  "stm_map os env ! REQUEST_CONNECTING = request_connecting_state_def os"
  "stm_map os env ! REQUEST_WRITE = request_write_state_def os" "stm_map os env ! COPY = copy_state_def os env"
  "stm_map os env ! ERROR = error_state_def" "stm_map os env ! DONE = done_state_def"
  by (simp_all add: stm_map_def socks_states)

lemmas state_defs = hello_state_def_def hello_write_state_def_def request_read_state_def_def
  request_connecting_state_def_def request_write_state_def_def copy_state_def_def error_state_def_def done_state_def_def
  blank_state_def

lemma stm_map_cases: "c < 8 \<Longrightarrow> c = HELLO_READ \<or> c = HELLO_WRITE \<or> c = REQUEST_READ \<or> c = REQUEST_CONNECTING \<or>
    c = REQUEST_WRITE \<or> c = COPY \<or> c = ERROR \<or> c = DONE"
  unfolding socks_states by linarith

lemma stm_map_entry:
  assumes "c < 8"
  shows "sd_state (stm_map os env ! c) = c \<and> on_departure (stm_map os env ! c) = None"
  using stm_map_cases [OF assms] by (elim disjE) (simp_all add: stm_map_entries state_defs)

lemma stm_map_wf: "wf_table (stm_map os env) DONE"
proof -
  have "sd_state (stm_map os env ! i) = i" if "i \<le> DONE" for i
    using stm_map_entry [of i os env] that by (simp add: DONE_def)
  then show ?thesis by (simp add: wf_table_def DONE_def)
qed

text \<open>What an event does in the state \<open>c\<close>, by the outcome of the callback.\<close>

lemma socks_event:
  assumes "sm_current stm = Some c" "sm_max_state stm = DONE" "c < 8" "f (stm_map os env ! c) = Some cb"
    "cb key w = Inr (j, w1)" "j < 8"
    "j \<noteq> c \<Longrightarrow> run_hook (on_arrival (stm_map os env ! j)) j key w1 = Inr w2" "j = c \<Longrightarrow> w2 = w1"
  shows "stm_event f (stm_map os env) stm key w = Inr (j, stm\<lparr>sm_current := Some j\<rparr>, w2)"
proof (cases "j = c")
  case True
  then have "stm\<lparr>sm_current := Some j\<rparr> = stm" using assms(1) by (cases stm) simp
  with True assms show ?thesis by (simp add: stm_event_def handle_first_def jump_def DONE_def)
next
  case False
  with assms show ?thesis by (simp add: stm_event_def handle_first_def jump_def stm_map_entry DONE_def)
qed

lemma socks_event_beyond:
  assumes "sm_current stm = Some c" "sm_max_state stm = DONE" "c < 8" "f (stm_map os env ! c) = Some cb"
    "cb key w = Inr (j, w1)" "8 \<le> j"
  shows "stm_event f (stm_map os env) stm key w = Inl Abort"
  using assms by (simp add: stm_event_def handle_first_def jump_def DONE_def)

lemma socks_event_unset:
  assumes "sm_current stm = Some c" "c < 8" "f (stm_map os env ! c) = None"
  shows "stm_event f (stm_map os env) stm key w = Inl Abort"
  using assms by (simp add: stm_event_def handle_first_def)

text \<open>The session on the heap at \<open>a\<close>, its client on the descriptor \<open>i\<close>, with the interest \<open>x\<close>.\<close>

definition session_at :: "nat \<Rightarrow> nat \<Rightarrow> u32 \<Rightarrow> session \<Rightarrow> sel \<Rightarrow> 'o kworld \<Rightarrow> bool" where
  "session_at a i x p s w \<longleftrightarrow> k_sessions w a = Some p \<and> ss_client_fd p = int i \<and> wf_selector s \<and>
     sel_map s i = Some (Some CLIENT, x, Some (SessionP a)) \<and> sm_max_state (ss_stm p) = DONE"

abbreviation key_of :: "nat \<Rightarrow> nat \<Rightarrow> key" where
  "key_of i a \<equiv> \<lparr>sk_fd = int i, sk_data = Some (SessionP a)\<rparr>"

abbreviation session_world :: "session \<Rightarrow> sel \<Rightarrow> 'o kworld \<Rightarrow> 'o sworld" where
  "session_world p s w \<equiv> \<lparr>sw_self = p, sw_sel = s, sw_env = k_env w, sw_log = k_log w\<rparr>"

abbreviation state_of :: "session \<Rightarrow> nat option" where
  "state_of p \<equiv> sm_current (ss_stm p)"

lemma client_event_fault:
  assumes "k_sessions w a = Some p" "h (stm_map os env) (ss_stm p) (key_of i a) (session_world p s w) = Inl e"
  shows "client_event os env h (key_of i a) (s, w) = Inl e"
  using assms by (simp add: client_event_def deref_session_def)

lemma client_event_step:
  assumes "k_sessions w a = Some p" "h (stm_map os env) (ss_stm p) (key_of i a) (session_world p s w) = Inr (st, stm, sw1)"
    "st \<noteq> ERROR" "st \<noteq> DONE"
  shows "client_event os env h (key_of i a) (s, w) = Inr (sw_sel sw1,
    w\<lparr>k_sessions := (k_sessions w)(a \<mapsto> (sw_self sw1)\<lparr>ss_stm := stm\<rparr>), k_env := sw_env sw1, k_log := sw_log sw1\<rparr>)"
  using assms by (simp add: client_event_def deref_session_def Let_def)

lemma session_step:
  assumes "k_sessions w a = Some p" "state_of p = Some c" "sm_max_state (ss_stm p) = DONE" "c < 8"
    "f (stm_map os env ! c) = Some cb" "cb (key_of i a) (session_world p s w) = Inr (j, w1)" "j < ERROR"
    "j \<noteq> c \<Longrightarrow> run_hook (on_arrival (stm_map os env ! j)) j (key_of i a) w1 = Inr w2" "j = c \<Longrightarrow> w2 = w1"
  shows "client_event os env (stm_event f) (key_of i a) (s, w) = Inr (sw_sel w2,
    w\<lparr>k_sessions := (k_sessions w)(a \<mapsto> (sw_self w2)\<lparr>ss_stm := (ss_stm p)\<lparr>sm_current := Some j\<rparr>\<rparr>), k_env := sw_env w2,
      k_log := sw_log w2\<rparr>)"
proof (rule client_event_step [OF assms(1)])
  show "stm_event f (stm_map os env) (ss_stm p) (key_of i a) (session_world p s w) = Inr (j, (ss_stm p)\<lparr>sm_current := Some j\<rparr>, w2)"
    by (rule socks_event [where c = c and cb = cb and ?w1.0 = w1]) (use assms(2-9) in \<open>simp_all add: ERROR_def\<close>)
qed (use assms(7) in \<open>simp_all add: ERROR_def DONE_def\<close>)

lemma session_abort:
  assumes "k_sessions w a = Some p" "state_of p = Some c" "sm_max_state (ss_stm p) = DONE" "c < 8"
    "f (stm_map os env ! c) = None \<or>
     (\<exists>cb j w1. f (stm_map os env ! c) = Some cb \<and> cb (key_of i a) (session_world p s w) = Inr (j, w1) \<and> 8 \<le> j)"
  shows "client_event os env (stm_event f) (key_of i a) (s, w) = Inl Abort"
  using assms socks_event_unset [of "ss_stm p" c f] socks_event_beyond [of "ss_stm p" c f]
  by (intro client_event_fault [OF assms(1)]) blast

lemmas client_events = client_read_def stm_handler_read_def client_write_def stm_handler_write_def

lemmas session_read_step = session_step [where f = on_read_ready, folded stm_handler_read_def, folded client_read_def]
lemmas session_write_step = session_step [where f = on_write_ready, folded stm_handler_write_def, folded client_write_def]

lemma set_interest_map:
  assumes "wf_selector s" "sel_map s i = Some (h, x, d)"
  obtains s' where "selector_set_interest s (int i) y = Inr (SELECTOR_SUCCESS, s')"
    "\<And>d'. selector_set_interest_key \<lparr>sk_fd = int i, sk_data = d'\<rparr> s y = Inr (SELECTOR_SUCCESS, s')" "wf_selector s'"
    "sel_map s' = (sel_map s)(i \<mapsto> (h, y, d))" "sel_fd_size s' = sel_fd_size s"
proof -
  have u: "used_at s i" and it: "it_handler (item_at s i) = h" "it_data (item_at s i) = d"
    using assms(2) by (auto simp: sel_map_def split: if_splits)
  have v: "\<not> INVALID_FD (int i)" using wf_selectorD(3) [OF assms(1) u] by (simp add: INVALID_FD_def)
  obtain s' where "selector_set_interest s (int i) y = Inr (SELECTOR_SUCCESS, s')" "wf_selector s'"
    "sel_map s' = (sel_map s)(i \<mapsto> (h, y, d))" "sel_fd_size s' = sel_fd_size s"
    using set_interest_wf [OF assms(1) u, of y] it by auto
  with v that show thesis by (simp add: selector_set_interest_key_def)
qed

text \<open>A session that waits for its request, on the descriptor \<open>i\<close>; nothing is connected yet.\<close>

definition awaits_request :: "nat \<Rightarrow> session \<Rightarrow> bool" where
  "awaits_request i p \<longleftrightarrow> state_of p = Some REQUEST_READ \<and> ss_client_fd p = int i \<and>
     wf_buffer (ss_input p) \<and> buf_content (ss_input p) = [] \<and> wf_buffer (ss_output p) \<and> buf_content (ss_output p) = [] \<and>
     rs_server_fd (ss_request p) = - 1 \<and> rs_status (ss_request p) = status_general_SOCKS_server_failure \<and>
     (\<exists>q. rs_parser (ss_request p) = request_parser_init q) \<and> length (ss_server_address p) = 128"

section \<open>The greeting\<close>

text \<open>The method the server answers with: what \<^const>\<open>on_hello_method\<close> selects from the value \<open>5\<close> on.\<close>

definition answer :: "u8 list \<Rightarrow> u8" where
  "answer ms = (if METHOD_USERNAME_PASSWORD \<in> set ms then METHOD_USERNAME_PASSWORD
     else if METHOD_NO_AUTHENTICATION_REQUIRED \<in> set ms then METHOD_NO_AUTHENTICATION_REQUIRED else 0x05)"

lemma foldl_hello_method:
  "foldl on_hello_method m ms = (if m = METHOD_USERNAME_PASSWORD \<or> METHOD_USERNAME_PASSWORD \<in> set ms then METHOD_USERNAME_PASSWORD
     else if METHOD_NO_AUTHENTICATION_REQUIRED \<in> set ms then METHOD_NO_AUTHENTICATION_REQUIRED else m)"
  by (induction ms arbitrary: m) (auto simp: on_hello_method_def method_defs)

text \<open>A session as \<^const>\<open>new_connection\<close> leaves it, before its first event.\<close>

definition fresh_session :: "nat \<Rightarrow> session" where
  "fresh_session i = session_05\<lparr>
     ss_input := buffer_init (ss_input session_05) INPUT_BUFFER_SIZE (replicate INPUT_BUFFER_SIZE 0),
     ss_output := buffer_init (ss_output session_05) OUTPUT_BUFFER_SIZE (replicate OUTPUT_BUFFER_SIZE 0),
     ss_stm := \<lparr>sm_initial = HELLO_READ, sm_max_state = DONE, sm_current = None\<rparr>,
     ss_client_fd := int i, ss_server_fd := - 1\<rparr>"

lemma stm_create_ok: "stm_create os env stm = Inr \<lparr>sm_initial = HELLO_READ, sm_max_state = DONE, sm_current = None\<rparr>"
  using stm_map_wf [of os env] by (cases stm) (simp add: stm_create_def stm_init_eq HELLO_READ_def DONE_def)

lemma initialize_session_fresh:
  assumes "os_malloc os o0 = (True, o1)" "os_malloc os o1 = (True, o2)" "os_malloc os o2 = (True, o3)"
  shows "\<exists>p. initialize_session os env o0 = Inr (Some p, o3) \<and> p\<lparr>ss_client_fd := int i, ss_server_fd := - 1\<rparr> = fresh_session i"
  using assms by (simp add: initialize_session_def stm_create_ok fresh_session_def)

lemma fresh_session_simps [simp]:
  "ss_stm (fresh_session i) = \<lparr>sm_initial = HELLO_READ, sm_max_state = DONE, sm_current = None\<rparr>"
  "ss_client_fd (fresh_session i) = int i" "ss_server_fd (fresh_session i) = - 1"
  "wf_buffer (ss_input (fresh_session i))" "wf_buffer (ss_output (fresh_session i))"
  "buf_content (ss_input (fresh_session i)) = []" "buf_content (ss_output (fresh_session i)) = []"
  "buf_room (ss_input (fresh_session i)) = 100" "buf_room (ss_output (fresh_session i)) = 100"
  by (simp_all add: fresh_session_def INPUT_BUFFER_SIZE_def OUTPUT_BUFFER_SIZE_def)

text \<open>The session after the hook of its first state.\<close>

definition greeted :: "session \<Rightarrow> session" where
  "greeted p = p\<lparr>ss_hello := (ss_hello p)\<lparr>hs_parser :=
     hello_parser_init ((hello_parser_init (hs_parser (ss_hello p)))\<lparr>on_authentication_method := Some on_hello_method\<rparr>)\<rparr>\<rparr>"

lemma first_event:
  "stm_event f (stm_map os env) (ss_stm (fresh_session i)) key (session_world (fresh_session i) s w) =
     stm_event f (stm_map os env) ((ss_stm (fresh_session i))\<lparr>sm_current := Some HELLO_READ\<rparr>) key (session_world (greeted (fresh_session i)) s w)"
  by (subst stm_event_first [where ?w1.0 = "session_world (greeted (fresh_session i)) s w"])
    (simp_all add: stm_map_entries state_defs hello_arrival_def greeted_def Let_def, simp add: HELLO_READ_def)

lemma hello_read_greeting:
  assumes p: "p = greeted (fresh_session i)" and s: "wf_selector s" "sel_map s i = Some (h, x, d)"
    and r: "os_recv os (e_os e) (int i) 100 = (Some (hello_message ms), o1)" "length ms \<le> 98"
  obtains p' s' where "hello_read os \<lparr>sk_fd = int i, sk_data = d'\<rparr> \<lparr>sw_self = p, sw_sel = s, sw_env = e, sw_log = l\<rparr> =
      Inr (HELLO_WRITE, \<lparr>sw_self = p', sw_sel = s', sw_env = e\<lparr>e_os := o1\<rparr>, sw_log = l\<rparr>)"
    "wf_selector s'" "sel_map s' = (sel_map s)(i \<mapsto> (h, OP_WRITE, d))" "hello_method p' = answer ms"
    "wf_buffer (ss_output p')" "buf_content (ss_output p') = [0x05, answer ms]"
    "ss_client_fd p' = int i" "ss_server_fd p' = - 1" "wf_buffer (ss_input p')" "buf_content (ss_input p') = []"
    "length (ss_server_address p') = 128" "buf_room (ss_input p') = 100" "b_limit (ss_output p') = 100" "ss_sniff p' = ss_sniff session_05"
proof -
  let ?b = "ss_input p" and ?m = "hello_message ms"
  have b: "wf_buffer ?b" "buf_content ?b = []" "buf_room ?b = 100" "wf_buffer (ss_output p)"
    "buf_content (ss_output p) = []" "buf_room (ss_output p) = 100" "ss_client_fd p = int i" "ss_server_fd p = - 1"
    "length (ss_server_address p) = 128" "b_limit ?b = 100" "b_limit (ss_output p) = 100"
    "ss_sniff p = ss_sniff session_05"
    by (simp_all add: p greeted_def) (simp_all add: fresh_session_def session_05_def buffer_init_def INPUT_BUFFER_SIZE_def OUTPUT_BUFFER_SIZE_def)
  have le: "length ?m \<le> buf_room ?b" using r(2) b(3) by (simp add: hello_message_def)
  obtain rb rb1 where rb: "recv_step os (int i) ?b e = Inr (int (length ?m), rb, e\<lparr>e_os := o1\<rparr>)"
    "buffer_write_adv rb (int (length ?m)) = Inr rb1" "wf_buffer rb1" "buf_content rb1 = ?m @ []" "b_limit rb1 = 100"
    by (rule recv_step_bytes [OF b(1) _ le, of os e "int i" o1]) (use r(1) b(2,3,10) in simp_all)
  let ?q = "(hello_parser_init (hs_parser (ss_hello (fresh_session i))))\<lparr>on_authentication_method := Some on_hello_method\<rparr>"
  have q: "hs_parser (ss_hello p) = hello_parser_init ?q" by (simp add: p greeted_def)
  have d5: "hp_data ?q = 5" by (simp add: fresh_session_def session_05_def hello_parser_init_def)
  have "hello_feed_all (hello_parser_init ?q) (buf_content rb1) =
      Inr (?q\<lparr>hp_data := answer ms, hp_state := hello_done, hp_remaining := 0\<rparr>, [])"
    using hello_feed_message [of ms ?q "[]"] r(2) d5 rb(4)
    by (simp add: notify_all_def foldl_hello_method answer_def method_defs)
  then obtain rb2 hp where hp: "hello_consume rb1 (hello_parser_init ?q) False = Inr (rb2, hp, False)"
    "hp_state hp = hello_done" "hp_data hp = answer ms" "wf_buffer rb2" "buf_content rb2 = []" "b_limit rb2 = 100"
    using hello.consume_loop_Inr [OF rb(3) hello_init_not_finished, of ?q _ "[]" False]
    by (auto simp: hello_consume_def hello_failed_def rb(5))
  have "rewound rb2"
    using hp(1) content_rewound [OF rb(3)] rb(4) by (auto simp: hello_consume_def hello_message_def intro: consume_loop_rewound)
  then have room: "buf_room rb2 = 100" using rewound_room [OF hp(4) _ hp(5)] hp(6) by simp
  obtain s' where s': "selector_set_interest_key \<lparr>sk_fd = int i, sk_data = d'\<rparr> s OP_WRITE = Inr (SELECTOR_SUCCESS, s')"
    "wf_selector s'" "sel_map s' = (sel_map s)(i \<mapsto> (h, OP_WRITE, d))" using set_interest_map [OF s] by metis
  obtain wb where wb: "hello_marshall (ss_output p) (answer ms) = Inr (2, wb)" "wf_buffer wb"
    "buf_content wb = [0x05, answer ms]" "b_limit wb = 100"
    using hello_marshall_wf [OF b(4), of "answer ms"] b(5,6,11) by auto
  have na: "answer ms \<noteq> METHOD_NO_ACCEPTABLE_METHODS" by (simp add: answer_def method_defs)
  let ?p' = "p\<lparr>ss_input := rb2, ss_hello := (ss_hello p)\<lparr>hs_parser := hp\<rparr>, ss_output := wb\<rparr>"
  have "hello_read os \<lparr>sk_fd = int i, sk_data = d'\<rparr> \<lparr>sw_self = p, sw_sel = s, sw_env = e, sw_log = l\<rparr> =
      Inr (HELLO_WRITE, \<lparr>sw_self = ?p', sw_sel = s', sw_env = e\<lparr>e_os := o1\<rparr>, sw_log = l\<rparr>)"
    using rb hp q s'(1) wb(1) na by (simp add: hello_read_def hello_process_def hello_is_done_def hello_message_def Let_def)
  with s' hp(3-5) wb b(7-9,12) room show thesis by (intro that [of ?p' s']) simp_all
qed

text \<open>The answer, sent in one call.\<close>

lemma hello_write_answer:
  assumes s: "wf_selector s" "sel_map s i = Some (h, x, d)" and b: "wf_buffer (ss_output p)"
    and r: "os_send os (e_os e) (int i) (buf_content (ss_output p)) = (int (length (buf_content (ss_output p))), o1)"
  obtains s' wb where "hello_write os \<lparr>sk_fd = int i, sk_data = d'\<rparr> \<lparr>sw_self = p, sw_sel = s, sw_env = e, sw_log = l\<rparr> =
      Inr (if hello_method p = METHOD_USERNAME_PASSWORD then AUTH_READ else REQUEST_READ,
        \<lparr>sw_self = p\<lparr>ss_output := wb\<rparr>, sw_sel = s', sw_env = e\<lparr>e_os := o1\<rparr>, sw_log = l\<rparr>)"
    "wf_selector s'" "sel_map s' = (sel_map s)(i \<mapsto> (h, OP_READ, d))" "wf_buffer wb" "buf_content wb = []"
    "buf_room wb = b_limit (ss_output p)"
proof -
  obtain wb where wb: "send_step os (int i) (ss_output p) e = Inr (int (length (buf_content (ss_output p))), e\<lparr>e_os := o1\<rparr>)"
    "buffer_read_adv (ss_output p) (int (length (buf_content (ss_output p)))) = Inr wb" "wf_buffer wb" "buf_content wb = []"
    "\<not> buffer_can_read wb" "buf_room wb = b_limit (ss_output p)"
    by (rule send_step_all [OF b r])
  obtain s' where s': "selector_set_interest_key \<lparr>sk_fd = int i, sk_data = d'\<rparr> s OP_READ = Inr (SELECTOR_SUCCESS, s')"
    "wf_selector s'" "sel_map s' = (sel_map s)(i \<mapsto> (h, OP_READ, d))" using set_interest_map [OF s] by metis
  show thesis
    by (rule that [of wb s']) (use wb s' in \<open>simp_all add: hello_write_def Let_def\<close>)
qed

text \<open>
  Accepting: a descriptor of the table is registered with a fresh session; without a descriptor the session
  stays on the heap.
\<close>

lemma accept_event:
  assumes a: "os_accept os (e_os (k_env w)) (sk_fd event) = (fd, o1)" "wf_selector s"
    and m: "os_malloc os o1 = (True, o2)" "os_malloc os o2 = (True, o3)" "os_malloc os o3 = (True, o4)" "os_malloc os o4 = (True, o5)"
    and fd: "fd < 0 \<or> fd < int (sel_fd_size s) \<and> fd < int ITEMS_MAX_SIZE \<and> sel_map s (nat fd) = None"
  shows "\<exists>s' w'. new_connection_ipv4 os env event (s, w) = Inr (s', w') \<and> e_os (k_env w') = o5 \<and>
    e_stats (k_env w') = stadistics_increase_concurrent (e_stats (k_env w)) \<and>
    (if fd < 0 then s' = s \<and> k_sessions w' (k_next w) = Some ((fresh_session 0)\<lparr>ss_client_fd := fd\<rparr>)
     else session_at (k_next w) (nat fd) OP_READ (fresh_session (nat fd)) s' w' \<and>
       sel_map s' = (sel_map s)(nat fd \<mapsto> (Some CLIENT, OP_READ, Some (SessionP (k_next w)))))"
proof -
  obtain p where p: "initialize_session os env o1 = Inr (Some p, o4)"
    "\<And>i. p\<lparr>ss_client_fd := int i, ss_server_fd := - 1\<rparr> = fresh_session i"
    using m by (simp add: initialize_session_def stm_create_ok fresh_session_def)
  let ?p = "p\<lparr>ss_client_fd := fd, ss_server_fd := - 1\<rparr>" and ?d = "Some (SessionP (k_next w))"
  let ?w = "w\<lparr>k_sessions := (k_sessions w)(k_next w \<mapsto> ?p), k_next := Suc (k_next w), k_env := (k_env w)\<lparr>e_os := o5,
      e_stats := stadistics_increase_concurrent (e_stats (k_env w))\<rparr>\<rparr>"
  have run: "new_connection_ipv4 os env event (s, w) = bindr (selector_register True (Some s) fd (Some CLIENT) OP_READ ?d)
      (\<lambda>(_, sp). bindr (the_ptr sp) (\<lambda>s1. Inr (s1, ?w)))"
    using a(1) p(1) m(4) by (simp add: new_connection_ipv4_def new_connection_def os_step_def Let_def)
  show ?thesis
  proof (cases "fd < 0")
    case True
    then have "selector_register True (Some s) fd (Some CLIENT) OP_READ ?d = Inr (SELECTOR_IARGS, Some s)"
      by (simp add: selector_register_def INVALID_FD_def)
    moreover have "?p = (fresh_session 0)\<lparr>ss_client_fd := fd\<rparr>" by (simp add: p(2) [of 0, symmetric])
    ultimately show ?thesis using run True by (simp add: the_ptr_def)
  next
    case False
    define i where "i = nat fd"
    have i: "fd = int i" "i < sel_fd_size s" "i < ITEMS_MAX_SIZE" "\<not> used_at s i"
      using False fd by (auto simp: i_def used_at_map)
    obtain s' where s': "selector_register True (Some s) (int i) (Some CLIENT) OP_READ ?d = Inr (SELECTOR_SUCCESS, Some s')"
      "wf_selector s'" "sel_map s' = (sel_map s)(i \<mapsto> (Some CLIENT, OP_READ, ?d))"
      using register_core [OF a(2) i(2-4), of "Some CLIENT" True OP_READ ?d] by auto
    have "?p = fresh_session i" using i(1) p(2) by simp
    then show ?thesis using run s' i(1) by (simp add: the_ptr_def session_at_def)
  qed
qed

section \<open>How sessions end\<close>

lemma close_session_frees:
  assumes "session_at a i x p s w"
  shows "close_session os (key_of j a) (s, w) = Inl UseAfterFree"
proof -
  note at = assms [unfolded session_at_def]
  have u: "used_at s i" "it_handler (item_at s i) = Some CLIENT" "it_data (item_at s i) = Some (SessionP a)"
    using at by (auto simp: sel_map_def split: if_splits)
  let ?w1 = "snd (os_step (\<lambda>o0. os_close os o0 (int i)) w)"
  let ?w2 = "?w1\<lparr>k_sessions := (k_sessions ?w1)(a := None)\<rparr>"
  have "call_close (socks_closing os) CLIENT (key_of i a) s w = Inr (s, ?w2)"
    using at by (simp add: call_close_def socks_closing_def client_close_def deref_session_def split_beta Let_def)
  then obtain s1 where s1: "selector_unregister_fd (socks_closing os) s (int i) w = Inr (SELECTOR_SUCCESS, s1, ?w2)"
    using unregister_wf [of s i "socks_closing os" w ?w2] at u by auto
  have "k_sessions (if P then ?w2\<lparr>k_env := e\<rparr> else ?w2) a = None" for P e by simp
  then have "deref_session (key_of j a) (if P then ?w2\<lparr>k_env := e\<rparr> else ?w2) = Inl UseAfterFree" for P e
    by (simp add: deref_session_def)
  moreover have "deref_session (key_of j a) w = Inr (a, p)" using at by (simp add: deref_session_def)
  ultimately show ?thesis using s1 at by (simp add: close_session_def Let_def)
qed

lemma client_event_ends:
  assumes "k_sessions w a = Some p" "h (stm_map os env) (ss_stm p) (key_of i a) (session_world p s w) = Inr (st, stm, sw1)"
    "st = ERROR \<or> st = DONE" "ss_client_fd (sw_self sw1) = int j" "wf_selector (sw_sel sw1)"
    "sel_map (sw_sel sw1) j = Some (Some CLIENT, x, Some (SessionP a))" "sm_max_state stm = DONE"
  shows "client_event os env h (key_of i a) (s, w) = Inl UseAfterFree"
proof -
  let ?w1 = "w\<lparr>k_sessions := (k_sessions w)(a \<mapsto> (sw_self sw1)\<lparr>ss_stm := stm\<rparr>), k_env := sw_env sw1, k_log := sw_log sw1\<rparr>"
  have "session_at a j x ((sw_self sw1)\<lparr>ss_stm := stm\<rparr>) (sw_sel sw1) ?w1" using assms by (simp add: session_at_def)
  then have "close_session os (key_of i a) (sw_sel sw1, ?w1) = Inl UseAfterFree" by (rule close_session_frees)
  with assms(1-3) show ?thesis by (auto simp: client_event_def deref_session_def Let_def)
qed

section \<open>The request\<close>

text \<open>The socket address of a destination: family, port, address, as \<^verbatim>\<open>connect\<close> gets them.\<close>

fun sockaddr :: "dest \<Rightarrow> u8 \<Rightarrow> u8 \<Rightarrow> u8 list" where
  "sockaddr (IPv4 a) hi lo = [2, 0, hi, lo] @ a @ replicate 8 0"
| "sockaddr (IPv6 a) hi lo = [10, 0, hi, lo, 0, 0, 0, 0] @ a @ replicate 4 0"
| "sockaddr (Domain nm) hi lo = []"

fun dest_family :: "dest \<Rightarrow> int" where
  "dest_family (IPv4 a) = 2"
| "dest_family (IPv6 a) = 10"
| "dest_family (Domain nm) = 0"

fun is_ip :: "dest \<Rightarrow> bool" where
  "is_ip (Domain nm) = False"
| "is_ip _ = True"

definition requested :: "u8 \<Rightarrow> dest \<Rightarrow> u8 \<Rightarrow> u8 \<Rightarrow> request" where
  "requested cmd d hi lo = \<lparr>rq_cmd = cmd, rq_atyp = dest_atyp d, rq_addr = dest_block d, rq_port = [hi, lo]\<rparr>"

lemma request_read_message:
  assumes p: "awaits_request i p" "sw_self w = p"
    and r: "os_recv os (sw_os w) (int i) (buf_room (ss_input p)) = (Some (request_message cmd rsv d hi lo), o1)"
      "length (request_message cmd rsv d hi lo) \<le> buf_room (ss_input p)" "dest_ok d"
  obtains rb rp where "rp_request rp = requested cmd d hi lo"
    "request_read os \<lparr>sk_fd = int i, sk_data = d'\<rparr> w = request_process os \<lparr>sk_fd = int i, sk_data = d'\<rparr>
       (w\<lparr>sw_self := p\<lparr>ss_input := rb, ss_request := (ss_request p)\<lparr>rs_parser := rp\<rparr>\<rparr>, sw_env := (sw_env w)\<lparr>e_os := o1\<rparr>\<rparr>)"
    "wf_buffer rb" "buf_content rb = []" "rewound rb" "b_limit rb = b_limit (ss_input p)"
proof -
  let ?m = "request_message cmd rsv d hi lo"
  note aw = p(1) [unfolded awaits_request_def]
  obtain q where q: "rs_parser (ss_request p) = request_parser_init q" using aw by blast
  have b: "wf_buffer (ss_input p)" using aw by blast
  obtain rb rb1 where rb: "recv_step os (int i) (ss_input p) (sw_env w) = Inr (int (length ?m), rb, (sw_env w)\<lparr>e_os := o1\<rparr>)"
    "buffer_write_adv rb (int (length ?m)) = Inr rb1" "wf_buffer rb1" "buf_content rb1 = ?m @ []"
    "b_limit rb1 = b_limit (ss_input p)"
    by (rule recv_step_bytes [OF b r(1,2)]) (use aw in simp_all)
  obtain n k where f: "request_feed_all (request_parser_init q) (buf_content rb1) =
      Inr (\<lparr>rp_request = requested cmd d hi lo, rp_state = request_done, rp_n = n, rp_i = k\<rparr>, [])"
    using request_feed_message [OF r(3), of q cmd rsv hi lo "[]"] rb(4) by (auto simp: requested_def)
  obtain rb2 where rb2: "request_consume rb1 (request_parser_init q) False =
      Inr (rb2, \<lparr>rp_request = requested cmd d hi lo, rp_state = request_done, rp_n = n, rp_i = k\<rparr>, False)"
    "wf_buffer rb2" "buf_content rb2 = []" "b_limit rb2 = b_limit (ss_input p)"
    using req.consume_loop_Inr [OF rb(3) request_init_not_finished f, of False]
    by (auto simp: request_consume_def request_failed_def rb(5))
  have "rewound rb2"
    using rb2(1) content_rewound [OF rb(3)] rb(4) by (auto simp: request_consume_def request_message_def intro: consume_loop_rewound)
  have pos: "int (length ?m) > 0" by (simp add: request_message_def)
  have eta: "bindr m Inr = m" for m :: "(nat \<times> 'a sworld) res" by (cases m) auto
  show thesis
    by (rule that [of "\<lparr>rp_request = requested cmd d hi lo, rp_state = request_done, rp_n = n, rp_i = k\<rparr>" rb2])
      (use rb rb2 q p(2) pos \<open>rewound rb2\<close> in \<open>simp_all add: request_read_def request_is_done_def Let_def eta\<close>)
qed

lemma connect_to_address:
  assumes "is_ip d" "dest_ok d" "the_request p = requested socks_req_cmd_connect d hi lo" "sw_self w = p"
    "length (ss_server_address p) = 128"
  shows "\<exists>addr len rq. request_process os event w = request_connect os event
      (w\<lparr>sw_self := p\<lparr>ss_server_domain := dest_family d, ss_server_address_len := len, ss_server_address := addr, ss_request := rq\<rparr>\<rparr>) \<and>
    read_cells addr 0 len = Inr (sockaddr d hi lo) \<and> rs_server_fd rq = rs_server_fd (ss_request p) \<and>
    rs_status rq = rs_status (ss_request p) \<and>
    marshal_addr (dest_atyp d) (rq_addr (rp_request (rs_parser rq))) = Inr (dest_bytes d) \<and>
    rq_atyp (rp_request (rs_parser rq)) = dest_atyp d \<and> rq_port (rp_request (rs_parser rq)) = [hi, lo]"
proof (cases d)
  case (IPv4 a)
  let ?blk = "[2, 0, hi, lo] @ a @ replicate 248 0"
  have l: "length a = 4" using IPv4 assms(2) by simp
  have 1: "blit (dest_block d) 2 [hi, lo] = Inr ?blk" using IPv4 l by (simp add: blit_def)
  have 2: "read_cells ?blk 0 16 = Inr (sockaddr d hi lo)" using IPv4 l by (simp add: read_cells_def)
  have 3: "length (sockaddr d hi lo) = 16" using IPv4 l by simp
  have 4: "blit (ss_server_address p) 0 (sockaddr d hi lo) = Inr (sockaddr d hi lo @ drop 16 (ss_server_address p))"
    using 3 assms(5) by simp
  let ?rq = "(ss_request p)\<lparr>rs_parser := (rs_parser (ss_request p))\<lparr>rp_request := (the_request p)\<lparr>rq_addr := ?blk\<rparr>\<rparr>\<rparr>"
  have "request_process os event w = request_connect os event (w\<lparr>sw_self := p\<lparr>ss_server_domain := dest_family d,
      ss_server_address_len := 16, ss_server_address := sockaddr d hi lo @ drop 16 (ss_server_address p), ss_request := ?rq\<rparr>\<rparr>)"
    using IPv4 1 2 4 assms(3,4)
    by (simp add: request_process_def connect_to_def requested_def sizeof_sockaddr_in_def AF_INET_def Let_def)
  moreover have "read_cells (sockaddr d hi lo @ drop 16 (ss_server_address p)) 0 16 = Inr (sockaddr d hi lo)"
    using 3 by (simp add: read_cells_def)
  moreover have "marshal_addr (dest_atyp d) ?blk = Inr (dest_bytes d)" using IPv4 l by (simp add: marshal_addr_def)
  ultimately show ?thesis using assms(3)
    by (intro exI [of _ "sockaddr d hi lo @ drop 16 (ss_server_address p)"] exI [of _ 16] exI [of _ ?rq]) (simp add: requested_def)
next
  case (IPv6 a)
  let ?blk = "[10, 0, hi, lo, 0, 0, 0, 0] @ a @ replicate 232 0"
  have l: "length a = 16" using IPv6 assms(2) by simp
  have 1: "blit (dest_block d) 2 [hi, lo] = Inr ?blk" using IPv6 l by (simp add: blit_def)
  have 2: "read_cells ?blk 0 28 = Inr (sockaddr d hi lo)" using IPv6 l by (simp add: read_cells_def)
  have 3: "length (sockaddr d hi lo) = 28" using IPv6 l by simp
  have 4: "blit (ss_server_address p) 0 (sockaddr d hi lo) = Inr (sockaddr d hi lo @ drop 28 (ss_server_address p))"
    using 3 assms(5) by simp
  let ?rq = "(ss_request p)\<lparr>rs_parser := (rs_parser (ss_request p))\<lparr>rp_request := (the_request p)\<lparr>rq_addr := ?blk\<rparr>\<rparr>\<rparr>"
  have "request_process os event w = request_connect os event (w\<lparr>sw_self := p\<lparr>ss_server_domain := dest_family d,
      ss_server_address_len := 28, ss_server_address := sockaddr d hi lo @ drop 28 (ss_server_address p), ss_request := ?rq\<rparr>\<rparr>)"
    using IPv6 1 2 4 assms(3,4)
    by (simp add: request_process_def connect_to_def requested_def sizeof_sockaddr_in6_def AF_INET6_def socks_atyp_defs Let_def)
  moreover have "read_cells (sockaddr d hi lo @ drop 28 (ss_server_address p)) 0 28 = Inr (sockaddr d hi lo)"
    using 3 by (simp add: read_cells_def)
  moreover have "marshal_addr (dest_atyp d) ?blk = Inr (dest_bytes d)"
    using IPv6 l by (simp add: marshal_addr_def socks_atyp_defs)
  ultimately show ?thesis using assms(3)
    by (intro exI [of _ "sockaddr d hi lo @ drop 28 (ss_server_address p)"] exI [of _ 28] exI [of _ ?rq]) (simp add: requested_def)
qed (use assms in simp)

text \<open>The connection is under way: the client is paused, the new socket is waited for.\<close>

lemma request_connect_pending:
  assumes s: "wf_selector (sw_sel w)" "sel_map (sw_sel w) i = Some (h, x, sk_data event)" "sk_fd event = int i"
    and fd: "rs_server_fd (ss_request (sw_self w)) = - 1" "os_socket os (sw_os w) (ss_server_domain (sw_self w)) = (int j, o1)"
      "selector_fd_set_nio (os_getfd os o1) (os_setfl os o1) (int j) \<noteq> - 1"
    and c: "read_cells (ss_server_address (sw_self w)) 0 (ss_server_address_len (sw_self w)) = Inr addr"
      "os_connect os o1 (int j) addr = (Some EINPROGRESS, o2)"
    and j: "j < sel_fd_size (sw_sel w)" "j < ITEMS_MAX_SIZE" "sel_map (sw_sel w) j = None" "i \<noteq> j"
  obtains s' where "request_connect os event w = Inr (REQUEST_CONNECTING, w\<lparr>sw_self := (sw_self w)\<lparr>ss_server_fd := int j,
      ss_request := (ss_request (sw_self w))\<lparr>rs_server_fd := int j\<rparr>\<rparr>, sw_sel := s', sw_env := (sw_env w)\<lparr>e_os := snd (os_malloc os o2)\<rparr>\<rparr>)"
    "wf_selector s'" "sel_map s' = (sel_map (sw_sel w))(i \<mapsto> (h, OP_NOOP, sk_data event), j \<mapsto> (Some CLIENT, OP_WRITE, sk_data event))"
proof -
  have ev: "event = \<lparr>sk_fd = int i, sk_data = sk_data event\<rparr>" using s(3) by (cases event) simp
  obtain s1 where s1: "selector_set_interest_key event (sw_sel w) OP_NOOP = Inr (SELECTOR_SUCCESS, s1)" "wf_selector s1"
    "sel_map s1 = (sel_map (sw_sel w))(i \<mapsto> (h, OP_NOOP, sk_data event))" "sel_fd_size s1 = sel_fd_size (sw_sel w)"
    by (rule set_interest_map [OF s(1,2), of OP_NOOP]) (use ev in metis)
  have "sel_map s1 j = None" using s1(3) j(3,4) by simp
  then have "\<not> used_at s1 j" by (simp add: used_at_map)
  with register_core [OF s1(2), of j "Some CLIENT" "fst (os_malloc os o2)" OP_WRITE "sk_data event"] j(1,2) s1(4)
  obtain s2 where s2: "selector_register (fst (os_malloc os o2)) (Some s1) (int j) (Some CLIENT) OP_WRITE (sk_data event) =
      Inr (SELECTOR_SUCCESS, Some s2)" "wf_selector s2" "sel_map s2 = (sel_map s1)(j \<mapsto> (Some CLIENT, OP_WRITE, sk_data event))" by auto
  show thesis
    by (rule that [of s2])
      (use s1 s2 fd c in \<open>simp_all add: request_connect_def connect_in_progress_def the_ptr_def split_beta Let_def\<close>)
qed

text \<open>The connection was decided: the reply is queued and both descriptors are waited for.\<close>

lemma request_connecting_reply:
  assumes s: "wf_selector (sw_sel w)" "sel_map (sw_sel w) i = Some (h, x, d0)" "sel_map (sw_sel w) j = Some (h', y, d1)" "i \<noteq> j"
    and p: "ss_client_fd (sw_self w) = int i" "ss_server_fd (sw_self w) = int j"
    and so: "os_so_error os (sw_os w) (int j) = (Some err, o1)"
    and b: "wf_buffer (ss_output (sw_self w))" "marshal_addr (rq_atyp (the_request (sw_self w))) (rq_addr (the_request (sw_self w))) = Inr aux"
      "length (rq_port (the_request (sw_self w))) = 2" "6 + length aux \<le> buf_room (ss_output (sw_self w))"
  obtains s' b' where "request_connecting os event w = Inr (REQUEST_WRITE, w\<lparr>sw_self :=
      (if err = 0 then set_status status_succeeded (sw_self w) else sw_self w)\<lparr>ss_output := b'\<rparr>, sw_sel := s', sw_env := (sw_env w)\<lparr>e_os := o1\<rparr>\<rparr>)"
    "wf_selector s'" "sel_map s' = (sel_map (sw_sel w))(i \<mapsto> (h, OP_WRITE, d0), j \<mapsto> (h', OP_READ, d1))" "wf_buffer b'"
    "buf_content b' = buf_content (ss_output (sw_self w)) @
       [0x05, if err = 0 then status_succeeded else rs_status (ss_request (sw_self w)), 0, rq_atyp (the_request (sw_self w))]
       @ aux @ rq_port (the_request (sw_self w))"
    "b_limit b' = b_limit (ss_output (sw_self w))"
proof -
  let ?p = "if err = 0 then set_status status_succeeded (sw_self w) else sw_self w"
  let ?st = "if err = 0 then status_succeeded else rs_status (ss_request (sw_self w))"
  obtain s1 where s1: "selector_set_interest (sw_sel w) (int i) OP_WRITE = Inr (SELECTOR_SUCCESS, s1)" "wf_selector s1"
    "sel_map s1 = (sel_map (sw_sel w))(i \<mapsto> (h, OP_WRITE, d0))"
    using set_interest_map [OF s(1,2), of OP_WRITE] by metis
  have "sel_map s1 j = Some (h', y, d1)" using s1(3) s(3,4) by simp
  then obtain s2 where s2: "selector_set_interest s1 (int j) OP_READ = Inr (SELECTOR_SUCCESS, s2)" "wf_selector s2"
    "sel_map s2 = (sel_map s1)(j \<mapsto> (h', OP_READ, d1))"
    using set_interest_map [OF s1(2), of j h' y d1 OP_READ] by metis
  obtain b' where b': "request_marshal (ss_output (sw_self w)) ?st (rq_atyp (the_request (sw_self w))) (rq_addr (the_request (sw_self w)))
      (rq_port (the_request (sw_self w))) = Inr (int (6 + length aux), b')" "wf_buffer b'"
    "buf_content b' = buf_content (ss_output (sw_self w)) @ [0x05, ?st, 0, rq_atyp (the_request (sw_self w))] @ aux @ rq_port (the_request (sw_self w))"
    "b_limit b' = b_limit (ss_output (sw_self w))"
    using request_marshal_wf [OF b, of ?st] by metis
  have "marshal_reply ?p = Inr (int (6 + length aux), ?p\<lparr>ss_output := b'\<rparr>)"
    using b'(1) by (auto simp: marshal_reply_def)
  with s1(1) s2(1) so p have "request_connecting os event w = Inr (REQUEST_WRITE, w\<lparr>sw_self := ?p\<lparr>ss_output := b'\<rparr>,
      sw_sel := s2, sw_env := (sw_env w)\<lparr>e_os := o1\<rparr>\<rparr>)"
    by (auto simp: request_connecting_def Let_def)
  with s1 s2 b' show thesis by (intro that [of s2 b']) simp_all
qed

text \<open>The two events of the negotiation, at the level of the selector's handlers.\<close>

lemma client_read_greeting:
  assumes at: "session_at a i OP_READ (fresh_session i) s w"
    and r: "os_recv os (e_os (k_env w)) (int i) 100 = (Some (hello_message ms), o1)" "length ms \<le> 98"
  obtains p1 s1 w1 where "client_read os env (key_of i a) (s, w) = Inr (s1, w1)" "session_at a i OP_WRITE p1 s1 w1"
    "state_of p1 = Some HELLO_WRITE" "hello_method p1 = answer ms" "wf_buffer (ss_output p1)"
    "buf_content (ss_output p1) = [0x05, answer ms]" "e_os (k_env w1) = o1"
    "ss_server_fd p1 = - 1" "wf_buffer (ss_input p1)" "buf_content (ss_input p1) = []" "length (ss_server_address p1) = 128"
    "buf_room (ss_input p1) = 100" "b_limit (ss_output p1) = 100" "ss_sniff p1 = ss_sniff session_05" "sel_map s1 = (sel_map s)(i \<mapsto> (Some CLIENT, OP_WRITE, Some (SessionP a)))"
proof -
  note d = at [unfolded session_at_def]
  let ?p = "fresh_session i" and ?stm = "\<lparr>sm_initial = HELLO_READ, sm_max_state = DONE, sm_current = Some HELLO_READ\<rparr>"
  have sel: "wf_selector s" "sel_map s i = Some (Some CLIENT, OP_READ, Some (SessionP a))" using d by auto
  obtain p' s1 where h: "hello_read os (key_of i a) (session_world (greeted ?p) s w) =
      Inr (HELLO_WRITE, \<lparr>sw_self = p', sw_sel = s1, sw_env = (k_env w)\<lparr>e_os := o1\<rparr>, sw_log = k_log w\<rparr>)"
    "wf_selector s1" "sel_map s1 = (sel_map s)(i \<mapsto> (Some CLIENT, OP_WRITE, Some (SessionP a)))" "hello_method p' = answer ms"
    "wf_buffer (ss_output p')" "buf_content (ss_output p') = [0x05, answer ms]" "ss_client_fd p' = int i"
    "ss_server_fd p' = - 1" "wf_buffer (ss_input p')" "buf_content (ss_input p') = []" "length (ss_server_address p') = 128"
    "buf_room (ss_input p') = 100" "b_limit (ss_output p') = 100" "ss_sniff p' = ss_sniff session_05"
    using hello_read_greeting [OF refl sel r(1,2)] by metis
  have "stm_event on_read_ready (stm_map os env) ?stm (key_of i a) (session_world (greeted ?p) s w) =
      Inr (HELLO_WRITE, ?stm\<lparr>sm_current := Some HELLO_WRITE\<rparr>, \<lparr>sw_self = p', sw_sel = s1, sw_env = (k_env w)\<lparr>e_os := o1\<rparr>, sw_log = k_log w\<rparr>)"
    by (rule socks_event [where c = HELLO_READ and cb = "hello_read os"])
      (use h(1) in \<open>simp_all add: stm_map_entries state_defs\<close>, simp_all add: socks_states)
  then have "stm_event on_read_ready (stm_map os env) (ss_stm ?p) (key_of i a) (session_world ?p s w) =
      Inr (HELLO_WRITE, ?stm\<lparr>sm_current := Some HELLO_WRITE\<rparr>, \<lparr>sw_self = p', sw_sel = s1, sw_env = (k_env w)\<lparr>e_os := o1\<rparr>, sw_log = k_log w\<rparr>)"
    unfolding first_event by simp
  then have "client_read os env (key_of i a) (s, w) = Inr (s1, w\<lparr>k_sessions := (k_sessions w)(a \<mapsto> p'\<lparr>ss_stm := ?stm\<lparr>sm_current := Some HELLO_WRITE\<rparr>\<rparr>),
      k_env := (k_env w)\<lparr>e_os := o1\<rparr>, k_log := k_log w\<rparr>)"
    unfolding client_events using d by (subst client_event_step [where p = ?p]) (auto simp: socks_states)
  then show thesis
    by (rule that [where ?p1.0 = "p'\<lparr>ss_stm := ?stm\<lparr>sm_current := Some HELLO_WRITE\<rparr>\<rparr>"]) (use h in \<open>simp_all add: session_at_def\<close>)
qed

lemma client_write_answer:
  assumes at: "session_at a i x p s w" "state_of p = Some HELLO_WRITE" "wf_buffer (ss_output p)"
    and f: "ss_server_fd p = - 1" "wf_buffer (ss_input p)" "buf_content (ss_input p) = []" "length (ss_server_address p) = 128"
    and t: "os_send os (e_os (k_env w)) (int i) (buf_content (ss_output p)) = (int (length (buf_content (ss_output p))), o1)"
  shows "if hello_method p = METHOD_USERNAME_PASSWORD then client_write os env (key_of i a) (s, w) = Inl Abort
    else \<exists>s' w' p'. client_write os env (key_of i a) (s, w) = Inr (s', w') \<and> e_os (k_env w') = o1 \<and>
      session_at a i OP_READ p' s' w' \<and> awaits_request i p' \<and>
      ss_input p' = ss_input p \<and> ss_sniff p' = ss_sniff p \<and> buf_room (ss_output p') = b_limit (ss_output p) \<and>
      sel_map s' = (sel_map s)(i \<mapsto> (Some CLIENT, OP_READ, Some (SessionP a)))"
proof -
  note d = at(1) [unfolded session_at_def]
  have sel: "wf_selector s" "sel_map s i = Some (Some CLIENT, x, Some (SessionP a))" using d by auto
  obtain s' wb where wr: "hello_write os (key_of i a) (session_world p s w) =
      Inr (if hello_method p = METHOD_USERNAME_PASSWORD then AUTH_READ else REQUEST_READ,
        \<lparr>sw_self = p\<lparr>ss_output := wb\<rparr>, sw_sel = s', sw_env = (k_env w)\<lparr>e_os := o1\<rparr>, sw_log = k_log w\<rparr>)"
    "wf_selector s'" "sel_map s' = (sel_map s)(i \<mapsto> (Some CLIENT, OP_READ, Some (SessionP a)))" "wf_buffer wb" "buf_content wb = []"
    "buf_room wb = b_limit (ss_output p)"
    by (rule hello_write_answer [OF sel at(3) t, of "Some (SessionP a)" "k_log w"])
  have cb: "on_write_ready (stm_map os env ! HELLO_WRITE) = Some (hello_write os)" by (simp add: stm_map_entries state_defs)
  show ?thesis
  proof (cases "hello_method p = METHOD_USERNAME_PASSWORD")
    case True
    then have "client_write os env (key_of i a) (s, w) = Inl Abort"
      unfolding client_events using d at(2) wr(1) cb
      by (intro session_abort [where c = HELLO_WRITE]) (auto simp: socks_states)
    with True show ?thesis by simp
  next
    case False
    let ?p2 = "p\<lparr>ss_output := wb\<rparr>"
    let ?p3 = "?p2\<lparr>ss_request := (ss_request ?p2)\<lparr>rs_status := status_general_SOCKS_server_failure,
        rs_parser := request_parser_init (rs_parser (ss_request ?p2)), rs_server_fd := ss_server_fd ?p2\<rparr>\<rparr>"
    let ?w2 = "\<lparr>sw_self = ?p3, sw_sel = s', sw_env = (k_env w)\<lparr>e_os := o1\<rparr>, sw_log = k_log w\<rparr>"
    let ?w1 = "\<lparr>sw_self = ?p2, sw_sel = s', sw_env = (k_env w)\<lparr>e_os := o1\<rparr>, sw_log = k_log w\<rparr>"
    have cbw: "hello_write os (key_of i a) (session_world p s w) = Inr (REQUEST_READ, ?w1)" using wr(1) False by simp
    have hook: "run_hook (on_arrival (stm_map os env ! REQUEST_READ)) REQUEST_READ (key_of i a) ?w1 = Inr ?w2"
      by (simp add: stm_map_entries state_defs request_arrival_def Let_def)
    have "client_write os env (key_of i a) (s, w) = Inr (sw_sel ?w2, w\<lparr>k_sessions := (k_sessions w)(a \<mapsto> (sw_self ?w2)\<lparr>ss_stm :=
        (ss_stm p)\<lparr>sm_current := Some REQUEST_READ\<rparr>\<rparr>), k_env := sw_env ?w2, k_log := sw_log ?w2\<rparr>)"
      by (rule session_write_step [where p = p and c = HELLO_WRITE and ?w1.0 = ?w1 and cb = "hello_write os", OF _ at(2) _ _ cb cbw _ hook])
        (use d in \<open>simp_all add: socks_states\<close>)
    with False d wr(2-6) f show ?thesis by (auto simp: session_at_def awaits_request_def)
  qed
qed

text \<open>A session whose connection to \<open>d\<close> is under way on the descriptor \<open>j\<close>, with room for the reply.\<close>

definition connecting_to :: "dest \<Rightarrow> u8 \<Rightarrow> u8 \<Rightarrow> nat \<Rightarrow> session \<Rightarrow> bool" where
  "connecting_to d hi lo j p \<longleftrightarrow> state_of p = Some REQUEST_CONNECTING \<and> ss_server_fd p = int j \<and>
     rq_atyp (the_request p) = dest_atyp d \<and> marshal_addr (dest_atyp d) (rq_addr (the_request p)) = Inr (dest_bytes d) \<and>
     rq_port (the_request p) = [hi, lo] \<and> rs_status (ss_request p) = status_general_SOCKS_server_failure \<and>
     wf_buffer (ss_output p) \<and> buf_content (ss_output p) = []"

lemma client_read_connect:
  assumes at: "session_at a i x p s w" and aw: "awaits_request i p"
    and r: "os_recv os (e_os (k_env w)) (int i) (buf_room (ss_input p)) = (Some (request_message socks_req_cmd_connect rsv d hi lo), o1)"
      "length (request_message socks_req_cmd_connect rsv d hi lo) \<le> buf_room (ss_input p)" "dest_ok d" "is_ip d"
    and c: "os_socket os o1 (dest_family d) = (int j, o2)" "selector_fd_set_nio (os_getfd os o2) (os_setfl os o2) (int j) \<noteq> - 1"
      "os_connect os o2 (int j) (sockaddr d hi lo) = (Some EINPROGRESS, o3)"
    and j: "j < sel_fd_size s" "j < ITEMS_MAX_SIZE" "sel_map s j = None"
  shows "\<exists>s' w' p'. client_read os env (key_of i a) (s, w) = Inr (s', w') \<and> session_at a i OP_NOOP p' s' w' \<and>
    connecting_to d hi lo j p' \<and> ss_output p' = ss_output p \<and> e_os (k_env w') = snd (os_malloc os o3) \<and>
    wf_buffer (ss_input p') \<and> buf_content (ss_input p') = [] \<and> rewound (ss_input p') \<and> b_limit (ss_input p') = b_limit (ss_input p) \<and> ss_sniff p' = ss_sniff p \<and>
    sel_map s' = (sel_map s)(i \<mapsto> (Some CLIENT, OP_NOOP, Some (SessionP a)), j \<mapsto> (Some CLIENT, OP_WRITE, Some (SessionP a)))"
proof -
  note d = at [unfolded session_at_def] and f = aw [unfolded awaits_request_def]
  obtain rb rp where rq: "rp_request rp = requested socks_req_cmd_connect d hi lo"
    "request_read os (key_of i a) (session_world p s w) = request_process os (key_of i a)
       ((session_world p s w)\<lparr>sw_self := p\<lparr>ss_input := rb, ss_request := (ss_request p)\<lparr>rs_parser := rp\<rparr>\<rparr>, sw_env := (k_env w)\<lparr>e_os := o1\<rparr>\<rparr>)"
    "wf_buffer rb" "buf_content rb = []" "rewound rb" "b_limit rb = b_limit (ss_input p)"
    by (rule request_read_message [OF aw _ _ r(2,3), of "session_world p s w" os o1 "Some (SessionP a)"]) (use r(1) in simp_all)
  let ?p1 = "p\<lparr>ss_input := rb, ss_request := (ss_request p)\<lparr>rs_parser := rp\<rparr>\<rparr>"
  let ?w1 = "\<lparr>sw_self = ?p1, sw_sel = s, sw_env = (k_env w)\<lparr>e_os := o1\<rparr>, sw_log = k_log w\<rparr>"
  have the: "the_request ?p1 = requested socks_req_cmd_connect d hi lo" "sw_self ?w1 = ?p1" "length (ss_server_address ?p1) = 128"
    using rq(1) f by simp_all
  obtain addr len q where q: "request_process os (key_of i a) ?w1 = request_connect os (key_of i a) (?w1\<lparr>sw_self :=
      ?p1\<lparr>ss_server_domain := dest_family d, ss_server_address_len := len, ss_server_address := addr, ss_request := q\<rparr>\<rparr>)"
    "read_cells addr 0 len = Inr (sockaddr d hi lo)" "rs_server_fd q = rs_server_fd (ss_request ?p1)"
    "rs_status q = rs_status (ss_request ?p1)" "marshal_addr (dest_atyp d) (rq_addr (rp_request (rs_parser q))) = Inr (dest_bytes d)"
    "rq_atyp (rp_request (rs_parser q)) = dest_atyp d" "rq_port (rp_request (rs_parser q)) = [hi, lo]"
    using connect_to_address [OF r(4,3) the, of os "key_of i a"] by blast
  let ?p2 = "?p1\<lparr>ss_server_domain := dest_family d, ss_server_address_len := len, ss_server_address := addr, ss_request := q\<rparr>"
  let ?w2 = "?w1\<lparr>sw_self := ?p2\<rparr>" and ?p3 = "?p2\<lparr>ss_server_fd := int j, ss_request := (ss_request ?p2)\<lparr>rs_server_fd := int j\<rparr>\<rparr>"
  have ij: "i \<noteq> j" using d j(3) by auto
  obtain s' where s': "request_connect os (key_of i a) ?w2 = Inr (REQUEST_CONNECTING, ?w2\<lparr>sw_self := ?p3, sw_sel := s',
      sw_env := (sw_env ?w2)\<lparr>e_os := snd (os_malloc os o3)\<rparr>\<rparr>)" "wf_selector s'"
    "sel_map s' = (sel_map s)(i \<mapsto> (Some CLIENT, OP_NOOP, Some (SessionP a)), j \<mapsto> (Some CLIENT, OP_WRITE, Some (SessionP a)))"
    by (rule request_connect_pending [of ?w2 i "Some CLIENT" x "key_of i a" os j o2 "sockaddr d hi lo" o3])
      (use d f c j ij q(2,3) in simp_all)
  let ?w3 = "?w2\<lparr>sw_self := ?p3, sw_sel := s', sw_env := (sw_env ?w2)\<lparr>e_os := snd (os_malloc os o3)\<rparr>\<rparr>"
  have cb: "on_read_ready (stm_map os env ! REQUEST_READ) = Some (request_read os)" by (simp add: stm_map_entries state_defs)
  have cbr: "request_read os (key_of i a) (session_world p s w) = Inr (REQUEST_CONNECTING, ?w3)" using rq(2) q(1) s'(1) by simp
  have hook: "run_hook (on_arrival (stm_map os env ! REQUEST_CONNECTING)) REQUEST_CONNECTING (key_of i a) ?w3 = Inr ?w3"
    by (simp add: stm_map_entries state_defs request_connecting_arrival_def)
  have "client_read os env (key_of i a) (s, w) = Inr (sw_sel ?w3, w\<lparr>k_sessions := (k_sessions w)(a \<mapsto> (sw_self ?w3)\<lparr>ss_stm :=
      (ss_stm p)\<lparr>sm_current := Some REQUEST_CONNECTING\<rparr>\<rparr>), k_env := sw_env ?w3, k_log := sw_log ?w3\<rparr>)"
    by (rule session_read_step [where p = p and c = REQUEST_READ and ?w1.0 = ?w3 and cb = "request_read os", OF _ _ _ _ cb cbr _ hook])
      (use d f in \<open>simp_all add: socks_states\<close>)
  with d f s'(2,3) q ij rq(3-6) show ?thesis by (simp add: session_at_def connecting_to_def)
qed

text \<open>The reply, sent in one call.\<close>

lemma client_write_reply:
  assumes at: "session_at a i x p s w" and st: "state_of p = Some REQUEST_WRITE" and b: "wf_buffer (ss_output p)"
    and t: "os_send os (e_os (k_env w)) (int i) (buf_content (ss_output p)) = (int (length (buf_content (ss_output p))), o1)"
  shows "\<exists>s' w' p'. client_write os env (key_of i a) (s, w) = Inr (s', w') \<and> e_os (k_env w') = o1 \<and>
    session_at a i OP_READ p' s' w' \<and> state_of p' = Some COPY \<and> ss_input p' = ss_input p \<and>
    wf_buffer (ss_output p') \<and> buf_content (ss_output p') = [] \<and> buf_room (ss_output p') = b_limit (ss_output p) \<and> ss_server_fd p' = ss_server_fd p \<and>
    ss_client_duplex p' = OP_READ OR OP_WRITE \<and> ss_server_duplex p' = OP_READ OR OP_WRITE \<and> ss_sniff p' = ss_sniff p \<and> sel_map s' = (sel_map s)(i \<mapsto> (Some CLIENT, OP_READ, Some (SessionP a)))"
proof -
  note d = at [unfolded session_at_def]
  obtain wb where wb: "send_step os (int i) (ss_output p) (k_env w) = Inr (int (length (buf_content (ss_output p))), (k_env w)\<lparr>e_os := o1\<rparr>)"
    "buffer_read_adv (ss_output p) (int (length (buf_content (ss_output p)))) = Inr wb" "\<not> buffer_can_read wb"
    "wf_buffer wb" "buf_content wb = []" "buf_room wb = b_limit (ss_output p)"
    by (rule send_step_all [OF b t])
  have sel: "wf_selector s" "sel_map s i = Some (Some CLIENT, x, Some (SessionP a))" using d by auto
  obtain s' where s': "selector_set_interest_key (key_of i a) s OP_READ = Inr (SELECTOR_SUCCESS, s')" "wf_selector s'"
    "sel_map s' = (sel_map s)(i \<mapsto> (Some CLIENT, OP_READ, Some (SessionP a)))" using set_interest_map [OF sel, of OP_READ] by metis
  let ?w1 = "\<lparr>sw_self = p\<lparr>ss_output := wb\<rparr>, sw_sel = s', sw_env = (k_env w)\<lparr>e_os := o1\<rparr>, sw_log = k_log w\<rparr>"
  let ?w2 = "?w1\<lparr>sw_self := (sw_self ?w1)\<lparr>ss_client_duplex := OP_READ OR OP_WRITE, ss_server_duplex := OP_READ OR OP_WRITE\<rparr>\<rparr>"
  have cb: "on_write_ready (stm_map os env ! REQUEST_WRITE) = Some (request_write os)" by (simp add: stm_map_entries state_defs)
  have cbw: "request_write os (key_of i a) (session_world p s w) = Inr (COPY, ?w1)"
    using wb s'(1) by (simp add: request_write_def Let_def)
  have hook: "run_hook (on_arrival (stm_map os env ! COPY)) COPY (key_of i a) ?w1 = Inr ?w2"
    by (simp add: stm_map_entries state_defs copy_arrival_def)
  have "client_write os env (key_of i a) (s, w) = Inr (sw_sel ?w2, w\<lparr>k_sessions := (k_sessions w)(a \<mapsto> (sw_self ?w2)\<lparr>ss_stm :=
      (ss_stm p)\<lparr>sm_current := Some COPY\<rparr>\<rparr>), k_env := sw_env ?w2, k_log := sw_log ?w2\<rparr>)"
    by (rule session_write_step [where p = p and c = REQUEST_WRITE and ?w1.0 = ?w1 and cb = "request_write os", OF _ st _ _ cb cbw _ hook])
      (use d in \<open>simp_all add: socks_states\<close>)
  with d s' wb(4-6) show ?thesis by (simp add: session_at_def)
qed

text \<open>The end of the connection: the reply is queued, with the outcome, and the client is waited for.\<close>

lemma client_write_connected:
  assumes at: "session_at a i x p s w" and c: "connecting_to d hi lo j p" "6 + length (dest_bytes d) \<le> buf_room (ss_output p)"
    and j: "sel_map s j = Some (Some CLIENT, y, Some (SessionP a))" "i \<noteq> j"
    and so: "os_so_error os (e_os (k_env w)) (int j) = (Some err, o1)"
    and reply: "reply = [0x05, if err = 0 then status_succeeded else status_general_SOCKS_server_failure, 0, dest_atyp d] @ dest_bytes d @ [hi, lo]"
  shows "\<exists>s1 w1 p1. client_write os env (key_of j a) (s, w) = Inr (s1, w1) \<and> e_os (k_env w1) = o1 \<and>
    session_at a i OP_WRITE p1 s1 w1 \<and> state_of p1 = Some REQUEST_WRITE \<and> wf_buffer (ss_output p1) \<and> buf_content (ss_output p1) = reply \<and>
    b_limit (ss_output p1) = b_limit (ss_output p) \<and> ss_input p1 = ss_input p \<and> ss_server_fd p1 = int j \<and> ss_sniff p1 = ss_sniff p \<and>
    sel_map s1 = (sel_map s)(i \<mapsto> (Some CLIENT, OP_WRITE, Some (SessionP a)), j \<mapsto> (Some CLIENT, OP_READ, Some (SessionP a)))"
proof -
  note e = at [unfolded session_at_def] and f = c(1) [unfolded connecting_to_def]
  let ?p = "if err = 0 then set_status status_succeeded p else p" and ?d = "Some (SessionP a)"
  obtain s1 b1 where r: "request_connecting os (key_of j a) (session_world p s w) = Inr (REQUEST_WRITE, (session_world p s w)\<lparr>sw_self :=
      ?p\<lparr>ss_output := b1\<rparr>, sw_sel := s1, sw_env := (k_env w)\<lparr>e_os := o1\<rparr>\<rparr>)" "wf_selector s1"
    "sel_map s1 = (sel_map s)(i \<mapsto> (Some CLIENT, OP_WRITE, ?d), j \<mapsto> (Some CLIENT, OP_READ, ?d))" "wf_buffer b1" "buf_content b1 = reply"
    "b_limit b1 = b_limit (ss_output p)"
    using request_connecting_reply [of "session_world p s w" i "Some CLIENT" x ?d j "Some CLIENT" y ?d os err o1 "dest_bytes d" "key_of j a" thesis]
      e f c(2) j so reply by (simp cong: if_cong)
  let ?w1 = "(session_world p s w)\<lparr>sw_self := ?p\<lparr>ss_output := b1\<rparr>, sw_sel := s1, sw_env := (k_env w)\<lparr>e_os := o1\<rparr>\<rparr>"
  let ?p1 = "?p\<lparr>ss_output := b1, ss_stm := (ss_stm p)\<lparr>sm_current := Some REQUEST_WRITE\<rparr>\<rparr>"
  let ?k1 = "w\<lparr>k_sessions := (k_sessions w)(a \<mapsto> ?p1), k_env := (k_env w)\<lparr>e_os := o1\<rparr>, k_log := k_log w\<rparr>"
  have cb: "on_write_ready (stm_map os env ! REQUEST_CONNECTING) = Some (request_connecting os)"
    by (simp add: stm_map_entries state_defs)
  have hook: "run_hook (on_arrival (stm_map os env ! REQUEST_WRITE)) REQUEST_WRITE (key_of j a) ?w1 = Inr ?w1"
    by (simp add: stm_map_entries state_defs)
  have 1: "client_write os env (key_of j a) (s, w) = Inr (s1, ?k1)"
    by (subst session_write_step [where p = p and c = REQUEST_CONNECTING and ?w1.0 = ?w1 and cb = "request_connecting os", OF _ _ _ _ cb r(1) _ hook])
      (use e f in \<open>simp_all add: socks_states\<close>)
  have at1: "session_at a i OP_WRITE ?p1 s1 ?k1" using e r(2,3) j(2) by (simp add: session_at_def)
  with 1 r(3-6) f show ?thesis by fastforce
qed

text \<open>Requests the session has no answer for: nothing is queued, no interest changes.\<close>

lemma client_read_unanswerable:
  assumes at: "session_at a i x p s w" and aw: "awaits_request i p"
    and r: "os_recv os (e_os (k_env w)) (int i) (buf_room (ss_input p)) = (Some (request_message cmd rsv d hi lo), o1)"
      "length (request_message cmd rsv d hi lo) \<le> buf_room (ss_input p)" "dest_ok d"
    and un: "cmd \<noteq> socks_req_cmd_connect \<or> \<not> is_ip d"
  shows "\<exists>w' p'. client_read os env (key_of i a) (s, w) = Inr (s, w') \<and> session_at a i x p' s w' \<and>
    buf_content (ss_output p') = [] \<and> state_of p' \<in> {Some REQUEST_CONNECTING, Some REQUEST_WRITE}"
proof -
  note e = at [unfolded session_at_def] and f = aw [unfolded awaits_request_def]
  obtain rb rp where rq: "rp_request rp = requested cmd d hi lo"
    "request_read os (key_of i a) (session_world p s w) = request_process os (key_of i a)
       ((session_world p s w)\<lparr>sw_self := p\<lparr>ss_input := rb, ss_request := (ss_request p)\<lparr>rs_parser := rp\<rparr>\<rparr>, sw_env := (k_env w)\<lparr>e_os := o1\<rparr>\<rparr>)"
    by (rule request_read_message [OF aw _ _ r(2,3), of "session_world p s w" os o1 "Some (SessionP a)"]) (use r(1) in simp_all)
  let ?p1 = "p\<lparr>ss_input := rb, ss_request := (ss_request p)\<lparr>rs_parser := rp\<rparr>\<rparr>"
  define st where "st = (if cmd = socks_req_cmd_connect then REQUEST_CONNECTING else REQUEST_WRITE)"
  define p2 where "p2 = (if cmd = socks_req_cmd_connect then ?p1 else set_status status_command_not_supported ?p1)"
  let ?w2 = "\<lparr>sw_self = p2, sw_sel = s, sw_env = (k_env w)\<lparr>e_os := o1\<rparr>, sw_log = k_log w\<rparr>"
  have cbr: "request_read os (key_of i a) (session_world p s w) = Inr (st, ?w2)"
    using rq un by (cases d) (auto simp: request_process_def requested_def socks_atyp_defs st_def p2_def Let_def)
  have cb: "on_read_ready (stm_map os env ! REQUEST_READ) = Some (request_read os)" by (simp add: stm_map_entries state_defs)
  have hook: "run_hook (on_arrival (stm_map os env ! st)) st (key_of i a) ?w2 = Inr ?w2"
    by (simp add: st_def stm_map_entries state_defs request_connecting_arrival_def)
  have "client_read os env (key_of i a) (s, w) = Inr (sw_sel ?w2, w\<lparr>k_sessions := (k_sessions w)(a \<mapsto> (sw_self ?w2)\<lparr>ss_stm :=
      (ss_stm p)\<lparr>sm_current := Some st\<rparr>\<rparr>), k_env := sw_env ?w2, k_log := sw_log ?w2\<rparr>)"
    by (rule session_read_step [where p = p and c = REQUEST_READ and ?w1.0 = ?w2 and cb = "request_read os", OF _ _ _ _ cb cbr _ hook])
      (use e f in \<open>simp_all add: socks_states st_def\<close>)
  with e f show ?thesis by (auto simp: session_at_def p2_def st_def)
qed

section \<open>An example session\<close>

definition example_k :: "session \<Rightarrow> script \<Rightarrow> script kworld" where
  "example_k p o0 = \<lparr>k_sessions = [0 \<mapsto> p], k_next = 1,
     k_env = \<lparr>e_users = default_users, e_stats = stadistics_init, e_os = o0\<rparr>, k_log = logger_data\<rparr>"

definition waiting_session :: session where
  "waiting_session = (fresh_session 7)\<lparr>ss_stm := \<lparr>sm_initial = HELLO_READ, sm_max_state = DONE, sm_current = Some REQUEST_READ\<rparr>,
     ss_request := \<lparr>rs_parser = request_parser_init (rs_parser (ss_request session_05)),
       rs_status = status_general_SOCKS_server_failure, rs_server_fd = - 1\<rparr>\<rparr>"

definition pending_session :: session where
  "pending_session = waiting_session\<lparr>ss_stm := \<lparr>sm_initial = HELLO_READ, sm_max_state = DONE, sm_current = Some REQUEST_CONNECTING\<rparr>,
     ss_server_fd := 8, ss_request := (ss_request waiting_session)\<lparr>rs_parser := (rs_parser (ss_request waiting_session))\<lparr>
       rp_request := requested socks_req_cmd_connect (IPv4 [10, 0, 0, 7]) 0 80\<rparr>\<rparr>\<rparr>"

lemma waiting_session_awaits: "awaits_request 7 waiting_session" "buf_room (ss_input waiting_session) = 100"
  by (auto simp: awaits_request_def waiting_session_def) (simp add: fresh_session_def session_05_def)

lemma example_session:
  assumes "wf_selector s" "sel_map s 7 = Some (Some CLIENT, OP_READ, Some (SessionP 0))"
  shows "session_at 0 7 OP_READ (fresh_session 7) s (example_k (fresh_session 7) o0)"
    "session_at 0 7 OP_READ waiting_session s (example_k waiting_session o0)"
    "session_at 0 7 OP_READ pending_session s (example_k pending_session o0)"
  using assms by (simp_all add: session_at_def example_k_def waiting_session_def pending_session_def)

section \<open>Properties\<close>

text \<open>
  C11: the method negotiation. To a greeting that arrives in one segment the session answers with
  version 5 and a method, user name and password when it was offered, otherwise none when it
  was offered, otherwise the value 5 (RFC 1928 wants 255); once the answer is sent it waits for the
  request, except after user name and password, where the program aborts.
\<close>

theorem method_negotiation:
  assumes at: "session_at a i OP_READ (fresh_session i) s w"
    and r: "os_recv os (e_os (k_env w)) (int i) 100 = (Some (hello_message ms), o1)" "length ms \<le> 98"
    and t: "os_send os o1 (int i) [0x05, answer ms] = (2, o2)"
  shows "\<exists>s1 w1. client_read os env (key_of i a) (s, w) = Inr (s1, w1) \<and>
    (if METHOD_USERNAME_PASSWORD \<in> set ms then client_write os env (key_of i a) (s1, w1) = Inl Abort
     else \<exists>s2 w2 p2. client_write os env (key_of i a) (s1, w1) = Inr (s2, w2) \<and> e_os (k_env w2) = o2 \<and>
       session_at a i OP_READ p2 s2 w2 \<and> awaits_request i p2)"
proof -
  obtain p1 s1 w1 where 1: "client_read os env (key_of i a) (s, w) = Inr (s1, w1)" "session_at a i OP_WRITE p1 s1 w1"
    "state_of p1 = Some HELLO_WRITE" "hello_method p1 = answer ms" "wf_buffer (ss_output p1)"
    "buf_content (ss_output p1) = [0x05, answer ms]" "e_os (k_env w1) = o1"
    "ss_server_fd p1 = - 1" "wf_buffer (ss_input p1)" "buf_content (ss_input p1) = []" "length (ss_server_address p1) = 128"
    by (rule client_read_greeting [OF at r])
  have up: "answer ms = METHOD_USERNAME_PASSWORD \<longleftrightarrow> METHOD_USERNAME_PASSWORD \<in> set ms"
    by (simp add: answer_def method_defs)
  have "os_send os (e_os (k_env w1)) (int i) (buf_content (ss_output p1)) = (int (length (buf_content (ss_output p1))), o2)"
    using 1(6,7) t by simp
  from client_write_answer [OF 1(2,3,5,8-11) this, of env] show ?thesis
    unfolding 1(4) up using 1(1) by (cases "METHOD_USERNAME_PASSWORD \<in> set ms") auto
qed

theorem method_negotiation_witness:
  "\<exists>s w s1 w1 s2 w2. client_read script_os example_env (key_of 7 0) (s, w) = Inr (s1, w1) \<and>
     client_write script_os example_env (key_of 7 0) (s1, w1) = Inr (s2, w2) \<and> e_os (k_env w2) = ([], [], [5, 0])"
proof -
  obtain s :: sel where s: "wf_selector s" "sel_map s 7 = Some (Some CLIENT, OP_READ, Some (SessionP 0))"
    using one_selector by fastforce
  let ?w = "example_k (fresh_session 7) ([], [hello_message [0]], [])"
  have "os_recv script_os (e_os (k_env ?w)) (int 7) 100 = (Some (hello_message [0]), [], [], [])"
    by (simp add: script_os_def example_k_def hello_message_def)
  moreover have "os_send script_os ([], [], []) (int 7) [0x05, answer [0]] = (2, [], [], [5, 0])"
    by (simp add: script_os_def answer_def method_defs)
  ultimately show ?thesis
    using method_negotiation [OF example_session(1) [OF s], of script_os _ "[0]" _ _ example_env]
    by (fastforce simp: method_defs)
qed

text \<open>
  C8: the proxy connects to the destination the client asked for. On a request for an IPv4 or IPv6
  address that arrives in one segment, the session opens a socket of that family and calls
  \<^verbatim>\<open>connect\<close> with exactly the address and the port of the request; while the connection is under way the
  client is not read, and the new socket is registered for the same session.
\<close>

theorem request_connects:
  assumes "session_at a i x p s w" "awaits_request i p"
    and "os_recv os (e_os (k_env w)) (int i) (buf_room (ss_input p)) = (Some (request_message socks_req_cmd_connect rsv d hi lo), o1)"
      "length (request_message socks_req_cmd_connect rsv d hi lo) \<le> buf_room (ss_input p)" "dest_ok d" "is_ip d"
    and "os_socket os o1 (dest_family d) = (int j, o2)" "selector_fd_set_nio (os_getfd os o2) (os_setfl os o2) (int j) \<noteq> - 1"
      "os_connect os o2 (int j) (sockaddr d hi lo) = (Some EINPROGRESS, o3)"
    and "j < sel_fd_size s" "j < ITEMS_MAX_SIZE" "sel_map s j = None"
  shows "\<exists>s' w' p'. client_read os env (key_of i a) (s, w) = Inr (s', w') \<and> session_at a i OP_NOOP p' s' w' \<and>
    state_of p' = Some REQUEST_CONNECTING \<and> ss_server_fd p' = int j \<and>
    sel_map s' j = Some (Some CLIENT, OP_WRITE, Some (SessionP a))"
  using client_read_connect [OF assms, of env] unfolding connecting_to_def by force

theorem request_connects_witness:
  "\<exists>s w s' w' p'. client_read script_os example_env (key_of 7 0) (s, w) = Inr (s', w') \<and>
     session_at 0 7 OP_NOOP p' s' w' \<and> ss_server_fd p' = 8"
proof -
  obtain s :: sel where s: "wf_selector s" "sel_map s 7 = Some (Some CLIENT, OP_READ, Some (SessionP 0))" "sel_fd_size s = 1025" "sel_map s 8 = None"
    using one_selector by fastforce
  let ?d = "IPv4 [10, 0, 0, 7]" and ?m = "request_message socks_req_cmd_connect 0 (IPv4 [10, 0, 0, 7]) 0 80"
  let ?w = "example_k waiting_session ([8], [?m], [])"
  have r: "os_recv script_os (e_os (k_env ?w)) (int 7) (buf_room (ss_input waiting_session)) = (Some ?m, [8], [], [])"
    by (simp add: script_os_def example_k_def waiting_session_awaits request_message_def)
  have c: "os_socket script_os ([8], [], []) (dest_family ?d) = (int 8, [], [], [])"
    "os_connect script_os ([], [], []) (int 8) (sockaddr ?d 0 80) = (Some EINPROGRESS, [], [], [])"
    "selector_fd_set_nio (os_getfd script_os ([], [], [])) (os_setfl script_os ([], [], [])) (int 8) \<noteq> - 1"
    by (simp_all add: script_os_def script_fd_def EINPROGRESS_def selector_fd_set_nio_def)
  have l: "length ?m \<le> buf_room (ss_input waiting_session)" by (simp add: waiting_session_awaits request_message_def)
  from request_connects [OF example_session(2) [OF s(1,2)] waiting_session_awaits(1) r l _ _ c(1,3,2), of example_env] s(3,4)
  show ?thesis by (force simp: ITEMS_MAX_SIZE_def)
qed

text \<open>
  C12: the reply tells the client how the connection ended. When the socket of the destination becomes
  writable the session queues the reply of RFC 1928, with the status \<open>succeeded\<close> or \<open>general failure\<close>
  and the address and port of the request; once it is sent the session copies between the two
  sockets, also when the connection failed.
\<close>

theorem connection_reply:
  assumes at: "session_at a i x p s w" and c: "connecting_to d hi lo j p" "6 + length (dest_bytes d) \<le> buf_room (ss_output p)"
    and j: "sel_map s j = Some (Some CLIENT, y, Some (SessionP a))" "i \<noteq> j"
    and so: "os_so_error os (e_os (k_env w)) (int j) = (Some err, o1)"
    and reply: "reply = [0x05, if err = 0 then status_succeeded else status_general_SOCKS_server_failure, 0, dest_atyp d] @ dest_bytes d @ [hi, lo]"
    and t: "os_send os o1 (int i) reply = (int (length reply), o2)"
  shows "\<exists>s1 w1 s2 w2 p2. client_write os env (key_of j a) (s, w) = Inr (s1, w1) \<and>
    client_write os env (key_of i a) (s1, w1) = Inr (s2, w2) \<and> e_os (k_env w2) = o2 \<and>
    session_at a i OP_READ p2 s2 w2 \<and> state_of p2 = Some COPY \<and> sel_map s2 j = Some (Some CLIENT, OP_READ, Some (SessionP a))"
proof -
  obtain s1 w1 p1 where 1: "client_write os env (key_of j a) (s, w) = Inr (s1, w1)" "e_os (k_env w1) = o1"
    "session_at a i OP_WRITE p1 s1 w1" "state_of p1 = Some REQUEST_WRITE" "wf_buffer (ss_output p1)" "buf_content (ss_output p1) = reply"
    "sel_map s1 = (sel_map s)(i \<mapsto> (Some CLIENT, OP_WRITE, Some (SessionP a)), j \<mapsto> (Some CLIENT, OP_READ, Some (SessionP a)))"
    using client_write_connected [OF at c j so reply, of env] by blast
  from client_write_reply [OF 1(3-5), of os o2 env] 1(1,2,6,7) t j(2) show ?thesis by fastforce
qed

theorem connection_reply_witness:
  "\<exists>s w s1 w1 s2 w2. client_write script_os example_env (key_of 8 0) (s, w) = Inr (s1, w1) \<and>
     client_write script_os example_env (key_of 7 0) (s1, w1) = Inr (s2, w2) \<and>
     e_os (k_env w2) = ([], [], [5, 0, 0, 1, 10, 0, 0, 7, 0, 80])"
proof -
  obtain s :: sel where s: "wf_selector s" "sel_map s 7 = Some (Some CLIENT, OP_READ, Some (SessionP 0))"
    "sel_map s 8 = Some (Some CLIENT, OP_READ, Some (SessionP 0))"
    using pair_selector by fastforce
  let ?d = "IPv4 [10, 0, 0, 7]" and ?w = "example_k pending_session ([], [], [])"
  have c: "connecting_to ?d 0 80 8 pending_session" "6 + length (dest_bytes ?d) \<le> buf_room (ss_output pending_session)"
    using marshal_addr_dest [of ?d]
    by (simp_all add: connecting_to_def pending_session_def waiting_session_def requested_def)
  have so: "os_so_error script_os (e_os (k_env ?w)) (int 8) = (Some 0, [], [], [])" by (simp add: script_os_def example_k_def)
  have t: "os_send script_os ([], [], []) (int 7) [5, 0, 0, 1, 10, 0, 0, 7, 0, 80] = (10, [], [], [5, 0, 0, 1, 10, 0, 0, 7, 0, 80])"
    by (simp add: script_os_def)
  from connection_reply [OF example_session(3) [OF s(1,2)] c s(3) _ so refl, of _ example_env] t
  show ?thesis by (fastforce simp: status_succeeded_def socks_atyp_defs)
qed

text \<open>
  C40: requests the proxy has no answer for make it abort. For a domain name, or for a command other
  than connect, the session leaves the reading state without queueing a reply and without changing
  the client's interest; the next byte of that client, or its disconnection, ends the whole server.
\<close>

theorem unanswerable_request_aborts:
  assumes "session_at a i OP_READ p s w" "awaits_request i p"
    and "os_recv os (e_os (k_env w)) (int i) (buf_room (ss_input p)) = (Some (request_message cmd rsv d hi lo), o1)"
      "length (request_message cmd rsv d hi lo) \<le> buf_room (ss_input p)" "dest_ok d"
    and "cmd \<noteq> socks_req_cmd_connect \<or> \<not> is_ip d"
  shows "\<exists>w' p'. client_read os env (key_of i a) (s, w) = Inr (s, w') \<and> session_at a i OP_READ p' s w' \<and>
    buf_content (ss_output p') = [] \<and> client_read os env (key_of i a) (s, w') = Inl Abort"
proof -
  obtain w' p' where w': "client_read os env (key_of i a) (s, w) = Inr (s, w')" "session_at a i OP_READ p' s w'"
    "buf_content (ss_output p') = []" "state_of p' \<in> {Some REQUEST_CONNECTING, Some REQUEST_WRITE}"
    using client_read_unanswerable [OF assms, of env] by blast
  then obtain c where c: "state_of p' = Some c" "c < 8" "on_read_ready (stm_map os env ! c) = None"
    by (auto simp: stm_map_entries state_defs) (auto simp: socks_states)
  have "client_read os env (key_of i a) (s, w') = Inl Abort"
    unfolding client_events by (rule session_abort [OF _ c(1) _ c(2)]) (use w'(2) c(3) in \<open>simp_all add: session_at_def\<close>)
  with w' show ?thesis by blast
qed

theorem unanswerable_request_aborts_witness:
  "\<exists>s w w'. client_read script_os example_env (key_of 7 0) (s, w) = Inr (s, w') \<and>
     client_read script_os example_env (key_of 7 0) (s, w') = Inl Abort"
proof -
  obtain s :: sel where s: "wf_selector s" "sel_map s 7 = Some (Some CLIENT, OP_READ, Some (SessionP 0))"
    using one_selector by fastforce
  let ?m = "request_message socks_req_cmd_connect 0 (Domain [97]) 0 80"
  have r: "os_recv script_os (e_os (k_env (example_k waiting_session ([8], [?m], [])))) (int 7) (buf_room (ss_input waiting_session)) =
      (Some ?m, [8], [], [])" "length ?m \<le> buf_room (ss_input waiting_session)"
    by (simp_all add: script_os_def example_k_def waiting_session_awaits request_message_def)
  from unanswerable_request_aborts [OF example_session(2) [OF s] waiting_session_awaits(1) r, of example_env]
  show ?thesis by force
qed

text \<open>
  A client that disconnects makes the server read freed memory. When the first read of a session
  finds the end of the stream or an error, \<^const>\<open>close_session\<close> unregisters the client, whose close handler
  frees the session, and then takes the descriptor to close from the freed session.
\<close>

theorem disconnect_use_after_free:
  assumes at: "session_at a i x (fresh_session i) s w"
    and r: "fst (os_recv os (e_os (k_env w)) (int i) 100) \<in> {None, Some []}"
  shows "client_read os env (key_of i a) (s, w) = Inl UseAfterFree"
proof -
  note d = at [unfolded session_at_def]
  let ?p = "greeted (fresh_session i)" and ?stm = "\<lparr>sm_initial = HELLO_READ, sm_max_state = DONE, sm_current = Some HELLO_READ\<rparr>"
  obtain o1 where o1: "os_recv os (e_os (k_env w)) (int i) 100 = (None, o1) \<or> os_recv os (e_os (k_env w)) (int i) 100 = (Some [], o1)"
    using r by (cases "os_recv os (e_os (k_env w)) (int i) 100") auto
  have b: "wf_buffer (ss_input ?p)" "buf_room (ss_input ?p) = 100" "ss_client_fd ?p = int i" by (simp_all add: greeted_def)
  obtain n rb where n: "recv_step os (int i) (ss_input ?p) (k_env w) = Inr (n, rb, (k_env w)\<lparr>e_os := o1\<rparr>)" "n \<le> 0"
    using o1 b by (auto simp: recv_step_def write_ptr_wf buffer_poke_def wf_buffer_def)
  let ?w1 = "\<lparr>sw_self = ?p\<lparr>ss_input := rb\<rparr>, sw_sel = s, sw_env = (k_env w)\<lparr>e_os := o1\<rparr>, sw_log = k_log w\<rparr>"
  have h: "hello_read os (key_of i a) (session_world ?p s w) = Inr (ERROR, ?w1)"
    using n by (simp add: hello_read_def Let_def)
  have "stm_event on_read_ready (stm_map os env) ?stm (key_of i a) (session_world ?p s w) =
      Inr (ERROR, ?stm\<lparr>sm_current := Some ERROR\<rparr>, ?w1)"
    by (rule socks_event [where c = HELLO_READ and cb = "hello_read os" and ?w1.0 = ?w1])
      (use h in \<open>simp_all add: stm_map_entries state_defs\<close>, simp_all add: socks_states)
  then have "stm_event on_read_ready (stm_map os env) (ss_stm (fresh_session i)) (key_of i a) (session_world (fresh_session i) s w) =
      Inr (ERROR, ?stm\<lparr>sm_current := Some ERROR\<rparr>, ?w1)"
    unfolding first_event by simp
  then show ?thesis
    unfolding client_events using d b(3) by (intro client_event_ends [where j = i and x = x and p = "fresh_session i"]) auto
qed

theorem disconnect_use_after_free_witness:
  "\<exists>s w. client_read script_os example_env (key_of 7 0) (s, w) = Inl UseAfterFree"
proof -
  obtain s :: sel where s: "wf_selector s" "sel_map s 7 = Some (Some CLIENT, OP_READ, Some (SessionP 0))"
    using one_selector by fastforce
  have "fst (os_recv script_os (e_os (k_env (example_k (fresh_session 7) ([], [], [])))) (int 7) 100) \<in> {None, Some []}"
    by (simp add: script_os_def example_k_def)
  from disconnect_use_after_free [OF example_session(1) [OF s] this] show ?thesis by blast
qed

text \<open>
  Accepting a connection. A new descriptor within the table gets a fresh session, registered for reading, and
  is counted. When \<^verbatim>\<open>accept\<close> fails the handler goes on: a session that no descriptor designates stays on the
  heap and the counter of connections grows all the same.
\<close>

theorem connection_accepted:
  assumes "os_accept os (e_os (k_env w)) (sk_fd event) = (fd, o1)" "\<And>o0. fst (os_malloc os o0)" "wf_selector s"
    and "fd < 0 \<or> fd < int (sel_fd_size s) \<and> fd < int ITEMS_MAX_SIZE \<and> sel_map s (nat fd) = None"
  shows "\<exists>s' w'. new_connection_ipv4 os env event (s, w) = Inr (s', w') \<and>
    e_stats (k_env w') = stadistics_increase_concurrent (e_stats (k_env w)) \<and>
    (if fd < 0 then s' = s \<and> k_sessions w' (k_next w) = Some ((fresh_session 0)\<lparr>ss_client_fd := fd\<rparr>)
     else session_at (k_next w) (nat fd) OP_READ (fresh_session (nat fd)) s' w')"
proof -
  obtain o2 o3 o4 o5 where m: "os_malloc os o1 = (True, o2)" "os_malloc os o2 = (True, o3)" "os_malloc os o3 = (True, o4)" "os_malloc os o4 = (True, o5)"
    using assms(2) by (metis prod.collapse)
  obtain s' w' where "new_connection_ipv4 os env event (s, w) = Inr (s', w')"
    "e_stats (k_env w') = stadistics_increase_concurrent (e_stats (k_env w))"
    "if fd < 0 then s' = s \<and> k_sessions w' (k_next w) = Some ((fresh_session 0)\<lparr>ss_client_fd := fd\<rparr>)
     else session_at (k_next w) (nat fd) OP_READ (fresh_session (nat fd)) s' w'"
    using accept_event [OF assms(1,3) m assms(4), of env] by (auto split: if_splits)
  then show ?thesis by blast
qed

theorem connection_accepted_witness:
  "\<exists>s w s' w'. new_connection_ipv4 script_os example_env \<lparr>sk_fd = 4, sk_data = None\<rparr> (s, w) = Inr (s', w') \<and>
     session_at 5 8 OP_READ (fresh_session 8) s' w'"
proof -
  obtain s :: sel where s: "wf_selector s" "sel_fd_size s = 1025" "sel_map s 8 = None" using one_selector by fastforce
  let ?w = "(example_k (fresh_session 7) ([8], [], []))\<lparr>k_next := 5\<rparr>"
  have a: "os_accept script_os (e_os (k_env ?w)) (sk_fd \<lparr>sk_fd = 4, sk_data = None\<rparr>) = (8, [], [], [])"
    by (simp add: script_os_def script_fd_def example_k_def)
  have m: "fst (os_malloc script_os o0)" for o0 by (simp add: script_os_def)
  from connection_accepted [OF a m s(1), of example_env] s(2,3) show ?thesis by (force simp: ITEMS_MAX_SIZE_def)
qed

end
