(* ===== verification/ParserEngine.thy ===== *)
theory ParserEngine
  imports Prelude
begin

unbundle bit_operations_syntax

text \<open>
  The table-driven parser engine, \<^verbatim>\<open>src/parser/parser.c\<close> and \<^verbatim>\<open>include/parser/parser.h\<close>, and the case
  insensitive comparison built on it, \<^verbatim>\<open>src/parser/parser_utils.c\<close>.

  A pointer to transitions is the block from the pointer on. The \<^verbatim>\<open>next\<close> pointer of an event is either null or
  designates the second event of the parser; it is a flag here.
\<close>

section \<open>State and operations\<close>

record parser_event =
  pe_type :: u32
  pe_data :: "u8 list"
  pe_n :: u8
  pe_next :: bool

record parser_state_transition =
  tr_when :: int
  tr_dest :: nat
  act1 :: "(parser_event \<Rightarrow> u8 \<Rightarrow> parser_event res) option"
  act2 :: "(parser_event \<Rightarrow> u8 \<Rightarrow> parser_event res) option"

definition ANY :: int where "ANY = 512"

record parser_definition =
  pd_states_count :: nat
  pd_states :: "parser_state_transition list list option"
  pd_states_n :: "nat list"
  pd_start_state :: nat

record parser =
  ps_classes :: "u32 list"
  ps_def :: parser_definition
  ps_state :: nat
  ps_e1 :: parser_event
  ps_e2 :: parser_event

definition event_zero :: parser_event where
  "event_zero = \<lparr>pe_type = 0, pe_data = [0, 0, 0], pe_n = 0, pe_next = False\<rparr>"

definition parser_init :: "bool \<Rightarrow> u32 list \<Rightarrow> parser_definition \<Rightarrow> parser option" where
  "parser_init malloc_ok cls d =
     (if malloc_ok then Some \<lparr>ps_classes = cls, ps_def = d, ps_state = pd_start_state d, ps_e1 = event_zero, ps_e2 = event_zero\<rparr>
      else None)"

text \<open>A pointer to a parser, and its release: freeing a null pointer does nothing.\<close>

datatype parser_ptr = ParserNull | ParserFreed | ParserAt parser

definition parser_destroy :: "parser_ptr \<Rightarrow> parser_ptr res" where
  "parser_destroy p = (case p of ParserNull \<Rightarrow> Inr ParserNull | ParserFreed \<Rightarrow> Inl UseAfterFree | ParserAt _ \<Rightarrow> Inr ParserFreed)"

definition parser_reset :: "parser \<Rightarrow> parser" where
  "parser_reset p = p\<lparr>ps_state := pd_start_state (ps_def p)\<rparr>"

text \<open>The condition of a transition, for the byte \<open>c\<close> of the class \<open>type\<close>.\<close>

definition transition_matches :: "u32 \<Rightarrow> u8 \<Rightarrow> int \<Rightarrow> bool" where
  "transition_matches type c when =
     (if when \<le> 0xFF then uint c = when
      else if when = ANY then True
      else type AND of_int when \<noteq> 0)"

text \<open>A call through a null pointer to a function.\<close>

definition call_action :: "(parser_event \<Rightarrow> u8 \<Rightarrow> parser_event res) option \<Rightarrow> parser_event \<Rightarrow> u8 \<Rightarrow> parser_event res" where
  "call_action act e c = (case act of None \<Rightarrow> Inl NullPointer | Some f \<Rightarrow> f e c)"

definition take_transition :: "parser_state_transition \<Rightarrow> u8 \<Rightarrow> parser \<Rightarrow> parser res" where
  "take_transition t c p =
     bindr (call_action (act1 t) (ps_e1 p) c) (\<lambda>e1.
     let p1 = p\<lparr>ps_e1 := e1\<rparr> in
     if act2 t \<noteq> None then
       let p2 = p1\<lparr>ps_e1 := e1\<lparr>pe_next := True\<rparr>\<rparr> in
       bindr (call_action (act2 t) (ps_e2 p2) c) (\<lambda>e2. Inr (p2\<lparr>ps_e2 := e2, ps_state := tr_dest t\<rparr>))
     else Inr (p1\<lparr>ps_state := tr_dest t\<rparr>))"

text \<open>The loop over \<open>i < n\<close>: the first transition that matches is taken.\<close>

fun transition_loop :: "parser_state_transition list \<Rightarrow> nat \<Rightarrow> u32 \<Rightarrow> u8 \<Rightarrow> parser \<Rightarrow> parser res" where
  "transition_loop ts 0 type c p = Inr p"
| "transition_loop [] (Suc n) type c p = Inl OutOfBounds"
| "transition_loop (t # ts) (Suc n) type c p =
     (if transition_matches type c (tr_when t) then take_transition t c p else transition_loop ts n type c p)"

definition parser_feed :: "parser \<Rightarrow> u8 \<Rightarrow> (parser_event \<times> parser) res" where
  "parser_feed p c =
     bindr (peek_at (ps_classes p) (unat c)) (\<lambda>type.
     let p1 = p\<lparr>ps_e1 := (ps_e1 p)\<lparr>pe_next := False\<rparr>, ps_e2 := (ps_e2 p)\<lparr>pe_next := False\<rparr>\<rparr> in
     case pd_states (ps_def p1) of
       None \<Rightarrow> Inl NullPointer
     | Some states \<Rightarrow>
         bindr (peek_at states (ps_state p1)) (\<lambda>state.
         bindr (peek_at (pd_states_n (ps_def p1)) (ps_state p1)) (\<lambda>n.
         bindr (transition_loop state n type c p1) (\<lambda>p2. Inr (ps_e1 p2, p2)))))"

text \<open>The array has one element less than there are bytes.\<close>

definition parser_no_classes :: "u32 list" where
  "parser_no_classes = replicate 0xFF 0"

section \<open>Comparison\<close>

definition STRING_CMP_MAYEQ :: u32 where "STRING_CMP_MAYEQ = 0"
definition STRING_CMP_EQ :: u32 where "STRING_CMP_EQ = 1"
definition STRING_CMP_NEQ :: u32 where "STRING_CMP_NEQ = 2"

lemmas string_cmp_defs = STRING_CMP_MAYEQ_def STRING_CMP_EQ_def STRING_CMP_NEQ_def

definition parser_utils_strcmpi_event :: "u32 \<Rightarrow> string" where
  "parser_utils_strcmpi_event type =
     (if type = STRING_CMP_MAYEQ then ''wait(c)'' else if type = STRING_CMP_EQ then ''eq(c)''
      else if type = STRING_CMP_NEQ then ''neq(c)'' else [])"

text \<open>The actions differ in the type they store.\<close>

definition set_event :: "u32 \<Rightarrow> parser_event \<Rightarrow> u8 \<Rightarrow> parser_event res" where
  "set_event type ret c =
     bindr (poke_at (pe_data ret) 0 c) (\<lambda>d. Inr (ret\<lparr>pe_type := type, pe_n := 1, pe_data := d\<rparr>))"

definition may_eq :: "parser_event \<Rightarrow> u8 \<Rightarrow> parser_event res" where
  "may_eq = set_event STRING_CMP_MAYEQ"

definition eq :: "parser_event \<Rightarrow> u8 \<Rightarrow> parser_event res" where
  "eq = set_event STRING_CMP_EQ"

definition neq :: "parser_event \<Rightarrow> u8 \<Rightarrow> parser_event res" where
  "neq = set_event STRING_CMP_NEQ"

text \<open>\<^verbatim>\<open>tolower\<close> and \<^verbatim>\<open>toupper\<close> of a \<^verbatim>\<open>char\<close>, which is signed, in the C locale.\<close>

definition to_lower :: "int \<Rightarrow> int" where
  "to_lower c = (if 65 \<le> c \<and> c \<le> 90 then c + 32 else c)"

definition to_upper :: "int \<Rightarrow> int" where
  "to_upper c = (if 97 \<le> c \<and> c \<le> 122 then c - 32 else c)"

definition transition_zero :: parser_state_transition where
  "transition_zero = \<lparr>tr_when = 0, tr_dest = 0, act1 = None, act2 = None\<rparr>"

definition row_of :: "nat \<Rightarrow> u8 \<Rightarrow> nat \<Rightarrow> parser_state_transition list" where
  "row_of n ch i =
     (let dest = (if i + 1 = n then n else i + 1); act = Some (if i + 1 = n then eq else may_eq) in
      [transition_zero\<lparr>tr_when := to_lower (sint ch), tr_dest := dest, act1 := act\<rparr>,
       transition_zero\<lparr>tr_when := to_upper (sint ch), tr_dest := dest, act1 := act\<rparr>,
       transition_zero\<lparr>tr_when := ANY, tr_dest := n + 1, act1 := Some neq\<rparr>])"

definition final_row :: "nat \<Rightarrow> parser_state_transition list" where
  "final_row n = [transition_zero\<lparr>tr_when := ANY, tr_dest := n + 1, act1 := Some neq\<rparr>, transition_zero, transition_zero]"

text \<open>
  The array of transitions, three per state, and the pointers into it; \<open>calloc_ok\<close> is whether the
  three allocations succeeded. The text is the block of \<^verbatim>\<open>s\<close>.
\<close>

definition strcmpi_transitions :: "u8 list \<Rightarrow> nat \<Rightarrow> parser_state_transition list" where
  "strcmpi_transitions s n = concat (map (\<lambda>i. row_of n (s ! i) i) [0 ..< n]) @ final_row n @ final_row n"

definition parser_utils_strcmpi :: "bool \<Rightarrow> u8 list \<Rightarrow> parser_definition res" where
  "parser_utils_strcmpi calloc_ok s =
     bindr (c_strlen s) (\<lambda>n.
     Inr (if \<not> calloc_ok then \<lparr>pd_states_count = 0, pd_states = None, pd_states_n = [], pd_start_state = 0\<rparr>
       else \<lparr>pd_states_count = n + 2, pd_states = Some (map (\<lambda>i. drop (i * 3) (strcmpi_transitions s n)) [0 ..< n + 2]),
             pd_states_n = replicate n 3 @ [1, 1], pd_start_state = 0\<rparr>))"

text \<open>
  The three blocks of a definition are freed together; \<open>live\<close> is whether they are allocated. The first is
  reached through the array of states, which a failed allocation leaves null.
\<close>

definition parser_utils_strcmpi_destroy :: "parser_definition \<Rightarrow> bool \<Rightarrow> bool res" where
  "parser_utils_strcmpi_destroy p live =
     (case pd_states p of
        None \<Rightarrow> Inl NullPointer
      | Some states \<Rightarrow> if \<not> live then Inl UseAfterFree else bindr (peek_at states 0) (\<lambda>_. Inr False))"

lemma strcmpi_destroy_once:
  assumes "parser_utils_strcmpi calloc_ok s = Inr d"
  shows "parser_utils_strcmpi_destroy d live =
    (if \<not> calloc_ok then Inl NullPointer else if live then Inr False else Inl UseAfterFree)"
  using assms by (auto simp: parser_utils_strcmpi_def parser_utils_strcmpi_destroy_def res_simps peek_at_def)

section \<open>What the comparison reports\<close>

fun feed_bytes :: "parser \<Rightarrow> u8 list \<Rightarrow> (parser_event \<times> parser) res" where
  "feed_bytes p [] = Inr (ps_e1 p, p)"
| "feed_bytes p [c] = parser_feed p c"
| "feed_bytes p (c # c' # cs) = bindr (parser_feed p c) (\<lambda>(_, p'). feed_bytes p' (c' # cs))"

text \<open>The reference: bytes compared one by one, without regard to case.\<close>

definition same_letter :: "u8 \<Rightarrow> u8 \<Rightarrow> bool" where
  "same_letter a b \<longleftrightarrow> to_lower (uint a) = to_lower (uint b)"

definition verdict :: "u8 list \<Rightarrow> u8 list \<Rightarrow> u32" where
  "verdict s bs =
     (if list_all2 same_letter bs s then STRING_CMP_EQ
      else if length bs < length s \<and> list_all2 same_letter bs (take (length bs) s) then STRING_CMP_MAYEQ
      else STRING_CMP_NEQ)"

definition matches :: "u8 list \<Rightarrow> u8 list \<Rightarrow> bool" where
  "matches t bs \<longleftrightarrow> length bs \<le> length t \<and> list_all2 same_letter bs (take (length bs) t)"

lemma matches_snoc:
  "matches t (bs @ [c]) \<longleftrightarrow> matches t bs \<and> length bs < length t \<and> same_letter c (t ! length bs)"
  by (auto simp: matches_def take_Suc_conv_app_nth list_all2_append Suc_le_eq)

lemma verdict_matches:
  "verdict t bs = (if matches t bs then if length bs = length t then STRING_CMP_EQ else STRING_CMP_MAYEQ else STRING_CMP_NEQ)"
  by (auto simp: verdict_def matches_def dest: list_all2_lengthD)

text \<open>The rows of the table.\<close>

lemma length_row_of [simp]: "length (row_of n ch i) = 3"
  by (simp add: row_of_def Let_def)

lemma strcmpi_rows:
  "i \<le> n \<Longrightarrow> drop (i * 3) (strcmpi_transitions s n) = concat (map (\<lambda>i. row_of n (s ! i) i) [i ..< n]) @ final_row n @ final_row n"
proof -
  assume "i \<le> n"
  then have "[0 ..< n] = [0 ..< i] @ [i ..< n]" by (metis upt_add_eq_append le_add_diff_inverse zero_le)
  moreover have "length (concat (map (\<lambda>i. row_of n (s ! i) i) [0 ..< i])) = i * 3" by (induction i) simp_all
  ultimately show ?thesis by (simp add: strcmpi_transitions_def)
qed

lemma strcmpi_row: "i < n \<Longrightarrow> \<exists>rest. drop (i * 3) (strcmpi_transitions s n) = row_of n (s ! i) i @ rest"
  by (simp add: strcmpi_rows upt_conv_Cons)

lemma strcmpi_final:
  "\<exists>rest. drop (n * 3) (strcmpi_transitions s n) = transition_zero\<lparr>tr_when := ANY, tr_dest := n + 1, act1 := Some neq\<rparr> # rest"
  "\<exists>rest. drop ((n + 1) * 3) (strcmpi_transitions s n) = transition_zero\<lparr>tr_when := ANY, tr_dest := n + 1, act1 := Some neq\<rparr> # rest"
proof -
  show "\<exists>rest. drop (n * 3) (strcmpi_transitions s n) = transition_zero\<lparr>tr_when := ANY, tr_dest := n + 1, act1 := Some neq\<rparr> # rest"
    by (simp add: strcmpi_rows final_row_def)
  have "drop ((n + 1) * 3) (strcmpi_transitions s n) = drop 3 (drop (n * 3) (strcmpi_transitions s n))" by (simp add: add.commute)
  then show "\<exists>rest. drop ((n + 1) * 3) (strcmpi_transitions s n) = transition_zero\<lparr>tr_when := ANY, tr_dest := n + 1, act1 := Some neq\<rparr> # rest"
    by (simp add: strcmpi_rows final_row_def)
qed

lemma letter_cases:
  assumes "0 \<le> a" "0 \<le> b"
  shows "a = to_lower b \<or> a = to_upper b \<longleftrightarrow> to_lower a = to_lower b"
  using assms unfolding to_lower_def to_upper_def by (simp split: if_splits) linarith

text \<open>The parser of the comparison with \<open>s\<close>, in the state \<open>k\<close>.\<close>

definition comparing :: "u8 list \<Rightarrow> nat \<Rightarrow> parser \<Rightarrow> bool" where
  "comparing s k p \<longleftrightarrow> (\<exists>d. parser_utils_strcmpi True s = Inr d \<and> ps_def p = d) \<and> ps_classes p = parser_no_classes \<and>
     ps_state p = k \<and> pe_data (ps_e1 p) \<noteq> []"

abbreviation cleared :: "parser \<Rightarrow> parser" where
  "cleared p \<equiv> p\<lparr>ps_e1 := (ps_e1 p)\<lparr>pe_next := False\<rparr>, ps_e2 := (ps_e2 p)\<lparr>pe_next := False\<rparr>\<rparr>"

lemma take_single:
  assumes "act1 t = Some (set_event ty)" "act2 t = None" "pe_data (ps_e1 p) \<noteq> []" "comparing s k p"
  shows "\<exists>p'. take_transition t c p = Inr p' \<and> pe_type (ps_e1 p') = ty \<and> comparing s (tr_dest t) p'"
  using assms by (auto simp: take_transition_def call_action_def set_event_def comparing_def Let_def)

lemma ascii_sint: "(b :: u8) < 128 \<Longrightarrow> sint b = uint b"
  using signed_take_bit_int_eq_self [of 7 "uint b"] order_trans [of "- 128" 0 "uint b"] by (simp add: sint_uint word_less_def)

lemma below_255: "c \<noteq> 255 \<Longrightarrow> unat (c :: u8) < 255"
  using unat_u8_le [of c] by (simp add: word_unat_eq_iff order_less_le)

lemma parser_feed_row:
  assumes "comparing s k p" "terminated s" "k \<le> length (c_str s) + 1" "c \<noteq> 255"
  shows "parser_feed p c = bindr (transition_loop (drop (k * 3) (strcmpi_transitions s (length (c_str s))))
    (if k < length (c_str s) then 3 else 1) 0 c (cleared p)) (\<lambda>p2. Inr (ps_e1 p2, p2))"
proof -
  let ?n = "length (c_str s)"
  have d: "pd_states (ps_def p) = Some (map (\<lambda>i. drop (i * 3) (strcmpi_transitions s ?n)) [0 ..< ?n + 2])"
    "pd_states_n (ps_def p) = replicate ?n 3 @ [1, 1]" "ps_classes p = parser_no_classes" "ps_state p = k"
    using assms(1,2) by (auto simp: comparing_def parser_utils_strcmpi_def)
  have n: "(replicate ?n 3 @ [1, 1]) ! k = (if k < ?n then 3 else 1 :: nat)"
    using assms(3) by (auto simp: nth_append le_Suc_eq)
  have k: "k < ?n + 2" using assms(3) by simp
  have cls: "peek_at parser_no_classes (unat c) = Inr 0"
    using below_255 [OF assms(4)] by (simp add: parser_no_classes_def)
  show ?thesis
    using d n k cls by (simp add: parser_feed_def Let_def del: upt_Suc)
qed

lemma parser_step:
  assumes "comparing s k p" "terminated s" "\<forall>b \<in> set (c_str s). b < 128" "c \<noteq> 255" "k \<le> length (c_str s) + 1"
  defines "k' \<equiv> (if k < length (c_str s) \<and> same_letter c (c_str s ! k) then k + 1 else length (c_str s) + 1)"
  shows "\<exists>e p'. parser_feed p c = Inr (e, p') \<and> comparing s k' p' \<and>
    pe_type e = (if k' > length (c_str s) then STRING_CMP_NEQ else if k' = length (c_str s) then STRING_CMP_EQ else STRING_CMP_MAYEQ)"
proof -
  let ?n = "length (c_str s)" and ?q = "cleared p"
  have q: "comparing s k ?q" "pe_data (ps_e1 ?q) \<noteq> []" using assms(1) by (auto simp: comparing_def)
  note feed = parser_feed_row [OF assms(1,2,5,4)]
  show ?thesis
  proof (cases "k < ?n")
    case True
    obtain rest where r: "drop (k * 3) (strcmpi_transitions s ?n) = row_of ?n (s ! k) k @ rest" using strcmpi_row [OF True] by blast
    have sk: "s ! k = c_str s ! k" using True by (simp add: c_str_def takeWhile_nth)
    then have lt: "s ! k < 128" using True assms(3) by (metis nth_mem)
    then have si: "sint (s ! k) = uint (s ! k)" "uint (s ! k) < 128" by (simp_all add: ascii_sint word_less_def)
    have w: "to_lower (uint (s ! k)) \<le> 255" "to_upper (uint (s ! k)) \<le> 255" using si(2) by (auto simp: to_lower_def to_upper_def)
    have m: "transition_matches 0 c (to_lower (sint (s ! k))) \<or> transition_matches 0 c (to_upper (sint (s ! k))) \<longleftrightarrow> same_letter c (s ! k)"
      using w letter_cases [of "uint c" "uint (s ! k)"] by (simp add: si transition_matches_def same_letter_def)
    have any: "transition_matches 0 c ANY" by (simp add: transition_matches_def ANY_def)
    let ?t = "\<lambda>w. transition_zero\<lparr>tr_when := w, tr_dest := if k + 1 = ?n then ?n else k + 1, act1 := Some (if k + 1 = ?n then eq else may_eq)\<rparr>"
    let ?z = "transition_zero\<lparr>tr_when := ANY, tr_dest := ?n + 1, act1 := Some neq\<rparr>"
    have loop: "transition_loop (row_of ?n (s ! k) k @ rest) 3 0 c ?q =
        (if same_letter c (s ! k) then take_transition (?t (to_lower (sint (s ! k)))) c ?q else take_transition ?z c ?q)"
      using m any by (auto simp: row_of_def Let_def numeral_3_eq_3 take_transition_def transition_zero_def)
    have t: "\<exists>p'. take_transition (?t w) c ?q = Inr p' \<and> pe_type (ps_e1 p') = (if k + 1 = ?n then STRING_CMP_EQ else STRING_CMP_MAYEQ) \<and>
        comparing s (k + 1) p'" for w
      using take_single [OF _ _ q(2,1), of "?t w" _ c] by (auto simp: transition_zero_def eq_def may_eq_def)
    have z: "\<exists>p'. take_transition ?z c ?q = Inr p' \<and> pe_type (ps_e1 p') = STRING_CMP_NEQ \<and> comparing s (?n + 1) p'"
      using take_single [OF _ _ q(2,1), of ?z STRING_CMP_NEQ c] by (auto simp: transition_zero_def neq_def)
    show ?thesis
      using feed True r loop t [of "to_lower (sint (s ! k))"] z sk by (auto simp: k'_def)
  next
    case False
    then have "k = ?n \<or> k = ?n + 1" using assms(5) by auto
    then obtain rest where r: "drop (k * 3) (strcmpi_transitions s ?n) =
        transition_zero\<lparr>tr_when := ANY, tr_dest := ?n + 1, act1 := Some neq\<rparr> # rest"
      using strcmpi_final [of ?n s] by (auto simp del: drop_drop)
    let ?z = "transition_zero\<lparr>tr_when := ANY, tr_dest := ?n + 1, act1 := Some neq\<rparr>"
    have "\<exists>p'. take_transition ?z c ?q = Inr p' \<and> pe_type (ps_e1 p') = STRING_CMP_NEQ \<and> comparing s (?n + 1) p'"
      using take_single [OF _ _ q(2,1), of ?z STRING_CMP_NEQ c] by (auto simp: transition_zero_def neq_def)
    then show ?thesis
      using feed False r by (auto simp: k'_def transition_matches_def ANY_def)
  qed
qed

lemma feed_bytes_verdict:
  assumes "terminated s" "\<forall>b \<in> set (c_str s). b < 128" "bs \<noteq> []" "255 \<notin> set bs"
    "comparing s (if matches (c_str s) pre then length pre else length (c_str s) + 1) p"
  shows "\<exists>e p'. feed_bytes p bs = Inr (e, p') \<and> pe_type e = verdict (c_str s) (pre @ bs)"
  using assms(3-5)
proof (induction bs arbitrary: p pre rule: induct_list012)
  case 1
  then show ?case by simp
next
  case (2 c)
  have k: "(if matches (c_str s) pre then length pre else length (c_str s) + 1) \<le> length (c_str s) + 1" by (auto simp: matches_def)
  from parser_step [OF 2(3) assms(1,2) _ k, of c] 2(2) show ?case
    by (auto simp: verdict_matches matches_snoc split: if_splits)
next
  case (3 c c' bs)
  have k: "(if matches (c_str s) pre then length pre else length (c_str s) + 1) \<le> length (c_str s) + 1" by (auto simp: matches_def)
  from parser_step [OF 3(5) assms(1,2) _ k, of c] 3(4) obtain e p1 where
    "parser_feed p c = Inr (e, p1)" "comparing s (if matches (c_str s) (pre @ [c]) then length (pre @ [c]) else length (c_str s) + 1) p1"
    by (auto simp: matches_snoc split: if_splits)
  with 3(2) [of "pre @ [c]" p1] 3(4) show ?case by simp
qed

section \<open>Properties\<close>

text \<open>
  C34: the comparison agrees with its reference. The parser \<^const>\<open>parser_utils_strcmpi\<close> builds for an ASCII text, fed
  with bytes other than 255, reports after each of them whether the bytes so far are the text without
  regard to case, may still become it, or can not.
\<close>

theorem strcmpi_compares:
  assumes "terminated s" "\<forall>b \<in> set (c_str s). b < 128"
    and "parser_utils_strcmpi True s = Inr d" "parser_init True parser_no_classes d = Some p"
    and "bs \<noteq> []" "255 \<notin> set bs"
  shows "\<exists>e p'. feed_bytes p bs = Inr (e, p') \<and> pe_type e = verdict (c_str s) bs"
proof -
  have "pd_start_state d = 0" using assms(1,3) by (auto simp: parser_utils_strcmpi_def)
  then have "comparing s (if matches (c_str s) [] then length ([] :: u8 list) else length (c_str s) + 1) p"
    using assms(3,4) by (auto simp: comparing_def parser_init_def matches_def event_zero_def)
  from feed_bytes_verdict [OF assms(1,2,5,6) this] show ?thesis by simp
qed

theorem strcmpi_compares_witness:
  "\<exists>d p e p'. parser_utils_strcmpi True [70, 111, 111, 0] = Inr d \<and> parser_init True parser_no_classes d = Some p \<and>
     feed_bytes p [102, 79, 111] = Inr (e, p') \<and> pe_type e = STRING_CMP_EQ"
proof -
  let ?s = "[70, 111, 111, 0] :: u8 list"
  obtain d where d: "parser_utils_strcmpi True ?s = Inr d" by (simp add: parser_utils_strcmpi_def)
  obtain p where p: "parser_init True parser_no_classes d = Some p" by (simp add: parser_init_def)
  have v: "verdict (c_str ?s) [102, 79, 111] = STRING_CMP_EQ" by (simp add: verdict_def same_letter_def to_lower_def)
  have "terminated ?s" "\<forall>b \<in> set (c_str ?s). b < 128" by (simp_all add: word_less_nat_alt)
  from strcmpi_compares [OF this d p, of "[102, 79, 111]"] v d p show ?thesis by auto
qed

text \<open>
  Feeding the byte 255 to a parser without classes reads past the array of classes, whatever the parser.
\<close>

lemma byte_255_out_of_bounds:
  "ps_classes p = parser_no_classes \<Longrightarrow> parser_feed p 255 = Inl OutOfBounds"
  by (simp add: parser_feed_def parser_no_classes_def peek_at_def)

end
