(* ===== verification/Netutils.thy ===== *)
theory Netutils
  imports Tap Register
begin

text \<open>
  The network utilities, \<^verbatim>\<open>src/netutils.c\<close> and \<^verbatim>\<open>include/netutils.h\<close>: the human-readable form of an address and
  the two blocking loops. \<^verbatim>\<open>errno\<close> is a function of the state of the operating system.
\<close>

section \<open>Blocking transfers\<close>

lemma read_adv_shrinks:
  assumes "buffer_read_adv b n = Inr b1" "0 < n" "buffer_can_read b1"
  shows "b_write b1 - b_read b1 < b_write b - b_read b"
  using assms by (auto simp: buffer_read_adv_def buffer_compact_def buffer_can_read_def res_simps Let_def split: if_splits)

function sock_blocking_write :: "'o os \<Rightarrow> ('o \<Rightarrow> int) \<Rightarrow> int \<Rightarrow> buffer \<Rightarrow> 'o \<Rightarrow> (int \<times> buffer \<times> 'o) res" where
  "sock_blocking_write os errno fd b st =
     bindr (buffer_read_ptr b) (\<lambda>(n, ptr).
     bindr (buffer_peek b ptr n) (\<lambda>bytes.
     let (nwritten, st1) = os_send os st fd bytes in
     if nwritten > 0 then
       bindr (buffer_read_adv b nwritten) (\<lambda>b1.
       if buffer_can_read b1 then sock_blocking_write os errno fd b1 st1 else Inr (0, b1, st1))
     else Inr (errno st1, b, st1)))"
  by pat_completeness auto

termination
  by (relation "measure (\<lambda>(os, errno, fd, b, st). b_write b - b_read b)") (auto dest: read_adv_shrinks)

declare sock_blocking_write.simps [simp del]

text \<open>
  The inner loop of \<^verbatim>\<open>sock_blocking_copy\<close>: \<open>buf\<close> is the array, \<open>out\<close> the offset of \<^verbatim>\<open>out_ptr\<close> in it. The
  first component of the result is whether the loop ended without an error, and the value of \<^verbatim>\<open>ret\<close> otherwise.
\<close>

function blocking_copy_out ::
  "'o os \<Rightarrow> ('o \<Rightarrow> int) \<Rightarrow> int \<Rightarrow> u8 list \<Rightarrow> nat \<Rightarrow> int \<Rightarrow> 'o \<Rightarrow> (int option \<times> 'o) res" where
  "blocking_copy_out os errno dest buf out nread st =
     bindr (read_cells buf out (nat nread)) (\<lambda>bytes.
     let (nwritten, st1) = os_send os st dest bytes in
     if nwritten > 0 then
       if nread - nwritten > 0 then blocking_copy_out os errno dest buf (out + nat nwritten) (nread - nwritten) st1
       else Inr (None, st1)
     else Inr (Some (errno st1), st1))"
  by pat_completeness auto
termination
  by (relation "measure (\<lambda>(os, errno, dest, buf, out, nread, st). nat nread)") auto

declare blocking_copy_out.simps [simp del]

partial_function (option) blocking_copy_loop ::
  "'o os \<Rightarrow> ('o \<Rightarrow> int) \<Rightarrow> int \<Rightarrow> int \<Rightarrow> u8 list \<Rightarrow> 'o \<Rightarrow> (int \<times> 'o) res option" where
  "blocking_copy_loop os errno source dest buf st =
     (case os_recv os st source (length buf) of
        (None, st1) \<Rightarrow> Some (Inr (0, st1))
      | (Some bytes, st1) \<Rightarrow>
          if bytes = [] then Some (Inr (0, st1))
          else (case bindr (blit buf 0 bytes) (\<lambda>buf1.
              bindr (blocking_copy_out os errno dest buf1 0 (int (length bytes)) st1) (\<lambda>(r, st2). Inr (r, buf1, st2))) of
            Inl e \<Rightarrow> Some (Inl e)
          | Inr (Some ret, buf1, st2) \<Rightarrow> Some (Inr (ret, st2))
          | Inr (None, buf1, st2) \<Rightarrow> blocking_copy_loop os errno source dest buf1 st2))"

text \<open>The array is not initialised: its content is an argument.\<close>

definition sock_blocking_copy ::
  "'o os \<Rightarrow> ('o \<Rightarrow> int) \<Rightarrow> (nat \<Rightarrow> u8) \<Rightarrow> int \<Rightarrow> int \<Rightarrow> 'o \<Rightarrow> (int \<times> 'o) res option" where
  "sock_blocking_copy os errno junk source dest st =
     blocking_copy_loop os errno source dest (map junk [0..<4096]) st"

section \<open>Addresses\<close>

text \<open>
  \<^verbatim>\<open>strncpy\<close> of a string without its NUL, which pads with NULs up to the size, and \<^verbatim>\<open>strncat\<close>, which appends
  at most that many characters and a NUL.
\<close>

definition c_strncpy :: "u8 list \<Rightarrow> u8 list \<Rightarrow> nat \<Rightarrow> u8 list res" where
  "c_strncpy dst s n = blit dst 0 (take n (s @ replicate n 0))"

definition c_strncat :: "u8 list \<Rightarrow> u8 list \<Rightarrow> nat \<Rightarrow> u8 list res" where
  "c_strncat dst s n = bindr (c_strlen dst) (\<lambda>k. blit dst k (take n s @ [0]))"

text \<open>\<^verbatim>\<open>buff[buffsize - 1] = 0\<close>, where the index of a size of 0 wraps around.\<close>

definition close_string :: "u8 list \<Rightarrow> nat \<Rightarrow> u8 list res" where
  "close_string b n = (if n = 0 then Inl OutOfBounds else poke_at b (n - 1) 0)"

text \<open>The port is in network order at 2 in both kinds of address.\<close>

definition sa_port :: "u8 list \<Rightarrow> nat res" where
  "sa_port a = bindr (peek_at a 2) (\<lambda>hi. bindr (peek_at a 3) (\<lambda>lo. Inr (256 * unat hi + unat lo)))"

definition sockaddr_to_human ::
  "(nat \<Rightarrow> u8 list \<Rightarrow> u8 list) \<Rightarrow> u8 list \<Rightarrow> nat \<Rightarrow> u8 list option \<Rightarrow> u8 list res" where
  "sockaddr_to_human ntop buff buffsize addr =
     (case addr of
        None \<Rightarrow> c_strncpy buff (butlast (c_lit ''null'')) buffsize
      | Some a \<Rightarrow>
          bindr (sa_family a) (\<lambda>family.
          let handled = (family = AF_INET \<or> family = AF_INET6) in
          bindr (if handled then
                   bindr (sa_addr a family) (\<lambda>p.
                   bindr (inet_ntop ntop family p buff buffsize) (\<lambda>(ok, b).
                   if ok then Inr b
                   else bindr (c_strncpy b (butlast (c_lit ''unknown ip'')) buffsize) (\<lambda>b1. close_string b1 buffsize)))
                 else c_strncpy buff (butlast (c_lit ''unknown'')) buffsize) (\<lambda>b.
          bindr (c_strncat b (butlast (c_lit '':'')) buffsize) (\<lambda>b1.
          bindr (close_string b1 buffsize) (\<lambda>b2.
          bindr (c_strlen b2) (\<lambda>len.
          bindr (if handled then bindr (sa_port a) (\<lambda>port. blit b2 len (snprintf_bytes (buffsize - len) (dec port)))
                 else Inr b2) (\<lambda>b3.
          close_string b3 buffsize)))))))"

section \<open>The blocking transfers\<close>

lemma tap_send:
  "os_send (tap os) (o0, r, t) fd xs = (case os_send os o0 fd xs of (n, o1) \<Rightarrow> (n, o1, r, t(fd := t fd @ take (nat n) xs)))"
  by (simp add: tap_def split_beta)

lemma tap_recv:
  "os_recv (tap os) (o0, r, t) fd n = (case os_recv os o0 fd n of (x, o1) \<Rightarrow>
     (x, o1, (case x of None \<Rightarrow> r | Some xs \<Rightarrow> r(fd := r fd @ xs)), t))"
  by (simp add: tap_def split: prod.split option.split)

text \<open>
  \<open>refused os errno fd ys o1 ret\<close>: the system came to the state \<open>o1\<close> by refusing to send the bytes \<open>ys\<close>, and \<open>ret\<close> is the
  error number it then had.
\<close>

definition refused :: "'o os \<Rightarrow> ('o \<Rightarrow> int) \<Rightarrow> int \<Rightarrow> u8 list \<Rightarrow> 'o \<Rightarrow> int \<Rightarrow> bool" where
  "refused os errno fd ys o1 ret \<longleftrightarrow> (\<exists>o0 n. os_send os o0 fd ys = (n, o1) \<and> n \<le> 0 \<and> ret = errno o1)"

lemma sock_blocking_write_ok:
  assumes "os_ok os" "wf_buffer b"
  shows "\<exists>ret b' o1 t'. sock_blocking_write (tap os) (errno \<circ> fst) fd b (o0, r, t) = Inr (ret, b', o1, r, t') \<and> wf_buffer b' \<and>
    t' fd @ buf_content b' = t fd @ buf_content b \<and> (\<forall>x. x \<noteq> fd \<longrightarrow> t' x = t x) \<and>
    (if buf_content b' = [] then buf_content b \<noteq> [] \<longrightarrow> ret = 0 else refused os errno fd (buf_content b') o1 ret)"
  using assms(2)
proof (induction "length (buf_content b)" arbitrary: b o0 t rule: less_induct)
  case less
  obtain n o1 where x: "os_send os o0 fd (buf_content b) = (n, o1)" by fastforce
  let ?t = "t(fd := t fd @ take (nat n) (buf_content b))"
  have peek: "buffer_peek b (b_read b) (length (buf_content b)) = Inr (buf_content b)"
    using read_ptr_bytes [OF less.prems order_refl] by simp
  have eq: "sock_blocking_write (tap os) (errno \<circ> fst) fd b (o0, r, t) =
      (if n > 0 then bindr (buffer_read_adv b n) (\<lambda>b1. if buffer_can_read b1
           then sock_blocking_write (tap os) (errno \<circ> fst) fd b1 (o1, r, ?t) else Inr (0, b1, o1, r, ?t))
       else Inr (errno o1, b, o1, r, ?t))"
    using x peek less.prems by (simp add: sock_blocking_write.simps [of _ _ _ b] read_ptr_wf tap_send)
  show ?case
  proof (cases "n > 0")
    case False
    then have "refused os errno fd (buf_content b) o1 (errno o1)" using x unfolding refused_def by force
    with False eq less.prems show ?thesis by auto
  next
    case True
    then have n: "nat n \<le> length (buf_content b)" "int (nat n) = n" using os_send_range [OF assms(1) x] by auto
    obtain b1 where b1: "buffer_read_adv b n = Inr b1" "wf_buffer b1" "buf_content b1 = drop (nat n) (buf_content b)"
      using read_adv_wf [OF less.prems n(1)] n(2) by metis
    show ?thesis
    proof (cases "buf_content b1 = []")
      case True
      with b1 have "length (buf_content b) \<le> nat n" by simp
      with True eq b1 \<open>n > 0\<close> show ?thesis by (auto simp: can_read_content)
    next
      case False
      have "length (buf_content b1) < length (buf_content b)" using b1(3) False \<open>n > 0\<close> n by auto
      from less.hyps [OF this b1(2), of o1 ?t] eq False b1 \<open>n > 0\<close> show ?thesis
        by (fastforce simp: can_read_content)
    qed
  qed
qed

lemma blocking_copy_out_ok:
  assumes "os_ok os" "0 < nread" "out + nat nread \<le> length buf"
  shows "\<exists>res o1 k. blocking_copy_out (tap os) (errno \<circ> fst) dest buf out nread (o0, r, t) =
      Inr (res, o1, r, t(dest := t dest @ take k (drop out buf))) \<and> k \<le> nat nread \<and>
    (res = None \<and> k = nat nread \<or>
     (\<exists>ret. res = Some ret \<and> k < nat nread \<and> refused os errno dest (drop k (take (nat nread) (drop out buf))) o1 ret)) \<and>
    (\<forall>rank. (\<forall>o1 xs n o2. os_send os o1 dest xs = (n, o2) \<longrightarrow> rank o2 \<le> rank o1) \<longrightarrow> rank o1 \<le> (rank o0 :: nat))"
  using assms(2,3)
proof (induction "nat nread" arbitrary: nread out o0 t rule: less_induct)
  case less
  let ?bytes = "take (nat nread) (drop out buf)"
  obtain n o1 where x: "os_send os o0 dest ?bytes = (n, o1)" by fastforce
  have n: "- 1 \<le> n" "n \<le> nread" using os_send_range [OF assms(1) x] less.prems by auto
  let ?t = "t(dest := t dest @ take (nat n) (drop out buf))"
  have mono: "rank o1 \<le> (rank o0 :: nat)" if "\<forall>o1 xs n o2. os_send os o1 dest xs = (n, o2) \<longrightarrow> rank o2 \<le> rank o1" for rank
    using that x by blast
  have eq: "blocking_copy_out (tap os) (errno \<circ> fst) dest buf out nread (o0, r, t) =
      (if n > 0 then if nread - n > 0 then blocking_copy_out (tap os) (errno \<circ> fst) dest buf (out + nat n) (nread - n) (o1, r, ?t)
         else Inr (None, o1, r, ?t) else Inr (Some (errno o1), o1, r, ?t))"
    using x less.prems n by (simp add: blocking_copy_out.simps [of _ _ _ _ out] tap_send min_def nat_le_iff)
  consider "n \<le> 0" | "0 < n" "n = nread" | "0 < n" "n < nread" using n by linarith
  then show ?case
  proof cases
    case 1
    then have "refused os errno dest (drop 0 ?bytes) o1 (errno o1)" using x unfolding refused_def by auto
    then show ?thesis
      by (intro exI [of _ "Some (errno o1)"] exI [of _ o1] exI [of _ 0] conjI)
        (use 1 eq less.prems mono in \<open>auto simp: fun_upd_idem\<close>)
  next
    case 2
    show ?thesis by (intro exI [of _ None] exI [of _ o1] exI [of _ "nat nread"] conjI) (use 2 eq mono in auto)
  next
    case 3
    have "nat (nread - n) < nat nread" "0 < nread - n" "out + nat n + nat (nread - n) \<le> length buf"
      using 3 less.prems by auto
    from less.hyps [OF this, of o1 ?t] obtain res o2 k where
      ih: "blocking_copy_out (tap os) (errno \<circ> fst) dest buf (out + nat n) (nread - n) (o1, r, ?t) =
        Inr (res, o2, r, ?t(dest := ?t dest @ take k (drop (out + nat n) buf)))" "k \<le> nat (nread - n)"
      "res = None \<and> k = nat (nread - n) \<or> (\<exists>ret. res = Some ret \<and> k < nat (nread - n) \<and>
         refused os errno dest (drop k (take (nat (nread - n)) (drop (out + nat n) buf))) o2 ret)"
      "\<forall>rank. (\<forall>o1 xs n o2. os_send os o1 dest xs = (n, o2) \<longrightarrow> rank o2 \<le> rank o1) \<longrightarrow> rank o2 \<le> (rank o1 :: nat)"
      by blast
    have "?t(dest := ?t dest @ take k (drop (out + nat n) buf)) = t(dest := t dest @ take (nat n + k) (drop out buf))"
      unfolding take_add by (simp add: add.commute)
    moreover have k: "nat n + k \<le> nat nread" "k = nat (nread - n) \<Longrightarrow> nat n + k = nat nread"
      "k < nat (nread - n) \<Longrightarrow> nat n + k < nat nread" using ih(2) 3 by auto
    moreover have "drop k (take (nat (nread - n)) (drop (out + nat n) buf)) = drop (nat n + k) ?bytes"
      using 3 by (simp add: drop_take nat_diff_distrib add.commute add.left_commute)
    ultimately show ?thesis using eq 3 ih mono
      by (intro exI [of _ res] exI [of _ o2] exI [of _ "nat n + k"]) (auto intro: order_trans)
  qed
qed

text \<open>
  A source with finitely many bytes: a rank on the states of the system that every receive of bytes
  lowers and no send raises.
\<close>

definition ends_by :: "'o os \<Rightarrow> int \<Rightarrow> int \<Rightarrow> ('o \<Rightarrow> nat) \<Rightarrow> bool" where
  "ends_by os source dest rank \<longleftrightarrow>
     (\<forall>o1 n xs o2. os_recv os o1 source n = (Some xs, o2) \<longrightarrow> xs \<noteq> [] \<longrightarrow> rank o2 < rank o1) \<and>
     (\<forall>o1 xs n o2. os_send os o1 dest xs = (n, o2) \<longrightarrow> rank o2 \<le> rank o1)"

text \<open>
  \<open>relayed os errno source dest st ret st'\<close>: between the two states the bytes \<open>xs\<close> arrived from the
  source. Either all of them went to the destination, the last read found the end of the source or an error, and \<open>ret\<close> is 0;
  or the first \<open>k\<close> did, bytes are left, and the last call was a send of what is left of the last read that the system refused,
  with the error number \<open>ret\<close>.
\<close>

definition relayed :: "'o os \<Rightarrow> ('o \<Rightarrow> int) \<Rightarrow> int \<Rightarrow> int \<Rightarrow> 'o tapped \<Rightarrow> int \<Rightarrow> 'o tapped \<Rightarrow> bool" where
  "relayed os errno source dest st ret st' \<longleftrightarrow>
     (\<exists>xs k. fst (snd st') = (fst (snd st))(source := fst (snd st) source @ xs) \<and>
        snd (snd st') = (snd (snd st))(dest := snd (snd st) dest @ take k xs) \<and>
        (ret = 0 \<and> k = length xs \<and> (\<exists>o0 x. os_recv os o0 source 4096 = (x, fst st') \<and> x \<in> {None, Some []}) \<or>
         k < length xs \<and> refused os errno dest (drop k xs) (fst st') ret))"

lemma relayed_more:
  assumes "relayed os errno source dest (o1, r(source := r source @ xs), t(dest := t dest @ xs)) ret st'"
  shows "relayed os errno source dest (o0, r, t) ret st'"
proof -
  obtain ys k where "fst (snd st') = r(source := r source @ xs @ ys)" "snd (snd st') = t(dest := t dest @ xs @ take k ys)"
    "ret = 0 \<and> k = length ys \<and> (\<exists>o0 x. os_recv os o0 source 4096 = (x, fst st') \<and> x \<in> {None, Some []}) \<or>
     k < length ys \<and> refused os errno dest (drop k ys) (fst st') ret"
    using assms by (fastforce simp: relayed_def)
  then show ?thesis unfolding relayed_def by (intro exI [of _ "xs @ ys"] exI [of _ "length xs + k"]) auto
qed

lemma blocking_copy_loop_ok:
  assumes "os_ok os" "ends_by os source dest rank" "length buf = 4096"
  shows "\<exists>ret st'. blocking_copy_loop (tap os) (errno \<circ> fst) source dest buf (o0, r, t) = Some (Inr (ret, st')) \<and>
    relayed os errno source dest (o0, r, t) ret st'"
  using assms(3)
proof (induction "rank o0" arbitrary: o0 r t buf rule: less_induct)
  case less
  obtain x o1 where x: "os_recv os o0 source (length buf) = (x, o1)" by fastforce
  note loop = blocking_copy_loop.simps [of "tap os" "errno \<circ> fst" source dest buf "(o0, r, t)"]
  show ?case
  proof (cases "x = None \<or> x = Some []")
    case True
    with x loop have "blocking_copy_loop (tap os) (errno \<circ> fst) source dest buf (o0, r, t) = Some (Inr (0, o1, r, t))"
      by (auto simp: tap_recv fun_upd_idem)
    moreover have "\<exists>o0 x. os_recv os o0 source 4096 = (x, o1) \<and> x \<in> {None, Some []}" using x less.prems True by auto
    then have "relayed os errno source dest (o0, r, t) 0 (o1, r, t)"
      unfolding relayed_def by (intro exI [of _ "[]"] exI [of _ 0]) simp
    ultimately show ?thesis by blast
  next
    case False
    then obtain xs where xs: "x = Some xs" "xs \<noteq> []" by auto
    let ?r = "r(source := r source @ xs)" and ?buf = "xs @ drop (length xs) buf"
    have le: "length xs \<le> length buf" using os_recv_le [OF assms(1)] x xs by simp
    have rank1: "rank o1 < rank o0" using assms(2) x xs unfolding ends_by_def by blast
    have pos: "0 < int (length xs)" "0 + nat (int (length xs)) \<le> length ?buf" using xs le by auto
    obtain res o2 k where out: "blocking_copy_out (tap os) (errno \<circ> fst) dest ?buf 0 (int (length xs)) (o1, ?r, t) =
        Inr (res, o2, ?r, t(dest := t dest @ take k (drop 0 ?buf)))" "k \<le> nat (int (length xs))"
      "res = None \<and> k = nat (int (length xs)) \<or> (\<exists>ret. res = Some ret \<and> k < nat (int (length xs)) \<and>
         refused os errno dest (drop k (take (nat (int (length xs))) (drop 0 ?buf))) o2 ret)"
      "rank o2 \<le> rank o1"
      using blocking_copy_out_ok [OF assms(1) pos, of errno dest o1 ?r t] assms(2) unfolding ends_by_def by metis
    have k: "take k ?buf = take k xs" using out(2) by simp
    let ?t = "t(dest := t dest @ take k xs)"
    have eq: "blocking_copy_loop (tap os) (errno \<circ> fst) source dest buf (o0, r, t) =
        (case res of None \<Rightarrow> blocking_copy_loop (tap os) (errno \<circ> fst) source dest ?buf (o2, ?r, ?t)
         | Some ret \<Rightarrow> Some (Inr (ret, o2, ?r, ?t)))"
      using x xs le out(1) [unfolded drop_0 k] loop by (cases res) (simp_all add: tap_recv)
    show ?thesis
    proof (cases res)
      case (Some ret)
      with eq out(3) show ?thesis by (auto simp: relayed_def intro!: exI [of _ xs] exI [of _ k])
    next
      case None
      have "rank o2 < rank o0" using rank1 out(4) by simp
      moreover have "take k xs = xs" using None out(3) by auto
      moreover have "length ?buf = 4096" using le less.prems by simp
      ultimately show ?thesis using less.hyps [of o2 ?buf ?r ?t] eq None relayed_more [of os errno source dest o2 r xs t] by fastforce
    qed
  qed
qed

section \<open>The text of an address\<close>

lemma len_dec: "n < 65536 \<Longrightarrow> length (dec n) \<le> 5"
  by (simp add: dec.simps)

lemma blit_text:
  "length text < length b \<Longrightarrow> \<exists>r. blit b 0 (text @ [0]) = Inr (text @ 0 # r) \<and> Suc (length text + length r) = length b"
  by (intro exI [of _ "drop (Suc (length text)) b"]) simp

lemma blit_at:
  assumes "length xs \<le> length r"
  shows "\<exists>r'. blit (p @ r) (length p) xs = Inr (p @ xs @ r') \<and> length xs + length r' = length r"
  using assms by (intro exI [of _ "drop (length xs) r"]) simp

lemma close_string_end:
  assumes "length p < n" "n = length (p @ r)"
  shows "\<exists>r'. close_string (p @ r) n = Inr (p @ r') \<and> length r' = length r"
proof -
  have r: "r \<noteq> []" using assms by auto
  then have "n - 1 = length p + (length r - 1)" using assms by (cases r) auto
  then have "close_string (p @ r) n = Inr (p @ r[length r - 1 := 0])" using assms
    by (simp add: close_string_def list_update_append r)
  then show ?thesis by simp
qed

lemma close_string_NUL: "n = length (p @ 0 # r) \<Longrightarrow> \<exists>r'. close_string (p @ 0 # r) n = Inr (p @ 0 # r')"
  by (cases r rule: rev_cases) (auto simp: close_string_def list_update_append)

text \<open>
  \<open>sockaddr_bytes v6 a p\<close>: an IPv4 or IPv6 socket address with the address \<open>a\<close> and the port \<open>p\<close>.
\<close>

definition sockaddr_bytes :: "bool \<Rightarrow> u8 list \<Rightarrow> nat \<Rightarrow> u8 list" where
  "sockaddr_bytes v6 a p =
     [if v6 then 10 else 2, 0, of_nat (p div 256), of_nat (p mod 256)] @ (if v6 then [0, 0, 0, 0] else []) @ a"

lemma sockaddr_bytes_fields:
  assumes "length a = (if v6 then 16 else 4)" "p < 65536"
  shows "sa_family (sockaddr_bytes v6 a p) = Inr (if v6 then AF_INET6 else AF_INET)"
    "sa_port (sockaddr_bytes v6 a p) = Inr p"
    "sa_addr (sockaddr_bytes v6 a p) (if v6 then AF_INET6 else AF_INET) = Inr a"
  using assms
  by (auto simp: sockaddr_bytes_def sa_family_def sa_port_def sa_addr_def AF_INET_def AF_INET6_def)

lemma sockaddr_to_human_ip:
  assumes "length a = (if v6 then 16 else 4)" "p < 65536"
    and "text = ntop (if v6 then AF_INET6 else AF_INET) a" "0 \<notin> set text" "length text + 7 \<le> length buff"
  shows "\<exists>b. sockaddr_to_human ntop buff (length buff) (Some (sockaddr_bytes v6 a p)) = Inr b \<and>
    c_str b = text @ 58 # dec p \<and> terminated b"
proof -
  let ?n = "length buff" and ?f = "if v6 then AF_INET6 else AF_INET"
  note f = sockaddr_bytes_fields [OF assms(1,2)]
  have d: "length (dec p) \<le> 5" "0 \<notin> set (dec p)" using len_dec [OF assms(2)] dec_chars(1) by auto
  obtain r1 where r1: "blit buff 0 (text @ [0]) = Inr (text @ 0 # r1)" "Suc (length text + length r1) = ?n"
    using blit_text [of "text" buff] assms(5) by auto
  obtain r2 where r2: "blit (text @ 0 # r1) (length text) [58, 0] = Inr (text @ [58, 0] @ r2)" "Suc (length r2) = length r1"
    using blit_at [of "[58, 0]" "0 # r1" "text"] r1(2) assms(5) by auto
  have n2: "?n = length ((text @ [58, 0]) @ r2)" using r1(2) r2(2) by simp
  obtain r3 where r3: "close_string ((text @ [58, 0]) @ r2) ?n = Inr ((text @ [58, 0]) @ r3)" "length r3 = length r2"
    using close_string_end [OF _ n2] assms(5) by auto
  have n3: "?n = length text + 2 + length r3" using n2 r3(2) by simp
  have size: "snprintf_bytes (?n - Suc (length text)) (dec p) = dec p @ [0]"
    using d(1) assms(5) by (simp add: snprintf_bytes_def)
  have "length (dec p @ [0]) \<le> length (0 # r3)" using d(1) n3 assms(5) by simp
  from blit_at [OF this, of "text @ [58]"] obtain r4 where
    r4: "blit ((text @ [58]) @ 0 # r3) (length (text @ [58])) (dec p @ [0]) = Inr ((text @ [58]) @ (dec p @ [0]) @ r4)"
    "length (dec p @ [0]) + length r4 = length (0 # r3)" by blast
  have "?n = length ((text @ 58 # dec p) @ 0 # r4)" using n3 r4(2) by simp
  from close_string_NUL [OF this] obtain r5 where
    r5: "close_string ((text @ 58 # dec p) @ 0 # r4) ?n = Inr ((text @ 58 # dec p) @ 0 # r5)" by blast
  have c: "c_str (text @ 58 # 0 # r3) = text @ [58]"
    using c_str_append_NUL [of "text @ [58]" r3] assms(4) by simp
  have steps: "?f = AF_INET \<or> ?f = AF_INET6" "inet_ntop ntop ?f a buff ?n = Inr (True, text @ 0 # r1)"
    "c_strncat (text @ 0 # r1) (butlast (c_lit '':'')) ?n = Inr ((text @ [58, 0]) @ r2)" "c_strlen (text @ 58 # 0 # r3) = Inr (Suc (length text))"
    using r1(1) r2(1) assms(3-5) c
    by (simp, simp only: inet_ntop_def, simp, simp add: c_strncat_def c_lit_def of_char_def, simp)
  have "sockaddr_to_human ntop buff ?n (Some (sockaddr_bytes v6 a p)) = Inr (text @ 58 # dec p @ 0 # r5)"
    unfolding sockaddr_to_human_def option.case f bindr_Inr steps(2,3) prod.case simp_thms(6) Let_def
    using r3(1) r4(1) r5 size steps(1,3,4) f(2) by simp
  moreover have "c_str (text @ 58 # dec p @ 0 # r5) = text @ 58 # dec p"
    using c_str_append_NUL [of "text @ 58 # dec p" r5] assms(4) d(2) by simp
  ultimately show ?thesis by simp
qed

text \<open>
  A notation that fills the buffer exactly: \<^verbatim>\<open>strncat\<close> is given the size of the whole buffer, not of what is
  left of it, and stores the NUL after the colon past the end.
\<close>

theorem sockaddr_to_human_overflows:
  assumes "length a = (if v6 then 16 else 4)" "p < 65536"
    and "0 \<notin> set (ntop (if v6 then AF_INET6 else AF_INET) a)" "length (ntop (if v6 then AF_INET6 else AF_INET) a) + 1 = length buff"
  shows "sockaddr_to_human ntop buff (length buff) (Some (sockaddr_bytes v6 a p)) = Inl OutOfBounds"
proof -
  let ?f = "if v6 then AF_INET6 else AF_INET"
  have h: "?f = AF_INET \<or> ?f = AF_INET6" by simp
  have n: "inet_ntop ntop ?f a buff (length buff) = Inr (True, ntop ?f a @ [0])"
    using assms(4) unfolding inet_ntop_def by simp
  have c: "c_strncat (ntop ?f a @ [0]) (butlast (c_lit '':'')) (length buff) = Inl OutOfBounds"
    using assms(3,4) unfolding c_strncat_def by (simp add: c_lit_def of_char_def blit_def)
  show ?thesis
    unfolding sockaddr_to_human_def option.case sockaddr_bytes_fields [OF assms(1,2)] bindr_Inr Let_def
    using h n c by simp
qed

text \<open>
  C31: the blocking transfers end, and stop early only when the system refuses bytes. Over any operating system that keeps its
  contract, and that has a nonzero \<^verbatim>\<open>errno\<close> after refusing to send bytes: \<^verbatim>\<open>sock_blocking_write\<close> returns for every
  buffer, what it sent followed by what is left being what the buffer held, and when bytes are left its last call was a send of
  exactly these that failed, whose error number, not 0, it returns; so 0 means that everything was sent. \<^verbatim>\<open>sock_blocking_copy\<close>
  returns whenever the source has finitely many bytes: it returns 0 after a read that found the end of the source or an error, with every
  byte received sent, in order; and otherwise the nonzero error number of a send of the bytes not yet sent that failed.
  A send of a part of the bytes stops neither. Neither accesses memory out of bounds or fails an assertion.
\<close>

theorem blocking_transfers_end:
  assumes "os_ok os" "wf_buffer b" "ends_by os source dest rank"
    and errno: "\<And>o0 fd ys n o1. os_send os o0 fd ys = (n, o1) \<Longrightarrow> ys \<noteq> [] \<Longrightarrow> n \<le> 0 \<Longrightarrow> errno o1 \<noteq> 0"
  shows "(\<exists>ret b' o1 t'. sock_blocking_write (tap os) (errno \<circ> fst) dest b (o0, r, t) = Inr (ret, b', o1, r, t') \<and>
      t' dest @ buf_content b' = t dest @ buf_content b \<and>
      (if buf_content b' = [] then buf_content b \<noteq> [] \<longrightarrow> ret = 0
       else ret \<noteq> 0 \<and> refused os errno dest (buf_content b') o1 ret)) \<and>
    (\<exists>ret o1 r' t' xs k. sock_blocking_copy (tap os) (errno \<circ> fst) junk source dest (o0, r, t) = Some (Inr (ret, o1, r', t')) \<and>
      r' = r(source := r source @ xs) \<and> t' = t(dest := t dest @ take k xs) \<and>
      (if ret = 0 then k = length xs \<and> (\<exists>o2 x. os_recv os o2 source 4096 = (x, o1) \<and> x \<in> {None, Some []})
       else k < length xs \<and> refused os errno dest (drop k xs) o1 ret))"
proof
  have nz: "ys \<noteq> [] \<Longrightarrow> refused os errno fd ys o1 ret \<Longrightarrow> ret \<noteq> 0" for fd ys o1 ret
    using errno by (auto simp: refused_def)
  show "\<exists>ret b' o1 t'. sock_blocking_write (tap os) (errno \<circ> fst) dest b (o0, r, t) = Inr (ret, b', o1, r, t') \<and>
      t' dest @ buf_content b' = t dest @ buf_content b \<and>
      (if buf_content b' = [] then buf_content b \<noteq> [] \<longrightarrow> ret = 0
       else ret \<noteq> 0 \<and> refused os errno dest (buf_content b') o1 ret)"
    using sock_blocking_write_ok [OF assms(1,2), of errno dest o0 r t] nz by fastforce
  have "length (map junk [0..<4096]) = 4096" by simp
  from blocking_copy_loop_ok [OF assms(1,3) this, of errno o0 r t] obtain ret o1 r' t' where
    c: "sock_blocking_copy (tap os) (errno \<circ> fst) junk source dest (o0, r, t) = Some (Inr (ret, o1, r', t'))"
    "relayed os errno source dest (o0, r, t) ret (o1, r', t')"
    unfolding sock_blocking_copy_def by (metis prod.exhaust)
  from c(2) obtain xs k where "r' = r(source := r source @ xs)" "t' = t(dest := t dest @ take k xs)"
    "ret = 0 \<and> k = length xs \<and> (\<exists>o2 x. os_recv os o2 source 4096 = (x, o1) \<and> x \<in> {None, Some []}) \<or>
     k < length xs \<and> refused os errno dest (drop k xs) o1 ret"
    by (auto simp: relayed_def)
  moreover have "ret \<noteq> 0" if "k < length xs" "refused os errno dest (drop k xs) o1 ret" using nz [OF _ that(2)] that(1) by simp
  ultimately have "r' = r(source := r source @ xs) \<and> t' = t(dest := t dest @ take k xs) \<and>
      (if ret = 0 then k = length xs \<and> (\<exists>o2 x. os_recv os o2 source 4096 = (x, o1) \<and> x \<in> {None, Some []})
       else k < length xs \<and> refused os errno dest (drop k xs) o1 ret)"
    by (cases "ret = 0") auto
  with c(1) show "\<exists>ret o1 r' t' xs k. sock_blocking_copy (tap os) (errno \<circ> fst) junk source dest (o0, r, t) = Some (Inr (ret, o1, r', t')) \<and>
      r' = r(source := r source @ xs) \<and> t' = t(dest := t dest @ take k xs) \<and>
      (if ret = 0 then k = length xs \<and> (\<exists>o2 x. os_recv os o2 source 4096 = (x, o1) \<and> x \<in> {None, Some []})
       else k < length xs \<and> refused os errno dest (drop k xs) o1 ret)" by blast
qed

theorem blocking_transfers_end_witness:
  "\<exists>ret o1 r' t' xs k. sock_blocking_copy (tap script_os) ((\<lambda>_. 11) \<circ> fst) (\<lambda>_. 0) 3 4 (([], [[1, 2], [3]], []), (\<lambda>_. []), (\<lambda>_. [])) =
       Some (Inr (ret, o1, r', t')) \<and>
     r' = (\<lambda>_. [])(3 := xs) \<and> t' = (\<lambda>_. [])(4 := take k xs) \<and>
     (if ret = 0 then k = length xs \<and> (\<exists>o2 x. os_recv script_os o2 3 4096 = (x, o1) \<and> x \<in> {None, Some []})
      else k < length xs \<and> refused script_os (\<lambda>_. 11) 4 (drop k xs) o1 ret)"
proof -
  have e: "ends_by script_os 3 4 (\<lambda>(fs, ms, out). length ms)"
    by (auto simp: ends_by_def script_os_def split: list.splits prod.splits)
  have b: "wf_buffer \<lparr>b_data = [7], b_limit = 1, b_read = 0, b_write = 1\<rparr>" by (simp add: wf_buffer_def)
  show ?thesis
    using blocking_transfers_end [OF script_os_ok b e, of "\<lambda>_. 11" "([], [[1, 2], [3]], [])" "\<lambda>_. []" "\<lambda>_. []" "\<lambda>_. 0", THEN conjunct2]
    by simp
qed

text \<open>
  The text of an address. With a buffer of \<^verbatim>\<open>SOCKADDR_TO_HUMAN_MIN\<close> (52) bytes or more, an IPv4 or IPv6
  address is written as its notation, a colon and the port in decimal, whatever the buffer held; the notation
  of the C library has at most 45 characters.
\<close>

theorem sockaddr_to_human_text:
  assumes "length a = (if v6 then 16 else 4)" "p < 65536" "52 \<le> length buff"
    and "0 \<notin> set (ntop (if v6 then AF_INET6 else AF_INET) a)" "length (ntop (if v6 then AF_INET6 else AF_INET) a) \<le> 45"
  shows "\<exists>b. sockaddr_to_human ntop buff (length buff) (Some (sockaddr_bytes v6 a p)) = Inr b \<and>
    c_str b = ntop (if v6 then AF_INET6 else AF_INET) a @ 58 # dec p"
  using sockaddr_to_human_ip [OF assms(1,2), of "ntop (if v6 then AF_INET6 else AF_INET) a" ntop buff] assms(3-5) by auto

definition dotted :: "nat \<Rightarrow> u8 list \<Rightarrow> u8 list" where
  "dotted f x = tl (concat (map (\<lambda>c. 46 # dec (unat c)) x))"

theorem sockaddr_to_human_text_witness:
  "\<exists>b. sockaddr_to_human dotted (replicate 52 9) 52 (Some (sockaddr_bytes False [1, 2, 3, 4] 9090)) = Inr b \<and>
     c_str b = [49, 46, 50, 46, 51, 46, 52, 58, 57, 48, 57, 48]"
proof -
  have d: "dotted AF_INET [1, 2, 3, 4] = [49, 46, 50, 46, 51, 46, 52]" "dec 9090 = [57, 48, 57, 48]"
    by (simp_all add: dotted_def dec.simps)
  show ?thesis
    using sockaddr_to_human_text [of "[1, 2, 3, 4]" False 9090 "replicate 52 9" dotted] d by simp
qed

end
