(* ===== verification/Process.thy ===== *)
theory Process
  imports Negotiation Relay Server
begin

text \<open>
  The process as a whole: the loop of \<^verbatim>\<open>main\<close> over one selector that serves both kinds of session, and the life of a
  SOCKS session from the connection of its client to copying, as a run of that loop.
\<close>

section \<open>One selector, two kinds of session\<close>

text \<open>
  The heap of the process: the sessions of both kinds, the data they share, and the log. A handler sees
  and changes the part of it that belongs to its kind of session, and the shared data.
\<close>

record 'o process =
  pc_prawtos :: "nat \<Rightarrow> prawtos option"
  pc_prawtos_next :: nat
  pc_sessions :: "nat \<Rightarrow> session option"
  pc_sessions_next :: nat
  pc_env :: "'o env"
  pc_log :: logger_ptr

definition prawtos_view :: "'o process \<Rightarrow> 'o world" where
  "prawtos_view pc = \<lparr>w_prawtos = pc_prawtos pc, w_next = pc_prawtos_next pc, w_env = pc_env pc\<rparr>"

definition put_prawtos :: "'o world \<Rightarrow> 'o process \<Rightarrow> 'o process" where
  "put_prawtos w pc = pc\<lparr>pc_prawtos := w_prawtos w, pc_prawtos_next := w_next w, pc_env := w_env w\<rparr>"

definition socks_view :: "'o process \<Rightarrow> 'o kworld" where
  "socks_view pc = \<lparr>k_sessions = pc_sessions pc, k_next = pc_sessions_next pc, k_env = pc_env pc, k_log = pc_log pc\<rparr>"

definition put_socks :: "'o kworld \<Rightarrow> 'o process \<Rightarrow> 'o process" where
  "put_socks w pc = pc\<lparr>pc_sessions := k_sessions w, pc_sessions_next := k_next w, pc_env := k_env w, pc_log := k_log w\<rparr>"

definition lift_callback ::
  "('o process \<Rightarrow> 'v) \<Rightarrow> ('v \<Rightarrow> 'o process \<Rightarrow> 'o process) \<Rightarrow> (key \<Rightarrow> sel \<times> 'v \<Rightarrow> (sel \<times> 'v) res)
     \<Rightarrow> key \<Rightarrow> sel \<times> 'o process \<Rightarrow> (sel \<times> 'o process) res" where
  "lift_callback view put cb key sw = (let (s, pc) = sw in bindr (cb key (s, view pc)) (\<lambda>(s1, w). Inr (s1, put w pc)))"

definition lift_handler ::
  "('o process \<Rightarrow> 'v) \<Rightarrow> ('v \<Rightarrow> 'o process \<Rightarrow> 'o process) \<Rightarrow> (handler_id, ptr, 'v) fd_handler
     \<Rightarrow> (handler_id, ptr, 'o process) fd_handler" where
  "lift_handler view put h = \<lparr>
     handle_read = map_option (lift_callback view put) (handle_read h),
     handle_write = map_option (lift_callback view put) (handle_write h),
     handle_block = map_option (lift_callback view put) (handle_block h),
     handle_close = map_option (lift_callback view put) (handle_close h)\<rparr>"

definition process_handlers :: "'o os \<Rightarrow> log_env \<Rightarrow> handler_id \<Rightarrow> (handler_id, ptr, 'o process) fd_handler" where
  "process_handlers os env h =
     (if h = PRAWTOS \<or> h = PRAWTOS_PASSIVE then lift_handler prawtos_view put_prawtos (prawtos_handlers os h)
      else lift_handler socks_view put_socks (socks_handlers os env h))"

text \<open>The process with the data \<^const>\<open>main_start\<close> ends with. The log is never created.\<close>

definition process_start :: "'o env \<Rightarrow> 'o process" where
  "process_start e = \<lparr>pc_prawtos = Map.empty, pc_prawtos_next = 0, pc_sessions = Map.empty, pc_sessions_next = 0,
     pc_env = e, pc_log = logger_data\<rparr>"

section \<open>What the SOCKS handlers leave alone\<close>

text \<open>
  While a round of the loop is under way its callbacks change neither the results of \<^verbatim>\<open>pselect\<close> nor the list of
  notifications, and the table does not shrink.
\<close>

definition sel_frame :: "('h, 'd) fdselector \<Rightarrow> ('h, 'd) fdselector \<Rightarrow> bool" where
  "sel_frame s s' \<longleftrightarrow> sel_slave_r s' = sel_slave_r s \<and> sel_slave_w s' = sel_slave_w s \<and>
     sel_resolution_jobs s' = sel_resolution_jobs s \<and> sel_fd_size s \<le> sel_fd_size s'"

lemma frame_refl [simp]: "sel_frame s s"
  by (simp add: sel_frame_def)

lemma frame_trans: "sel_frame s s1 \<Longrightarrow> sel_frame s1 s2 \<Longrightarrow> sel_frame s s2"
  by (auto simp: sel_frame_def)

lemma put_item_frame: "put_item s i it = Inr s' \<Longrightarrow> sel_frame s s'"
  by (auto simp: put_item_def res_simps sel_frame_def split: option.splits if_splits)

lemma update_fdset_frame: "items_update_fdset_for_fd s it = Inr s' \<Longrightarrow> sel_frame s s'"
  by (auto simp: items_update_fdset_for_fd_def sel_frame_def Let_def split: if_splits)

lemma set_interest_frame: "selector_set_interest s fd i = Inr (st, s') \<Longrightarrow> sel_frame s s'"
  by (auto simp: selector_set_interest_def res_simps Let_def split: if_splits
      intro: frame_trans dest!: put_item_frame update_fdset_frame)

lemma set_interest_key_frame: "selector_set_interest_key key s i = Inr (st, s') \<Longrightarrow> sel_frame s s'"
  by (auto simp: selector_set_interest_key_def split: if_splits dest: set_interest_frame)

lemma frame_max_fd [simp]:
  "sel_frame s (s1\<lparr>sel_max_fd := m\<rparr>) = sel_frame s s1" "sel_frame (s1\<lparr>sel_max_fd := m\<rparr>) s = sel_frame s1 s"
  by (simp_all add: sel_frame_def)

lemma ensure_capacity_frame: "ensure_capacity ok s n = Inr (st, s') \<Longrightarrow> sel_frame s s'"
proof -
  have "n < c" if "next_capacity n = Inr c" "n \<le> ITEMS_MAX_SIZE" for c
    using next_capacity_ok [OF that(2)] that(1) by auto
  then show "ensure_capacity ok s n = Inr (st, s') \<Longrightarrow> sel_frame s s'"
    by (fastforce simp: ensure_capacity_def items_init_def res_simps sel_frame_def assert_c_def Let_def split: if_splits option.splits)
qed

lemma register_frame: "selector_register ok (Some s) fd h i d = Inr (st, Some s') \<Longrightarrow> sel_frame s s'"
  by (auto simp: selector_register_def res_simps Let_def split: if_splits
      dest!: put_item_frame update_fdset_frame ensure_capacity_frame intro: frame_trans)

text \<open>Unregistering, with close callbacks that leave the selector as it is.\<close>

lemma unregister_frame:
  assumes "selector_unregister_fd hs s fd w = Inr (st, s', w')"
    and "\<And>h key s w s' w'. call_close hs h key s w = Inr (s', w') \<Longrightarrow> sel_frame s s'"
  shows "sel_frame s s'"
  using assms(1)
  by (auto simp: selector_unregister_fd_def res_simps Let_def split: if_splits
      dest!: put_item_frame update_fdset_frame assms(2) intro: frame_trans)

lemma socks_closing_frame: "call_close (socks_closing os) h key s w = Inr (s', w') \<Longrightarrow> s' = s"
  by (auto simp: call_close_def socks_closing_def client_close_def server_close_def res_simps case_prod_unfold Let_def split: if_splits)

lemma close_session_frame:
  assumes "close_session os key (s, w) = Inr (s', w')"
  shows "sel_frame s s'"
proof -
  have c: "sel_frame s s'" if "call_close (socks_closing os) h key s w = Inr (s', w')" for h key s w s' w'
    using socks_closing_frame [OF that] by simp
  from assms show ?thesis
    by (auto simp: close_session_def res_simps case_prod_unfold Let_def dest!: unregister_frame [OF _ c])
qed

text \<open>
  A computation that starts with the selector \<open>s\<close>: every selector it may end with, seen by \<open>f\<close>, is in the
  frame. The rules follow the structure of the code.
\<close>

definition framed :: "('a \<Rightarrow> ('h, 'd) fdselector) \<Rightarrow> ('h, 'd) fdselector \<Rightarrow> 'a res \<Rightarrow> bool" where
  "framed f s m \<longleftrightarrow> (\<forall>x. m = Inr x \<longrightarrow> sel_frame s (f x))"

named_theorems framed_rules \<open>how a computation keeps the frame\<close>

lemma framed_results [framed_rules]: "sel_frame s (f x) \<Longrightarrow> framed f s (Inr x)" "framed f s (Inl e)"
  by (simp_all add: framed_def)

lemma framed_if [framed_rules]:
  "(c \<Longrightarrow> framed f s m) \<Longrightarrow> (\<not> c \<Longrightarrow> framed f s n) \<Longrightarrow> framed f s (if c then m else n)"
  by simp

lemma framed_option [framed_rules]:
  "(x = None \<Longrightarrow> framed f s m) \<Longrightarrow> (\<And>y. x = Some y \<Longrightarrow> framed f s (k y)) \<Longrightarrow>
     framed f s (case x of None \<Rightarrow> m | Some y \<Rightarrow> k y)"
  by (cases x) simp_all

lemma framed_prod [framed_rules]: "(\<And>x y. p = (x, y) \<Longrightarrow> framed f s (k x y)) \<Longrightarrow> framed f s (case p of (x, y) \<Rightarrow> k x y)"
  by (cases p) simp

lemma framed_set_interest [framed_rules]:
  "sel_frame s s1 \<Longrightarrow> (\<And>st s2. sel_frame s s2 \<Longrightarrow> framed f s (k (st, s2))) \<Longrightarrow>
     framed f s (bindr (selector_set_interest s1 fd i) k)"
  by (auto simp: framed_def res_simps dest!: set_interest_frame intro: frame_trans)

lemma framed_set_interest_key [framed_rules]:
  "sel_frame s s1 \<Longrightarrow> (\<And>st s2. sel_frame s s2 \<Longrightarrow> framed f s (k (st, s2))) \<Longrightarrow>
     framed f s (bindr (selector_set_interest_key key s1 i) k)"
  by (auto simp: framed_def res_simps dest!: set_interest_key_frame intro: frame_trans)

lemma framed_register [framed_rules]:
  assumes "sel_frame s s1" "\<And>st s2. sel_frame s s2 \<Longrightarrow> framed f s (k st s2)"
  shows "framed f s (bindr (selector_register ok (Some s1) fd h i d) (\<lambda>(st, sp). bindr (the_ptr sp) (k st)))"
proof -
  have "sel_frame s (f x)" if "selector_register ok (Some s1) fd h i d = Inr (st, Some s2)" "k st s2 = Inr x" for st s2 x
    using assms(2) [OF frame_trans [OF assms(1) register_frame [OF that(1)]]] that(2) by (simp add: framed_def)
  then show ?thesis by (fastforce simp: framed_def res_simps the_ptr_def split: option.splits)
qed

lemma framed_call: "framed g s m \<Longrightarrow> (\<And>x. sel_frame s (g x) \<Longrightarrow> framed f s (k x)) \<Longrightarrow> framed f s (bindr m k)"
  by (auto simp: framed_def res_simps)

lemma framed_other: "(\<And>x. framed f s (k x)) \<Longrightarrow> framed f s (bindr m k)"
  by (auto simp: framed_def res_simps)

lemma framed_trans: "framed f s1 m \<Longrightarrow> sel_frame s s1 \<Longrightarrow> framed f s m"
  by (auto simp: framed_def intro: frame_trans)

text \<open>The callbacks of the table of states, and what they are made of.\<close>

abbreviation framed_world :: "'o sworld \<Rightarrow> (nat \<times> 'o sworld) res \<Rightarrow> bool" where
  "framed_world w m \<equiv> framed (\<lambda>(_, w'). sw_sel w') (sw_sel w) m"

lemma hello_framed: "framed_world w (hello_read os key w)" "framed_world w (hello_write os key w)"
  unfolding hello_read_def hello_write_def Let_def by (rule framed_rules framed_other | simp)+

lemma request_write_framed: "framed_world w (request_write os key w)"
  unfolding request_write_def Let_def by (rule framed_rules framed_other | simp)+

lemma request_connecting_framed: "framed_world w (request_connecting os key w)"
  unfolding request_connecting_def Let_def by (rule framed_rules framed_other | simp)+

lemma connect_framed: "framed_world w (connect_in_progress os key reg fd w)" "framed_world w (connect_failed os key err fd w)"
  unfolding connect_in_progress_def connect_failed_def Let_def by (rule framed_rules framed_other | simp)+

lemmas connect_framed_from [framed_rules] = connect_framed [THEN framed_trans]

lemma request_connect_framed: "framed_world w (request_connect os key w)"
  unfolding request_connect_def Let_def by (rule framed_rules framed_other | simp)+

lemmas request_connect_framed_from [framed_rules] = request_connect_framed [THEN framed_trans]

lemma request_process_framed: "framed_world w (request_process os key w)"
  unfolding request_process_def connect_to_def Let_def by (rule framed_rules framed_other | simp)+

lemma framed_request_process [framed_rules]:
  "sel_frame s (sw_sel w) \<Longrightarrow> (\<And>st w2. sel_frame s (sw_sel w2) \<Longrightarrow> framed f s (k (st, w2))) \<Longrightarrow>
     framed f s (bindr (request_process os key w) k)"
  by (rule framed_call [OF request_process_framed [THEN framed_trans]]) auto

lemma request_read_framed: "framed_world w (request_read os key w)"
  unfolding request_read_def Let_def by (rule framed_rules framed_other | simp)+

lemma framed_check_interest [framed_rules]:
  "sel_frame s s1 \<Longrightarrow> (\<And>r s2. sel_frame s s2 \<Longrightarrow> framed f s (k (r, s2))) \<Longrightarrow> framed f s (bindr (check_interest sd p s1) k)"
proof (rule framed_call [where g = snd])
  assume s: "sel_frame s s1"
  show "framed snd s (check_interest sd p s1)"
    unfolding check_interest_def Let_def by (insert s, (rule framed_rules framed_other | simp)+)
qed auto

lemma copy_finish_framed [framed_rules]:
  "sel_frame s (sw_sel w) \<Longrightarrow> framed (\<lambda>(_, w'). sw_sel w') s (copy_finish sd w)"
  unfolding copy_finish_def by ((rule framed_rules framed_other | simp)+)

lemma half_close_sel [simp]: "sw_sel (half_close os sd f g w) = sw_sel w"
  by (simp add: half_close_def Let_def)

lemma framed_log_sniff [framed_rules]:
  "sel_frame s s1 \<Longrightarrow> (\<And>l s2. sel_frame s s2 \<Longrightarrow> framed f s (k (l, s2))) \<Longrightarrow> framed f s (bindr (log_sniff env data r s1) k)"
proof (rule framed_call [where g = snd])
  assume s: "sel_frame s s1"
  show "framed snd s (log_sniff env data r s1)"
    unfolding log_sniff_def print_log_def store_line_def Let_def by (insert s, (rule framed_rules framed_other | simp)+)
qed auto

lemma framed_pop3sniff [framed_rules]:
  "sel_frame s (sw_sel w) \<Longrightarrow> (\<And>w2. sel_frame s (sw_sel w2) \<Longrightarrow> framed f s (k w2)) \<Longrightarrow>
     framed f s (bindr (pop3sniff env bytes w) k)"
proof (rule framed_call [where g = sw_sel])
  assume s: "sel_frame s (sw_sel w)"
  have c: "framed (\<lambda>(_, _, _, _, s2). s2) s (pop3_consume env data sn r (sw_sel w))" for data sn r
    unfolding pop3_consume_def Let_def by (insert s, (rule framed_rules framed_other | simp)+)
  show "framed sw_sel s (pop3sniff env bytes w)"
    unfolding pop3sniff_def Let_def by (insert s, (rule framed_rules framed_call [OF c] framed_other | simp)+)
qed auto

text \<open>A step that may or may not be taken before the rest.\<close>

lemma framed_branch [framed_rules]:
  "(c \<Longrightarrow> framed f s (bindr m k)) \<Longrightarrow> (\<not> c \<Longrightarrow> framed f s (bindr n k)) \<Longrightarrow> framed f s (bindr (if c then m else n) k)"
  "framed f s (k x) \<Longrightarrow> framed f s (bindr (Inr x) k)"
  by simp_all

lemma framed_assoc [framed_rules]: "framed f s (bindr m (\<lambda>x. bindr (k x) g)) \<Longrightarrow> framed f s (bindr (bindr m k) g)"
  by (simp add: bindr_assoc)

lemma copy_framed: "framed_world w (copy_read os env key w)" "framed_world w (copy_write os env key w)"
  unfolding copy_read_def copy_write_def Let_def by (rule framed_rules framed_other | simp)+

text \<open>Events of a session and new sessions.\<close>

lemma framed_peek [framed_rules]:
  "(\<And>d. d \<in> set ds \<Longrightarrow> framed f s (k d)) \<Longrightarrow> framed f s (bindr (peek_at ds i) k)"
  by (force simp: framed_def res_simps peek_at_def split: if_splits)

lemma entry_framed:
  assumes "d \<in> set (stm_map os env)"
  shows "on_ready \<in> {on_read_ready, on_write_ready} \<Longrightarrow> on_ready d = Some cb \<Longrightarrow> framed_world w (cb key w)"
    "framed sw_sel (sw_sel w) (run_hook (on_arrival d) st key w)" "on_departure d = None"
proof -
  show "on_ready \<in> {on_read_ready, on_write_ready} \<Longrightarrow> on_ready d = Some cb \<Longrightarrow> framed_world w (cb key w)"
    using assms
    by (auto simp: stm_map_def state_defs hello_framed request_write_framed request_connecting_framed request_read_framed copy_framed)
  show "framed sw_sel (sw_sel w) (run_hook (on_arrival d) st key w)" "on_departure d = None"
    using assms by (auto simp: stm_map_def state_defs framed_def hello_arrival_def request_arrival_def
        request_connecting_arrival_def copy_arrival_def Let_def)
qed

text \<open>A table of states whose callbacks keep the frame: so does every event of its machine.\<close>

locale framed_states =
  fixes ds :: "('k, 'w) state_definition list" and view :: "'w \<Rightarrow> ('h, 'd) fdselector"
  assumes callback: "d \<in> set ds \<Longrightarrow> on_ready \<in> {on_read_ready, on_write_ready} \<Longrightarrow> on_ready d = Some cb \<Longrightarrow>
      framed (\<lambda>(_, w'). view w') (view w) (cb key w)"
    and arrival: "d \<in> set ds \<Longrightarrow> framed view (view w) (run_hook (on_arrival d) st key w)"
    and departure: "d \<in> set ds \<Longrightarrow> on_departure d = None"
begin

lemma framed_hook [framed_rules]:
  "d \<in> set ds \<Longrightarrow> sel_frame s (view w) \<Longrightarrow> (\<And>w2. sel_frame s (view w2) \<Longrightarrow> framed f s (k w2)) \<Longrightarrow>
     framed f s (bindr (run_hook (on_arrival d) st key w) k)"
  by (rule framed_call [OF arrival [THEN framed_trans]])

lemma jump_framed:
  assumes "sel_frame s (view w)"
  shows "framed (\<lambda>(_, w'). view w') s (jump ds stm n key w)"
proof -
  have dep: "bindr (peek_at ds c) (\<lambda>d. run_hook (on_departure d) (sd_state d) key w) = bindr (peek_at ds c) (\<lambda>d. Inr w)" for c
    by (auto simp: peek_at_def departure)
  show ?thesis
    unfolding jump_def
    by (insert assms, cases "sm_current stm") ((rule framed_rules | simp add: dep bindr_assoc)+)
qed

lemma event_framed:
  assumes "on_ready \<in> {on_read_ready, on_write_ready}"
  shows "framed (\<lambda>(_, _, w'). view w') (view w) (stm_event on_ready ds stm key w)"
proof -
  have first: "framed (\<lambda>(_, w'). view w') (view w) (handle_first ds stm key w)"
    unfolding handle_first_def by (rule framed_rules | simp)+
  have last: "framed (\<lambda>(_, _, w'). view w') (view w) (case on_ready d of None \<Rightarrow> Inl Abort | Some f \<Rightarrow>
      bindr (f key w1) (\<lambda>(ret, w2). bindr (jump ds stm1 ret key w2) (\<lambda>(stm2, w3). Inr (ret, stm2, w3))))"
    if "d \<in> set ds" "sel_frame (view w) (view w1)" for d w1 stm1
  proof (rule framed_option)
    fix cb assume cb: "on_ready d = Some cb"
    show "framed (\<lambda>(_, _, w'). view w') (view w)
        (bindr (cb key w1) (\<lambda>(ret, w2). bindr (jump ds stm1 ret key w2) (\<lambda>(stm2, w3). Inr (ret, stm2, w3))))"
      by (rule framed_call [OF framed_trans [OF callback [OF that(1) assms cb] that(2)]])
        (auto intro!: framed_call [OF jump_framed] framed_rules)
  qed (simp add: framed_rules)
  show ?thesis
    unfolding stm_event_def
    by (rule framed_call [OF first]) (auto split: option.splits intro!: framed_rules last)
qed

end

interpretation socks_machine: framed_states "stm_map os env" sw_sel
  for os env
  by unfold_locales (rule entry_framed; assumption)+

lemma client_event_frame:
  assumes "client_event os env (stm_event on_ready) key (s, w) = Inr (s', w')" "on_ready \<in> {on_read_ready, on_write_ready}"
  shows "sel_frame s s'"
proof -
  obtain a p where d: "deref_session key w = Inr (a, p)" using assms(1) by (auto simp: client_event_def res_simps)
  obtain st stm w1 where e: "stm_event on_ready (stm_map os env) (ss_stm p) key (session_world p s w) = Inr (st, stm, w1)"
    using assms(1) d by (auto simp: client_event_def res_simps)
  have "sel_frame s (sw_sel w1)"
    using socks_machine.event_framed [OF assms(2), of "session_world p s w" os env "ss_stm p" key] e by (simp add: framed_def)
  then show ?thesis
    using assms(1) d e close_session_frame frame_trans by (fastforce simp: client_event_def Let_def split: if_splits)
qed

lemma client_frame:
  "client_read os env key (s, w) = Inr (s', w') \<Longrightarrow> sel_frame s s'"
  "client_write os env key (s, w) = Inr (s', w') \<Longrightarrow> sel_frame s s'"
  using client_event_frame unfolding client_events by blast+

lemma new_connection_frame:
  assumes "new_connection_ipv4 os env key (s, w) = Inr (s', w')"
  shows "sel_frame s s'"
proof -
  have "framed fst s (new_connection os env key (s, w))"
    unfolding new_connection_def Let_def by (rule framed_rules framed_other | simp)+
  with assms show ?thesis by (simp add: framed_def new_connection_ipv4_def)
qed

section \<open>A round with one event\<close>

lemma wf_slaves [simp]:
  "wf_selector (s\<lparr>sel_slave_r := rs, sel_slave_w := ws\<rparr>) = wf_selector s"
  "sel_map (s\<lparr>sel_slave_r := rs, sel_slave_w := ws\<rparr>) = sel_map s"
  by (simp_all add: wf_selector_def sel_map_def used_at_def item_at_def fun_eq_iff)

lemma handle_one_idle:
  assumes "wf_selector s" "k < sel_fd_size s" "int k \<notin> sel_slave_r s" "int k \<notin> sel_slave_w s"
  shows "handle_one hs k (s, w) = Inr (s, w)"
proof (cases "used_at s k")
  case True
  then have "it_fd (item_at s k) = int k" using wf_selectorD(3) [OF assms(1)] by simp
  with True assms show ?thesis using wf_selectorD(1) [OF assms(1,2)] by (simp add: handle_one_def)
next
  case False
  with assms show ?thesis using wf_selectorD(1) [OF assms(1,2)] by (simp add: handle_one_def used_at_def)
qed

lemma fold_idle:
  assumes "wf_selector s" "\<forall>k \<in> set ks. k < sel_fd_size s \<and> int k \<notin> sel_slave_r s \<and> int k \<notin> sel_slave_w s"
  shows "fold (\<lambda>i r. bindr r (handle_one hs i)) ks (Inr (s, w)) = Inr (s, w)"
  using assms(2) by (induction ks) (simp_all add: handle_one_idle [OF assms(1)])

lemma fold_fault: "fold (\<lambda>i r. bindr r (f i)) ks (Inl e) = Inl e"
  by (induction ks) simp_all

text \<open>With events at the descriptor \<open>i\<close> only, a call of \<^const>\<open>selector_select\<close> is one step of its loop.\<close>

lemma select_one:
  assumes s: "wf_selector s" "sel_map s i = Some v" "sel_resolution_jobs s = []" "rs \<union> ws \<subseteq> {int i}"
    and s0: "s0 = s\<lparr>sel_slave_r := rs, sel_slave_w := ws\<rparr>"
  shows "handle_one hs i (s0, w) = Inr (s', w') \<Longrightarrow> wf_selector s' \<Longrightarrow> sel_frame s0 s' \<Longrightarrow>
      selector_select hs (Ready rs ws) s w = Inr (SELECTOR_SUCCESS, s', w')"
    and "handle_one hs i (s0, w) = Inl e \<Longrightarrow> selector_select hs (Ready rs ws) s w = Inl e"
proof -
  let ?n = "nat (sel_max_fd s + 1)" and ?f = "\<lambda>i r. bindr r (handle_one hs i)"
  have u: "used_at s i" using s(2) by (metis option.distinct(1) sel_map_def)
  have n: "i < ?n" "?n \<le> sel_fd_size s" using wf_selectorD(3) [OF s(1) u] s(1) by (auto simp: wf_selector_def)
  have split: "[0 ..< ?n] = [0 ..< i] @ [i] @ [Suc i ..< ?n]"
    using n(1) by (metis append_Cons append_Nil le0 le_add_diff_inverse less_imp_le_nat upt_add_eq_append upt_conv_Cons)
  have wf0: "wf_selector s0" using s(1) s0 by simp
  have pre: "fold ?f [0 ..< i] (Inr (s0, w)) = Inr (s0, w)"
    by (rule fold_idle [OF wf0]) (use n s(4) s0 in auto)
  have sel: "selector_select hs (Ready rs ws) s w = bindr (fold ?f [Suc i ..< ?n] (handle_one hs i (s0, w)))
      (\<lambda>(s2, w2). bindr (handle_block_notifications hs s2 w2) (\<lambda>(s3, w3). Inr (SELECTOR_SUCCESS, s3, w3)))"
    by (simp add: selector_select_def handle_iteration_def Let_def s0 [symmetric] split [simplified] pre)
  show "selector_select hs (Ready rs ws) s w = Inl e" if "handle_one hs i (s0, w) = Inl e"
    unfolding sel that by (simp add: fold_fault)
  show "selector_select hs (Ready rs ws) s w = Inr (SELECTOR_SUCCESS, s', w')"
    if h: "handle_one hs i (s0, w) = Inr (s', w')" "wf_selector s'" "sel_frame s0 s'"
  proof -
    have "fold ?f [Suc i ..< ?n] (Inr (s', w')) = Inr (s', w')"
      by (rule fold_idle [OF h(2)]) (use n s(4) h(3) s0 in \<open>auto simp: sel_frame_def\<close>)
    moreover have jobs: "sel_resolution_jobs s' = []" using h(3) s(3) s0 by (simp add: sel_frame_def)
    moreover have "s'\<lparr>sel_resolution_jobs := []\<rparr> = s'" using jobs by (cases s') simp
    ultimately show ?thesis unfolding sel h(1) by (simp add: handle_block_notifications_def)
  qed
qed

lemma item_of_map:
  assumes "wf_selector s" "sel_map s i = Some (h, x, d)"
  shows "get_item s i = Inr (item_at s i)" "ITEM_USED (item_at s i)" "it_fd (item_at s i) = int i" "it_handler (item_at s i) = h"
    "it_interest (item_at s i) = x" "it_data (item_at s i) = d"
proof -
  have u: "used_at s i" using assms(2) by (metis option.distinct(1) sel_map_def)
  then show "it_handler (item_at s i) = h" "it_interest (item_at s i) = x" "it_data (item_at s i) = d"
    using assms(2) by (simp_all add: sel_map_def)
  show "ITEM_USED (item_at s i)" "get_item s i = Inr (item_at s i)" "it_fd (item_at s i) = int i"
    using u wf_selectorD(1,3) [OF assms(1)] by (auto simp: used_at_def)
qed

lemma handle_one_read:
  assumes "wf_selector s" "sel_map s i = Some (Some h, x, d)" "OP_READ AND x \<noteq> 0" "handle_read (hs h) = Some cb"
    "sel_slave_r s = {int i}" "sel_slave_w s = {}"
  shows "cb \<lparr>sk_fd = int i, sk_data = d\<rparr> (s, w) = Inl e \<Longrightarrow> handle_one hs i (s, w) = Inl e"
    and "cb \<lparr>sk_fd = int i, sk_data = d\<rparr> (s, w) = Inr (s', w') \<Longrightarrow> sel_frame s s' \<Longrightarrow> handle_one hs i (s, w) = Inr (s', w')"
  using item_of_map [OF assms(1,2)] assms(3-6) by (simp_all add: handle_one_def the_ptr_def sel_frame_def)

lemma handle_one_write:
  assumes "wf_selector s" "sel_map s i = Some (Some h, x, d)" "OP_WRITE AND x \<noteq> 0" "handle_write (hs h) = Some cb"
    "sel_slave_r s = {}" "sel_slave_w s = {int i}"
  shows "handle_one hs i (s, w) = cb \<lparr>sk_fd = int i, sk_data = d\<rparr> (s, w)"
  using item_of_map [OF assms(1,2)] assms(3-6) by (simp add: handle_one_def the_ptr_def same_table_def)

section \<open>Rounds of the process\<close>

lemma view_put [simp]: "socks_view (put_socks w pc) = w" "pc_prawtos (put_socks w pc) = pc_prawtos pc"
  "pc_prawtos_next (put_socks w pc) = pc_prawtos_next pc" "pc_env (put_socks w pc) = k_env w"
  "put_socks w2 (put_socks w pc) = put_socks w2 pc" "pc_sessions (put_socks w pc) = k_sessions w"
  "k_sessions (socks_view pc) = pc_sessions pc"
  by (simp_all add: socks_view_def put_socks_def)

lemma client_callbacks:
  "handle_read (process_handlers os env CLIENT) = Some (lift_callback socks_view put_socks (client_read os env))"
  "handle_write (process_handlers os env CLIENT) = Some (lift_callback socks_view put_socks (client_write os env))"
  "handle_read (process_handlers os env SOCKS_PASSIVE_IPV4) = Some (lift_callback socks_view put_socks (new_connection_ipv4 os env))"
  by (simp_all add: process_handlers_def lift_handler_def socks_handlers_def)

abbreviation one_read :: "nat \<Rightarrow> sel \<Rightarrow> sel" where
  "one_read i s \<equiv> s\<lparr>sel_slave_r := {int i}, sel_slave_w := {}\<rparr>"

abbreviation one_write :: "nat \<Rightarrow> sel \<Rightarrow> sel" where
  "one_write i s \<equiv> s\<lparr>sel_slave_r := {}, sel_slave_w := {int i}\<rparr>"

text \<open>A client that is read, a client that is written to, and a listener, in a round of their own.\<close>

lemma round_read:
  assumes s: "wf_selector s" "sel_map s i = Some (Some CLIENT, OP_READ, d)" "sel_resolution_jobs s = []"
  shows "client_read os env \<lparr>sk_fd = int i, sk_data = d\<rparr> (one_read i s, socks_view pc) = Inl e \<Longrightarrow>
      selector_select (process_handlers os env) (Ready {int i} {}) s pc = Inl e"
    and "client_read os env \<lparr>sk_fd = int i, sk_data = d\<rparr> (one_read i s, socks_view pc) = Inr (s', w') \<Longrightarrow> wf_selector s' \<Longrightarrow>
      selector_select (process_handlers os env) (Ready {int i} {}) s pc = Inr (SELECTOR_SUCCESS, s', put_socks w' pc) \<and>
      sel_resolution_jobs s' = [] \<and> sel_fd_size s \<le> sel_fd_size s'"
proof -
  have one: "wf_selector (one_read i s)" "sel_map (one_read i s) i = Some (Some CLIENT, OP_READ, d)" "OP_READ AND OP_READ \<noteq> 0"
    using s by (simp_all add: OP_READ_def)
  note run = handle_one_read [where hs = "process_handlers os env", OF one client_callbacks(1)] and sel = select_one [OF s(1,2,3), of "{int i}" "{}" "one_read i s"]
  show "selector_select (process_handlers os env) (Ready {int i} {}) s pc = Inl e"
    if "client_read os env \<lparr>sk_fd = int i, sk_data = d\<rparr> (one_read i s, socks_view pc) = Inl e"
    by (rule sel(2)) (use that in \<open>simp_all add: run(1) lift_callback_def\<close>)
  show "selector_select (process_handlers os env) (Ready {int i} {}) s pc = Inr (SELECTOR_SUCCESS, s', put_socks w' pc) \<and>
      sel_resolution_jobs s' = [] \<and> sel_fd_size s \<le> sel_fd_size s'"
    if c: "client_read os env \<lparr>sk_fd = int i, sk_data = d\<rparr> (one_read i s, socks_view pc) = Inr (s', w')" "wf_selector s'"
  proof
    have fr: "sel_frame (one_read i s) s'" by (rule client_frame(1) [OF c(1)])
    then show "sel_resolution_jobs s' = [] \<and> sel_fd_size s \<le> sel_fd_size s'" using s(3) by (simp add: sel_frame_def)
    show "selector_select (process_handlers os env) (Ready {int i} {}) s pc = Inr (SELECTOR_SUCCESS, s', put_socks w' pc)"
      by (rule sel(1)) (use c fr in \<open>simp_all add: run(2) lift_callback_def\<close>)
  qed
qed

lemma round_write:
  assumes s: "wf_selector s" "sel_map s i = Some (Some CLIENT, OP_WRITE, d)" "sel_resolution_jobs s = []"
  shows "client_write os env \<lparr>sk_fd = int i, sk_data = d\<rparr> (one_write i s, socks_view pc) = Inl e \<Longrightarrow>
      selector_select (process_handlers os env) (Ready {} {int i}) s pc = Inl e"
    and "client_write os env \<lparr>sk_fd = int i, sk_data = d\<rparr> (one_write i s, socks_view pc) = Inr (s', w') \<Longrightarrow> wf_selector s' \<Longrightarrow>
      selector_select (process_handlers os env) (Ready {} {int i}) s pc = Inr (SELECTOR_SUCCESS, s', put_socks w' pc) \<and>
      sel_resolution_jobs s' = [] \<and> sel_fd_size s \<le> sel_fd_size s'"
proof -
  have one: "wf_selector (one_write i s)" "sel_map (one_write i s) i = Some (Some CLIENT, OP_WRITE, d)" "OP_WRITE AND OP_WRITE \<noteq> 0"
    using s by (simp_all add: OP_WRITE_def)
  note run = handle_one_write [where hs = "process_handlers os env", OF one client_callbacks(2)] and sel = select_one [OF s(1,2,3), of "{}" "{int i}" "one_write i s"]
  show "selector_select (process_handlers os env) (Ready {} {int i}) s pc = Inl e"
    if "client_write os env \<lparr>sk_fd = int i, sk_data = d\<rparr> (one_write i s, socks_view pc) = Inl e"
    by (rule sel(2)) (use that in \<open>simp_all add: run lift_callback_def\<close>)
  show "selector_select (process_handlers os env) (Ready {} {int i}) s pc = Inr (SELECTOR_SUCCESS, s', put_socks w' pc) \<and>
      sel_resolution_jobs s' = [] \<and> sel_fd_size s \<le> sel_fd_size s'"
    if c: "client_write os env \<lparr>sk_fd = int i, sk_data = d\<rparr> (one_write i s, socks_view pc) = Inr (s', w')" "wf_selector s'"
  proof
    have fr: "sel_frame (one_write i s) s'" by (rule client_frame(2) [OF c(1)])
    then show "sel_resolution_jobs s' = [] \<and> sel_fd_size s \<le> sel_fd_size s'" using s(3) by (simp add: sel_frame_def)
    show "selector_select (process_handlers os env) (Ready {} {int i}) s pc = Inr (SELECTOR_SUCCESS, s', put_socks w' pc)"
      by (rule sel(1)) (use c fr in \<open>simp_all add: run lift_callback_def\<close>)
  qed
qed

lemma round_accept:
  assumes s: "wf_selector s" "sel_map s i = Some (Some SOCKS_PASSIVE_IPV4, OP_READ, d)" "sel_resolution_jobs s = []"
    and c: "new_connection_ipv4 os env \<lparr>sk_fd = int i, sk_data = d\<rparr> (one_read i s, socks_view pc) = Inr (s', w')" "wf_selector s'"
  shows "selector_select (process_handlers os env) (Ready {int i} {}) s pc = Inr (SELECTOR_SUCCESS, s', put_socks w' pc) \<and>
      sel_resolution_jobs s' = [] \<and> sel_fd_size s \<le> sel_fd_size s'"
proof
  have one: "wf_selector (one_read i s)" "sel_map (one_read i s) i = Some (Some SOCKS_PASSIVE_IPV4, OP_READ, d)" "OP_READ AND OP_READ \<noteq> 0"
    using s by (simp_all add: OP_READ_def)
  have fr: "sel_frame (one_read i s) s'" by (rule new_connection_frame [OF c(1)])
  then show "sel_resolution_jobs s' = [] \<and> sel_fd_size s \<le> sel_fd_size s'" using s(3) by (simp add: sel_frame_def)
  show "selector_select (process_handlers os env) (Ready {int i} {}) s pc = Inr (SELECTOR_SUCCESS, s', put_socks w' pc)"
    by (rule select_one(1) [OF s(1,2,3), of "{int i}" "{}" "one_read i s"])
      (use c fr in \<open>simp_all add: handle_one_read(2) [where hs = "process_handlers os env", OF one client_callbacks(3)] lift_callback_def\<close>)
qed

text \<open>The same for the client of a session, which the round leaves registered.\<close>

lemma session_slaves [simp]: "session_at a i x p (s\<lparr>sel_slave_r := rs, sel_slave_w := ws\<rparr>) w = session_at a i x p s w"
  by (simp add: session_at_def)

lemma session_round_read:
  assumes "session_at a i OP_READ p s w" "sel_resolution_jobs s = []"
    and "client_read os env (key_of i a) (one_read i s, w) = Inr (s', w')" "session_at a i y p' s' w'"
  shows "selector_select (process_handlers os env) (Ready {int i} {}) s (put_socks w pc) = Inr (SELECTOR_SUCCESS, s', put_socks w' pc)"
    "sel_resolution_jobs s' = []" "sel_fd_size s \<le> sel_fd_size s'"
  using round_read(2) [of s i "Some (SessionP a)" os env "put_socks w pc" s' w'] assms by (simp_all add: session_at_def)

lemma session_round_write:
  assumes "sel_map s j = Some (Some CLIENT, OP_WRITE, Some (SessionP a))" "wf_selector s" "sel_resolution_jobs s = []"
    and "client_write os env (key_of j a) (one_write j s, w) = Inr (s', w')" "session_at a i y p' s' w'"
  shows "selector_select (process_handlers os env) (Ready {} {int j}) s (put_socks w pc) = Inr (SELECTOR_SUCCESS, s', put_socks w' pc)"
    "sel_resolution_jobs s' = []" "sel_fd_size s \<le> sel_fd_size s'"
  using round_write(2) [of s j "Some (SessionP a)" os env "put_socks w pc" s' w'] assms by (simp_all add: session_at_def)

text \<open>A round that accepts a client.\<close>

lemma round_new_session:
  assumes s: "wf_selector s" "sel_map s l = Some (Some SOCKS_PASSIVE_IPV4, OP_READ, d)" "sel_resolution_jobs s = []"
    and i: "os_accept os (e_os (pc_env pc)) (int l) = (int i, o1)" "i < sel_fd_size s" "i < ITEMS_MAX_SIZE" "sel_map s i = None"
    and m: "\<And>o0. os_malloc os o0 = (True, o0)"
  obtains s1 w1 where "selector_select (process_handlers os env) (Ready {int l} {}) s pc = Inr (SELECTOR_SUCCESS, s1, put_socks w1 pc)"
    "session_at (pc_sessions_next pc) i OP_READ (fresh_session i) s1 w1" "e_os (k_env w1) = o1" "sel_resolution_jobs s1 = []"
    "sel_fd_size s \<le> sel_fd_size s1" "sel_map s1 = (sel_map s)(i \<mapsto> (Some CLIENT, OP_READ, Some (SessionP (pc_sessions_next pc))))"
    "e_stats (k_env w1) = stadistics_increase_concurrent (e_stats (pc_env pc))"
proof -
  have a: "os_accept os (e_os (k_env (socks_view pc))) (sk_fd \<lparr>sk_fd = int l, sk_data = d\<rparr>) = (int i, o1)"
    using i(1) by (simp add: socks_view_def)
  obtain s1 w1 where 1: "new_connection_ipv4 os env \<lparr>sk_fd = int l, sk_data = d\<rparr> (one_read l s, socks_view pc) = Inr (s1, w1)"
    "e_os (k_env w1) = o1" "e_stats (k_env w1) = stadistics_increase_concurrent (e_stats (k_env (socks_view pc)))"
    "session_at (k_next (socks_view pc)) i OP_READ (fresh_session i) s1 w1"
    "sel_map s1 = (sel_map s)(i \<mapsto> (Some CLIENT, OP_READ, Some (SessionP (k_next (socks_view pc)))))"
    using accept_event [OF a _ m m m m, of "one_read l s" env] s(1) i(2-4) by auto
  have "wf_selector s1" using 1(4) by (simp add: session_at_def)
  with round_accept [OF s 1(1)] 1(2-5) that show thesis by (simp add: socks_view_def)
qed

section \<open>Rounds of a session that copies\<close>

text \<open>
  The session on the heap at \<open>a\<close> copies between the descriptors \<open>i\<close> of its client and \<open>j\<close> of its destination, both
  registered for it. Its streams are open while no side was shut down and a side is read only when there is room.
\<close>

definition copying :: "nat \<Rightarrow> nat \<Rightarrow> nat \<Rightarrow> session \<Rightarrow> sel \<Rightarrow> 'o kworld \<Rightarrow> bool" where
  "copying a i j p s w \<longleftrightarrow> k_sessions w a = Some p \<and> state_of p = Some COPY \<and> sm_max_state (ss_stm p) = DONE \<and>
     ss_client_fd p = int i \<and> ss_server_fd p = int j \<and> copy_inv (session_world p s w) \<and>
     (\<forall>k \<in> {i, j}. owner s k = Some (Some CLIENT, Some (SessionP a)))"

definition open_streams :: "session \<Rightarrow> sel \<Rightarrow> bool" where
  "open_streams p s \<longleftrightarrow> (\<forall>sd. copy_duplex sd p = OP_READ OR OP_WRITE \<and>
     (OP_READ AND it_interest (item_at s (nat (copy_fd sd p))) \<noteq> 0 \<longrightarrow> 0 < buf_room (copy_read_buff sd p)))"

lemma all_sides: "(\<forall>sd. P sd) \<longleftrightarrow> P ClientSide \<and> P ServerSide"
  by (metis side.exhaust)

text \<open>A kernel that never reports the end of a stream or an error on one.\<close>

definition lively :: "'o os \<Rightarrow> bool" where
  "lively os \<longleftrightarrow> (\<forall>st fd n. 0 < n \<longrightarrow> fst (os_recv os st fd n) \<notin> {None, Some []}) \<and> (\<forall>st fd xs. 0 \<le> fst (os_send os st fd xs))"

text \<open>One event of the session: it goes on, or it is done, which only happens when a stream ended.\<close>

lemma copy_event_ok:
  assumes os: "os_ok os" and c: "copying a i j p s w" "relayed base (session_world p s w)" "lively os \<Longrightarrow> open_streams p s"
    and ev: "dispatched ev (session_world p s w)"
  obtains (more) sw' where "copy_handle (tap os) env (Some (SessionP a)) ev (session_world p s w) = Inr (COPY, sw')" "same_entries s (sw_sel sw')"
      "copy_inv sw'" "\<And>sd. copy_fd sd (sw_self sw') = copy_fd sd p" "relayed base sw'" "lively os \<Longrightarrow> open_streams (sw_self sw') (sw_sel sw')"
  | (ended) sw' where "copy_handle (tap os) env (Some (SessionP a)) ev (session_world p s w) = Inr (DONE, sw')" "same_entries s (sw_sel sw')"
      "copy_inv sw'" "\<And>sd. copy_fd sd (sw_self sw') = copy_fd sd p" "\<not> lively os"
proof -
  let ?w = "session_world p s w"
  have inv: "copy_inv ?w" using c(1) by (simp add: copying_def)
  have alive: "\<not> ev_ended os ev ?w" if "lively os"
    using that c(3) ev by (auto simp: lively_def open_streams_def ev_ended_def dispatched_def not_less split: copy_event.splits)
  obtain st sw' where r: "copy_handle (tap os) env (Some (SessionP a)) ev ?w = Inr (st, sw')" "st \<in> {COPY, DONE}" "copy_inv sw'"
    "\<And>sd. copy_fd sd (sw_self sw') = copy_fd sd p" "relayed base sw'" "settled sw'" "same_entries s (sw_sel sw')"
    "\<not> ev_ended os ev ?w \<Longrightarrow> \<forall>sd. copy_duplex sd (sw_self sw') = copy_duplex sd p"
    "st = DONE \<Longrightarrow> \<exists>sd. copy_duplex sd (sw_self sw') = OP_NOOP"
    using copy_handle_ok [OF os inv, of ev env "Some (SessionP a)"] c(2) by (auto simp: copy_step_ok_def)
  have room: "0 < buf_room (copy_read_buff sd (sw_self sw'))"
    if "OP_READ AND it_interest (item_at (sw_sel sw') (nat (copy_fd sd (sw_self sw')))) \<noteq> 0" for sd
  proof -
    have "wf_buffer (copy_read_buff sd (sw_self sw'))" using r(3) by (simp add: copy_inv_def)
    moreover have "OP_READ AND wanted sd (sw_self sw') \<noteq> 0" using that r(6) by (simp add: settled_def)
    ultimately show ?thesis
      by (auto simp: wanted_def Let_def can_write_room OP_NOOP_def OP_READ_def OP_WRITE_def split: if_splits)
  qed
  have open_next: "open_streams (sw_self sw') (sw_sel sw')" if "lively os"
    using r(8) [OF alive [OF that]] c(3) [OF that] room by (simp add: open_streams_def)
  have "\<not> lively os" if "st = DONE"
    using r(9) [OF that] open_next by (auto simp: open_streams_def OP_NOOP_def OP_READ_def OP_WRITE_def)
  with r(1-5,7) open_next more ended show thesis by blast
qed

text \<open>
  What an event or a round may leave: the session still copies, its streams are those that were received, entries of the
  selector and the other sessions are as before.
\<close>

definition copy_ok :: "'o os \<Rightarrow> (side \<Rightarrow> u8 list) \<Rightarrow> nat \<Rightarrow> nat \<Rightarrow> nat \<Rightarrow> session \<Rightarrow> sel \<Rightarrow> 'o tapped kworld \<Rightarrow> bool" where
  "copy_ok os base a i j p s w \<longleftrightarrow> copying a i j p s w \<and> relayed base (session_world p s w) \<and> (lively os \<longrightarrow> open_streams p s)"

definition other_sessions :: "nat \<Rightarrow> 'o kworld \<Rightarrow> 'o kworld \<Rightarrow> bool" where
  "other_sessions a w w' \<longleftrightarrow> (\<forall>b. b \<noteq> a \<longrightarrow> k_sessions w' b = k_sessions w b)"

lemma copy_ok_stm:
  assumes "copy_inv (session_world p s w)" "copy_inv sw" "relayed base sw" "lively os \<Longrightarrow> open_streams (sw_self sw) (sw_sel sw)"
    "same_entries s (sw_sel sw)" "copying a i j p s w" "\<And>sd. copy_fd sd (sw_self sw) = copy_fd sd p"
  shows "copy_ok os base a i j ((sw_self sw)\<lparr>ss_stm := ss_stm p\<rparr>) (sw_sel sw)
    (w\<lparr>k_sessions := (k_sessions w)(a \<mapsto> (sw_self sw)\<lparr>ss_stm := ss_stm p\<rparr>), k_env := sw_env sw, k_log := sw_log sw\<rparr>)"
proof -
  have "ss_client_fd (sw_self sw) = int i" "ss_server_fd (sw_self sw) = int j"
    using assms(6) assms(7) [of ClientSide] assms(7) [of ServerSide] by (simp_all add: copying_def)
  with assms(1-6) show ?thesis
    by (simp add: copy_ok_def copying_def copy_inv_def open_streams_def relayed_def rcvd_def sent_def same_entries_def all_sides)
qed

lemma copy_client_event:
  assumes os: "os_ok os" and c: "copy_ok os base a i j p s w"
    and cb: "on_ready (stm_map (tap os) env ! COPY) = Some cb"
      "cb (key_of k a) (session_world p s w) = copy_handle (tap os) env (Some (SessionP a)) ev (session_world p s w)"
    and ev: "dispatched ev (session_world p s w)"
  shows "client_event (tap os) env (stm_event on_ready) (key_of k a) (s, w) = Inl UseAfterFree \<and> \<not> lively os \<or>
    (\<exists>s' w' p'. client_event (tap os) env (stm_event on_ready) (key_of k a) (s, w) = Inr (s', w') \<and> copy_ok os base a i j p' s' w' \<and>
      same_entries s s' \<and> other_sessions a w w')"
proof -
  note d = c [unfolded copy_ok_def copying_def]
  have cur: "(ss_stm p)\<lparr>sm_current := Some COPY\<rparr> = ss_stm p" using d by (cases "ss_stm p") simp
  consider (more) sw where "copy_handle (tap os) env (Some (SessionP a)) ev (session_world p s w) = Inr (COPY, sw)" "same_entries s (sw_sel sw)"
      "copy_inv sw" "\<And>sd. copy_fd sd (sw_self sw) = copy_fd sd p" "relayed base sw" "lively os \<Longrightarrow> open_streams (sw_self sw) (sw_sel sw)"
    | (ended) sw where "copy_handle (tap os) env (Some (SessionP a)) ev (session_world p s w) = Inr (DONE, sw)" "same_entries s (sw_sel sw)"
      "copy_inv sw" "\<And>sd. copy_fd sd (sw_self sw) = copy_fd sd p" "\<not> lively os"
    using copy_event_ok [OF os _ _ _ ev, where i = i and j = j and base = base and env = env] c unfolding copy_ok_def by metis
  then show ?thesis
  proof cases
    case more
    have "client_event (tap os) env (stm_event on_ready) (key_of k a) (s, w) = Inr (sw_sel sw,
        w\<lparr>k_sessions := (k_sessions w)(a \<mapsto> (sw_self sw)\<lparr>ss_stm := (ss_stm p)\<lparr>sm_current := Some COPY\<rparr>\<rparr>), k_env := sw_env sw, k_log := sw_log sw\<rparr>)"
      by (rule session_step [where c = COPY and cb = cb and ?w1.0 = sw]) (use d cb more(1) in \<open>simp_all add: socks_states\<close>)
    moreover have "copying a i j p s w" "copy_inv (session_world p s w)" using d by (simp_all add: copying_def)
    ultimately show ?thesis
      using copy_ok_stm [OF _ more(3,5,6,2) _ more(4), of w os a i j] more(2) by (auto simp: cur other_sessions_def)
  next
    case ended
    have st: "stm_event on_ready (stm_map (tap os) env) (ss_stm p) (key_of k a) (session_world p s w) =
        Inr (DONE, (ss_stm p)\<lparr>sm_current := Some DONE\<rparr>, sw)"
      by (rule socks_event [where c = COPY and cb = cb and ?w1.0 = sw])
        (use d cb ended(1) in \<open>simp_all add: stm_map_entries state_defs\<close>, simp_all add: socks_states)
    have "owner (sw_sel sw) i = Some (Some CLIENT, Some (SessionP a))" using d ended(2) by (simp add: same_entries_def)
    then obtain x where "sel_map (sw_sel sw) i = Some (Some CLIENT, x, Some (SessionP a))" by (auto simp: owner_def)
    then have "client_event (tap os) env (stm_event on_ready) (key_of k a) (s, w) = Inl UseAfterFree"
      by (intro client_event_ends [where h = "stm_event on_ready", OF _ st, where j = i and x = x]) (use d ended(3) ended(4) [of ClientSide] in \<open>simp_all add: copy_inv_def\<close>)
    with ended(5) show ?thesis by simp
  qed
qed

text \<open>The two callbacks, on one of the descriptors of the session.\<close>

lemma copy_client_read:
  assumes "os_ok os" "copy_ok os base a i j p s w" "k \<in> {i, j}" "OP_READ AND it_interest (item_at s k) \<noteq> 0"
  shows "client_read (tap os) env (key_of k a) (s, w) = Inl UseAfterFree \<and> \<not> lively os \<or>
    (\<exists>s' w' p'. client_read (tap os) env (key_of k a) (s, w) = Inr (s', w') \<and> copy_ok os base a i j p' s' w' \<and> same_entries s s' \<and> other_sessions a w w')"
proof -
  obtain sd where sd: "copy_fd sd p = int k" using assms(2,3) by (auto simp: copy_ok_def copying_def intro: that [of ClientSide] that [of ServerSide])
  show ?thesis
    unfolding client_events
    by (rule copy_client_event [OF assms(1,2), where ev = "Readable sd" and cb = "copy_read (tap os) env"])
      (use sd assms(4) in \<open>simp_all add: stm_map_entries state_defs copy_handle_def dispatched_def\<close>)
qed

lemma copy_client_write:
  assumes "os_ok os" "copy_ok os base a i j p s w" "k \<in> {i, j}" "OP_WRITE AND it_interest (item_at s k) \<noteq> 0"
  shows "client_write (tap os) env (key_of k a) (s, w) = Inl UseAfterFree \<and> \<not> lively os \<or>
    (\<exists>s' w' p'. client_write (tap os) env (key_of k a) (s, w) = Inr (s', w') \<and> copy_ok os base a i j p' s' w' \<and> same_entries s s' \<and> other_sessions a w w')"
proof -
  obtain sd where sd: "copy_fd sd p = int k" using assms(2,3) by (auto simp: copy_ok_def copying_def intro: that [of ClientSide] that [of ServerSide])
  show ?thesis
    unfolding client_events
    by (rule copy_client_event [OF assms(1,2), where ev = "Writable sd" and cb = "copy_write (tap os) env"])
      (use sd assms(4) in \<open>simp_all add: stm_map_entries state_defs copy_handle_def dispatched_def\<close>)
qed

text \<open>How a part of a round may end. The parts compose.\<close>

definition copy_outcome ::
  "'o os \<Rightarrow> (side \<Rightarrow> u8 list) \<Rightarrow> nat \<Rightarrow> nat \<Rightarrow> nat \<Rightarrow> 'o tapped process \<Rightarrow> sel \<Rightarrow> 'o tapped kworld
     \<Rightarrow> (sel \<times> 'o tapped process) res \<Rightarrow> bool" where
  "copy_outcome os base a i j pc s w r \<longleftrightarrow> (r = Inl UseAfterFree \<and> \<not> lively os) \<or>
     (\<exists>s' w' p'. r = Inr (s', put_socks w' pc) \<and> copy_ok os base a i j p' s' w' \<and> same_entries s s' \<and> sel_frame s s' \<and> other_sessions a w w')"

lemma copy_outcome_same: "copy_ok os base a i j p s w \<Longrightarrow> copy_outcome os base a i j pc s w (Inr (s, put_socks w pc))"
  by (auto simp: copy_outcome_def same_entries_def other_sessions_def)

lemma copy_outcome_bind:
  assumes "copy_outcome os base a i j pc s w m"
    and "\<And>s' w' p'. copy_ok os base a i j p' s' w' \<Longrightarrow> same_entries s s' \<Longrightarrow> sel_frame s s' \<Longrightarrow>
      copy_outcome os base a i j pc s' w' (k (s', put_socks w' pc))"
  shows "copy_outcome os base a i j pc s w (bindr m k)"
proof -
  consider "m = Inl UseAfterFree" "\<not> lively os" | s1 w1 p1 where "m = Inr (s1, put_socks w1 pc)" "copy_ok os base a i j p1 s1 w1"
      "same_entries s s1" "sel_frame s s1" "other_sessions a w w1"
    using assms(1) by (auto simp: copy_outcome_def)
  then show ?thesis
  proof cases
    case 1
    then show ?thesis by (simp add: copy_outcome_def)
  next
    case 2
    then show ?thesis
      using assms(2) [OF 2(2-4)] by (auto simp: copy_outcome_def other_sessions_def intro: same_entries_trans frame_trans)
  qed
qed

lemma copy_outcome_lift:
  assumes "r = Inl UseAfterFree \<and> \<not> lively os \<or>
      (\<exists>s' w' p'. r = Inr (s', w') \<and> copy_ok os base a i j p' s' w' \<and> same_entries s s' \<and> other_sessions a w w')"
    and "\<And>s' w'. r = Inr (s', w') \<Longrightarrow> sel_frame s s'"
  shows "copy_outcome os base a i j pc s w (bindr r (\<lambda>(s1, w1). Inr (s1, put_socks w1 pc)))"
proof -
  consider "r = Inl UseAfterFree" "\<not> lively os" | s1 w1 p1 where "r = Inr (s1, w1)" "copy_ok os base a i j p1 s1 w1"
      "same_entries s s1" "sel_frame s s1" "other_sessions a w w1"
    using assms by blast
  then show ?thesis by cases (auto simp: copy_outcome_def)
qed

lemma copy_callbacks:
  assumes "os_ok os" "copy_ok os base a i j p s w" "k \<in> {i, j}"
  shows "OP_READ AND it_interest (item_at s k) \<noteq> 0 \<Longrightarrow>
      copy_outcome os base a i j pc s w (lift_callback socks_view put_socks (client_read (tap os) env) (key_of k a) (s, put_socks w pc))"
    and "OP_WRITE AND it_interest (item_at s k) \<noteq> 0 \<Longrightarrow>
      copy_outcome os base a i j pc s w (lift_callback socks_view put_socks (client_write (tap os) env) (key_of k a) (s, put_socks w pc))"
  unfolding lift_callback_def Let_def prod.case view_put
  by (rule copy_outcome_lift [OF copy_client_read [OF assms] client_frame(1)]; assumption)
    (rule copy_outcome_lift [OF copy_client_write [OF assms] client_frame(2)]; assumption)

text \<open>A descriptor of the table, in a round in which only those of the session are ready.\<close>

lemma handle_one_copying:
  assumes os: "os_ok os" and c: "copy_ok os base a i j p s w" and k: "k < sel_fd_size s"
    and ready: "sel_slave_r s \<union> sel_slave_w s \<subseteq> {int i, int j}"
  shows "copy_outcome os base a i j pc s w (handle_one (process_handlers (tap os) env) k (s, put_socks w pc))"
proof (cases "k \<in> {i, j}")
  case False
  then have "handle_one (process_handlers (tap os) env) k (s, put_socks w pc) = Inr (s, put_socks w pc)"
    using c k ready by (intro handle_one_idle) (auto simp: copy_ok_def copying_def copy_inv_def)
  then show ?thesis using copy_outcome_same [OF c] by simp
next
  case True
  have item: "get_item s k = Inr (item_at s k)" "ITEM_USED (item_at s k)" "it_fd (item_at s k) = int k" "it_handler (item_at s k) = Some CLIENT"
    "it_data (item_at s k) = Some (SessionP a)" if "copy_ok os base a i j p s w" for p s w
  proof -
    have "wf_selector s" "owner s k = Some (Some CLIENT, Some (SessionP a))"
      using that True by (auto simp: copy_ok_def copying_def copy_inv_def)
    then obtain x where "wf_selector s" "sel_map s k = Some (Some CLIENT, x, Some (SessionP a))" by (auto simp: owner_def)
    then show "get_item s k = Inr (item_at s k)" "ITEM_USED (item_at s k)" "it_fd (item_at s k) = int k"
      "it_handler (item_at s k) = Some CLIENT" "it_data (item_at s k) = Some (SessionP a)"
      by (rule item_of_map)+
  qed
  let ?rd = "if int k \<in> sel_slave_r s \<and> OP_READ AND it_interest (item_at s k) \<noteq> 0
    then lift_callback socks_view put_socks (client_read (tap os) env) (key_of k a) (s, put_socks w pc) else Inr (s, put_socks w pc)"
  let ?wr = "\<lambda>(s1, pc1). if int k \<in> sel_slave_w s1 then bindr (same_table s s1) (\<lambda>_. bindr (get_item s1 k) (\<lambda>item1.
      if OP_WRITE AND it_interest item1 \<noteq> 0 then bindr (the_ptr (it_handler item1)) (\<lambda>h.
        case handle_write (process_handlers (tap os) env h) of None \<Rightarrow> Inl AssertFail | Some cb \<Rightarrow> cb (key_of k a) (s1, pc1))
      else Inr (s1, pc1))) else Inr (s1, pc1)"
  have eq: "handle_one (process_handlers (tap os) env) k (s, put_socks w pc) = bindr ?rd ?wr"
    using item [OF c] by (simp add: handle_one_def the_ptr_def client_callbacks Let_def)
  have "copy_outcome os base a i j pc s w ?rd"
    using copy_callbacks(1) [OF os c True] copy_outcome_same [OF c] by simp
  then show ?thesis
    unfolding eq
  proof (rule copy_outcome_bind)
    fix s' w' p' assume s': "copy_ok os base a i j p' s' w'" "same_entries s s'" "sel_frame s s'"
    then show "copy_outcome os base a i j pc s' w' (?wr (s', put_socks w' pc))"
      using copy_callbacks(2) [OF os s'(1) True] copy_outcome_same [OF s'(1)] item [OF s'(1)]
      by (simp add: same_table_def same_entries_def the_ptr_def client_callbacks)
  qed
qed

lemma fold_bind: "fold (\<lambda>i r. bindr r (f i)) ks r = bindr r (\<lambda>x. fold (\<lambda>i r. bindr r (f i)) ks (Inr x))"
  by (cases r) (simp_all add: fold_fault)

lemma fold_copying:
  assumes "os_ok os" "copy_ok os base a i j p s w" "\<forall>k \<in> set ks. k < sel_fd_size s" "sel_slave_r s \<union> sel_slave_w s \<subseteq> {int i, int j}"
  shows "copy_outcome os base a i j pc s w (fold (\<lambda>k r. bindr r (handle_one (process_handlers (tap os) env) k)) ks (Inr (s, put_socks w pc)))"
  using assms(2-)
proof (induction ks arbitrary: p s w)
  case Nil
  then show ?case by (simp add: copy_outcome_same)
next
  case (Cons k ks)
  have "copy_outcome os base a i j pc s w (handle_one (process_handlers (tap os) env) k (s, put_socks w pc))"
    using handle_one_copying [OF assms(1) Cons.prems(1) _ Cons.prems(3), of k pc env] Cons.prems(2) by simp
  then show ?case
    unfolding fold_simps bindr_Inr
    by (subst fold_bind, rule copy_outcome_bind)
      (use Cons.prems in \<open>auto simp: same_entries_def sel_frame_def intro!: Cons.IH\<close>)
qed

lemma slaves_only [simp]:
  "used_at (s\<lparr>sel_slave_r := rs, sel_slave_w := ws\<rparr>) = used_at s" "item_at (s\<lparr>sel_slave_r := rs, sel_slave_w := ws\<rparr>) = item_at s"
  by (simp_all add: used_at_def item_at_def fun_eq_iff)

lemma copy_ok_slaves [simp]: "copy_ok os base a i j p (s\<lparr>sel_slave_r := rs, sel_slave_w := ws\<rparr>) w = copy_ok os base a i j p s w"
  by (simp add: copy_ok_def copying_def copy_inv_def registered_def owner_def open_streams_def relayed_def rcvd_def sent_def)

text \<open>A round, and rounds in sequence.\<close>

lemma round_copying:
  assumes os: "os_ok os" and c: "copy_ok os base a i j p s w" and s: "sel_resolution_jobs s = []" "rs \<union> ws \<subseteq> {int i, int j}"
  shows "selector_select (process_handlers (tap os) env) (Ready rs ws) s (put_socks w pc) = Inl UseAfterFree \<and> \<not> lively os \<or>
    (\<exists>s' w' p'. selector_select (process_handlers (tap os) env) (Ready rs ws) s (put_socks w pc) = Inr (SELECTOR_SUCCESS, s', put_socks w' pc) \<and>
      copy_ok os base a i j p' s' w' \<and> owner s' = owner s \<and> sel_resolution_jobs s' = [] \<and> other_sessions a w w')"
proof -
  let ?s0 = "s\<lparr>sel_slave_r := rs, sel_slave_w := ws\<rparr>" and ?hs = "process_handlers (tap os) env"
  have wf: "wf_selector s" using c by (simp add: copy_ok_def copying_def copy_inv_def)
  have run: "selector_select ?hs (Ready rs ws) s (put_socks w pc) = bindr (handle_iteration ?hs ?s0 (put_socks w pc))
      (\<lambda>(s2, w2). bindr (handle_block_notifications ?hs s2 w2) (\<lambda>(s3, w3). Inr (SELECTOR_SUCCESS, s3, w3)))"
    by (simp add: selector_select_def Let_def)
  have "copy_outcome os base a i j pc ?s0 w (handle_iteration ?hs ?s0 (put_socks w pc))"
    unfolding handle_iteration_def
    by (rule fold_copying [OF os]) (use c s(2) wf in \<open>auto simp: wf_selector_def\<close>)
  then consider "handle_iteration ?hs ?s0 (put_socks w pc) = Inl UseAfterFree" "\<not> lively os"
    | s1 w1 p1 where "handle_iteration ?hs ?s0 (put_socks w pc) = Inr (s1, put_socks w1 pc)" "copy_ok os base a i j p1 s1 w1"
      "owner s1 = owner s" "sel_resolution_jobs s1 = []" "other_sessions a w w1"
    using s(1) unfolding copy_outcome_def same_entries_def sel_frame_def by (auto simp: owner_def fun_eq_iff)
  then show ?thesis
  proof cases
    case 2
    have "handle_block_notifications ?hs s1 x = Inr (s1, x)" for x
      using 2(4) by (cases s1) (simp add: handle_block_notifications_def)
    with 2 show ?thesis unfolding run by auto
  qed (simp add: run)
qed

lemma serve_copying:
  assumes "os_ok os" "copy_ok os base a i j p s w" "sel_resolution_jobs s = []" "\<forall>(rs, ws) \<in> set evs. rs \<union> ws \<subseteq> {int i, int j}"
  shows "serve (process_handlers (tap os) env) (map (\<lambda>(rs, ws). Ready rs ws) evs) s (put_socks w pc) = Inl UseAfterFree \<and> \<not> lively os \<or>
    (\<exists>s' w' p'. serve (process_handlers (tap os) env) (map (\<lambda>(rs, ws). Ready rs ws) evs) s (put_socks w pc) = Inr (s', put_socks w' pc) \<and>
      copy_ok os base a i j p' s' w' \<and> owner s' = owner s \<and> sel_resolution_jobs s' = [] \<and> other_sessions a w w')"
  using assms(2-)
proof (induction evs arbitrary: p s w)
  case Nil
  then show ?case by (auto simp: other_sessions_def)
next
  case (Cons ev evs)
  obtain rs ws where ev: "ev = (rs, ws)" by fastforce
  with Cons.prems(3) have "rs \<union> ws \<subseteq> {int i, int j}" by simp
  from round_copying [OF assms(1) Cons.prems(1,2) this, of env pc]
  consider "selector_select (process_handlers (tap os) env) (Ready rs ws) s (put_socks w pc) = Inl UseAfterFree" "\<not> lively os"
    | s1 w1 p1 where "selector_select (process_handlers (tap os) env) (Ready rs ws) s (put_socks w pc) = Inr (SELECTOR_SUCCESS, s1, put_socks w1 pc)"
      "copy_ok os base a i j p1 s1 w1" "owner s1 = owner s" "sel_resolution_jobs s1 = []" "other_sessions a w w1" by blast
  then show ?case
  proof cases
    case 2
    from Cons.IH [OF 2(2,4)] Cons.prems(3) 2(1,3,5) show ?thesis by (auto simp: ev other_sessions_def)
  qed (simp add: ev)
qed

section \<open>From the greeting to copying\<close>

lemma ip_lengths: "is_ip d \<Longrightarrow> dest_ok d \<Longrightarrow> length (dest_bytes d) \<le> 16"
  "is_ip d \<Longrightarrow> dest_ok d \<Longrightarrow> length (request_message cmd rsv d hi lo) \<le> 22"
  by (cases d; simp add: request_message_def)+

text \<open>Two rounds: the greeting is read, the answer is sent.\<close>

lemma negotiation_rounds:
  assumes at: "session_at a i OP_READ (fresh_session i) s w" "sel_resolution_jobs s = []"
    and greeting: "os_recv os (e_os (k_env w)) (int i) 100 = (Some (hello_message ms), o1)" "length ms \<le> 98" "METHOD_USERNAME_PASSWORD \<notin> set ms"
    and answer: "os_send os o1 (int i) [0x05, answer ms] = (2, o2)"
  obtains s2 w2 p2 where "serve (process_handlers os env) [Ready {int i} {}, Ready {} {int i}] s (put_socks w pc) = Inr (s2, put_socks w2 pc)"
    "session_at a i OP_READ p2 s2 w2" "awaits_request i p2" "buf_room (ss_input p2) = 100" "buf_room (ss_output p2) = 100"
    "ss_sniff p2 = ss_sniff session_05" "e_os (k_env w2) = o2" "sel_map s2 = sel_map s" "sel_resolution_jobs s2 = []" "sel_fd_size s \<le> sel_fd_size s2"
proof -
  obtain p1 s1 w1 where 1: "client_read os env (key_of i a) (one_read i s, w) = Inr (s1, w1)" "session_at a i OP_WRITE p1 s1 w1"
    "state_of p1 = Some HELLO_WRITE" "hello_method p1 = answer ms" "wf_buffer (ss_output p1)" "buf_content (ss_output p1) = [0x05, answer ms]"
    "e_os (k_env w1) = o1" "ss_server_fd p1 = - 1" "wf_buffer (ss_input p1)" "buf_content (ss_input p1) = []"
    "length (ss_server_address p1) = 128" "buf_room (ss_input p1) = 100" "b_limit (ss_output p1) = 100" "ss_sniff p1 = ss_sniff session_05"
    "sel_map s1 = (sel_map s)(i \<mapsto> (Some CLIENT, OP_WRITE, Some (SessionP a)))"
    by (rule client_read_greeting [of a i "one_read i s" w os ms o1 env]) (use at greeting in simp_all)
  note r1 = session_round_read [OF at 1(1,2)]
  have "answer ms \<noteq> METHOD_USERNAME_PASSWORD" using greeting(3) by (simp add: answer_def method_defs)
  then obtain s2 w2 p2 where 2: "client_write os env (key_of i a) (one_write i s1, w1) = Inr (s2, w2)" "e_os (k_env w2) = o2"
    "session_at a i OP_READ p2 s2 w2" "awaits_request i p2" "buf_room (ss_input p2) = 100" "buf_room (ss_output p2) = 100"
    "ss_sniff p2 = ss_sniff session_05" "sel_map s2 = (sel_map s1)(i \<mapsto> (Some CLIENT, OP_READ, Some (SessionP a)))"
    using client_write_answer [of a i OP_WRITE p1 "one_write i s1" w1 os o2 env] 1 answer by auto
  have at1: "sel_map s1 i = Some (Some CLIENT, OP_WRITE, Some (SessionP a))" "wf_selector s1" using 1(2) by (simp_all add: session_at_def)
  note r2 = session_round_write [OF at1 r1(2) 2(1,3)]
  have "sel_map s2 = sel_map s" using at(1) 1(15) 2(8) by (auto simp: session_at_def)
  then show thesis by (intro that [of s2 w2 p2]) (use r1 r2 2 in simp_all)
qed

text \<open>Three rounds: the request is read, the outcome of the connection is asked for, the reply is sent.\<close>

lemma connection_rounds:
  assumes at: "session_at a i OP_READ p s w" "awaits_request i p" "sel_resolution_jobs s = []"
    and p: "buf_room (ss_input p) = 100" "buf_room (ss_output p) = 100" "inert (ss_sniff p)"
    and request: "os_recv os (e_os (k_env w)) (int i) 100 = (Some (request_message socks_req_cmd_connect rsv dst hi lo), o1)" "dest_ok dst" "is_ip dst"
    and destination: "os_socket os o1 (dest_family dst) = (int j, o2)" "j < sel_fd_size s" "j < ITEMS_MAX_SIZE" "sel_map s j = None"
      "selector_fd_set_nio (os_getfd os o2) (os_setfl os o2) (int j) \<noteq> - 1" "os_connect os o2 (int j) (sockaddr dst hi lo) = (Some EINPROGRESS, o3)"
      "\<And>o0. os_malloc os o0 = (True, o0)"
    and outcome: "os_so_error os o3 (int j) = (Some 0, o4)"
    and reply: "reply = [0x05, status_succeeded, 0, dest_atyp dst] @ dest_bytes dst @ [hi, lo]" "os_send os o4 (int i) reply = (int (length reply), o5)"
  obtains s3 w3 p3 where "serve (process_handlers os env) [Ready {int i} {}, Ready {} {int j}, Ready {} {int i}] s (put_socks w pc) = Inr (s3, put_socks w3 pc)"
    "copying a i j p3 s3 w3" "open_streams p3 s3" "buf_content (ss_input p3) = []" "buf_content (ss_output p3) = []" "e_os (k_env w3) = o5"
    "sel_map s3 = (sel_map s)(i \<mapsto> (Some CLIENT, OP_READ, Some (SessionP a)), j \<mapsto> (Some CLIENT, OP_READ, Some (SessionP a)))"
    "sel_resolution_jobs s3 = []"
proof -
  let ?c = "\<lambda>x. (Some CLIENT, x, Some (SessionP a))"
  have ij: "i \<noteq> j" using at(1) destination(4) by (auto simp: session_at_def)
  obtain s1 w1 p1 where 1: "client_read os env (key_of i a) (one_read i s, w) = Inr (s1, w1)" "session_at a i OP_NOOP p1 s1 w1"
    "connecting_to dst hi lo j p1" "ss_output p1 = ss_output p" "e_os (k_env w1) = o3" "wf_buffer (ss_input p1)" "buf_content (ss_input p1) = []"
    "rewound (ss_input p1)" "b_limit (ss_input p1) = b_limit (ss_input p)" "ss_sniff p1 = ss_sniff p"
    "sel_map s1 = (sel_map s)(i \<mapsto> ?c OP_NOOP, j \<mapsto> ?c OP_WRITE)"
    using client_read_connect [of a i OP_READ p "one_read i s" w os rsv dst hi lo o1 j o2 o3 env] at(1,2) p request destination
      ip_lengths(2) [OF request(3,2), of socks_req_cmd_connect rsv hi lo] by auto
  note r1 = session_round_read [OF at(1,3) 1(1,2)]
  have at1: "sel_map s1 j = Some (?c OP_WRITE)" "wf_selector s1" using 1(2,11) by (simp_all add: session_at_def)
  obtain s2 w2 p2 where 2: "client_write os env (key_of j a) (one_write j s1, w1) = Inr (s2, w2)" "e_os (k_env w2) = o4"
    "session_at a i OP_WRITE p2 s2 w2" "state_of p2 = Some REQUEST_WRITE" "wf_buffer (ss_output p2)" "buf_content (ss_output p2) = reply"
    "b_limit (ss_output p2) = b_limit (ss_output p)" "ss_input p2 = ss_input p1" "ss_server_fd p2 = int j" "ss_sniff p2 = ss_sniff p"
    "sel_map s2 = (sel_map s1)(i \<mapsto> ?c OP_WRITE, j \<mapsto> ?c OP_READ)"
    using client_write_connected [of a i OP_NOOP p1 "one_write j s1" w1 dst hi lo j OP_WRITE os 0 o4 reply env] 1 at1(1) ij outcome
      p(2) reply(1) ip_lengths(1) [OF request(3,2)] by auto
  note r2 = session_round_write [OF at1 r1(2) 2(1,3)]
  have at2: "sel_map s2 i = Some (?c OP_WRITE)" "wf_selector s2" using 2(3) by (simp_all add: session_at_def)
  obtain s3 w3 p3 where 3: "client_write os env (key_of i a) (one_write i s2, w2) = Inr (s3, w3)" "e_os (k_env w3) = o5"
    "session_at a i OP_READ p3 s3 w3" "state_of p3 = Some COPY" "ss_input p3 = ss_input p2" "wf_buffer (ss_output p3)"
    "buf_content (ss_output p3) = []" "buf_room (ss_output p3) = b_limit (ss_output p2)" "ss_server_fd p3 = ss_server_fd p2"
    "ss_client_duplex p3 = OP_READ OR OP_WRITE" "ss_server_duplex p3 = OP_READ OR OP_WRITE" "ss_sniff p3 = ss_sniff p2"
    "sel_map s3 = (sel_map s2)(i \<mapsto> ?c OP_READ)"
    using client_write_reply [of a i OP_WRITE p2 "one_write i s2" w2 os o5 env] 2 reply(2) by auto
  note r3 = session_round_write [OF at2 r2(2) 3(1,3)]
  have m: "sel_map s3 = (sel_map s)(i \<mapsto> ?c OP_READ, j \<mapsto> ?c OP_READ)" using 1(11) 2(11) 3(13) ij by (auto simp: fun_upd_twist)
  have reg: "registered s3 (int i)" "registered s3 (int j)" using m by (auto simp: registered_def used_at_map)
  have "copy_inv (session_world p3 s3 w3)"
    unfolding copy_inv_def using 1(6) 2(8-10) 3(3,5,6,9,12) reg ij p(3) by (auto simp: session_at_def all_sides)
  then have "copying a i j p3 s3 w3"
    using 2(9) 3(3,4,9) m ij by (auto simp: copying_def session_at_def owner_def)
  moreover have "buf_room (ss_input p3) = b_limit (ss_input p)" "b_limit (ss_input p) > 0" "b_limit (ss_output p) > 0"
    using rewound_room [OF 1(6,8,7)] 1(9) 2(8) 3(5) p(1,2) by (simp_all add: buf_room_def)
  then have "open_streams p3 s3" using 2(7) 3(8,10,11) by (simp add: open_streams_def all_sides)
  ultimately show thesis using that r1 r2 r3 1(7) 2(8) 3(2,5,7) m by simp
qed

text \<open>The bytes received from a descriptor and those sent to it, as the system \<^const>\<open>tap\<close> recorded them.\<close>

definition received :: "'o tapped process \<Rightarrow> nat \<Rightarrow> u8 list" where
  "received pc i = fst (snd (e_os (pc_env pc))) (int i)"

definition delivered :: "'o tapped process \<Rightarrow> nat \<Rightarrow> u8 list" where
  "delivered pc i = snd (snd (e_os (pc_env pc))) (int i)"

lemma put_view: "put_socks (socks_view pc) pc = pc"
  by (simp add: put_socks_def socks_view_def)

section \<open>An example process\<close>

lemma listening_selector:
  "\<exists>s :: sel. wf_selector s \<and> sel_fd_size s = ITEMS_MAX_SIZE + 1 \<and> sel_resolution_jobs s = [] \<and>
     sel_map s = [4 \<mapsto> (Some SOCKS_PASSIVE_IPV4, OP_READ, None)]"
proof -
  obtain s0 :: sel where s0: "wf_selector s0" "sel_map s0 = Map.empty" "sel_fd_size s0 = ITEMS_MAX_SIZE + 1" "sel_resolution_jobs s0 = []"
    using new_full by blast
  then show ?thesis
    using register_core [OF s0(1), of 4 "Some SOCKS_PASSIVE_IPV4" True OP_READ None] by (auto simp: used_at_map ITEMS_MAX_SIZE_def)
qed

lemma copying_selector:
  "\<exists>s :: sel. wf_selector s \<and> sel_resolution_jobs s = [] \<and>
     sel_map s = [7 \<mapsto> (Some CLIENT, OP_READ, Some (SessionP 0)), 8 \<mapsto> (Some CLIENT, OP_READ, Some (SessionP 0))]"
proof -
  obtain s0 :: sel where s0: "wf_selector s0" "sel_map s0 = Map.empty" "sel_fd_size s0 = ITEMS_MAX_SIZE + 1" "sel_resolution_jobs s0 = []"
    using new_full by blast
  then obtain s1 where s1: "wf_selector s1" "sel_map s1 = [7 \<mapsto> (Some CLIENT, OP_READ, Some (SessionP 0))]"
    "sel_fd_size s1 = ITEMS_MAX_SIZE + 1" "sel_resolution_jobs s1 = []"
    using register_core [OF s0(1), of 7 "Some CLIENT" True OP_READ "Some (SessionP 0)"] by (auto simp: used_at_map ITEMS_MAX_SIZE_def)
  then show ?thesis
    using register_core [OF s1(1), of 8 "Some CLIENT" True OP_READ "Some (SessionP 0)"] by (auto simp: used_at_map ITEMS_MAX_SIZE_def)
qed

text \<open>The process after its start, with the scripts of the system; a process with one session, which copies.\<close>

definition example_process :: "script \<Rightarrow> script process" where
  "example_process st = process_start \<lparr>e_users = default_users, e_stats = stadistics_init, e_os = st\<rparr>"

definition copying_session :: session where
  "copying_session = (let b = buffer_init (ss_input session_05) INPUT_BUFFER_SIZE (replicate INPUT_BUFFER_SIZE 0) in
     session_05\<lparr>ss_input := b, ss_output := b, ss_client_fd := 7, ss_server_fd := 8,
       ss_stm := \<lparr>sm_initial = HELLO_READ, sm_max_state = DONE, sm_current = Some COPY\<rparr>,
       ss_client_duplex := OP_READ OR OP_WRITE, ss_server_duplex := OP_READ OR OP_WRITE\<rparr>)"

definition copying_process :: "script tapped process" where
  "copying_process = (process_start \<lparr>e_users = default_users, e_stats = stadistics_init, e_os = (([], [], []), (\<lambda>_. []), (\<lambda>_. []))\<rparr>)
     \<lparr>pc_sessions := [0 \<mapsto> copying_session], pc_sessions_next := 1\<rparr>"

text \<open>A system that always has a byte to receive.\<close>

definition chatty_os :: "script os" where
  "chatty_os = script_os\<lparr>os_recv := \<lambda>st fd n. (Some (take n [65]), st)\<rparr>"

lemma chatty_os_ok: "os_ok chatty_os" "lively chatty_os"
  by (auto simp: chatty_os_def os_ok_def lively_def script_os_def split: prod.splits)

lemma copying_example:
  assumes "wf_selector s"
    "sel_map s = [7 \<mapsto> (Some CLIENT, OP_READ, Some (SessionP 0)), 8 \<mapsto> (Some CLIENT, OP_READ, Some (SessionP 0))]"
  shows "copying 0 7 8 copying_session s (socks_view copying_process)" "open_streams copying_session s"
proof -
  have "registered s 7" "registered s 8"
    using assms(2) unfolding registered_def used_at_map by (metis fun_upd_apply of_nat_numeral option.distinct(1))+
  moreover have "inert (ss_sniff copying_session)" using inert_session_05 by (simp add: copying_session_def Let_def)
  ultimately show "copying 0 7 8 copying_session s (socks_view copying_process)"
    using assms
    by (simp add: copying_def copy_inv_def all_sides socks_view_def copying_process_def owner_def copying_session_def Let_def)
  show "open_streams copying_session s"
    by (simp add: open_streams_def all_sides copying_session_def Let_def INPUT_BUFFER_SIZE_def)
qed

section \<open>Properties\<close>

text \<open>
  C1: a SOCKS session from its connection to copying, as six rounds of the main loop. The listener is readable: the
  client is accepted. Its greeting without user name and password is read and answered, its request is read and
  \<^verbatim>\<open>connect\<close> is called with the address of the request, the outcome of the connection is asked for, and
  the reply is sent. After these rounds the session copies with empty buffers, both of its descriptors are read, every
  other descriptor is registered as it was, and no management session has changed.
\<close>

theorem session_established:
  assumes listener: "wf_selector s" "sel_map s l = Some (Some SOCKS_PASSIVE_IPV4, OP_READ, d)" "sel_resolution_jobs s = []"
    and accept: "os_accept os (e_os (pc_env pc)) (int l) = (int i, o1)" "i < sel_fd_size s" "i < ITEMS_MAX_SIZE" "sel_map s i = None"
    and memory: "\<And>o0. os_malloc os o0 = (True, o0)"
    and greeting: "os_recv os o1 (int i) 100 = (Some (hello_message ms), o2)" "length ms \<le> 98" "METHOD_USERNAME_PASSWORD \<notin> set ms"
    and answer: "os_send os o2 (int i) [0x05, answer ms] = (2, o3)"
    and request: "os_recv os o3 (int i) 100 = (Some (request_message socks_req_cmd_connect rsv dst hi lo), o4)" "dest_ok dst" "is_ip dst"
    and destination: "os_socket os o4 (dest_family dst) = (int j, o5)" "j < sel_fd_size s" "j < ITEMS_MAX_SIZE" "sel_map s j = None" "i \<noteq> j"
      "selector_fd_set_nio (os_getfd os o5) (os_setfl os o5) (int j) \<noteq> - 1" "os_connect os o5 (int j) (sockaddr dst hi lo) = (Some EINPROGRESS, o6)"
    and outcome: "os_so_error os o6 (int j) = (Some 0, o7)"
    and reply: "reply = [0x05, status_succeeded, 0, dest_atyp dst] @ dest_bytes dst @ [hi, lo]" "os_send os o7 (int i) reply = (int (length reply), o8)"
  shows "\<exists>s' pc' p. serve (process_handlers os env)
      [Ready {int l} {}, Ready {int i} {}, Ready {} {int i}, Ready {int i} {}, Ready {} {int j}, Ready {} {int i}] s pc = Inr (s', pc') \<and>
    copying (pc_sessions_next pc) i j p s' (socks_view pc') \<and> open_streams p s' \<and> buf_content (ss_input p) = [] \<and> buf_content (ss_output p) = [] \<and>
    sel_map s' = (sel_map s)(i \<mapsto> (Some CLIENT, OP_READ, Some (SessionP (pc_sessions_next pc))),
      j \<mapsto> (Some CLIENT, OP_READ, Some (SessionP (pc_sessions_next pc)))) \<and>
    e_os (pc_env pc') = o8 \<and> pc_prawtos pc' = pc_prawtos pc \<and> sel_resolution_jobs s' = []"
proof -
  let ?a = "pc_sessions_next pc" and ?hs = "process_handlers os env"
  obtain s1 w1 where 1: "selector_select ?hs (Ready {int l} {}) s pc = Inr (SELECTOR_SUCCESS, s1, put_socks w1 pc)"
    "session_at ?a i OP_READ (fresh_session i) s1 w1" "e_os (k_env w1) = o1" "sel_resolution_jobs s1 = []"
    "sel_fd_size s \<le> sel_fd_size s1" "sel_map s1 = (sel_map s)(i \<mapsto> (Some CLIENT, OP_READ, Some (SessionP ?a)))"
    by (rule round_new_session [OF listener accept memory]) auto
  obtain s2 w2 p2 where 2: "serve ?hs [Ready {int i} {}, Ready {} {int i}] s1 (put_socks w1 pc) = Inr (s2, put_socks w2 pc)"
    "session_at ?a i OP_READ p2 s2 w2" "awaits_request i p2" "buf_room (ss_input p2) = 100" "buf_room (ss_output p2) = 100"
    "ss_sniff p2 = ss_sniff session_05" "e_os (k_env w2) = o3" "sel_map s2 = sel_map s1" "sel_resolution_jobs s2 = []" "sel_fd_size s1 \<le> sel_fd_size s2"
    by (rule negotiation_rounds [OF 1(2,4), of os ms o2 o3 env pc]) (use 1(3) greeting answer in simp_all)
  obtain s3 w3 p3 where 3: "serve ?hs [Ready {int i} {}, Ready {} {int j}, Ready {} {int i}] s2 (put_socks w2 pc) = Inr (s3, put_socks w3 pc)"
    "copying ?a i j p3 s3 w3" "open_streams p3 s3" "buf_content (ss_input p3) = []" "buf_content (ss_output p3) = []" "e_os (k_env w3) = o8"
    "sel_map s3 = (sel_map s2)(i \<mapsto> (Some CLIENT, OP_READ, Some (SessionP ?a)), j \<mapsto> (Some CLIENT, OP_READ, Some (SessionP ?a)))"
    "sel_resolution_jobs s3 = []"
    by (rule connection_rounds [OF 2(2,3,9,4,5), of os rsv dst hi lo o4 j o5 o6 o7 reply o8 env pc])
      (use 1(5,6) 2(6-10) inert_session_05 request destination memory outcome reply in simp_all)
  have app: "serve ?hs (rs @ rs') s0 pc0 = bindr (serve ?hs rs s0 pc0) (\<lambda>(s1, pc1). serve ?hs rs' s1 pc1)" for rs rs' s0 pc0
    by (rule serve_append)
  have "serve ?hs ([Ready {int i} {}, Ready {} {int i}] @ [Ready {int i} {}, Ready {} {int j}, Ready {} {int i}]) s1 (put_socks w1 pc) = Inr (s3, put_socks w3 pc)"
    unfolding app 2(1) using 3(1) by simp
  then have "serve ?hs [Ready {int l} {}, Ready {int i} {}, Ready {} {int i}, Ready {int i} {}, Ready {} {int j}, Ready {} {int i}] s pc =
      Inr (s3, put_socks w3 pc)"
    using 1(1) by simp
  with 3 2(8) 1(6) show ?thesis by (intro exI [of _ s3] exI [of _ "put_socks w3 pc"] exI [of _ p3]) simp
qed

theorem session_established_witness:
  "\<exists>s s' pc' p. serve (process_handlers script_os example_env)
      [Ready {int 4} {}, Ready {int 8} {}, Ready {} {int 8}, Ready {int 8} {}, Ready {} {int 9}, Ready {} {int 8}] s
      (example_process ([8, 9], [hello_message [0], request_message socks_req_cmd_connect 0 (IPv4 [10, 0, 0, 7]) 0 80], [])) = Inr (s', pc') \<and>
    copying 0 8 9 p s' (socks_view pc') \<and> e_os (pc_env pc') = ([], [], [5, 0] @ [5, 0, 0, 1, 10, 0, 0, 7, 0, 80])"
proof -
  obtain s :: sel where s: "wf_selector s" "sel_fd_size s = ITEMS_MAX_SIZE + 1" "sel_resolution_jobs s = []"
    "sel_map s = [4 \<mapsto> (Some SOCKS_PASSIVE_IPV4, OP_READ, None)]" using listening_selector by blast
  let ?dst = "IPv4 [10, 0, 0, 7]"
  let ?req = "request_message socks_req_cmd_connect 0 ?dst 0 80"
  let ?pc = "example_process ([8, 9], [hello_message [0], ?req], [])"
  have l: "sel_map s 4 = Some (Some SOCKS_PASSIVE_IPV4, OP_READ, None)" "sel_map s 8 = None" "sel_map s 9 = None"
    "8 < sel_fd_size s" "9 < sel_fd_size s" "8 < ITEMS_MAX_SIZE" "9 < ITEMS_MAX_SIZE" "(8::nat) \<noteq> 9" "sk_fd \<lparr>sk_fd = 4, sk_data = None\<rparr> = int 4"
    using s by (simp_all add: ITEMS_MAX_SIZE_def)
  have acc: "os_accept script_os (e_os (pc_env ?pc)) (int 4) = (int 8, [9], [hello_message [0], ?req], [])"
    by (simp add: script_os_def script_fd_def example_process_def process_start_def)
  have mem: "os_malloc script_os o0 = (True, o0)" for o0 by (simp add: script_os_def)
  have gr: "os_recv script_os ([9], [hello_message [0], ?req], []) (int 8) 100 = (Some (hello_message [0]), [9], [?req], [])"
    "length [0 :: u8] \<le> 98" "METHOD_USERNAME_PASSWORD \<notin> set [0]" by (simp_all add: script_os_def hello_message_def method_defs)
  have an: "os_send script_os ([9], [?req], []) (int 8) [0x05, answer [0]] = (2, [9], [?req], [5, 0])"
    by (simp add: script_os_def answer_def method_defs)
  have rq: "os_recv script_os ([9], [?req], [5, 0]) (int 8) 100 = (Some ?req, [9], [], [5, 0])" "dest_ok ?dst" "is_ip ?dst"
    by (simp_all add: script_os_def request_message_def)
  have so: "os_socket script_os ([9], [], [5, 0]) (dest_family ?dst) = (int 9, [], [], [5, 0])" by (simp add: script_os_def script_fd_def)
  have nio: "selector_fd_set_nio (os_getfd script_os ([], [], [5, 0])) (os_setfl script_os ([], [], [5, 0])) (int 9) \<noteq> - 1"
    by (simp add: script_os_def selector_fd_set_nio_def)
  have co: "os_connect script_os ([], [], [5, 0]) (int 9) (sockaddr ?dst 0 80) = (Some EINPROGRESS, [], [], [5, 0])"
    "os_so_error script_os ([], [], [5, 0]) (int 9) = (Some 0, [], [], [5, 0])" by (simp_all add: script_os_def EINPROGRESS_def)
  have re: "os_send script_os ([], [], [5, 0]) (int 8) ([0x05, status_succeeded, 0, dest_atyp ?dst] @ dest_bytes ?dst @ [0, 80]) =
      (int (length ([0x05, status_succeeded, 0, dest_atyp ?dst] @ dest_bytes ?dst @ [0, 80])), [], [], [5, 0] @ [5, 0, 0, 1, 10, 0, 0, 7, 0, 80])"
    by (simp add: script_os_def status_succeeded_def socks_atyp_defs)
  have next0: "pc_sessions_next ?pc = 0" by (simp add: example_process_def process_start_def)
  from session_established [OF s(1) l(1) s(3) acc l(4,6,2) mem gr an rq so l(5,7,3,8) nio co HOL.refl re, of example_env]
  show ?thesis unfolding next0 by blast
qed

text \<open>
  C2: the copying session relays both streams, as rounds of the main loop. Whatever of the two descriptors is ready in each
  round, and however many bytes the system receives and accepts at each call, the session goes on copying and in
  each direction the bytes that were buffered at first, followed by those received, are exactly those sent to
  the other side, in order and each once, followed by those still in the buffer. The loop can only fail by
  a use after free, when the session ends, and a session does not end while the kernel reports neither the end of a stream
  nor an error. Other sessions of both kinds and the entries of the selector are not touched.
\<close>

theorem copying_session_relays:
  assumes "os_ok os" "copying a i j p s (socks_view pc)" "open_streams p s" "sel_resolution_jobs s = []"
    and "e_os (pc_env pc) = (o0, (\<lambda>_. []), (\<lambda>_. []))" "\<forall>(rs, ws) \<in> set evs. rs \<union> ws \<subseteq> {int i, int j}"
  shows "case serve (process_handlers (tap os) env) (map (\<lambda>(rs, ws). Ready rs ws) evs) s pc of
      Inl e \<Rightarrow> e = UseAfterFree \<and> \<not> lively os
    | Inr (s', pc') \<Rightarrow> \<exists>p'. copying a i j p' s' (socks_view pc') \<and>
        buf_content (ss_input p) @ received pc' i = delivered pc' j @ buf_content (ss_input p') \<and>
        buf_content (ss_output p) @ received pc' j = delivered pc' i @ buf_content (ss_output p') \<and>
        owner s' = owner s \<and> pc_prawtos pc' = pc_prawtos pc \<and> (\<forall>b. b \<noteq> a \<longrightarrow> pc_sessions pc' b = pc_sessions pc b)"
proof -
  let ?base = "\<lambda>sd. buf_content (copy_read_buff sd p)" and ?w = "socks_view pc"
  have "copy_ok os ?base a i j p s ?w"
    using assms(2,3,5) by (simp add: copy_ok_def relayed_def rcvd_def sent_def socks_view_def)
  from serve_copying [OF assms(1) this assms(4,6), of env pc] show ?thesis
    by (auto simp: put_view copy_ok_def copying_def relayed_def all_sides rcvd_def sent_def received_def delivered_def other_sessions_def)
qed

theorem copying_session_relays_witness:
  "\<exists>s s' pc' (p' :: session). serve (process_handlers (tap chatty_os) example_env) [Ready {7} {}, Ready {7, 8} {8}, Ready {} {7}] s copying_process = Inr (s', pc') \<and>
     received pc' 7 = delivered pc' 8 @ buf_content (ss_input p') \<and> received pc' 8 = delivered pc' 7 @ buf_content (ss_output p')"
proof -
  obtain s :: sel where s: "wf_selector s" "sel_resolution_jobs s = []"
    "sel_map s = [7 \<mapsto> (Some CLIENT, OP_READ, Some (SessionP 0)), 8 \<mapsto> (Some CLIENT, OP_READ, Some (SessionP 0))]"
    using copying_selector by blast
  have os: "e_os (pc_env copying_process) = (([], [], []), (\<lambda>_. []), (\<lambda>_. []))" by (simp add: copying_process_def process_start_def)
  have evs: "\<forall>(rs, ws) \<in> set [({7}, {}), ({7, 8}, {8}), ({}, {7})]. rs \<union> ws \<subseteq> {int 7, int 8}" by auto
  have empty: "buf_content (ss_input copying_session) = []" "buf_content (ss_output copying_session) = []"
    by (simp_all add: copying_session_def Let_def)
  let ?r = "serve (process_handlers (tap chatty_os) example_env) [Ready {7} {}, Ready {7, 8} {8}, Ready {} {7}] s copying_process"
  have r: "case ?r of Inl e \<Rightarrow> e = UseAfterFree \<and> \<not> lively chatty_os | Inr (s', pc') \<Rightarrow> \<exists>p'. copying 0 7 8 p' s' (socks_view pc') \<and>
      received pc' 7 = delivered pc' 8 @ buf_content (ss_input p') \<and> received pc' 8 = delivered pc' 7 @ buf_content (ss_output p') \<and>
      owner s' = owner s \<and> pc_prawtos pc' = pc_prawtos copying_process \<and> (\<forall>b. b \<noteq> 0 \<longrightarrow> pc_sessions pc' b = pc_sessions copying_process b)"
    using copying_session_relays [OF chatty_os_ok(1) copying_example [OF s(1,3)] s(2) os evs, of example_env]
    by (simp only: empty append_Nil list.map prod.case)
  then obtain s' pc' where run: "?r = Inr (s', pc')" using chatty_os_ok(2) by (cases ?r) auto
  with r obtain p' :: session where "received pc' 7 = delivered pc' 8 @ buf_content (ss_input p')"
    "received pc' 8 = delivered pc' 7 @ buf_content (ss_output p')" by (auto simp del: serve.simps)
  with run show ?thesis by blast
qed

text \<open>
  C38: one greeting ends the server. A client that connects and offers the method user name and password gets it as
  the answer, and the process aborts in the round that sends it: the states of the authentication are not in the table of the session's
  machine. Every other session ends with it.
\<close>

theorem password_greeting_stops_server:
  assumes listener: "wf_selector s" "sel_map s l = Some (Some SOCKS_PASSIVE_IPV4, OP_READ, d)" "sel_resolution_jobs s = []"
    and accept: "os_accept os (e_os (pc_env pc)) (int l) = (int i, o1)" "i < sel_fd_size s" "i < ITEMS_MAX_SIZE" "sel_map s i = None"
    and memory: "\<And>o0. os_malloc os o0 = (True, o0)"
    and greeting: "os_recv os o1 (int i) 100 = (Some (hello_message ms), o2)" "length ms \<le> 98" "METHOD_USERNAME_PASSWORD \<in> set ms"
    and answer: "os_send os o2 (int i) [0x05, METHOD_USERNAME_PASSWORD] = (2, o3)"
  shows "serve (process_handlers os env) ([Ready {int l} {}, Ready {int i} {}, Ready {} {int i}] @ rest) s pc = Inl Abort"
proof -
  let ?a = "pc_sessions_next pc" and ?hs = "process_handlers os env"
  obtain s1 w1 where 1: "selector_select ?hs (Ready {int l} {}) s pc = Inr (SELECTOR_SUCCESS, s1, put_socks w1 pc)"
    "session_at ?a i OP_READ (fresh_session i) s1 w1" "e_os (k_env w1) = o1" "sel_resolution_jobs s1 = []"
    by (rule round_new_session [OF listener accept memory]) auto
  obtain p2 s2 w2 where 2: "client_read os env (key_of i ?a) (one_read i s1, w1) = Inr (s2, w2)" "session_at ?a i OP_WRITE p2 s2 w2"
    "state_of p2 = Some HELLO_WRITE" "hello_method p2 = answer ms" "wf_buffer (ss_output p2)" "buf_content (ss_output p2) = [0x05, answer ms]"
    "e_os (k_env w2) = o2" "ss_server_fd p2 = - 1" "wf_buffer (ss_input p2)" "buf_content (ss_input p2) = []"
    "length (ss_server_address p2) = 128"
    by (rule client_read_greeting [of ?a i "one_read i s1" w1 os ms o2 env]) (use 1 greeting in simp_all)
  note r2 = session_round_read [OF 1(2,4) 2(1,2)]
  have "answer ms = METHOD_USERNAME_PASSWORD" using greeting(3) by (simp add: answer_def)
  then have "client_write os env (key_of i ?a) (one_write i s2, w2) = Inl Abort"
    using client_write_answer [of ?a i OP_WRITE p2 "one_write i s2" w2 os o3 env] 2 answer by auto
  then have "selector_select ?hs (Ready {} {int i}) s2 (put_socks w2 pc) = Inl Abort"
    using round_write(1) [of s2 i "Some (SessionP ?a)" os env "put_socks w2 pc" Abort] 2(2) r2(2) by (simp add: session_at_def)
  then show ?thesis using 1(1) r2(1) by simp
qed

theorem password_greeting_stops_server_witness:
  "\<exists>s. serve (process_handlers script_os example_env) [Ready {int 4} {}, Ready {int 8} {}, Ready {} {int 8}] s
      (example_process ([8], [hello_message [0, 2]], [])) = Inl Abort"
proof -
  obtain s :: sel where s: "wf_selector s" "sel_fd_size s = ITEMS_MAX_SIZE + 1" "sel_resolution_jobs s = []"
    "sel_map s = [4 \<mapsto> (Some SOCKS_PASSIVE_IPV4, OP_READ, None)]" using listening_selector by blast
  let ?pc = "example_process ([8], [hello_message [0, 2]], [])"
  have l: "sel_map s 4 = Some (Some SOCKS_PASSIVE_IPV4, OP_READ, None)" "sel_map s 8 = None" "8 < sel_fd_size s" "8 < ITEMS_MAX_SIZE"
    using s by (simp_all add: ITEMS_MAX_SIZE_def)
  have acc: "os_accept script_os (e_os (pc_env ?pc)) (int 4) = (int 8, [], [hello_message [0, 2]], [])"
    by (simp add: script_os_def script_fd_def example_process_def process_start_def)
  have mem: "os_malloc script_os o0 = (True, o0)" for o0 by (simp add: script_os_def)
  have gr: "os_recv script_os ([], [hello_message [0, 2]], []) (int 8) 100 = (Some (hello_message [0, 2]), [], [], [])"
    "length [0, 2 :: u8] \<le> 98" "METHOD_USERNAME_PASSWORD \<in> set [0, 2]" by (simp_all add: script_os_def hello_message_def method_defs)
  have an: "os_send script_os ([], [], []) (int 8) [0x05, METHOD_USERNAME_PASSWORD] = (2, [], [], [5, 2])"
    by (simp add: script_os_def method_defs)
  from password_greeting_stops_server [OF s(1) l(1) s(3) acc l(3,4,2) mem gr an, of example_env "[]"] show ?thesis by auto
qed

text \<open>
  C39: a client that disconnects before its greeting makes the server use freed memory: the close handler of the
  selector frees the session, and the descriptor to close is then taken from it.
\<close>

theorem disconnect_stops_server:
  assumes listener: "wf_selector s" "sel_map s l = Some (Some SOCKS_PASSIVE_IPV4, OP_READ, d)" "sel_resolution_jobs s = []"
    and accept: "os_accept os (e_os (pc_env pc)) (int l) = (int i, o1)" "i < sel_fd_size s" "i < ITEMS_MAX_SIZE" "sel_map s i = None"
    and memory: "\<And>o0. os_malloc os o0 = (True, o0)" and gone: "fst (os_recv os o1 (int i) 100) \<in> {None, Some []}"
  shows "serve (process_handlers os env) ([Ready {int l} {}, Ready {int i} {}] @ rest) s pc = Inl UseAfterFree"
proof -
  let ?a = "pc_sessions_next pc" and ?hs = "process_handlers os env"
  obtain s1 w1 where 1: "selector_select ?hs (Ready {int l} {}) s pc = Inr (SELECTOR_SUCCESS, s1, put_socks w1 pc)"
    "session_at ?a i OP_READ (fresh_session i) s1 w1" "e_os (k_env w1) = o1" "sel_resolution_jobs s1 = []"
    by (rule round_new_session [OF listener accept memory]) auto
  have "client_read os env (key_of i ?a) (one_read i s1, w1) = Inl UseAfterFree"
    by (rule disconnect_use_after_free [of _ _ OP_READ]) (use 1 gone in simp_all)
  then have "selector_select ?hs (Ready {int i} {}) s1 (put_socks w1 pc) = Inl UseAfterFree"
    using round_read(1) [of s1 i "Some (SessionP ?a)" os env "put_socks w1 pc" UseAfterFree] 1(2,4) by (simp add: session_at_def)
  then show ?thesis using 1(1) by simp
qed

theorem disconnect_stops_server_witness:
  "\<exists>s. serve (process_handlers script_os example_env) [Ready {int 4} {}, Ready {int 8} {}] s (example_process ([8], [], [])) = Inl UseAfterFree"
proof -
  obtain s :: sel where s: "wf_selector s" "sel_fd_size s = ITEMS_MAX_SIZE + 1" "sel_resolution_jobs s = []"
    "sel_map s = [4 \<mapsto> (Some SOCKS_PASSIVE_IPV4, OP_READ, None)]" using listening_selector by blast
  have l: "sel_map s 4 = Some (Some SOCKS_PASSIVE_IPV4, OP_READ, None)" "sel_map s 8 = None" "8 < sel_fd_size s" "8 < ITEMS_MAX_SIZE"
    using s by (simp_all add: ITEMS_MAX_SIZE_def)
  have acc: "os_accept script_os (e_os (pc_env (example_process ([8], [], [])))) (int 4) = (int 8, [], [], [])"
    by (simp add: script_os_def script_fd_def example_process_def process_start_def)
  have mem: "os_malloc script_os o0 = (True, o0)" for o0 by (simp add: script_os_def)
  have gone: "fst (os_recv script_os ([], [], []) (int 8) 100) \<in> {None, Some []}" by (simp add: script_os_def)
  from disconnect_stops_server [OF s(1) l(1) s(3) acc l(3,4,2) mem gone, of example_env "[]"] show ?thesis by auto
qed

end
