(* ===== verification/Ownership.thy ===== *)
theory Ownership
  imports Process
begin

text \<open>
  Who owns the descriptors of the process: every descriptor in the table of the selector is a listener, the client of a management
  session of its own, or one of the two descriptors of a live SOCKS session, and every callback of the process
  keeps it so. That an event finds a handler is part of it for the management sessions and for the SOCKS sessions whose request
  was not yet handled; for the later states of a SOCKS session only who owns the descriptors is.
\<close>

unbundle bit_operations_syntax

section \<open>The entries of a session\<close>

definition entries :: "nat \<Rightarrow> sel \<Rightarrow> nat \<Rightarrow> u32 option" where
  "entries a s i = (case sel_map s i of None \<Rightarrow> None
     | Some (h, x, d) \<Rightarrow> if h = Some CLIENT \<and> d = Some (SessionP a) then Some x else None)"

text \<open>What a session may do to the table: change its own entries and add entries to them.\<close>

definition touches :: "nat \<Rightarrow> sel \<Rightarrow> sel \<Rightarrow> bool" where
  "touches a s s' \<longleftrightarrow> wf_selector s' \<and> sel_fd_size s' = sel_fd_size s \<and> sel_resolution_jobs s' = sel_resolution_jobs s \<and>
     (\<forall>j. sel_map s' j = sel_map s j \<or> (sel_map s j = None \<or> entries a s j \<noteq> None) \<and> entries a s' j \<noteq> None)"

text \<open>\<open>tracked a s0 E s\<close>: the session at \<open>a\<close> made \<open>s\<close> of \<open>s0\<close>, and its entries are now \<open>E\<close>.\<close>

definition tracked :: "nat \<Rightarrow> sel \<Rightarrow> (nat \<Rightarrow> u32 option) \<Rightarrow> sel \<Rightarrow> bool" where
  "tracked a s0 E s \<longleftrightarrow> touches a s0 s \<and> entries a s = E \<and> sel_fd_size s = ITEMS_MAX_SIZE + 1"

lemma entries_used: "entries a s i = Some x \<Longrightarrow> used_at s i \<and> it_handler (item_at s i) = Some CLIENT \<and>
    it_data (item_at s i) = Some (SessionP a) \<and> it_interest (item_at s i) = x"
  by (auto simp: entries_def sel_map_def split: if_splits)

lemma entries_map: "entries a s i = Some x \<longleftrightarrow> sel_map s i = Some (Some CLIENT, x, Some (SessionP a))"
  by (cases "sel_map s i") (auto simp: entries_def split: if_splits)

lemma entries_cong: "sel_map s' i = sel_map s i \<Longrightarrow> entries a s' i = entries a s i"
  by (simp add: entries_def)

lemma entries_apart:
  assumes "entries a s i \<noteq> None" "b \<noteq> a"
  shows "entries b s i = None"
proof -
  obtain x where "sel_map s i = Some (Some CLIENT, x, Some (SessionP a))" using assms(1) entries_map by blast
  then show ?thesis using assms(2) by (simp add: entries_def)
qed

lemma tracked_start: "wf_selector s \<Longrightarrow> sel_fd_size s = ITEMS_MAX_SIZE + 1 \<Longrightarrow> tracked a s (entries a s) s"
  by (simp add: tracked_def touches_def)

lemma tracked_put:
  assumes "tracked a s0 E s" "wf_selector s'" "sel_fd_size s' = sel_fd_size s" "sel_resolution_jobs s' = sel_resolution_jobs s"
    and m: "sel_map s' = (sel_map s)(i \<mapsto> (Some CLIENT, x, Some (SessionP a)))" "sel_map s i = None \<or> E i \<noteq> None"
  shows "tracked a s0 (E(i \<mapsto> x)) s'"
proof -
  have e: "entries a s' = (E(i \<mapsto> x))" using assms(1) m(1) by (auto simp: tracked_def entries_def fun_eq_iff)
  have t: "touches a s0 s" "entries a s = E" using assms(1) by (simp_all add: tracked_def)
  have "sel_map s' j = sel_map s0 j \<or> (sel_map s0 j = None \<or> entries a s0 j \<noteq> None) \<and> entries a s' j \<noteq> None" for j
  proof (cases "j = i")
    case True
    have "sel_map s i = sel_map s0 i \<or> sel_map s0 i = None \<or> entries a s0 i \<noteq> None" using t(1) unfolding touches_def by blast
    then have "sel_map s0 i = None \<or> entries a s0 i \<noteq> None"
      using t(2) m(2) entries_cong [of s i s0 a] by (elim disjE) auto
    with True e show ?thesis by simp
  next
    case False
    then have "sel_map s' j = sel_map s j" "entries a s' j = entries a s j" using m(1) e t(2) by simp_all
    with t(1) show ?thesis unfolding touches_def by simp
  qed
  with t assms(1-4) e show ?thesis by (simp add: tracked_def touches_def)
qed

section \<open>Computations of a session\<close>

text \<open>
  \<open>ends Q m\<close>: the result of \<open>m\<close> satisfies \<open>Q\<close>, or \<open>m\<close> faults, but not by an assertion and not through a null pointer. The rules
  follow the structure of the code.
\<close>

definition stops :: "fault set" where
  "stops = {Abort, OutOfBounds, UseAfterFree}"

definition ends :: "('a \<Rightarrow> bool) \<Rightarrow> 'a res \<Rightarrow> bool" where
  "ends Q m \<longleftrightarrow> (\<forall>x. m = Inr x \<longrightarrow> Q x) \<and> (\<forall>e. m = Inl e \<longrightarrow> e \<in> stops)"

lemma in_stops [simp]: "Abort \<in> stops" "OutOfBounds \<in> stops" "UseAfterFree \<in> stops"
  by (simp_all add: stops_def)

named_theorems ends_rules \<open>how a computation of a session ends\<close>

lemma ends_results [ends_rules]: "Q x \<Longrightarrow> ends Q (Inr x)" "e \<in> stops \<Longrightarrow> ends Q (Inl e)"
  by (simp_all add: ends_def)

lemma ends_call: "ends R m \<Longrightarrow> (\<And>x. R x \<Longrightarrow> ends Q (k x)) \<Longrightarrow> ends Q (bindr m k)"
  by (auto simp: ends_def res_simps)

lemma ends_mono: "ends R m \<Longrightarrow> (\<And>x. R x \<Longrightarrow> Q x) \<Longrightarrow> ends Q m"
  by (auto simp: ends_def)

lemma ends_if [ends_rules]: "(c \<Longrightarrow> ends Q m) \<Longrightarrow> (\<not> c \<Longrightarrow> ends Q n) \<Longrightarrow> ends Q (if c then m else n)"
  by simp

lemma ends_option [ends_rules]:
  "(x = None \<Longrightarrow> ends Q m) \<Longrightarrow> (\<And>y. x = Some y \<Longrightarrow> ends Q (k y)) \<Longrightarrow> ends Q (case x of None \<Rightarrow> m | Some y \<Rightarrow> k y)"
  by (cases x) simp_all

lemma ends_prod [ends_rules]: "(\<And>x y. p = (x, y) \<Longrightarrow> ends Q (k x y)) \<Longrightarrow> ends Q (case p of (x, y) \<Rightarrow> k x y)"
  by (cases p) simp

lemma ends_assoc [ends_rules]: "ends Q (bindr m (\<lambda>x. bindr (k x) g)) \<Longrightarrow> ends Q (bindr (bindr m k) g)"
  by (simp add: bindr_assoc)

lemma ends_branch [ends_rules]:
  "(c \<Longrightarrow> ends Q (bindr m k)) \<Longrightarrow> (\<not> c \<Longrightarrow> ends Q (bindr n k)) \<Longrightarrow> ends Q (bindr (if c then m else n) k)"
  "ends Q (k x) \<Longrightarrow> ends Q (bindr (Inr x) k)"
  by simp_all

lemma ends_case [ends_rules]:
  "(\<And>x y. p = (x, y) \<Longrightarrow> ends Q (bindr (m x y) k)) \<Longrightarrow> ends Q (bindr (case p of (x, y) \<Rightarrow> m x y) k)"
  by (cases p) simp

lemma ends_pair: "ends Q (k x y) \<Longrightarrow> ends Q (case (x, y) of (a, b) \<Rightarrow> k a b)"
  by simp

text \<open>Memory accesses and assertions.\<close>

lemma ends_cells [ends_rules]:
  "(\<And>xs. ends Q (k xs)) \<Longrightarrow> ends Q (bindr (read_cells d i n) k)"
  "(\<And>d'. length d' = length d \<Longrightarrow> ends Q (k d')) \<Longrightarrow> ends Q (bindr (blit d i ys) k)"
  "(\<And>xs. ends Q (k xs)) \<Longrightarrow> ends Q (bindr (buffer_peek b i n) k)"
  by (simp_all add: ends_rules buffer_peek_def read_cells_def blit_def)

lemma ends_assert [ends_rules]: "c \<Longrightarrow> ends Q (k ()) \<Longrightarrow> ends Q (bindr (assert_c c) k)"
  by simp

text \<open>The buffers of a session stay well-formed.\<close>

lemma ends_poke [ends_rules]:
  "wf_buffer b \<Longrightarrow> (\<And>b'. wf_buffer b' \<Longrightarrow> b_write b' = b_write b \<Longrightarrow> b_limit b' = b_limit b \<Longrightarrow> ends Q (k b')) \<Longrightarrow>
     ends Q (bindr (buffer_poke b i xs) k)"
  unfolding buffer_poke_def bindr_assoc by (rule ends_cells) (simp add: wf_buffer_def)

lemma ends_write_adv:
  assumes "\<exists>b1. buffer_write_adv b n = Inr b1 \<and> wf_buffer b1" "\<And>b1. wf_buffer b1 \<Longrightarrow> ends Q (k b1)"
  shows "ends Q (bindr (buffer_write_adv b n) k)"
  using assms by auto

lemma write_adv_room: "wf_buffer b \<Longrightarrow> b_write b + n \<le> b_limit b \<Longrightarrow> \<exists>b1. buffer_write_adv b (int n) = Inr b1 \<and> wf_buffer b1"
  by (simp add: buffer_write_adv_def wf_buffer_def)

lemma ends_read_adv [ends_rules]:
  assumes "wf_buffer b" "- 1 \<le> n" "n \<le> int (length (buf_content b))" "\<And>b1. wf_buffer b1 \<Longrightarrow> ends Q (k b1)"
  shows "ends Q (bindr (buffer_read_adv b n) k)"
proof (cases "n = - 1")
  case True
  then show ?thesis using assms(1,4) by (simp add: buffer_read_adv_def)
next
  case False
  then obtain m where m: "n = int m" "m \<le> length (buf_content b)" using assms(2,3) by (cases n) auto
  obtain b' where "buffer_read_adv b (int m) = Inr b'" "wf_buffer b'" using read_adv_wf [OF assms(1) m(2)] by blast
  then show ?thesis using m(1) assms(4) by simp
qed

lemma ends_recv [ends_rules]:
  assumes "os_ok os" "wf_buffer b"
    and "\<And>n b' e'. e_users e' = e_users e \<Longrightarrow> wf_buffer b' \<Longrightarrow> (0 < n \<Longrightarrow> \<exists>b1. buffer_write_adv b' n = Inr b1 \<and> wf_buffer b1) \<Longrightarrow>
      ends Q (k (n, b', e'))"
  shows "ends Q (bindr (recv_step os fd b e) k)"
  by (rule recv_step_ok [OF assms(1,2), of fd e]) (use assms(3) in auto)

lemma ends_send [ends_rules]:
  assumes "os_ok os" "wf_buffer b"
    and "\<And>n e'. e_users e' = e_users e \<Longrightarrow> - 1 \<le> n \<Longrightarrow> n \<le> int (length (buf_content b)) \<Longrightarrow> ends Q (k (n, e'))"
  shows "ends Q (bindr (send_step os fd b e) k)"
  by (rule send_step_ok [OF assms(1,2), of fd e]) (use assms(3) in auto)

text \<open>The parsers, and the replies.\<close>

lemma consume_loop_ends:
  assumes "\<And>p c e. feed p c = Inl e \<Longrightarrow> e \<in> stops" "wf_buffer b"
  shows "ends (\<lambda>(b', _). wf_buffer b') (consume_loop feed is_done b p e f)"
  using assms
proof (induction feed is_done b p e f rule: consume_loop.induct)
  case (1 feed is_done b p e f)
  show ?case
  proof (cases "buffer_can_read b \<and> \<not> f")
    case True
    then obtain c cs where bc: "buf_content b = c # cs" using 1(3) by (cases "buf_content b") (auto simp: can_read_content)
    obtain b1 where b1: "buffer_read b = Inr (c, b1)" "wf_buffer b1" using read_wf [OF 1(3) bc] by blast
    have "ends (\<lambda>(b', _). wf_buffer b') (bindr (feed p c) (\<lambda>p'. consume_loop feed is_done b1 p' (snd (is_done p' e)) (fst (is_done p' e))))"
    proof (cases "feed p c")
      case (Inl flt)
      then show ?thesis using 1(2) by (auto intro: ends_rules)
    next
      case (Inr p')
      show ?thesis using 1(1) [OF True b1(1) HOL.refl Inr HOL.refl prod.collapse 1(2) b1(2)] Inr by simp
    qed
    then show ?thesis using True b1(1) by (subst consume_loop.simps) (simp add: split_beta Let_def)
  next
    case False
    then have "consume_loop feed is_done b p e f = Inr (b, p, e)" by (subst consume_loop.simps) (simp only: if_False)
    then show ?thesis using 1(3) by (simp add: ends_rules)
  qed
qed

lemma request_feed_faults: "request_parser_feed p c = Inl e \<Longrightarrow> e = OutOfBounds"
  by (auto simp: request_parser_feed_def dstaddr_fqdn_request_def dstaddr_request_def store_addr_byte_def dstport_request_def
      poke_field_def res_simps Let_def split: request_state.splits if_splits)

lemma ends_consume [ends_rules]:
  assumes "wf_buffer b"
  shows "(\<And>b' hp error. wf_buffer b' \<Longrightarrow> ends Q (k (b', hp, error))) \<Longrightarrow> ends Q (bindr (hello_consume b p e) k)"
    and "(\<And>b' rp error. wf_buffer b' \<Longrightarrow> ends Q (k' (b', rp, error))) \<Longrightarrow> ends Q (bindr (request_consume b r e) k')"
proof -
  show "ends Q (bindr (hello_consume b p e) k)" if "\<And>b' hp error. wf_buffer b' \<Longrightarrow> ends Q (k (b', hp, error))"
    unfolding hello_consume_def by (rule ends_call [OF consume_loop_ends]) (use assms that in auto)
  show "ends Q (bindr (request_consume b r e) k')" if "\<And>b' rp error. wf_buffer b' \<Longrightarrow> ends Q (k' (b', rp, error))"
    unfolding request_consume_def by (rule ends_call [OF consume_loop_ends]) (use assms that in \<open>auto dest: request_feed_faults\<close>)
qed

lemma ends_hello_marshall [ends_rules]:
  assumes "wf_buffer b" "\<And>r b'. wf_buffer b' \<Longrightarrow> ends Q (k (r, b'))"
  shows "ends Q (bindr (hello_marshall b m) k)"
proof (cases "2 \<le> buf_room b")
  case True
  then obtain b' where "hello_marshall b m = Inr (2, b')" "wf_buffer b'" using hello_marshall_wf [OF assms(1)] by metis
  then show ?thesis using assms(2) by simp
qed (use assms hello_marshall_full [OF assms(1)] in simp)

lemma strlen_ends: "ends (\<lambda>_. True) (c_strlen d)"
  by (induction d) (auto intro: ends_rules ends_call)

lemma marshal_addr_ends: "ends (\<lambda>_. True) (marshal_addr t a)"
proof -
  have "ends (\<lambda>_. True) (read_cells a i n)" for i n by (simp add: ends_def read_cells_def)
  then show ?thesis unfolding marshal_addr_def by (auto intro!: ends_rules ends_call [OF strlen_ends])
qed

lemma ends_marshal [ends_rules]:
  assumes b: "wf_buffer (ss_output p)" and k: "\<And>n b. wf_buffer b \<Longrightarrow> ends Q (k (n, p\<lparr>ss_output := b\<rparr>))"
  shows "ends Q (bindr (marshal_reply p) k)"
proof -
  have "ends (\<lambda>(_, b'). wf_buffer b') (request_marshal (ss_output p) st t a port)" for st t a port
    unfolding request_marshal_def Let_def
    by (insert b, (rule ends_pair ends_call [OF marshal_addr_ends] ends_rules ends_write_adv write_adv_room
      | assumption | simp add: write_ptr_wf buf_room_def not_less)+)
  then show ?thesis
    unfolding marshal_reply_def Let_def bindr_assoc by (rule ends_call) (auto intro: k)
qed

lemma ends_sniff [ends_rules]:
  "inert (ss_sniff (sw_self w)) \<Longrightarrow> ends Q (k w) \<Longrightarrow> ends Q (bindr (pop3sniff env bytes w) k)"
  by (simp add: pop3sniff_inert)

lemma ends_set_interest [ends_rules]:
  assumes "tracked a s0 E s" "fd \<in> int ` dom E"
    and "\<And>i s'. fd = int i \<Longrightarrow> i \<in> dom E \<Longrightarrow> tracked a s0 (E(i \<mapsto> x)) s' \<Longrightarrow> ends Q (k (SELECTOR_SUCCESS, s'))"
  shows "ends Q (bindr (selector_set_interest s fd x) k)"
proof -
  obtain i y where i: "fd = int i" "E i = Some y" using assms(2) by auto
  have wf: "wf_selector s" and e: "entries a s i = Some y" using assms(1) i by (auto simp: tracked_def touches_def)
  have u: "used_at s i" "it_handler (item_at s i) = Some CLIENT" "it_data (item_at s i) = Some (SessionP a)"
    using entries_used [OF e] by simp_all
  obtain s' where s': "selector_set_interest s (int i) x = Inr (SELECTOR_SUCCESS, s')" "wf_selector s'"
    "sel_map s' = (sel_map s)(i \<mapsto> (Some CLIENT, x, Some (SessionP a)))" "sel_fd_size s' = sel_fd_size s"
    "sel_resolution_jobs s' = sel_resolution_jobs s"
    using set_interest_wf [OF wf u(1), of x] u by auto
  have "tracked a s0 (E(i \<mapsto> x)) s'" by (rule tracked_put [OF assms(1) s'(2,4,5,3)]) (simp add: i)
  with assms(3) [OF i(1)] i s'(1) show ?thesis by auto
qed

lemma ends_set_interest_key [ends_rules]:
  assumes "tracked a s0 E s" "sk_fd key \<in> int ` dom E"
    and "\<And>i s'. sk_fd key = int i \<Longrightarrow> i \<in> dom E \<Longrightarrow> tracked a s0 (E(i \<mapsto> x)) s' \<Longrightarrow> ends Q (k (SELECTOR_SUCCESS, s'))"
  shows "ends Q (bindr (selector_set_interest_key key s x) k)"
proof -
  obtain i y where i: "sk_fd key = int i" "E i = Some y" using assms(2) by auto
  have "wf_selector s" "entries a s i = Some y" using assms(1) i by (auto simp: tracked_def touches_def)
  then have "\<not> INVALID_FD (int i)" using entries_used [of a s i y] wf_selectorD(3) [of s i] by (simp add: INVALID_FD_def)
  then have "selector_set_interest_key key s x = selector_set_interest s (sk_fd key) x"
    using i(1) by (simp add: selector_set_interest_key_def)
  moreover have "ends Q (bindr (selector_set_interest s (sk_fd key) x) k)" by (rule ends_set_interest) (fact assms)+
  ultimately show ?thesis by simp
qed

lemma ends_register [ends_rules]:
  assumes "tracked a s0 E s" "d = Some (SessionP a)"
    and "\<And>st. st \<noteq> SELECTOR_SUCCESS \<Longrightarrow> ends Q (k st s)"
    and "\<And>i s'. fd = int i \<Longrightarrow> tracked a s0 (E(i \<mapsto> x)) s' \<Longrightarrow> ends Q (k SELECTOR_SUCCESS s')"
  shows "ends Q (bindr (selector_register ok (Some s) fd (Some CLIENT) x d) (\<lambda>(st, sp). bindr (the_ptr sp) (k st)))"
proof -
  have t: "wf_selector s" "sel_fd_size s = ITEMS_MAX_SIZE + 1" "Some CLIENT \<noteq> None"
    using assms(1) by (simp_all add: tracked_def touches_def)
  from register_full [OF t, of ok fd x d] show ?thesis
  proof (elim disjE exE conjE)
    fix i s' assume r: "fd = int i" "sel_map s i = None" "wf_selector s'" "sel_map s' = (sel_map s)(i \<mapsto> (Some CLIENT, x, d))"
      "sel_fd_size s' = sel_fd_size s" "sel_resolution_jobs s' = sel_resolution_jobs s"
      "selector_register ok (Some s) fd (Some CLIENT) x d = Inr (SELECTOR_SUCCESS, Some s')"
    have "tracked a s0 (E(i \<mapsto> x)) s'" by (rule tracked_put [OF assms(1) r(3,5,6)]) (use r(2,4) assms(2) in auto)
    with assms(4) r(1,7) show ?thesis by (simp add: the_ptr_def)
  qed (use assms(3) in \<open>simp add: the_ptr_def\<close>)
qed

section \<open>The states of a session\<close>

text \<open>
  What holds of a session with the entries \<open>E\<close> in the state \<open>st\<close>: the descriptor of its client is its own, and it has
  no other entry than that of its destination, which does not exist before the request is handled: until then the client
  waits for exactly the event the state of the session handles. While connecting the destination is registered, or
  nothing of the session waits to be written to. Of the interests of the later states nothing is said.
\<close>

definition waits :: "nat \<Rightarrow> u32" where
  "waits st = (if st = HELLO_WRITE then OP_WRITE else OP_READ)"

lemma waits_simps [simp]: "waits HELLO_READ = OP_READ" "waits 0 = OP_READ" "waits HELLO_WRITE = OP_WRITE" "waits REQUEST_READ = OP_READ"
  by (simp_all add: waits_def socks_states)

definition descriptors_in :: "nat \<Rightarrow> int \<Rightarrow> int \<Rightarrow> (nat \<Rightarrow> u32 option) \<Rightarrow> bool" where
  "descriptors_in st client server E \<longleftrightarrow> client \<in> int ` dom E \<and> int ` dom E \<subseteq> {client, server} \<and>
     (st \<in> {HELLO_READ, HELLO_WRITE, REQUEST_READ} \<longrightarrow> server = - 1 \<and> (\<forall>i x. E i = Some x \<longrightarrow> x = waits st)) \<and>
     (st = REQUEST_CONNECTING \<longrightarrow> server \<in> int ` dom E \<or> (\<forall>i x. E i = Some x \<longrightarrow> OP_WRITE AND x = 0)) \<and>
     (st \<in> {REQUEST_WRITE, COPY} \<longrightarrow> server = - 1 \<or> server \<in> int ` dom E)"

abbreviation session_in :: "nat \<Rightarrow> session \<Rightarrow> (nat \<Rightarrow> u32 option) \<Rightarrow> bool" where
  "session_in st p E \<equiv> inert (ss_sniff p) \<and> wf_buffer (ss_input p) \<and> wf_buffer (ss_output p) \<and>
     descriptors_in st (ss_client_fd p) (ss_server_fd p) E"

lemma session_inD: "session_in st p E \<Longrightarrow> descriptors_in st (ss_client_fd p) (ss_server_fd p) E"
  by simp

text \<open>What a callback of the table of states leaves.\<close>

definition after :: "nat \<Rightarrow> 'o sworld \<Rightarrow> nat \<times> 'o sworld \<Rightarrow> bool" where
  "after a w r \<longleftrightarrow> (case r of (st, w') \<Rightarrow>
     (\<exists>E. tracked a (sw_sel w) E (sw_sel w') \<and> session_in st (sw_self w') E) \<and>
     e_users (sw_env w') = e_users (sw_env w) \<and>
     (st = REQUEST_READ \<longrightarrow> rs_server_fd (ss_request (sw_self w')) = rs_server_fd (ss_request (sw_self w))))"

lemma afterI:
  assumes "tracked a (sw_sel w) E (sw_sel w')" "session_in st (sw_self w') E" "e_users (sw_env w') = e_users (sw_env w)"
    and "st = REQUEST_READ \<Longrightarrow> rs_server_fd (ss_request (sw_self w')) = rs_server_fd (ss_request (sw_self w))"
  shows "after a w (st, w')"
  using assms by (auto simp: after_def)

lemma states_distinct [simp]:
  "HELLO_READ \<noteq> REQUEST_CONNECTING" "HELLO_WRITE \<noteq> REQUEST_CONNECTING" "REQUEST_READ \<noteq> REQUEST_CONNECTING"
  "REQUEST_WRITE \<noteq> REQUEST_CONNECTING" "COPY \<noteq> REQUEST_CONNECTING" "ERROR \<noteq> REQUEST_CONNECTING" "DONE \<noteq> REQUEST_CONNECTING"
  "AUTH_READ \<noteq> REQUEST_CONNECTING" "HELLO_READ \<noteq> REQUEST_READ" "HELLO_WRITE \<noteq> REQUEST_READ" "REQUEST_WRITE \<noteq> REQUEST_READ"
  "REQUEST_CONNECTING \<noteq> REQUEST_READ" "COPY \<noteq> REQUEST_READ" "ERROR \<noteq> REQUEST_READ" "DONE \<noteq> REQUEST_READ"
  by (simp_all add: socks_states)

text \<open>Before the request is handled.\<close>

lemma early_one:
  assumes "descriptors_in st c d E" "st \<in> {HELLO_READ, HELLO_WRITE, REQUEST_READ}"
  obtains k where "c = int k" "dom E = {k}" "d = - 1"
proof -
  obtain k where k: "c = int k" "k \<in> dom E" using assms(1) unfolding descriptors_in_def by blast
  moreover have d: "d = - 1" using assms by (simp add: descriptors_in_def) blast
  moreover have "j = k" if "j \<in> dom E" for j
  proof -
    have "int j \<in> {c, - 1}" using assms(1) that unfolding descriptors_in_def d by blast
    with k(1) show ?thesis by simp
  qed
  ultimately show thesis using that by blast
qed

lemma early_steps:
  assumes "descriptors_in st c d E" "st \<in> {HELLO_READ, HELLO_WRITE, REQUEST_READ}"
  shows "descriptors_in st c d E" "st' \<in> {AUTH_READ, REQUEST_WRITE, ERROR} \<Longrightarrow> descriptors_in st' c d E"
    "i \<in> dom E \<Longrightarrow> st' \<in> {AUTH_READ, ERROR} \<or> x = waits st' \<and> st' \<in> {HELLO_READ, HELLO_WRITE, REQUEST_READ} \<or> st' = REQUEST_WRITE
      \<Longrightarrow> descriptors_in st' c d (E(i \<mapsto> x))"
proof -
  obtain k where k: "c = int k" "dom E = {k}" "d = - 1" using early_one [OF assms] by blast
  show "descriptors_in st c d E" by (rule assms(1))
  show "descriptors_in st' c d E" if "st' \<in> {AUTH_READ, REQUEST_WRITE, ERROR}"
    using that k unfolding descriptors_in_def by (auto simp: socks_states)
  show "descriptors_in st' c d (E(i \<mapsto> x))" if i: "i \<in> dom E"
    and st: "st' \<in> {AUTH_READ, ERROR} \<or> x = waits st' \<and> st' \<in> {HELLO_READ, HELLO_WRITE, REQUEST_READ} \<or> st' = REQUEST_WRITE"
  proof -
    have e: "dom (E(i \<mapsto> x)) = {k}" "\<And>j y. (E(i \<mapsto> x)) j = Some y \<Longrightarrow> y = x"
      using i k(2) by (auto split: if_splits)
    have "st' \<noteq> REQUEST_CONNECTING" "st' \<noteq> COPY" using st by (auto simp: socks_states)
    moreover have "x = waits st'" if "st' \<in> {HELLO_READ, HELLO_WRITE, REQUEST_READ}" using st that by (auto simp: socks_states)
    ultimately show ?thesis using e k(1,3) unfolding descriptors_in_def e(1) by blast
  qed
qed

text \<open>When the descriptor of the destination is created, and when it is registered.\<close>

lemma socket_steps:
  assumes "descriptors_in REQUEST_READ c d E" "st \<in> {REQUEST_CONNECTING, ERROR}"
    and "st = REQUEST_CONNECTING \<longrightarrow> (\<forall>i x. E i = Some x \<longrightarrow> OP_WRITE AND x = 0)"
  shows "descriptors_in st c fd E"
  by (rule early_one [OF assms(1)]) (use assms(2,3) in \<open>auto simp: descriptors_in_def socks_states\<close>)

lemma server_steps:
  assumes "descriptors_in REQUEST_READ c d E" "k \<in> dom E" "st \<in> {REQUEST_CONNECTING, REQUEST_WRITE, ERROR}"
  shows "descriptors_in st c (int i) (E(k \<mapsto> x, i \<mapsto> y))" "st = ERROR \<Longrightarrow> descriptors_in st c fd (E(k \<mapsto> x))"
proof -
  obtain j where j: "c = int j" "dom E = {j}" using early_one [OF assms(1)] by blast
  have d: "dom (E(k \<mapsto> x)) = {j}" "dom (E(k \<mapsto> x, i \<mapsto> y)) = {j, i}" using assms(2) j(2) by auto
  show "descriptors_in st c (int i) (E(k \<mapsto> x, i \<mapsto> y))" "st = ERROR \<Longrightarrow> descriptors_in st c fd (E(k \<mapsto> x))"
    unfolding descriptors_in_def d using assms(3) j(1) by (auto simp: socks_states)
qed

text \<open>Afterwards.\<close>

lemma late_steps:
  assumes "client \<in> int ` dom E" "int ` dom E \<subseteq> {client, server}" "server = - 1 \<or> server \<in> int ` dom E"
    and "st \<in> {REQUEST_WRITE, COPY, ERROR, DONE}"
  shows "descriptors_in st client server E"
  using assms by (auto simp: descriptors_in_def socks_states)

lemma hello_read_ends:
  assumes "tracked a (sw_sel w) E (sw_sel w)" "session_in HELLO_READ (sw_self w) E" "sk_fd key \<in> int ` dom E" "os_ok os"
  shows "ends (after a w) (hello_read os key w)"
proof -
  note s = assms(2,4) early_steps [OF session_inD [OF assms(2)]]
  show ?thesis
    unfolding hello_read_def hello_process_def Let_def
    by (insert assms(1,3), (rule ends_pair ends_rules ends_write_adv afterI | assumption | simp add: s del: fun_upd_apply)+)
qed

lemma hello_write_ends:
  assumes "tracked a (sw_sel w) E (sw_sel w)" "session_in HELLO_WRITE (sw_self w) E" "sk_fd key \<in> int ` dom E" "os_ok os"
  shows "ends (after a w) (hello_write os key w)"
proof -
  note s = assms(2,4) early_steps [OF session_inD [OF assms(2)]]
  show ?thesis
    unfolding hello_write_def Let_def
    by (insert assms(1,3), (rule ends_pair ends_rules afterI | assumption | simp add: s del: fun_upd_apply)+)
qed

lemma connect_in_progress_ends:
  assumes "tracked a (sw_sel w0) E (sw_sel w)" "sk_fd key \<in> int ` dom E" "sk_data key = Some (SessionP a)"
    and "e_users (sw_env w) = e_users (sw_env w0)" "inert (ss_sniff (sw_self w)) \<and> wf_buffer (ss_input (sw_self w)) \<and> wf_buffer (ss_output (sw_self w))"
      "ss_server_fd (sw_self w) = fd"
    and d: "descriptors_in REQUEST_READ (ss_client_fd (sw_self w)) d E"
  shows "ends (after a w0) (connect_in_progress os key False fd w)"
proof -
  note s = assms(3-6) server_steps [OF d]
  show ?thesis
    unfolding connect_in_progress_def Let_def
    by (insert assms(1,2), (rule ends_pair ends_rules afterI | assumption | simp add: s del: fun_upd_apply)+)
qed

lemma connect_failed_ends:
  assumes "tracked a (sw_sel w0) E (sw_sel w)" "sk_data key = Some (SessionP a)"
    and "e_users (sw_env w) = e_users (sw_env w0)" "inert (ss_sniff (sw_self w)) \<and> wf_buffer (ss_input (sw_self w)) \<and> wf_buffer (ss_output (sw_self w))"
      "ss_server_fd (sw_self w) = fd"
    and d: "descriptors_in REQUEST_READ (ss_client_fd (sw_self w)) d E"
  shows "ends (after a w0) (connect_failed os key errno fd w)"
proof -
  obtain c where c: "ss_client_fd (sw_self w) = int c" "c \<in> dom E" using d unfolding descriptors_in_def by blast
  note d = d [unfolded c(1)]
  note s = assms(2-5) c server_steps [OF d] socket_steps [OF d, of ERROR]
  show ?thesis
    unfolding connect_failed_def Let_def
    by (insert assms(1), (rule ends_pair ends_rules afterI | assumption | simp add: s del: fun_upd_apply | hypsubst)+)
qed

lemma request_connect_ends:
  assumes "tracked a (sw_sel w0) E (sw_sel w)" "sk_fd key \<in> int ` dom E" "sk_data key = Some (SessionP a)"
    and "e_users (sw_env w) = e_users (sw_env w0)" "inert (ss_sniff (sw_self w)) \<and> wf_buffer (ss_input (sw_self w)) \<and> wf_buffer (ss_output (sw_self w))"
      "rs_server_fd (ss_request (sw_self w)) = - 1"
    and d: "descriptors_in REQUEST_READ (ss_client_fd (sw_self w)) d E" "\<forall>i x. E i = Some x \<longrightarrow> OP_WRITE AND x = 0"
  shows "ends (after a w0) (request_connect os key w)"
proof -
  note s = assms(2-6) d socket_steps [OF d(1)]
  note calls = connect_in_progress_ends [where d = d] connect_failed_ends [where d = d]
  show ?thesis
    unfolding request_connect_def Let_def
    by (insert assms(1), (rule ends_pair ends_rules afterI calls | assumption | simp add: s del: fun_upd_apply)+)
qed

lemma request_process_ends:
  assumes "tracked a (sw_sel w0) E (sw_sel w)" "sk_fd key \<in> int ` dom E" "sk_data key = Some (SessionP a)"
    and "e_users (sw_env w) = e_users (sw_env w0)" "session_in REQUEST_READ (sw_self w) E" "rs_server_fd (ss_request (sw_self w)) = - 1"
    and d: "\<forall>i x. E i = Some x \<longrightarrow> OP_WRITE AND x = 0"
  shows "ends (after a w0) (request_process os key w)"
proof -
  note q = session_inD [OF assms(5)]
  note s = assms(2-7) early_steps [OF q] socket_steps [OF q, of REQUEST_CONNECTING]
  have c: "descriptors_in REQUEST_CONNECTING (ss_client_fd (sw_self w)) (ss_server_fd (sw_self w)) E" using socket_steps [OF q] d by simp
  note calls = request_connect_ends [where d = "ss_server_fd (sw_self w)"]
  show ?thesis
    unfolding request_process_def connect_to_def Let_def
    by (insert assms(1), (rule ends_pair ends_rules afterI calls | assumption | simp add: s c del: fun_upd_apply)+)
qed

lemma request_read_ends:
  assumes "tracked a (sw_sel w) E (sw_sel w)" "sk_fd key \<in> int ` dom E" "sk_data key = Some (SessionP a)"
    and "session_in REQUEST_READ (sw_self w) E" "rs_server_fd (ss_request (sw_self w)) = - 1"
    and d: "\<forall>i x. E i = Some x \<longrightarrow> OP_WRITE AND x = 0" and os: "os_ok os"
  shows "ends (after a w) (request_read os key w)"
proof -
  note s = assms(2-6) os early_steps [OF session_inD [OF assms(4)]]
  have error: "after a w (ERROR, w')" if "after a w (st, w')" for st and w' :: "'a sworld"
    using that by (auto simp: after_def descriptors_in_def socks_states)
  have call: "ends (after a w) (bindr (request_process os key w1) (\<lambda>(ret, w2). Inr (if error then ERROR else ret, w2)))"
    if "ends (after a w) (request_process os key w1)" for w1 error
    by (rule ends_call [OF that]) (auto intro!: ends_rules error)
  show ?thesis
    unfolding request_read_def Let_def
    by (insert assms(1), (rule ends_pair call ends_rules ends_write_adv afterI request_process_ends | assumption | simp add: s del: fun_upd_apply)+)
qed

lemma late_put:
  assumes "client \<in> int ` dom E" "int ` dom E \<subseteq> {client, server}" "server = - 1 \<or> server \<in> int ` dom E"
    and "st \<in> {REQUEST_WRITE, COPY, ERROR, DONE}" "i \<in> dom E"
  shows "descriptors_in st client server (E(i \<mapsto> x))"
proof -
  have d: "dom (E(i \<mapsto> x)) = dom E" using assms(5) by auto
  show ?thesis by (rule late_steps) (use assms d in simp_all)
qed

lemma request_write_ends:
  assumes "tracked a (sw_sel w) E (sw_sel w)" "session_in REQUEST_WRITE (sw_self w) E" "sk_fd key \<in> int ` dom E" "os_ok os"
  shows "ends (after a w) (request_write os key w)"
proof -
  have l: "ss_client_fd (sw_self w) \<in> int ` dom E" "int ` dom E \<subseteq> {ss_client_fd (sw_self w), ss_server_fd (sw_self w)}"
    "ss_server_fd (sw_self w) = - 1 \<or> ss_server_fd (sw_self w) \<in> int ` dom E"
    using assms(2) by (simp_all add: descriptors_in_def)
  note s = assms(2,4) late_steps [OF l] late_put [OF l]
  show ?thesis
    unfolding request_write_def Let_def
    by (insert assms(1,3), (rule ends_pair ends_rules afterI | assumption | simp add: s del: fun_upd_apply)+)
qed

lemma status_fields [simp]:
  "ss_client_fd (if b then set_status st p else p) = ss_client_fd p" "ss_server_fd (if b then set_status st p else p) = ss_server_fd p"
  "ss_sniff (if b then set_status st p else p) = ss_sniff p" "ss_input (if b then set_status st p else p) = ss_input p"
  "ss_output (if b then set_status st p else p) = ss_output p"
  by simp_all

lemma request_connecting_ends:
  assumes "tracked a (sw_sel w) E (sw_sel w)" "session_in REQUEST_CONNECTING (sw_self w) E" "ss_server_fd (sw_self w) \<in> int ` dom E"
  shows "ends (after a w) (request_connecting os key w)"
proof -
  obtain c d where l: "ss_client_fd (sw_self w) = int c" "c \<in> dom E" "ss_server_fd (sw_self w) = int d" "d \<in> dom E"
    using assms(2,3) unfolding descriptors_in_def by blast
  have sub: "int ` dom E \<subseteq> {int c, int d}" using assms(2) l(1,3) by (simp add: descriptors_in_def)
  have "dom E = {c, d}" using sub l(2,4) unfolding image_subset_iff by auto
  then have s: "descriptors_in ERROR (int c) (int d) (E(c \<mapsto> x))" "descriptors_in REQUEST_WRITE (int c) (int d) (E(c \<mapsto> x, d \<mapsto> y))"
    for x y by (auto simp: descriptors_in_def socks_states)
  note s = s assms(2) l
  show ?thesis
    unfolding request_connecting_def Let_def
    by (insert assms(1,2), (rule ends_pair ends_rules afterI | assumption | simp add: s del: fun_upd_apply | hypsubst)+)
qed

text \<open>Copying.\<close>

lemma session_sides [simp]:
  "ss_client_fd (set_read_buff sd b p) = ss_client_fd p" "ss_server_fd (set_read_buff sd b p) = ss_server_fd p"
  "ss_client_fd (set_duplex sd d p) = ss_client_fd p" "ss_server_fd (set_duplex sd d p) = ss_server_fd p"
  "ss_input (set_duplex sd d p) = ss_input p" "ss_output (set_duplex sd d p) = ss_output p"
  by (cases sd; simp)+

lemma half_close_fds [simp]:
  "ss_client_fd (sw_self (half_close os sd f g w)) = ss_client_fd (sw_self w)"
  "ss_server_fd (sw_self (half_close os sd f g w)) = ss_server_fd (sw_self w)"
  "ss_sniff (sw_self (half_close os sd f g w)) = ss_sniff (sw_self w)"
  "ss_input (sw_self (half_close os sd f g w)) = ss_input (sw_self w)" "ss_output (sw_self (half_close os sd f g w)) = ss_output (sw_self w)"
  "e_users (sw_env (half_close os sd f g w)) = e_users (sw_env w)"
  by (simp_all add: half_close_def Let_def)

lemma side_buffers:
  assumes "wf_buffer (ss_input p)" "wf_buffer (ss_output p)"
  shows "wf_buffer (copy_read_buff sd p)"
    "wf_buffer b \<Longrightarrow> wf_buffer (ss_input (set_read_buff sd b p)) \<and> wf_buffer (ss_output (set_read_buff sd b p))"
  using assms by (cases sd; simp)+

lemma ends_check_interest:
  assumes "tracked a s0 E s" "copy_fd sd p = - 1 \<or> copy_fd sd p \<in> int ` dom E"
    and "\<And>r E' s'. tracked a s0 E' s' \<Longrightarrow> dom E' = dom E \<Longrightarrow> ends Q (k (r, s'))"
  shows "ends Q (bindr (check_interest sd p s) k)"
proof (cases "copy_fd sd p = - 1")
  case False
  then have fd: "copy_fd sd p \<in> int ` dom E" using assms(2) by simp
  have "ends Q (bindr (selector_set_interest s (copy_fd sd p) y) (\<lambda>(st, s1). bindr (if SELECTOR_SUCCESS \<noteq> st then Inl Abort else Inr (y, s1)) k))" for y
  proof (rule ends_set_interest [OF assms(1) fd])
    fix i s' assume i: "i \<in> dom E" "tracked a s0 (E(i \<mapsto> y)) s'"
    then have "dom (E(i \<mapsto> y)) = dom E" by auto
    from assms(3) [OF i(2) this]
    show "ends Q (case (SELECTOR_SUCCESS, s') of (st, s1) \<Rightarrow> bindr (if SELECTOR_SUCCESS \<noteq> st then Inl Abort else Inr (y, s1)) k)" by simp
  qed
  then show ?thesis using False by (simp add: check_interest_def Let_def bindr_assoc case_prod_unfold)
qed (use assms(1,3) in \<open>simp add: check_interest_def\<close>)

lemma copy_finish_ends:
  assumes "tracked a (sw_sel w0) E (sw_sel w)" "session_in COPY (sw_self w) E" "e_users (sw_env w) = e_users (sw_env w0)"
  shows "ends (after a w0) (copy_finish sd w)"
proof -
  have l: "ss_client_fd (sw_self w) \<in> int ` dom E" "int ` dom E \<subseteq> {ss_client_fd (sw_self w), ss_server_fd (sw_self w)}"
    "ss_server_fd (sw_self w) = - 1 \<or> ss_server_fd (sw_self w) \<in> int ` dom E"
    using assms(2) by (simp_all add: descriptors_in_def)
  have fd: "copy_fd sd' (sw_self w) = - 1 \<or> copy_fd sd' (sw_self w) \<in> int ` dom E" for sd' using l(1,3) by (cases sd') auto
  have d: "descriptors_in st (ss_client_fd (sw_self w)) (ss_server_fd (sw_self w)) E'"
    if "dom E' = dom E" "st \<in> {COPY, DONE}" for E' st
    by (rule late_steps) (use l that in auto)
  show ?thesis
    unfolding copy_finish_def
    by (rule ends_check_interest [OF assms(1) fd] ends_pair ends_check_interest ends_rules afterI | assumption | simp add: fd d assms)+
      (simp split: if_splits)
qed

lemma copy_ends:
  assumes "tracked a (sw_sel w) E (sw_sel w)" "session_in COPY (sw_self w) E" "sk_fd key \<in> int ` dom E" "os_ok os"
  shows "ends (after a w) (copy_read os env key w)" "ends (after a w) (copy_write os env key w)"
proof -
  have "sk_fd key \<in> {ss_client_fd (sw_self w), ss_server_fd (sw_self w)}"
    using assms(2,3) unfolding descriptors_in_def by blast
  then have fd: "copy_fd (copy_ptr key (sw_self w)) (sw_self w) = sk_fd key" by (auto simp: copy_ptr_def)
  have b: "wf_buffer (ss_input (sw_self w))" "wf_buffer (ss_output (sw_self w))" using assms(2) by simp_all
  note s = assms(2,4) fd side_buffers [OF b]
  show "ends (after a w) (copy_read os env key w)" "ends (after a w) (copy_write os env key w)"
    unfolding copy_read_def copy_write_def Let_def
    by (insert assms(1), (rule ends_pair copy_finish_ends ends_rules ends_write_adv afterI | assumption | simp add: s)+)
qed

section \<open>Events of a session\<close>

definition session_ok :: "session \<Rightarrow> (nat \<Rightarrow> u32 option) \<Rightarrow> bool" where
  "session_ok p E \<longleftrightarrow> sm_initial (ss_stm p) = HELLO_READ \<and> sm_max_state (ss_stm p) = DONE \<and>
     (case sm_current (ss_stm p) of
        None \<Rightarrow> session_in HELLO_READ p E
      | Some st \<Rightarrow> st \<in> {HELLO_READ, HELLO_WRITE, REQUEST_READ, REQUEST_CONNECTING, REQUEST_WRITE, COPY} \<and> session_in st p E \<and>
          (st = REQUEST_READ \<longrightarrow> rs_server_fd (ss_request p) = - 1))"

text \<open>An event is dispatched to an entry that is interested in it.\<close>

definition ready :: "((key, 'o sworld) state_definition \<Rightarrow> (key \<Rightarrow> 'o sworld \<Rightarrow> (nat \<times> 'o sworld) res) option) \<Rightarrow> u32 \<Rightarrow> bool" where
  "ready f x \<longleftrightarrow> f = on_read_ready \<and> OP_READ AND x \<noteq> 0 \<or> f = on_write_ready \<and> OP_WRITE AND x \<noteq> 0"

lemma callback_ends:
  assumes "tracked a (sw_sel w) E (sw_sel w)" "session_in st (sw_self w) E" "st = REQUEST_READ \<longrightarrow> rs_server_fd (ss_request (sw_self w)) = - 1"
    and "sk_fd key = int k" "E k = Some x" "sk_data key = Some (SessionP a)"
    and "st \<in> {HELLO_READ, HELLO_WRITE, REQUEST_READ, REQUEST_CONNECTING, REQUEST_WRITE, COPY}" "ready f x" "f (stm_map os env ! st) = Some cb" "os_ok os"
  shows "ends (after a w) (cb key w)"
proof -
  have k: "sk_fd key \<in> int ` dom E" using assms(4,5) by auto
  have quiet: "\<forall>i y. E i = Some y \<longrightarrow> OP_WRITE AND y = 0" if "st = REQUEST_READ" "OP_READ AND x \<noteq> 0"
  proof -
    have "y = OP_READ" if "E i = Some y" for i y
      using assms(2) \<open>st = REQUEST_READ\<close> that by (auto simp: descriptors_in_def waits_def socks_states)
    then show ?thesis using op_bits by metis
  qed
  have open_server: "ss_server_fd (sw_self w) \<in> int ` dom E" if "st = REQUEST_CONNECTING" "OP_WRITE AND x \<noteq> 0"
    using assms(2,5) that by (auto simp: descriptors_in_def)
  note calls = hello_read_ends [OF assms(1) _ k assms(10)] hello_write_ends [OF assms(1) _ k assms(10)]
    request_read_ends [OF assms(1) k assms(6)] request_write_ends [OF assms(1) _ k assms(10)] request_connecting_ends [OF assms(1)]
    copy_ends [OF assms(1) _ k assms(10)] imageI domI
  show ?thesis using assms(2,3,7-10) quiet open_server
    by (auto simp: ready_def stm_map_def hello_state_def_def hello_write_state_def_def request_read_state_def_def
        request_write_state_def_def request_connecting_state_def_def copy_state_def_def blank_state_def socks_states
        intro!: calls [simplified socks_states])
qed

text \<open>What an event leaves, after the hook of the state that follows.\<close>

definition landed :: "nat \<Rightarrow> 'o sworld \<Rightarrow> nat \<Rightarrow> 'o sworld \<Rightarrow> bool" where
  "landed a w st w' \<longleftrightarrow> (\<exists>E. tracked a (sw_sel w) E (sw_sel w') \<and> session_in st (sw_self w') E) \<and>
     e_users (sw_env w') = e_users (sw_env w) \<and> (st = REQUEST_READ \<longrightarrow> rs_server_fd (ss_request (sw_self w')) = - 1)"

lemma arrival_keeps:
  assumes "j < 8"
  shows "\<exists>w2. run_hook (on_arrival (stm_map os env ! j)) j key w1 = Inr w2 \<and> sw_sel w2 = sw_sel w1 \<and> sw_env w2 = sw_env w1 \<and>
    ss_client_fd (sw_self w2) = ss_client_fd (sw_self w1) \<and> ss_server_fd (sw_self w2) = ss_server_fd (sw_self w1) \<and>
    ss_sniff (sw_self w2) = ss_sniff (sw_self w1) \<and> ss_input (sw_self w2) = ss_input (sw_self w1) \<and>
    ss_output (sw_self w2) = ss_output (sw_self w1) \<and> (j = REQUEST_READ \<longrightarrow> rs_server_fd (ss_request (sw_self w2)) = ss_server_fd (sw_self w1))"
  using stm_map_cases [OF assms]
  by (elim disjE) (simp_all add: stm_map_entries state_defs hello_arrival_def request_arrival_def request_connecting_arrival_def
      copy_arrival_def Let_def)

lemma arrival_lands:
  assumes "after a w (j, w1)" "j < 8"
  shows "\<exists>w2. run_hook (on_arrival (stm_map os env ! j)) j key w1 = Inr w2 \<and> landed a w j w2"
proof -
  obtain E where E: "tracked a (sw_sel w) E (sw_sel w1)" "session_in j (sw_self w1) E" "e_users (sw_env w1) = e_users (sw_env w)"
    using assms(1) by (auto simp: after_def)
  have "ss_server_fd (sw_self w1) = - 1" if "j = REQUEST_READ" using E(2) that by (simp add: descriptors_in_def)
  with arrival_keeps [OF assms(2), of os env key w1] E show ?thesis by (auto simp: landed_def)
qed

lemma step_lands:
  assumes "sm_current stm = Some st" "sm_max_state stm = DONE" "st < 8" "f (stm_map os env ! st) = Some cb" "cb key w = Inr (j, w1)"
    and a: "after a w (j, w1)" and rs: "st = REQUEST_READ \<longrightarrow> rs_server_fd (ss_request (sw_self w)) = - 1"
  shows "ends (\<lambda>(j, stm', w'). j < 8 \<and> stm' = stm\<lparr>sm_current := Some j\<rparr> \<and> landed a w j w') (stm_event f (stm_map os env) stm key w)"
proof (cases "j < 8")
  case True
  obtain w2 where w2: "run_hook (on_arrival (stm_map os env ! j)) j key w1 = Inr w2" "landed a w j w2"
    using arrival_lands [OF a True] by blast
  let ?w = "if j = st then w1 else w2"
  have "stm_event f (stm_map os env) stm key w = Inr (j, stm\<lparr>sm_current := Some j\<rparr>, ?w)"
    using w2(1) by (intro socks_event [where c = st and f = f, OF assms(1-5) True]) simp_all
  moreover have "landed a w j ?w" using w2(2) a rs by (auto simp: landed_def after_def)
  ultimately show ?thesis using True by (simp add: ends_def)
next
  case False
  then show ?thesis using socks_event_beyond [where c = st and f = f, OF assms(1-5)] by (simp add: ends_rules)
qed

lemma event_lands:
  assumes "tracked a (sw_sel w) E (sw_sel w)" "session_in st (sw_self w) E" "st = REQUEST_READ \<longrightarrow> rs_server_fd (ss_request (sw_self w)) = - 1"
    and "sk_fd key = int k" "E k = Some x" "sk_data key = Some (SessionP a)"
    and "st \<in> {HELLO_READ, HELLO_WRITE, REQUEST_READ, REQUEST_CONNECTING, REQUEST_WRITE, COPY}" "ready f x"
    and "sm_current stm = Some st" "sm_max_state stm = DONE" "os_ok os"
  shows "ends (\<lambda>(j, stm', w'). j < 8 \<and> stm' = stm\<lparr>sm_current := Some j\<rparr> \<and> landed a w j w') (stm_event f (stm_map os env) stm key w)"
proof -
  have st: "st < 8" using assms(7) by (auto simp: socks_states)
  consider "stm_event f (stm_map os env) stm key w = Inl Abort"
    | cb e where "stm_event f (stm_map os env) stm key w = Inl e" "f (stm_map os env ! st) = Some cb" "cb key w = Inl e"
    | cb j w1 where "f (stm_map os env ! st) = Some cb" "cb key w = Inr (j, w1)"
  proof (cases "f (stm_map os env ! st)")
    case None
    with socks_event_unset [where c = st and f = f, OF assms(9) st None] that(1) show ?thesis by blast
  next
    case (Some cb)
    with assms(9) st that(2,3) show ?thesis by (cases "cb key w") (auto simp: stm_event_def handle_first_def)
  qed
  then show ?thesis
  proof cases
    case 1
    then show ?thesis by (simp add: ends_rules)
  next
    case 2
    then have "e \<in> stops" using callback_ends [OF assms(1-8) 2(2) assms(11)] by (simp add: ends_def)
    with 2(1) show ?thesis by (simp add: ends_rules)
  next
    case 3
    then have "after a w (j, w1)" using callback_ends [OF assms(1-8) 3(1) assms(11)] by (simp add: ends_def)
    then show ?thesis by (rule step_lands [where st = st and cb = cb and f = f, OF assms(9,10) st 3(1,2) _ assms(3)])
  qed
qed

text \<open>The same when the machine has not started.\<close>

lemma session_event_lands:
  assumes "tracked a (sw_sel w) E (sw_sel w)" "session_ok (sw_self w) E" "sk_fd key = int k" "E k = Some x"
    "sk_data key = Some (SessionP a)" "ready f x" "os_ok os"
  shows "ends (\<lambda>(j, stm', w'). j < 8 \<and> stm' = (ss_stm (sw_self w))\<lparr>sm_current := Some j\<rparr> \<and> landed a w j w')
    (stm_event f (stm_map os env) (ss_stm (sw_self w)) key w)"
proof (cases "sm_current (ss_stm (sw_self w))")
  case None
  let ?p = "sw_self w" and ?stm = "(ss_stm (sw_self w))\<lparr>sm_current := Some HELLO_READ\<rparr>"
  obtain w1 where w1: "hello_arrival HELLO_READ key w = Inr w1" "sw_sel w1 = sw_sel w" "sw_env w1 = sw_env w"
    "ss_client_fd (sw_self w1) = ss_client_fd ?p" "ss_server_fd (sw_self w1) = ss_server_fd ?p" "ss_sniff (sw_self w1) = ss_sniff ?p"
    "ss_input (sw_self w1) = ss_input ?p" "ss_output (sw_self w1) = ss_output ?p"
    by (simp add: hello_arrival_def Let_def)
  have ok: "session_in HELLO_READ ?p E" "sm_initial (ss_stm ?p) = HELLO_READ" "sm_max_state (ss_stm ?p) = DONE"
    using assms(2) None by (simp_all add: session_ok_def)
  have "HELLO_READ < length (stm_map os env)" by (simp add: socks_states)
  then have "stm_event f (stm_map os env) (ss_stm ?p) key w = stm_event f (stm_map os env) ?stm key w1"
    using stm_event_first [OF None, of "stm_map os env" key w w1 f] ok(2) w1(1) by (simp add: stm_map_entries state_defs)
  moreover have "ends (\<lambda>(j, stm', w'). j < 8 \<and> stm' = ?stm\<lparr>sm_current := Some j\<rparr> \<and> landed a w1 j w') (stm_event f (stm_map os env) ?stm key w1)"
    by (rule event_lands [where E = E and st = HELLO_READ]) (use assms ok w1 in simp_all)
  moreover have "landed a w1 j w' = landed a w j w'" for j w' using w1(2,3) by (simp add: landed_def)
  ultimately show ?thesis by simp
next
  case (Some st)
  with assms show ?thesis by (intro event_lands [where E = E and st = st]) (simp_all add: session_ok_def)
qed

section \<open>Callbacks of the SOCKS descriptors\<close>

text \<open>What a callback on behalf of the session at \<open>a\<close> leaves, when it returns.\<close>

definition served :: "nat \<Rightarrow> sel \<Rightarrow> 'o kworld \<Rightarrow> sel \<times> 'o kworld \<Rightarrow> bool" where
  "served a s w r \<longleftrightarrow> (case r of (s', w') \<Rightarrow>
     touches a s s' \<and> e_users (k_env w') = e_users (k_env w) \<and> k_next w \<le> k_next w' \<and>
     (\<forall>b. b \<noteq> a \<longrightarrow> k_sessions w' b = k_sessions w b) \<and>
     (entries a s' \<noteq> Map.empty \<longrightarrow> a < k_next w' \<and> (\<exists>p. k_sessions w' a = Some p \<and> session_ok p (entries a s'))))"

text \<open>A session that ends takes the process down: \<^const>\<open>close_session\<close> reads the session after it was freed.\<close>

lemma ending_faults:
  assumes "tracked a s0 E s" "session_in st p E" "k_sessions w a = Some p" "sm_max_state (ss_stm p) = DONE"
  shows "close_session os (key_of k a) (s, w) = Inl UseAfterFree"
proof -
  obtain i x where i: "ss_client_fd p = int i" "E i = Some x" using assms(2) unfolding descriptors_in_def by blast
  have "wf_selector s" "entries a s i = Some x" using assms(1) i(2) by (simp_all add: tracked_def touches_def)
  then have "session_at a i x p s w" using assms(3,4) i(1) by (simp add: session_at_def entries_map)
  then show ?thesis by (rule close_session_frees)
qed

lemma client_event_served:
  assumes "wf_selector s" "sel_fd_size s = ITEMS_MAX_SIZE + 1" "entries a s k = Some x" "k_sessions w a = Some p"
    "session_ok p (entries a s)" "ready f x" "a < k_next w" "os_ok os"
  shows "ends (served a s w) (client_event os env (stm_event f) (key_of k a) (s, w))"
proof -
  have stm: "sm_initial (ss_stm p) = HELLO_READ" "sm_max_state (ss_stm p) = DONE" using assms(5) by (simp_all add: session_ok_def)
  have run: "ends (served a s w) (let w1 = w\<lparr>k_sessions := (k_sessions w)(a \<mapsto> (sw_self sw1)\<lparr>ss_stm := stm\<rparr>), k_env := sw_env sw1,
        k_log := sw_log sw1\<rparr> in if ERROR = j \<or> DONE = j then close_session os (key_of k a) (sw_sel sw1, w1) else Inr (sw_sel sw1, w1))"
    if r: "j < 8" "stm = (ss_stm p)\<lparr>sm_current := Some j\<rparr>" "landed a (session_world p s w) j sw1" for j stm sw1
  proof -
    obtain E where E: "tracked a s E (sw_sel sw1)" "session_in j (sw_self sw1) E" "e_users (sw_env sw1) = e_users (k_env w)"
      "j = REQUEST_READ \<longrightarrow> rs_server_fd (ss_request (sw_self sw1)) = - 1" using r(3) by (auto simp: landed_def)
    show ?thesis
    proof (cases "ERROR = j \<or> DONE = j")
      case True
      have "close_session os (key_of k a) (sw_sel sw1, w1) = Inl UseAfterFree"
        if "k_sessions w1 a = Some ((sw_self sw1)\<lparr>ss_stm := stm\<rparr>)" for w1
        by (rule ending_faults [where st = j, OF E(1) _ that]) (use E(2) stm(2) r(2) in simp_all)
      then show ?thesis using True by (simp add: Let_def ends_rules)
    next
      case False
      then have j: "j \<in> {HELLO_READ, HELLO_WRITE, REQUEST_READ, REQUEST_CONNECTING, REQUEST_WRITE, COPY}"
        using stm_map_cases [OF r(1)] by auto
      have "session_ok ((sw_self sw1)\<lparr>ss_stm := stm\<rparr>) E" using E(2,4) j stm r(2) by (simp add: session_ok_def)
      then show ?thesis using False E(1,3) assms(7) by (simp add: ends_def served_def tracked_def)
    qed
  qed
  have "ends (\<lambda>(j, stm', w'). j < 8 \<and> stm' = (ss_stm p)\<lparr>sm_current := Some j\<rparr> \<and> landed a (session_world p s w) j w')
      (stm_event f (stm_map os env) (ss_stm p) (key_of k a) (session_world p s w))"
    using session_event_lands [of a "session_world p s w" "entries a s" "key_of k a" k x f os env] tracked_start [OF assms(1,2)] assms(3,5,6,8) by simp
  then have "ends (served a s w) (bindr (stm_event f (stm_map os env) (ss_stm p) (key_of k a) (session_world p s w))
      (\<lambda>(j, stm, sw1). let w1 = w\<lparr>k_sessions := (k_sessions w)(a \<mapsto> (sw_self sw1)\<lparr>ss_stm := stm\<rparr>), k_env := sw_env sw1,
        k_log := sw_log sw1\<rparr> in if ERROR = j \<or> DONE = j then close_session os (key_of k a) (sw_sel sw1, w1) else Inr (sw_sel sw1, w1)))"
    by (rule ends_call) (auto simp only: prod.case split_paired_all intro: run)
  then show ?thesis using assms(4) by (simp add: client_event_def deref_session_def)
qed

lemma ends_os_step [ends_rules]:
  "(\<And>x o1. ends Q (k x (w\<lparr>k_env := (k_env w)\<lparr>e_os := o1\<rparr>\<rparr>))) \<Longrightarrow> ends Q (case os_step f w of (x, w1) \<Rightarrow> k x w1)"
  by (simp add: os_step_def split_beta)

lemma ends_initialize [ends_rules]:
  assumes "\<And>o2. ends Q (k (None, o2))"
    and "\<And>q o2. inert (ss_sniff q) \<Longrightarrow> wf_buffer (ss_input q) \<Longrightarrow> wf_buffer (ss_output q) \<Longrightarrow> ss_stm q = \<lparr>sm_initial = HELLO_READ, sm_max_state = DONE, sm_current = None\<rparr> \<Longrightarrow> ends Q (k (Some q, o2))"
  shows "ends Q (bindr (initialize_session os env o0) k)"
  using assms inert_session_05
  by (simp add: initialize_session_def stm_create_ok split_beta Let_def INPUT_BUFFER_SIZE_def OUTPUT_BUFFER_SIZE_def)

lemma new_connection_served:
  assumes "wf_selector s" "sel_fd_size s = ITEMS_MAX_SIZE + 1" "entries (k_next w) s = Map.empty"
  shows "ends (served (k_next w) s w) (new_connection os env key (s, w))"
proof -
  let ?a = "k_next w"
  have t: "tracked ?a s Map.empty s" using tracked_start [OF assms(1,2), of ?a] assms(3) by simp
  have same: "served ?a s w (s, w')" if "?a \<le> k_next w'" "\<forall>b. b \<noteq> ?a \<longrightarrow> k_sessions w' b = k_sessions w b" "e_users (k_env w') = e_users (k_env w)" for w'
    using t assms(3) that by (simp add: served_def tracked_def)
  have fresh: "session_ok (q\<lparr>ss_client_fd := int i, ss_server_fd := - 1\<rparr>) [i \<mapsto> OP_READ]"
    if "inert (ss_sniff q)" "wf_buffer (ss_input q)" "wf_buffer (ss_output q)" "ss_stm q = \<lparr>sm_initial = HELLO_READ, sm_max_state = DONE, sm_current = None\<rparr>" for q i
    using that by (auto simp: session_ok_def descriptors_in_def socks_states)
  have new: "served ?a s w (s', w')"
    if "tracked ?a s (Map.empty(i \<mapsto> OP_READ)) s'" "?a < k_next w'" "\<forall>b. b \<noteq> ?a \<longrightarrow> k_sessions w' b = k_sessions w b" "e_users (k_env w') = e_users (k_env w)"
      "\<exists>q. k_sessions w' ?a = Some q \<and> session_ok q [i \<mapsto> OP_READ]" for s' w' i
    using that by (simp add: served_def tracked_def)
  show ?thesis
    unfolding new_connection_def Let_def
    by (insert t, (rule ends_pair ends_rules same new | assumption | simp add: fresh)+)
qed

section \<open>The process\<close>

text \<open>The entries of the SOCKS side, as \<^const>\<open>table_inv\<close> asks for them.\<close>

definition socks_entry :: "handler_id option \<Rightarrow> u32 \<Rightarrow> ptr option \<Rightarrow> bool" where
  "socks_entry h x d \<longleftrightarrow> h = Some CLIENT \<and> (\<exists>a. d = Some (SessionP a)) \<or>
     h \<in> {Some SOCKS_PASSIVE_IPV4, Some SOCKS_PASSIVE_IPV6} \<and> x = OP_READ \<and> d = None"

lemma foreign_socks [simp]: "foreign socks_entry"
  by (auto simp: foreign_def socks_entry_def)

text \<open>The table and the heap of the process: every entry has an owner that is alive.\<close>

definition process_inv :: "sel \<Rightarrow> 'o process \<Rightarrow> bool" where
  "process_inv s pc \<longleftrightarrow> table_inv socks_entry s (prawtos_view pc) \<and>
     (\<forall>a. entries a s \<noteq> Map.empty \<longrightarrow> a < pc_sessions_next pc \<and> (\<exists>p. pc_sessions pc a = Some p \<and> session_ok p (entries a s)))"

lemma table_inv_foreign:
  assumes inv: "table_inv E s w" and s': "wf_selector s'" "sel_fd_size s' = sel_fd_size s" "sel_resolution_jobs s' = sel_resolution_jobs s"
    and m: "\<forall>j. sel_map s' j = sel_map s j \<or> (\<exists>h x d. sel_map s' j = Some (h, x, d) \<and> E h x d)"
    and w': "w_prawtos w' = w_prawtos w" "w_next w' = w_next w" "e_users (w_env w') = e_users (w_env w)"
  shows "table_inv E s' w'"
  unfolding table_inv_def
proof (intro conjI allI impI)
  have same: "sel_map s i = Some (h, x, d)" if "sel_map s' i = Some (h, x, d)" "\<not> E h x d" for i h x d
    using m that by (metis Pair_inject option.inject)
  fix i h x d
  assume i: "sel_map s' i = Some (h, x, d)"
  show "E h x d \<or> h = Some PRAWTOS_PASSIVE \<and> x = OP_READ \<and> d = None \<or>
      h = Some PRAWTOS \<and> (\<exists>a p. d = Some (PrawtosP a) \<and> a < w_next w' \<and> w_prawtos w' a = Some p \<and> live_session i x p)"
  proof (cases "E h x d")
    case False
    with inv same [OF i] show ?thesis by (elim table_inv_entry) (use w' in auto)
  qed simp
next
  have no: "\<not> E h x (Some (PrawtosP a))" for h x a using table_inv_basic(5) [OF inv] by (auto simp: foreign_def)
  have same: "sel_map s i = Some (h, x, Some (PrawtosP a))" if "sel_map s' i = Some (h, x, Some (PrawtosP a))" for i h x a
    using m no that by (metis Pair_inject option.inject)
  fix i j h x h' x' a
  assume "sel_map s' i = Some (h, x, Some (PrawtosP a))" "sel_map s' j = Some (h', x', Some (PrawtosP a))"
  then show "i = j" using table_inv_unique [OF inv same same] by blast
qed (use table_inv_basic [OF inv] s' w' in simp_all)

text \<open>A callback of the SOCKS side, and one of the management side.\<close>

lemma served_keeps:
  assumes inv: "process_inv s pc" and r: "served a s (socks_view pc) (s', w')"
  shows "process_inv s' (put_socks w' pc)"
proof -
  have t: "touches a s s'" "e_users (k_env w') = e_users (pc_env pc)" "pc_sessions_next pc \<le> k_next w'"
    "\<forall>b. b \<noteq> a \<longrightarrow> k_sessions w' b = pc_sessions pc b"
    "entries a s' \<noteq> Map.empty \<longrightarrow> a < k_next w' \<and> (\<exists>p. k_sessions w' a = Some p \<and> session_ok p (entries a s'))"
    using r by (simp_all add: served_def socks_view_def)
  have own: "\<exists>h x d. sel_map s' j = Some (h, x, d) \<and> socks_entry h x d" if "entries a s' j \<noteq> None" for j
    using that by (auto simp: entries_map socks_entry_def)
  have "table_inv socks_entry s' (prawtos_view (put_socks w' pc))"
    by (rule table_inv_foreign [where s = s and w = "prawtos_view pc"])
      (use inv t own in \<open>auto simp: process_inv_def touches_def prawtos_view_def put_socks_def\<close>)
  moreover have other: "entries b s' = entries b s" if "b \<noteq> a" for b
  proof
    fix j
    have "sel_map s' j = sel_map s j \<or> (sel_map s j = None \<or> entries a s j \<noteq> None) \<and> entries a s' j \<noteq> None"
      using t(1) unfolding touches_def by blast
    then show "entries b s' j = entries b s j"
    proof (elim disjE conjE)
      assume "sel_map s' j = sel_map s j"
      then show ?thesis by (rule entries_cong)
    next
      assume "sel_map s j = None" "entries a s' j \<noteq> None"
      then show ?thesis using entries_apart [of a s' j b] that by (simp add: entries_def)
    next
      assume "entries a s j \<noteq> None" "entries a s' j \<noteq> None"
      then show ?thesis using entries_apart [of a _ j b] that by simp
    qed
  qed
  moreover have "b < k_next w' \<and> (\<exists>p. k_sessions w' b = Some p \<and> session_ok p (entries b s'))" if "entries b s' \<noteq> Map.empty" for b
  proof (cases "b = a")
    case True
    then show ?thesis using t(5) that by simp
  next
    case False
    have "b < pc_sessions_next pc \<and> (\<exists>p. pc_sessions pc b = Some p \<and> session_ok p (entries b s))"
      using inv other [OF False] that unfolding process_inv_def by metis
    then show ?thesis using False t(3,4) other [OF False] by auto
  qed
  ultimately show ?thesis by (simp add: process_inv_def put_socks_def)
qed

lemma managed_keeps:
  assumes inv: "process_inv s pc" and r: "table_inv socks_entry s' w'" "others_kept s s'"
  shows "process_inv s' (put_prawtos w' pc)"
proof -
  have "entries a s' j = entries a s j" for a j
    using r(2) entries_cong [of s' j s a] by (auto simp: others_kept_def managed_def entries_def split: option.splits dest: spec [of _ j])
  then have "entries a s' = entries a s" for a by blast
  moreover have "prawtos_view (put_prawtos w' pc) = w'" by (simp add: prawtos_view_def put_prawtos_def)
  ultimately show ?thesis using inv r(1) by (simp add: process_inv_def put_prawtos_def)
qed

lemma touches_item:
  assumes "touches a s s'" "used_at s i"
  shows "used_at s' i \<and> it_data (item_at s' i) = it_data (item_at s i)"
proof -
  have "sel_map s i \<noteq> None" using assms(2) by (simp add: sel_map_def)
  then have "sel_map s' i = sel_map s i \<or> entries a s i \<noteq> None \<and> entries a s' i \<noteq> None" using assms(1) by (auto simp: touches_def dest: spec [of _ i])
  then show ?thesis
  proof
    assume "sel_map s' i = sel_map s i"
    then show ?thesis using assms(2) by (auto simp: sel_map_def split: if_splits)
  next
    assume "entries a s i \<noteq> None \<and> entries a s' i \<noteq> None"
    then show ?thesis using entries_used [of a s i] entries_used [of a s' i] by auto
  qed
qed

text \<open>The contract of the selector with its callbacks, for the two sides.\<close>

definition item_kept :: "nat \<Rightarrow> sel \<Rightarrow> sel \<Rightarrow> bool" where
  "item_kept i s s' \<longleftrightarrow> (used_at s' i \<longrightarrow> it_data (item_at s' i) = it_data (item_at s i)) \<and>
     (\<not> used_at s' i \<longrightarrow> it_interest (item_at s' i) = 0)"

definition kept :: "nat \<Rightarrow> sel \<Rightarrow> (sel \<times> 'o process) res \<Rightarrow> bool" where
  "kept i s r \<longleftrightarrow> (\<exists>s' pc'. r = Inr (s', pc') \<and> process_inv s' pc' \<and> sel_fd_size s' = sel_fd_size s \<and> item_kept i s s') \<or>
     (\<exists>e \<in> stops. r = Inl e)"

lemma served_kept:
  assumes "process_inv s pc" "used_at s i" "ends (served a s (socks_view pc)) (cb key (s, socks_view pc))"
  shows "kept i s (lift_callback socks_view put_socks cb key (s, pc))"
proof (cases "cb key (s, socks_view pc)")
  case (Inl e)
  then show ?thesis using assms(3) by (simp add: kept_def lift_callback_def ends_def)
next
  case (Inr r)
  obtain s' w' where r: "r = (s', w')" by fastforce
  have v: "served a s (socks_view pc) (s', w')" using assms(3) Inr r by (simp add: ends_def)
  then have "touches a s s'" by (simp add: served_def)
  with touches_item [OF this assms(2)] served_keeps [OF assms(1) v] Inr r show ?thesis
    by (auto simp: kept_def item_kept_def lift_callback_def touches_def)
qed

lemma socks_callback_kept:
  assumes "os_ok os" "process_inv s pc" "used_at s i" "it_handler (item_at s i) = Some CLIENT" "ready f (it_interest (item_at s i))"
  shows "kept i s (lift_callback socks_view put_socks (client_event os env (stm_event f)) \<lparr>sk_fd = int i, sk_data = it_data (item_at s i)\<rparr> (s, pc))"
proof -
  have t: "table_inv socks_entry s (prawtos_view pc)" using assms(2) by (simp add: process_inv_def)
  obtain a where a: "it_data (item_at s i) = Some (SessionP a)"
    using table_invD [OF t assms(3)] assms(4) by (auto simp: socks_entry_def)
  then have e: "entries a s i = Some (it_interest (item_at s i))" using assms(3,4) by (simp add: entries_map sel_map_def)
  then have "entries a s \<noteq> Map.empty" by auto
  then obtain p where p: "a < pc_sessions_next pc" "pc_sessions pc a = Some p" "session_ok p (entries a s)"
    using assms(2) by (auto simp: process_inv_def)
  have "ends (served a s (socks_view pc)) (client_event os env (stm_event f) (key_of i a) (s, socks_view pc))"
    by (rule client_event_served [OF table_inv_basic(1,2) [OF t] e _ p(3) assms(5) _ assms(1)]) (use p in \<open>simp_all add: socks_view_def\<close>)
  then show ?thesis using served_kept [OF assms(2,3)] a by simp
qed

lemma new_connection_kept:
  assumes "process_inv s pc" "used_at s i"
  shows "kept i s (lift_callback socks_view put_socks (new_connection os env) key (s, pc))"
proof (rule served_kept [OF assms])
  have t: "table_inv socks_entry s (prawtos_view pc)" using assms(1) by (simp add: process_inv_def)
  have "entries (k_next (socks_view pc)) s = Map.empty" using assms(1) by (auto simp: process_inv_def socks_view_def)
  then show "ends (served (k_next (socks_view pc)) s (socks_view pc)) (new_connection os env key (s, socks_view pc))"
    by (rule new_connection_served [OF table_inv_basic(1,2) [OF t]])
qed

lemma management_kept:
  assumes "process_inv s pc" and "(\<exists>s' w'. cb key (s, prawtos_view pc) = Inr (s', w') \<and> table_inv socks_entry s' w' \<and>
      sel_fd_size s' = sel_fd_size s \<and> P s' \<and> others_kept s s') \<or> cb key (s, prawtos_view pc) = Inl OutOfBounds"
  shows "(\<exists>s' pc'. lift_callback prawtos_view put_prawtos cb key (s, pc) = Inr (s', pc') \<and> process_inv s' pc' \<and>
      sel_fd_size s' = sel_fd_size s \<and> P s') \<or> (\<exists>e \<in> stops. lift_callback prawtos_view put_prawtos cb key (s, pc) = Inl e)"
  using assms(2) managed_keeps [OF assms(1)] by (auto simp: lift_callback_def)

lemma process_entry_cases:
  assumes "process_inv s pc" "used_at s i" "it_handler (item_at s i) = Some h"
  obtains "h = PRAWTOS \<or> h = PRAWTOS_PASSIVE" | "h = CLIENT"
    | "h \<in> {SOCKS_PASSIVE_IPV4, SOCKS_PASSIVE_IPV6}" "it_interest (item_at s i) = OP_READ"
  using table_invD [of socks_entry s "prawtos_view pc" i] assms by (auto simp: process_inv_def socks_entry_def)

interpretation proc: fd_clients "process_handlers os env" "\<lambda>s pc. os_ok os \<and> process_inv s pc" stops
  for os :: "'o os" and env
proof unfold_locales
  fix s :: sel and pc :: "'o process"
  assume "os_ok os \<and> process_inv s pc"
  then show "wf_selector s" using table_inv_basic(1) by (auto simp: process_inv_def)
next
  fix s :: sel and pc :: "'o process" and i h
  let ?key = "\<lparr>sk_fd = int i, sk_data = it_data (item_at s i)\<rparr>"
  assume a: "os_ok os \<and> process_inv s pc" "used_at s i" "it_handler (item_at s i) = Some h"
  then have t: "os_ok os" "process_inv s pc" "table_inv socks_entry s (prawtos_view pc)" by (simp_all add: process_inv_def)
  show "\<exists>cb. handle_read (process_handlers os env h) = Some cb \<and>
      ((\<exists>s' pc'. cb ?key (s, pc) = Inr (s', pc') \<and> (os_ok os \<and> process_inv s' pc') \<and> sel_fd_size s' = sel_fd_size s \<and>
          (used_at s' i \<longrightarrow> it_data (item_at s' i) = it_data (item_at s i)) \<and> (\<not> used_at s' i \<longrightarrow> it_interest (item_at s' i) = 0)) \<or>
       (\<exists>e \<in> stops. cb ?key (s, pc) = Inl e))" if rd: "OP_READ AND it_interest (item_at s i) \<noteq> 0"
  proof (rule process_entry_cases [OF t(2) a(2,3)])
    assume h: "h = PRAWTOS \<or> h = PRAWTOS_PASSIVE"
    obtain cb where "handle_read (prawtos_handlers os h) = Some cb" "(\<exists>s' w'. cb ?key (s, prawtos_view pc) = Inr (s', w') \<and>
        table_inv socks_entry s' w' \<and> sel_fd_size s' = sel_fd_size s \<and> item_kept i s s' \<and> others_kept s s') \<or>
        cb ?key (s, prawtos_view pc) = Inl OutOfBounds"
      using prawtos_read_safe [OF t(1,3) a(2,3) h rd] by (auto simp: item_kept_def)
    with management_kept [where P = "item_kept i s" and cb = cb and key = ?key, OF t(2) this(2)] h t(1) show ?thesis
      by (auto simp: process_handlers_def lift_handler_def item_kept_def)
  next
    assume "h = CLIENT"
    moreover have "kept i s (lift_callback socks_view put_socks (client_read os env) ?key (s, pc))"
      using socks_callback_kept [OF t(1,2) a(2), of on_read_ready env] a(3) rd \<open>h = CLIENT\<close> by (simp add: client_events ready_def)
    ultimately show ?thesis using t(1) by (auto simp: client_callbacks kept_def item_kept_def)
  next
    assume "h \<in> {SOCKS_PASSIVE_IPV4, SOCKS_PASSIVE_IPV6}"
    then have "handle_read (process_handlers os env h) = Some (lift_callback socks_view put_socks (new_connection os env))"
      by (auto simp: process_handlers_def lift_handler_def socks_handlers_def new_connection_ipv4_def new_connection_ipv6_def)
    with new_connection_kept [OF t(2) a(2), of os env ?key] t(1) show ?thesis by (auto simp: kept_def item_kept_def)
  qed
  show "\<exists>cb. handle_write (process_handlers os env h) = Some cb \<and>
      ((\<exists>s' pc'. cb ?key (s, pc) = Inr (s', pc') \<and> (os_ok os \<and> process_inv s' pc') \<and> sel_fd_size s' = sel_fd_size s) \<or>
       (\<exists>e \<in> stops. cb ?key (s, pc) = Inl e))" if wr: "OP_WRITE AND it_interest (item_at s i) \<noteq> 0"
  proof (rule process_entry_cases [OF t(2) a(2,3)])
    assume h: "h = PRAWTOS \<or> h = PRAWTOS_PASSIVE"
    obtain cb where "handle_write (prawtos_handlers os h) = Some cb" "(\<exists>s' w'. cb ?key (s, prawtos_view pc) = Inr (s', w') \<and>
        table_inv socks_entry s' w' \<and> sel_fd_size s' = sel_fd_size s \<and> True \<and> others_kept s s') \<or> cb ?key (s, prawtos_view pc) = Inl OutOfBounds"
      using prawtos_write_safe [OF t(1,3) a(2,3) h wr] by auto
    with management_kept [where P = "\<lambda>_. True" and cb = cb and key = ?key, OF t(2) this(2)] h t(1) show ?thesis by (auto simp: process_handlers_def lift_handler_def)
  next
    assume "h = CLIENT"
    moreover have "kept i s (lift_callback socks_view put_socks (client_write os env) ?key (s, pc))"
      using socks_callback_kept [OF t(1,2) a(2), of on_write_ready env] a(3) wr \<open>h = CLIENT\<close> by (simp add: client_events ready_def)
    ultimately show ?thesis using t(1) by (auto simp: client_callbacks kept_def item_kept_def)
  qed (use wr in simp)
qed

interpretation proci: idle_clients "process_handlers os env" "\<lambda>s pc. os_ok os \<and> process_inv s pc" stops
  for os :: "'o os" and env
proof unfold_locales
  fix s :: sel and pc :: "'o process"
  assume "os_ok os \<and> process_inv s pc"
  then show "sel_resolution_jobs s = []" using table_inv_basic(4) by (auto simp: process_inv_def)
next
  fix s :: sel and pc :: "'o process" and rs ws
  let ?s = "s\<lparr>sel_slave_r := rs, sel_slave_w := ws\<rparr>"
  assume a: "os_ok os \<and> process_inv s pc"
  have e: "entries b ?s = entries b s" for b by (simp add: entries_def fun_eq_iff)
  have "table_inv socks_entry ?s (prawtos_view pc)"
    using table_inv_cong [of socks_entry s "prawtos_view pc" ?s "prawtos_view pc"] table_inv_basic(1) [of socks_entry s "prawtos_view pc"] a
    by (simp add: process_inv_def)
  then show "os_ok os \<and> process_inv ?s pc" using a e by (simp add: process_inv_def)
qed

lemma start_process_inv:
  assumes "start_inv s" "users_len (e_users e)"
  shows "process_inv s (process_start e)"
proof -
  have l: "(h = Some PRAWTOS_PASSIVE \<or> h = Some SOCKS_PASSIVE_IPV4 \<or> h = Some SOCKS_PASSIVE_IPV6) \<and> x = OP_READ \<and> d = None"
    if "sel_map s i = Some (h, x, d)" for i h x d
    using assms(1) that unfolding start_inv_def by blast
  have "entries a s i = None" for a i
    using l by (fastforce simp: entries_def split: option.splits)
  then have "entries a s = Map.empty" for a by blast
  moreover have "table_inv socks_entry s (prawtos_view (process_start e))"
    unfolding table_inv_def
  proof (intro conjI allI impI)
    fix i h x d
    assume "sel_map s i = Some (h, x, d)"
    from l [OF this] show "socks_entry h x d \<or> h = Some PRAWTOS_PASSIVE \<and> x = OP_READ \<and> d = None \<or>
      h = Some PRAWTOS \<and> (\<exists>a p. d = Some (PrawtosP a) \<and> a < w_next (prawtos_view (process_start e)) \<and>
        w_prawtos (prawtos_view (process_start e)) a = Some p \<and> live_session i x p)"
      by (auto simp: socks_entry_def)
  qed (use assms l in \<open>force simp: start_inv_def prawtos_view_def process_start_def\<close>)+
  ultimately show ?thesis by (simp add: process_inv_def)
qed

section \<open>Properties\<close>

text \<open>
  What \<^const>\<open>process_inv\<close> says of one entry of the table: it is a listener's, or that of the client of a live management
  session, whose interest is the one its state handles, or one of the two descriptors of the live SOCKS session it names. A
  SOCKS session that has not handled its request has only its client's, which waits for what its state handles.
\<close>

definition owned :: "'o process \<Rightarrow> nat \<Rightarrow> handler_id option \<Rightarrow> u32 \<Rightarrow> ptr option \<Rightarrow> bool" where
  "owned pc i h x d \<longleftrightarrow>
     h \<in> {Some SOCKS_PASSIVE_IPV4, Some SOCKS_PASSIVE_IPV6, Some PRAWTOS_PASSIVE} \<and> x = OP_READ \<and> d = None \<or>
     h = Some PRAWTOS \<and> (\<exists>a p. d = Some (PrawtosP a) \<and> pc_prawtos pc a = Some p \<and> live_session i x p) \<or>
     h = Some CLIENT \<and> (\<exists>a p. d = Some (SessionP a) \<and> pc_sessions pc a = Some p \<and> int i \<in> {ss_client_fd p, ss_server_fd p} \<and>
       (case sm_current (ss_stm p) of
          None \<Rightarrow> int i = ss_client_fd p \<and> x = OP_READ
        | Some st \<Rightarrow> st \<in> {HELLO_READ, HELLO_WRITE, REQUEST_READ, REQUEST_CONNECTING, REQUEST_WRITE, COPY} \<and>
            (st \<in> {HELLO_READ, HELLO_WRITE, REQUEST_READ} \<longrightarrow> int i = ss_client_fd p \<and> x = waits st)))"

lemma session_ok_entry:
  assumes "session_ok p E" "E i = Some x"
  shows "int i \<in> {ss_client_fd p, ss_server_fd p}"
    "case sm_current (ss_stm p) of None \<Rightarrow> int i = ss_client_fd p \<and> x = OP_READ
     | Some st \<Rightarrow> st \<in> {HELLO_READ, HELLO_WRITE, REQUEST_READ, REQUEST_CONNECTING, REQUEST_WRITE, COPY} \<and>
         (st \<in> {HELLO_READ, HELLO_WRITE, REQUEST_READ} \<longrightarrow> int i = ss_client_fd p \<and> x = waits st)"
proof -
  let ?st = "case sm_current (ss_stm p) of None \<Rightarrow> HELLO_READ | Some st \<Rightarrow> st"
  have d: "descriptors_in ?st (ss_client_fd p) (ss_server_fd p) E"
    using assms(1) by (auto simp: session_ok_def split: option.splits)
  have i: "i \<in> dom E" using assms(2) by auto
  show "int i \<in> {ss_client_fd p, ss_server_fd p}" using d i unfolding descriptors_in_def by blast
  have early: "int i = ss_client_fd p \<and> x = waits ?st" if "?st \<in> {HELLO_READ, HELLO_WRITE, REQUEST_READ}"
  proof
    show "int i = ss_client_fd p" by (rule early_one [OF d that]) (use i in auto)
    show "x = waits ?st" using d that assms(2) unfolding descriptors_in_def by blast
  qed
  show "case sm_current (ss_stm p) of None \<Rightarrow> int i = ss_client_fd p \<and> x = OP_READ
     | Some st \<Rightarrow> st \<in> {HELLO_READ, HELLO_WRITE, REQUEST_READ, REQUEST_CONNECTING, REQUEST_WRITE, COPY} \<and>
         (st \<in> {HELLO_READ, HELLO_WRITE, REQUEST_READ} \<longrightarrow> int i = ss_client_fd p \<and> x = waits st)"
    using assms(1) early by (cases "sm_current (ss_stm p)") (simp_all add: session_ok_def)
qed

lemma process_owned:
  assumes "process_inv s pc" "sel_map s i = Some (h, x, d)"
  shows "owned pc i h x d"
proof -
  have t: "table_inv socks_entry s (prawtos_view pc)" using assms(1) by (simp add: process_inv_def)
  from t assms(2) show ?thesis
  proof (rule table_inv_entry)
    assume e: "socks_entry h x d"
    show ?thesis
    proof (cases "h = Some CLIENT")
      case True
      then obtain a where a: "d = Some (SessionP a)" using e by (auto simp: socks_entry_def)
      then have "entries a s i = Some x" using True assms(2) by (simp add: entries_map)
      moreover from this obtain p where "pc_sessions pc a = Some p" "session_ok p (entries a s)"
        using assms(1) unfolding process_inv_def by (metis option.distinct(1))
      ultimately show ?thesis using True a session_ok_entry unfolding owned_def by blast
    qed (use e in \<open>auto simp: socks_entry_def owned_def\<close>)
  qed (auto simp: owned_def prawtos_view_def)
qed

text \<open>
  C3: every descriptor the process serves has an owner. From the state \<^const>\<open>main_start\<close> ends in, with the arguments of any
  command line, for every operating system that keeps its contract, every log environment and every sequence of results of
  \<^verbatim>\<open>pselect\<close>: whatever the clients of both services do, the whole loop of \<^verbatim>\<open>main\<close> over the handlers of the process keeps
  \<^const>\<open>process_inv\<close>, so each registered descriptor is \<^const>\<open>owned\<close>: it is a listener's, or the client's of a live management
  session, waiting for what the state of that session handles, or it is the client's or the destination's of the live SOCKS session
  it names. Until a SOCKS session has handled its request its only descriptor is its client's, and that waits for exactly the
  event the state of the session handles. Of the interests of the later states, connecting, replying and copying, only the ownership
  is stated: an event the state does not handle can reach them, and then aborts the process. The loop ends early only by
  \<^verbatim>\<open>abort\<close>, an access out of bounds or the use of a session that was freed, never through a null handler, a null
  pointer or a failed assertion.
\<close>

theorem process_stays_typed:
  assumes "os_ok os" "parse_args opts left = Inr (Go args)" "main_start os args m a o0 = Inr (Go (s, e))"
  shows "case serve (process_handlers os env) rs s (process_start e) of
    Inl f \<Rightarrow> f \<in> {Abort, OutOfBounds, UseAfterFree}
  | Inr (s', pc') \<Rightarrow> process_inv s' pc' \<and> (\<forall>i h x d. sel_map s' i = Some (h, x, d) \<longrightarrow> owned pc' i h x d)"
proof -
  have "start_inv s" "e_users e = default_users"
    using main_start_cases [OF initialize_users_default [OF parse_args_user_count [OF assms(2)]], of os m a o0] assms(3)
    by auto
  then have "process_inv s (process_start e)" using start_process_inv default_users_len by metis
  then have "case serve (process_handlers os env) rs s (process_start e) of
    Inl f \<Rightarrow> f \<in> {Abort, OutOfBounds, UseAfterFree} | Inr (s', pc') \<Rightarrow> process_inv s' pc'"
    using proci.serve_safe [of os s "process_start e" env rs] assms(1) by (auto simp: stops_def)
  then show ?thesis using process_owned by (fastforce split: sum.splits)
qed

theorem process_stays_typed_witness:
  "\<exists>s e. main_start script_os default_args 0 0 ([- 1, - 1, 7], [[1, 1, 97, 1, 98]], []) = Inr (Go (s, e)) \<and>
     (case serve (process_handlers script_os example_env) [Ready {7} {}, Failed EINTR] s (process_start e) of
        Inl f \<Rightarrow> f \<in> {Abort, OutOfBounds, UseAfterFree}
      | Inr (s', pc') \<Rightarrow> process_inv s' pc' \<and> (\<forall>i h x d. sel_map s' i = Some (h, x, d) \<longrightarrow> owned pc' i h x d))"
proof -
  from script_start obtain s e where m: "main_start script_os default_args 0 0 ([- 1, - 1, 7], [[1, 1, 97, 1, 98]], []) = Inr (Go (s, e))"
    by blast
  have "parse_args [] False = Inr (Go default_args)" by (simp add: parse_args_def)
  from process_stays_typed [OF script_os_ok this m] m show ?thesis by blast
qed

end
