(* ===== verification/Coexistence.thy ===== *)
theory Coexistence
  imports Ownership
begin

text \<open>
  The management service in a process that also serves SOCKS sessions: as long as only management descriptors are ready, the
  SOCKS sessions stay exactly as they are, and the process goes on.
\<close>

unbundle bit_operations_syntax

section \<open>What the management handlers leave alone\<close>

abbreviation framed_pworld :: "'o pworld \<Rightarrow> (nat \<times> 'o pworld) res \<Rightarrow> bool" where
  "framed_pworld w m \<equiv> framed (\<lambda>(_, w'). pw_sel w') (pw_sel w) m"

lemma auth_prawtos_framed: "framed_pworld w (auth_prawtos_read os key w)" "framed_pworld w (auth_prawtos_write os key w)"
  unfolding auth_prawtos_read_def auth_prawtos_write_def Let_def by (rule framed_rules framed_other | simp)+

lemma cmd_framed: "framed_pworld w (cmd_read os key w)" "framed_pworld w (cmd_write os key w)"
  unfolding cmd_read_def cmd_write_def Let_def by (rule framed_rules framed_other | simp)+

interpretation prawtos_machine: framed_states "prawtos_init_states os" pw_sel
  for os
proof unfold_locales
  fix d :: "(key, 'a pworld) state_definition" and on_ready cb key w st
  assume d: "d \<in> set (prawtos_init_states os)"
  show "framed_pworld w (cb key w)" if "on_ready \<in> {on_read_ready, on_write_ready}" "on_ready d = Some cb"
    using d that by (auto simp: prawtos_init_states_def no_state_def auth_prawtos_framed cmd_framed)
  show "framed pw_sel (pw_sel w) (run_hook (on_arrival d) st key w)" "on_departure d = None"
    using d by (auto simp: prawtos_init_states_def no_state_def framed_def auth_prawtos_init_def cmd_init_def Let_def)
qed

lemma prawtos_close_sel: "prawtos_close key (s, w) = Inr (s', w') \<Longrightarrow> s' = s"
  by (simp add: prawtos_close_def Let_def)

lemma prawtos_done_frame:
  assumes "prawtos_done os key (s, w) = Inr (s', w')"
  shows "sel_frame s s'"
proof -
  have c: "sel_frame s s'" if "call_close close_callbacks h key s w = Inr (s', w')" for h key s w s' w'
    using that by (auto simp: call_close_def close_callbacks_def res_simps split: if_splits dest: prawtos_close_sel)
  from assms show ?thesis
    by (auto simp: prawtos_done_def res_simps case_prod_unfold Let_def split: if_splits dest!: unregister_frame [OF _ c])
qed

lemma prawtos_event_frame:
  assumes "prawtos_event os (stm_event on_ready) key (s, w) = Inr (s', w')" "on_ready \<in> {on_read_ready, on_write_ready}"
  shows "sel_frame s s'"
proof -
  obtain a p where d: "deref_prawtos key w = Inr (a, p)" using assms(1) by (auto simp: prawtos_event_def res_simps)
  let ?w = "\<lparr>pw_self = p, pw_sel = s, pw_env = w_env w\<rparr>"
  obtain st stm w1 where e: "stm_event on_ready (prawtos_init_states os) (pr_stm p) key ?w = Inr (st, stm, w1)"
    using assms(1) d by (auto simp: prawtos_event_def res_simps)
  have "sel_frame s (pw_sel w1)"
    using prawtos_machine.event_framed [OF assms(2), of ?w os "pr_stm p" key] e by (simp add: framed_def)
  then show ?thesis
    using assms(1) d e prawtos_done_frame frame_trans by (fastforce simp: prawtos_event_def Let_def split: if_splits)
qed

lemma accept_error_framed [framed_rules]: "sel_frame s0 s \<Longrightarrow> framed fst s0 (accept_error os c key (s, w))"
  by (auto simp: framed_def accept_error_def Let_def dest: prawtos_close_sel)

lemma prawtos_passive_accept_frame: "framed fst s (prawtos_passive_accept os key (s, w))"
  unfolding prawtos_passive_accept_def Let_def by (rule framed_rules framed_other | simp)+

lemma prawtos_handlers_frame:
  assumes "handle_read (prawtos_handlers os h) = Some cb \<or> handle_write (prawtos_handlers os h) = Some cb"
    and "cb key (s, w) = Inr (s', w')"
  shows "sel_frame s s'"
  using assms prawtos_passive_accept_frame [of s os key w]
  by (auto simp: prawtos_handlers_def prawtos_read_def prawtos_write_def stm_handler_read_def stm_handler_write_def framed_def
      split: handler_id.splits dest: prawtos_event_frame)

section \<open>The SOCKS side at rest\<close>

definition socks_fds :: "sel \<Rightarrow> int set" where
  "socks_fds s = {int i | i. \<exists>h x d. sel_map s i = Some (h, x, d) \<and> socks_entry h x d}"

definition others :: "sel \<Rightarrow> nat \<Rightarrow> (handler_id option \<times> u32 \<times> ptr option) option" where
  "others s i = (if managed (sel_map s i) then None else sel_map s i)"

text \<open>Everything that is not the management service's is as it was: the entries, the sessions and the log.\<close>

definition same_socks :: "sel \<Rightarrow> 'o process \<Rightarrow> sel \<Rightarrow> 'o process \<Rightarrow> bool" where
  "same_socks s pc s' pc' \<longleftrightarrow> others s' = others s \<and> pc_sessions pc' = pc_sessions pc \<and>
     pc_sessions_next pc' = pc_sessions_next pc \<and> pc_log pc' = pc_log pc"

lemma others_kept_same: "others_kept s s' \<Longrightarrow> others s' = others s"
  by (force simp: others_kept_def others_def fun_eq_iff)

lemma socks_fds_others: "others s' = others s \<Longrightarrow> socks_fds s' = socks_fds s"
proof -
  have "(\<exists>h x d. sel_map s i = Some (h, x, d) \<and> socks_entry h x d) \<longleftrightarrow> (\<exists>h x d. others s i = Some (h, x, d) \<and> socks_entry h x d)" for s i
    by (auto simp: others_def managed_def socks_entry_def)
  then show "others s' = others s \<Longrightarrow> socks_fds s' = socks_fds s" by (simp add: socks_fds_def)
qed

text \<open>\<open>at_rest os s0 pc0\<close>: the SOCKS side is as in \<open>s0\<close> and \<open>pc0\<close>; \<open>quiet\<close>: no descriptor of it is ready either.\<close>

definition at_rest :: "'o os \<Rightarrow> sel \<Rightarrow> 'o process \<Rightarrow> sel \<Rightarrow> 'o process \<Rightarrow> bool" where
  "at_rest os s0 pc0 s pc \<longleftrightarrow> os_ok os \<and> process_inv s pc \<and> same_socks s0 pc0 s pc"

definition quiet :: "'o os \<Rightarrow> sel \<Rightarrow> 'o process \<Rightarrow> sel \<Rightarrow> 'o process \<Rightarrow> bool" where
  "quiet os s0 pc0 s pc \<longleftrightarrow> at_rest os s0 pc0 s pc \<and> socks_fds s0 \<inter> (sel_slave_r s \<union> sel_slave_w s) = {}"

lemma others_slaves [simp]: "others (s\<lparr>sel_slave_r := rs, sel_slave_w := ws\<rparr>) = others s"
  by (simp add: others_def fun_eq_iff)

lemma at_rest_slaves: "at_rest os s0 pc0 s pc \<Longrightarrow> at_rest os s0 pc0 (s\<lparr>sel_slave_r := rs, sel_slave_w := ws\<rparr>) pc"
  using proci.slaves [of os s pc ws rs] by (simp add: at_rest_def same_socks_def)

lemma quiet_entry:
  assumes "quiet os s0 pc0 s pc" "used_at s i" "int i \<in> sel_slave_r s \<union> sel_slave_w s" "it_handler (item_at s i) = Some h"
  shows "h = PRAWTOS \<or> h = PRAWTOS_PASSIVE"
proof -
  have t: "process_inv s pc" "others s = others s0" "int i \<notin> socks_fds s0"
    using assms(1,3) unfolding quiet_def at_rest_def same_socks_def by blast+
  have "int i \<notin> socks_fds s" using t(3) socks_fds_others [OF t(2)] by blast
  then have "\<not> socks_entry (it_handler (item_at s i)) (it_interest (item_at s i)) (it_data (item_at s i))"
    using assms(2) by (auto simp: socks_fds_def sel_map_def)
  then show ?thesis using table_invD [of socks_entry s "prawtos_view pc" i] t(1) assms(2,4) by (auto simp: process_inv_def)
qed

text \<open>A callback of the management service.\<close>

lemma managed_quiet:
  assumes "quiet os s0 pc0 s pc" "cb key (s, prawtos_view pc) = Inr (s', w')" "table_inv socks_entry s' w'" "others_kept s s'"
    and "handle_read (prawtos_handlers os h) = Some cb \<or> handle_write (prawtos_handlers os h) = Some cb"
  shows "lift_callback prawtos_view put_prawtos cb key (s, pc) = Inr (s', put_prawtos w' pc) \<and> quiet os s0 pc0 s' (put_prawtos w' pc)"
proof -
  have "sel_frame s s'" using prawtos_handlers_frame [OF assms(5,2)] .
  moreover have "process_inv s' (put_prawtos w' pc)"
    using managed_keeps [OF _ assms(3,4)] assms(1) by (simp add: quiet_def at_rest_def)
  ultimately show ?thesis
    using assms(1,2) others_kept_same [OF assms(4)]
    by (simp add: quiet_def at_rest_def same_socks_def sel_frame_def put_prawtos_def lift_callback_def)
qed

interpretation resting: fd_clients "process_handlers os env" "quiet os s0 pc0" "{OutOfBounds}"
  for os :: "'o os" and env s0 pc0
proof unfold_locales
  fix s :: sel and pc :: "'o process"
  assume "quiet os s0 pc0 s pc"
  then show "wf_selector s" using proc.inv_wf by (auto simp: quiet_def at_rest_def)
next
  fix s :: sel and pc :: "'o process" and i h
  let ?key = "\<lparr>sk_fd = int i, sk_data = it_data (item_at s i)\<rparr>"
  assume a: "quiet os s0 pc0 s pc" "used_at s i" "it_handler (item_at s i) = Some h"
  then have t: "os_ok os" "table_inv socks_entry s (prawtos_view pc)" by (simp_all add: quiet_def at_rest_def process_inv_def)
  have lift: "process_handlers os env h = lift_handler prawtos_view put_prawtos (prawtos_handlers os h)"
    if "h = PRAWTOS \<or> h = PRAWTOS_PASSIVE" using that by (auto simp: process_handlers_def)
  show "\<exists>cb. handle_read (process_handlers os env h) = Some cb \<and>
      ((\<exists>s' pc'. cb ?key (s, pc) = Inr (s', pc') \<and> quiet os s0 pc0 s' pc' \<and> sel_fd_size s' = sel_fd_size s \<and>
          (used_at s' i \<longrightarrow> it_data (item_at s' i) = it_data (item_at s i)) \<and> (\<not> used_at s' i \<longrightarrow> it_interest (item_at s' i) = 0)) \<or>
       (\<exists>e \<in> {OutOfBounds}. cb ?key (s, pc) = Inl e))"
    if rd: "int i \<in> sel_slave_r s" "OP_READ AND it_interest (item_at s i) \<noteq> 0"
  proof -
    have h: "h = PRAWTOS \<or> h = PRAWTOS_PASSIVE" using quiet_entry [OF a(1,2) _ a(3)] rd(1) by blast
    obtain cb where cb: "handle_read (prawtos_handlers os h) = Some cb" "(\<exists>s' w'. cb ?key (s, prawtos_view pc) = Inr (s', w') \<and>
        table_inv socks_entry s' w' \<and> sel_fd_size s' = sel_fd_size s \<and> item_kept i s s' \<and> others_kept s s') \<or>
        cb ?key (s, prawtos_view pc) = Inl OutOfBounds"
      using prawtos_read_safe [OF t a(2,3) h rd(2)] by (auto simp: item_kept_def)
    moreover have "lift_callback prawtos_view put_prawtos cb ?key (s, pc) = Inl OutOfBounds"
      if "cb ?key (s, prawtos_view pc) = Inl OutOfBounds" using that by (simp add: lift_callback_def)
    ultimately show ?thesis
      using managed_quiet [OF a(1)] by (auto simp: lift [OF h] lift_handler_def item_kept_def) blast+
  qed
  show "\<exists>cb. handle_write (process_handlers os env h) = Some cb \<and>
      ((\<exists>s' pc'. cb ?key (s, pc) = Inr (s', pc') \<and> quiet os s0 pc0 s' pc' \<and> sel_fd_size s' = sel_fd_size s) \<or>
       (\<exists>e \<in> {OutOfBounds}. cb ?key (s, pc) = Inl e))"
    if wr: "int i \<in> sel_slave_w s" "OP_WRITE AND it_interest (item_at s i) \<noteq> 0"
  proof -
    have h: "h = PRAWTOS \<or> h = PRAWTOS_PASSIVE" using quiet_entry [OF a(1,2) _ a(3)] wr(1) by blast
    obtain cb where cb: "handle_write (prawtos_handlers os h) = Some cb" "(\<exists>s' w'. cb ?key (s, prawtos_view pc) = Inr (s', w') \<and>
        table_inv socks_entry s' w' \<and> sel_fd_size s' = sel_fd_size s \<and> others_kept s s') \<or> cb ?key (s, prawtos_view pc) = Inl OutOfBounds"
      using prawtos_write_safe [OF t a(2,3) h wr(2)] by auto
    moreover have "lift_callback prawtos_view put_prawtos cb ?key (s, pc) = Inl OutOfBounds"
      if "cb ?key (s, prawtos_view pc) = Inl OutOfBounds" using that by (simp add: lift_callback_def)
    ultimately show ?thesis using managed_quiet [OF a(1)] by (auto simp: lift [OF h] lift_handler_def) blast+
  qed
qed

section \<open>Rounds\<close>

text \<open>No descriptor of the SOCKS side is ready.\<close>

fun quiet_round :: "sel \<Rightarrow> select_result \<Rightarrow> bool" where
  "quiet_round s (Ready rs ws) \<longleftrightarrow> socks_fds s \<inter> (rs \<union> ws) = {}"
| "quiet_round s (Failed e) \<longleftrightarrow> True"

lemma round_at_rest:
  assumes "at_rest os s0 pc0 s pc" "quiet_round s0 r"
  shows "(\<exists>st s' pc'. selector_select (process_handlers os env) r s pc = Inr (st, s', pc') \<and> at_rest os s0 pc0 s' pc') \<or>
    selector_select (process_handlers os env) r s pc = Inl OutOfBounds"
proof -
  have jobs: "sel_resolution_jobs s = []" if "quiet os s0 pc0 s pc" for s pc
    using that proci.no_jobs [of os s pc] by (simp add: quiet_def at_rest_def)
  show ?thesis
  proof (cases r)
    case (Ready rs ws)
    with at_rest_slaves [OF assms(1)] assms(2) have q: "quiet os s0 pc0 (s\<lparr>sel_slave_r := rs, sel_slave_w := ws\<rparr>) pc"
      by (simp add: quiet_def)
    have "(\<exists>s' w'. selector_select (process_handlers os env) (Ready rs ws) s pc = Inr (SELECTOR_SUCCESS, s', w') \<and>
        quiet os s0 pc0 s' w' \<and> sel_fd_size s' = sel_fd_size s) \<or>
        (\<exists>e \<in> {OutOfBounds}. selector_select (process_handlers os env) (Ready rs ws) s pc = Inl e)"
      by (rule resting.round_safe [OF q]) (rule jobs)
    with Ready show ?thesis by (auto simp: quiet_def)
  next
    case (Failed e)
    have i: "at_rest os s0 pc0 (s\<lparr>sel_slave_r := sel_master_r s, sel_slave_w := sel_master_w s\<rparr>) pc"
      by (rule at_rest_slaves [OF assms(1)])
    have "sel_resolution_jobs s = []" using assms(1) proci.no_jobs [of os s pc] by (simp add: at_rest_def)
    with i Failed show ?thesis by (cases e) (simp_all add: selector_select_def notifications_idle Let_def)
  qed
qed

lemma serve_at_rest:
  assumes "at_rest os s0 pc0 s pc" "\<forall>r \<in> set rs. quiet_round s0 r"
  shows "(\<exists>s' pc'. serve (process_handlers os env) rs s pc = Inr (s', pc') \<and> at_rest os s0 pc0 s' pc') \<or>
    serve (process_handlers os env) rs s pc = Inl OutOfBounds"
  using assms
proof (induction rs arbitrary: s pc)
  case (Cons r rs)
  from round_at_rest [OF Cons.prems(1), of r env] Cons.prems(2)
  consider st s1 pc1 where "selector_select (process_handlers os env) r s pc = Inr (st, s1, pc1)" "at_rest os s0 pc0 s1 pc1"
    | "selector_select (process_handlers os env) r s pc = Inl OutOfBounds" by auto
  then show ?case using Cons by cases auto
qed simp

section \<open>A process with a session that copies and a management listener\<close>

lemma shared_selector:
  "\<exists>s :: sel. wf_selector s \<and> sel_fd_size s = ITEMS_MAX_SIZE + 1 \<and> sel_resolution_jobs s = [] \<and>
     sel_map s = [4 \<mapsto> (Some PRAWTOS_PASSIVE, OP_READ, None), 7 \<mapsto> (Some CLIENT, OP_READ, Some (SessionP 0)),
       8 \<mapsto> (Some CLIENT, OP_READ, Some (SessionP 0))]"
proof -
  obtain s0 :: sel where s0: "wf_selector s0" "sel_map s0 = Map.empty" "sel_fd_size s0 = ITEMS_MAX_SIZE + 1" "sel_resolution_jobs s0 = []"
    using new_full by blast
  then obtain s1 :: sel where s1: "wf_selector s1" "sel_map s1 = [4 \<mapsto> (Some PRAWTOS_PASSIVE, OP_READ, None)]"
    "sel_fd_size s1 = ITEMS_MAX_SIZE + 1" "sel_resolution_jobs s1 = []"
    using register_core [OF s0(1), of 4 "Some PRAWTOS_PASSIVE" True OP_READ None] by (auto simp: used_at_map ITEMS_MAX_SIZE_def)
  then obtain s2 where s2: "wf_selector s2" "sel_fd_size s2 = ITEMS_MAX_SIZE + 1" "sel_resolution_jobs s2 = []"
    "sel_map s2 = [4 \<mapsto> (Some PRAWTOS_PASSIVE, OP_READ, None), 7 \<mapsto> (Some CLIENT, OP_READ, Some (SessionP 0))]"
    using register_core [OF s1(1), of 7 "Some CLIENT" True OP_READ "Some (SessionP 0)"] by (auto simp: used_at_map ITEMS_MAX_SIZE_def)
  then show ?thesis
    using register_core [OF s2(1), of 8 "Some CLIENT" True OP_READ "Some (SessionP 0)"] by (auto simp: used_at_map ITEMS_MAX_SIZE_def)
qed

definition shared_process :: "script \<Rightarrow> script process" where
  "shared_process st = (example_process st)\<lparr>pc_sessions := [0 \<mapsto> copying_session], pc_sessions_next := 1\<rparr>"

lemma copying_session_ok: "session_ok copying_session [7 \<mapsto> OP_READ, 8 \<mapsto> OP_READ]"
  using inert_session_05
  by (auto simp: session_ok_def copying_session_def Let_def descriptors_in_def socks_states)

lemma shared_inv:
  assumes "wf_selector s" "sel_fd_size s = ITEMS_MAX_SIZE + 1" "sel_resolution_jobs s = []"
    and m: "sel_map s = [4 \<mapsto> (Some PRAWTOS_PASSIVE, OP_READ, None), 7 \<mapsto> (Some CLIENT, OP_READ, Some (SessionP 0)),
       8 \<mapsto> (Some CLIENT, OP_READ, Some (SessionP 0))]"
  shows "process_inv s (shared_process st)"
proof -
  have "entries a s = (if a = 0 then [7 \<mapsto> OP_READ, 8 \<mapsto> OP_READ] else Map.empty)" for a
    by (auto simp: entries_def m fun_eq_iff)
  moreover have "table_inv socks_entry s (prawtos_view (shared_process st))"
    using assms default_users_len
    by (auto simp: table_inv_def socks_entry_def prawtos_view_def shared_process_def example_process_def process_start_def split: if_splits)
  ultimately show ?thesis
    using copying_session_ok by (simp add: process_inv_def shared_process_def example_process_def process_start_def)
qed

section \<open>Properties\<close>

text \<open>
  C4: the management service neither stops nor disturbs the SOCKS sessions. In any state of the process that keeps
  \<^const>\<open>process_inv\<close>, for every operating system that keeps its contract and any number of rounds in which no SOCKS
  descriptor is ready, whatever the management clients send: the loop of \<^verbatim>\<open>main\<close> goes on, except for an access out
  of bounds, keeps \<^const>\<open>process_inv\<close>, and leaves every SOCKS session, its registered descriptors with their interest, the
  listeners and the log exactly as they were.
\<close>

theorem management_beside_socks:
  assumes "os_ok os" "process_inv s pc" "\<forall>r \<in> set rs. quiet_round s r"
  shows "(\<exists>s' pc'. serve (process_handlers os env) rs s pc = Inr (s', pc') \<and> process_inv s' pc' \<and> same_socks s pc s' pc') \<or>
    serve (process_handlers os env) rs s pc = Inl OutOfBounds"
  using serve_at_rest [of os s pc s pc rs env] assms by (auto simp: at_rest_def same_socks_def)

theorem management_beside_socks_witness:
  "\<exists>s. others s 7 = Some (Some CLIENT, OP_READ, Some (SessionP 0)) \<and>
     ((\<exists>s' pc'. serve (process_handlers script_os example_env) [Ready {4} {}, Ready {9} {}, Failed EINTR] s
           (shared_process ([9], [[1, 1, 97, 1, 98]], [])) = Inr (s', pc') \<and>
         process_inv s' pc' \<and> same_socks s (shared_process ([9], [[1, 1, 97, 1, 98]], [])) s' pc') \<or>
      serve (process_handlers script_os example_env) [Ready {4} {}, Ready {9} {}, Failed EINTR] s
        (shared_process ([9], [[1, 1, 97, 1, 98]], [])) = Inl OutOfBounds)"
proof -
  obtain s :: sel where s: "wf_selector s" "sel_fd_size s = ITEMS_MAX_SIZE + 1" "sel_resolution_jobs s = []"
    "sel_map s = [4 \<mapsto> (Some PRAWTOS_PASSIVE, OP_READ, None), 7 \<mapsto> (Some CLIENT, OP_READ, Some (SessionP 0)),
       8 \<mapsto> (Some CLIENT, OP_READ, Some (SessionP 0))]" using shared_selector by blast
  have "socks_fds s \<subseteq> {7, 8}" using s(4) by (auto simp: socks_fds_def socks_entry_def split: if_splits)
  then have q: "\<forall>r \<in> set [Ready {4} {}, Ready {9} {}, Failed EINTR]. quiet_round s r" by auto
  have "others s 7 = Some (Some CLIENT, OP_READ, Some (SessionP 0))" using s(4) by (simp add: others_def managed_def)
  with management_beside_socks [OF script_os_ok shared_inv [OF s] q, of example_env] show ?thesis by blast
qed

end
