(* ===== verification/Client.thy ===== *)
theory Client
  imports Register
begin

text \<open>
  The management client, \<^verbatim>\<open>client/client.c\<close>: a program of its own that connects to the management port,
  signs in and offers a menu.

  Its sockets block, so a call of \<^verbatim>\<open>recv\<close> stands for the whole wait. The terminal is the list of the bytes
  that will be typed and the list of what was shown, without the text of the menu, line breaks and error messages before
  an exit. Local arrays and heap blocks are not initialised:
  their contents are an argument \<open>junk\<close>, by the name of the variable. \<^verbatim>\<open>malloc\<close> and \<^verbatim>\<open>realloc\<close> succeed where the
  code does not look at their result. A function the code may never return from has an optional
  result, \<^const>\<open>None\<close> when it does not return.
\<close>

unbundle bit_operations_syntax

section \<open>The terminal and the socket\<close>

datatype shown = Msg string | Count string u64 | Name "u8 list"

record 'o client =
  cl_os :: 'o
  cl_in :: "u8 list"
  cl_out :: "shown list"
  cl_done :: bool

definition CREDENTIALS_SIZE :: nat where "CREDENTIALS_SIZE = 255"
definition CANT_OPTIONS :: int where "CANT_OPTIONS = 10"

definition say :: "shown \<Rightarrow> 'o client \<Rightarrow> 'o client" where
  "say x cl = cl\<lparr>cl_out := cl_out cl @ [x]\<rparr>"

text \<open>
  \<^verbatim>\<open>scanf("%s", block)\<close>: white space is skipped, the word is stored with a NUL; at the end of the input
  nothing is stored.
\<close>

definition scan_word :: "u8 list \<Rightarrow> 'o client \<Rightarrow> (u8 list \<times> 'o client) res" where
  "scan_word block cl =
     (let rest = dropWhile isspace (cl_in cl); word = takeWhile (\<lambda>c. \<not> isspace c) rest;
          cl1 = cl\<lparr>cl_in := dropWhile (\<lambda>c. \<not> isspace c) rest\<rparr> in
      if word = [] then Inr (block, cl1) else bindr (blit block 0 (word @ [0])) (\<lambda>b. Inr (b, cl1)))"

text \<open>\<^verbatim>\<open>recv(fd, block, n, 0)\<close> and \<^verbatim>\<open>send(fd, bytes, ...)\<close>, whose result the client ignores.\<close>

definition recv_into :: "'o os \<Rightarrow> int \<Rightarrow> u8 list \<Rightarrow> nat \<Rightarrow> 'o client \<Rightarrow> (int \<times> u8 list \<times> 'o client) res" where
  "recv_into os fd block n cl =
     (case os_recv os (cl_os cl) fd n of
        (None, st) \<Rightarrow> Inr (- 1, block, cl\<lparr>cl_os := st\<rparr>)
      | (Some xs, st) \<Rightarrow> bindr (blit block 0 xs) (\<lambda>b. Inr (int (length xs), b, cl\<lparr>cl_os := st\<rparr>)))"

definition send_all :: "'o os \<Rightarrow> int \<Rightarrow> u8 list \<Rightarrow> 'o client \<Rightarrow> 'o client" where
  "send_all os fd bytes cl = cl\<lparr>cl_os := snd (os_send os (cl_os cl) fd bytes)\<rparr>"

text \<open>\<^verbatim>\<open>atoi\<close>: \<^verbatim>\<open>strtol\<close> cut to an \<^verbatim>\<open>int\<close>.\<close>

definition atoi :: "u8 list \<Rightarrow> int res" where
  "atoi s = (let (v, end, _) = strtol s in bindr (peek_at s end) (\<lambda>_. Inr (sint (of_int v :: u32))))"

section \<open>Connecting\<close>

definition htons :: "u16 \<Rightarrow> u8 list" where
  "htons p = [ucast (drop_bit 8 p), ucast p]"

text \<open>The error number \<^verbatim>\<open>EINTR\<close> of Linux.\<close>

definition EINTR_errno :: int where "EINTR_errno = 4"

partial_function (option) connect_loop :: "'o os \<Rightarrow> int \<Rightarrow> u8 list \<Rightarrow> 'o \<Rightarrow> (bool \<times> 'o) option" where
  "connect_loop os sock addr st =
     (case os_connect os st sock addr of
        (None, st1) \<Rightarrow> Some (True, st1)
      | (Some errno, st1) \<Rightarrow> if errno \<noteq> EINTR_errno then connect_loop os sock addr st1 else Some (False, st1))"

text \<open>The common part of the two functions, after the address is filled in.\<close>

definition connect_sock :: "'o os \<Rightarrow> int \<Rightarrow> u8 list \<Rightarrow> 'o \<Rightarrow> (int \<times> 'o) option" where
  "connect_sock os sock addr st =
     (case connect_loop os sock addr st of
        None \<Rightarrow> None
      | Some (True, st1) \<Rightarrow> Some (sock, st1)
      | Some (False, st1) \<Rightarrow> Some (- 1, snd (os_close os st1 sock)))"

definition connect_by_ipv4 :: "'o os \<Rightarrow> u8 list \<Rightarrow> u8 list \<Rightarrow> 'o \<Rightarrow> (int \<times> 'o) option" where
  "connect_by_ipv4 os ip nport st =
     (let (sock, st1) = os_socket os st 2 in
      if sock = - 1 then Some (- 1, st1)
      else connect_sock os sock ([2, 0] @ nport @ ip @ replicate 8 0) st1)"

definition connect_by_ipv6 :: "'o os \<Rightarrow> u8 list \<Rightarrow> u8 list \<Rightarrow> 'o \<Rightarrow> (int \<times> 'o) option" where
  "connect_by_ipv6 os ip nport st =
     (let (sock, st1) = os_socket os st 10 in
      if sock = - 1 then Some (- 1, st1)
      else connect_sock os sock ([10, 0] @ nport @ replicate 4 0 @ ip @ replicate 4 0) st1)"

section \<open>Signing in\<close>

text \<open>\<^verbatim>\<open>buff\<close> is the static format, \<^verbatim>\<open>"%"\<close> at first.\<close>

definition buff_init :: "u8 list" where
  "buff_init = [37, 0, 0, 0, 0, 0]"

definition clean_buffer :: "u8 list \<Rightarrow> u8 list res" where
  "clean_buffer buff =
     bindr (blit buff 1 (snprintf_bytes (6 - 2) (dec CREDENTIALS_SIZE))) (\<lambda>b1.
     bindr (c_strlen b1) (\<lambda>buff_len.
     bindr (poke_at b1 buff_len 115) (\<lambda>b2.
     poke_at b2 (buff_len + 1) 0)))"

definition welcome_client :: "'o client \<Rightarrow> 'o client" where
  "welcome_client cl = say (Msg ''Please sign in with your credentials'') (say (Msg ''Welcome to the Prawtos client!'') cl)"

text \<open>The user name and the password of one round: typed, or those of the command line.\<close>

definition read_credentials ::
  "socks5args \<Rightarrow> u8 list \<Rightarrow> u8 list \<Rightarrow> 'o client \<Rightarrow> (u8 list \<times> u8 list \<times> 'o client) res" where
  "read_credentials args name_buffer password_buffer cl =
     bindr (peek_at (sa_users args) 0) (\<lambda>u.
     case (usr_name u, usr_pass u) of
       (Some name, Some pass) \<Rightarrow>
         bindr (c_strcpy name_buffer 0 name) (\<lambda>nb.
         bindr (c_strcpy nb 0 pass) (\<lambda>nb1. Inr (nb1, password_buffer, cl)))
     | _ \<Rightarrow>
         bindr (scan_word name_buffer (say (Msg ''Username: '') cl)) (\<lambda>(nb, cl1).
         bindr (scan_word password_buffer (say (Msg ''Password: '') cl1)) (\<lambda>(pb, cl2). Inr (nb, pb, cl2))))"

definition login_message :: "junk \<Rightarrow> u8 list \<Rightarrow> u8 list \<Rightarrow> u8 list res" where
  "login_message junk name_buffer password_buffer =
     bindr (c_strlen name_buffer) (\<lambda>name_len.
     bindr (c_strlen password_buffer) (\<lambda>password_len.
     bindr (poke_at (array junk ''message'' (3 + name_len + password_len + 1)) 0 0x01) (\<lambda>m1.
     bindr (poke_at m1 1 (of_nat name_len)) (\<lambda>m2.
     bindr (c_strcpy m2 2 name_buffer) (\<lambda>m3.
     bindr (poke_at m3 (2 + name_len) (of_nat password_len)) (\<lambda>m4.
     bindr (c_strcpy m4 (name_len + 3) password_buffer) (\<lambda>m5.
     read_cells m5 0 (3 + name_len + password_len))))))))"

definition login_round ::
  "'o os \<Rightarrow> junk \<Rightarrow> int \<Rightarrow> socks5args \<Rightarrow> u8 list \<Rightarrow> u8 list \<Rightarrow> 'o client
     \<Rightarrow> (bool \<times> u8 list \<times> u8 list \<times> 'o client) run res" where
  "login_round os junk fd args name_buffer password_buffer cl =
     bindr (read_credentials args name_buffer password_buffer cl) (\<lambda>(nb, pb, cl1).
     bindr (login_message junk nb pb) (\<lambda>message.
     bindr (recv_into os fd (array junk ''answer'' 2) 2 (send_all os fd message cl1)) (\<lambda>(n, answer, cl2).
     bindr (peek_at answer 1) (\<lambda>a.
     if a = 0x00 then Inr (Go (True, nb, pb, say (Msg ''Successful connection'') cl2))
     else if a = 0x01 \<or> a = 0x02 \<or> a = 0x03 then Inr (Exit 1)
     else Inr (Go (False, nb, pb, cl2))))))"

partial_function (option) login_loop ::
  "'o os \<Rightarrow> junk \<Rightarrow> int \<Rightarrow> socks5args \<Rightarrow> u8 list \<Rightarrow> u8 list \<Rightarrow> 'o client \<Rightarrow> 'o client run res option" where
  "login_loop os junk fd args name_buffer password_buffer cl =
     (case login_round os junk fd args name_buffer password_buffer cl of
        Inl e \<Rightarrow> Some (Inl e)
      | Inr (Exit c) \<Rightarrow> Some (Inr (Exit c))
      | Inr (Go (logged_in, nb, pb, cl1)) \<Rightarrow>
          if logged_in then Some (Inr (Go cl1)) else login_loop os junk fd args nb pb cl1)"

definition first_message :: "'o os \<Rightarrow> junk \<Rightarrow> int \<Rightarrow> socks5args \<Rightarrow> 'o client \<Rightarrow> 'o client run res option" where
  "first_message os junk fd args cl =
     login_loop os junk fd args (array junk ''name_buffer'' CREDENTIALS_SIZE) (array junk ''password_buffer'' CREDENTIALS_SIZE) cl"

section \<open>Metrics and users\<close>

text \<open>
  The names in a reply: each \<^verbatim>\<open>recv\<close> takes a name and the length of the next one. \<^verbatim>\<open>args_len\<close> is an \<^verbatim>\<open>int\<close>
  read from a \<^verbatim>\<open>char\<close>, which is signed: a length below \<open>-2\<close> asks for more memory than there is, and one
  of \<open>-1\<close> or \<open>-2\<close> is an index before the block. The result is the list of the names, cut where
  \<^verbatim>\<open>malloc\<close> failed.
\<close>

fun get_other_users_loop ::
  "'o os \<Rightarrow> junk \<Rightarrow> int \<Rightarrow> nat \<Rightarrow> int \<Rightarrow> 'o client \<Rightarrow> (u8 list list \<times> 'o client) res" where
  "get_other_users_loop os junk fd 0 args_len cl = Inr ([], cl)"
| "get_other_users_loop os junk fd (Suc k) args_len cl =
     (let (ok, st) = os_malloc os (cl_os cl); cl1 = cl\<lparr>cl_os := st\<rparr> in
      if args_len < - 2 \<or> \<not> ok then Inr ([], cl1)
      else if args_len < 0 then Inl OutOfBounds
      else bindr (recv_into os fd (array junk ''result'' (nat args_len + 2)) (nat args_len + 1) cl1) (\<lambda>(n, block, cl2).
        bindr (peek_at block (nat args_len)) (\<lambda>next.
        bindr (poke_at block (nat args_len) 0) (\<lambda>name.
        bindr (get_other_users_loop os junk fd k (sint next) cl2) (\<lambda>(names, cl3). Inr (name # names, cl3))))))"

definition get_other_users :: "'o os \<Rightarrow> junk \<Rightarrow> int \<Rightarrow> u8 list \<Rightarrow> 'o client \<Rightarrow> (u8 list list \<times> 'o client) res" where
  "get_other_users os junk fd answer cl =
     bindr (peek_at answer 2) (\<lambda>nargs.
     bindr (peek_at answer 3) (\<lambda>args_len.
     get_other_users_loop os junk fd (unat nargs) (uint args_len) cl))"

text \<open>
  The number in a reply. The shifts are those of an \<^verbatim>\<open>int\<close>; the assignment to an \<^verbatim>\<open>unsigned long\<close> extends
  its sign.
\<close>

definition answer_u32 :: "u8 list \<Rightarrow> u64 res" where
  "answer_u32 answer =
     bindr (peek_at answer 4) (\<lambda>a. bindr (peek_at answer 5) (\<lambda>b. bindr (peek_at answer 6) (\<lambda>c. bindr (peek_at answer 7) (\<lambda>d.
     Inr (scast (push_bit 24 (ucast a) OR push_bit 16 (ucast b) OR push_bit 8 (ucast c) OR ucast d :: u32))))))"

definition answer_u16 :: "u8 list \<Rightarrow> u64 res" where
  "answer_u16 answer =
     bindr (peek_at answer 4) (\<lambda>a. bindr (peek_at answer 5) (\<lambda>b.
     Inr (scast (push_bit 8 (ucast a) OR ucast b :: u32))))"

text \<open>\<^verbatim>\<open>printf("%s")\<close> of a pointer that was not filled in has no meaning.\<close>

definition print_names :: "nat \<Rightarrow> u8 list list \<Rightarrow> 'o client \<Rightarrow> 'o client res" where
  "print_names nargs names cl =
     (if length names < nargs then Inl OutOfBounds
      else Inr (foldl (\<lambda>c name. say (Name (c_str name)) c) cl (take nargs names)))"

definition get_answer_handler :: "u8 list \<Rightarrow> u8 list list \<Rightarrow> 'o client \<Rightarrow> 'o client run res" where
  "get_answer_handler answer names cl =
     bindr (peek_at answer 0) (\<lambda>status.
     if status \<noteq> 0x00 then Inr (Exit 1)
     else bindr (peek_at answer 1) (\<lambda>cmd.
       let cl1 = say (Msg ''Operation successfull'') cl in
       if cmd = 0x00 then bindr (answer_u32 answer) (\<lambda>bytes. Inr (Go (say (Count ''Bytes transfered: '' bytes) cl1)))
       else if cmd = 0x01 then bindr (answer_u16 answer) (\<lambda>bytes. Inr (Go (say (Count ''Historical connections: '' bytes) cl1)))
       else if cmd = 0x02 then bindr (answer_u16 answer) (\<lambda>bytes. Inr (Go (say (Count ''Concurrent connections: '' bytes) cl1)))
       else if cmd = 0x03 then
         bindr (peek_at answer 2) (\<lambda>nargs.
         bindr (print_names (unat nargs) names (say (Msg '' ---- Users ----'') cl1)) (\<lambda>cl2. Inr (Go cl2)))
       else Inr (Go cl1)))"

definition get_command :: "'o os \<Rightarrow> junk \<Rightarrow> int \<Rightarrow> u8 \<Rightarrow> string \<Rightarrow> 'o client \<Rightarrow> 'o client run res" where
  "get_command os junk fd cmd operation cl =
     (let cl1 = send_all os fd [0x00, cmd] (say (Msg operation) cl);
          num = (if cmd = 0x00 then 8 else if cmd = 0x01 \<or> cmd = 0x02 then 6 else if cmd = 0x03 then 4 else 0) in
      bindr (recv_into os fd (array junk ''answer'' 1000) num cl1) (\<lambda>(n, answer, cl2).
      bindr (peek_at answer 1) (\<lambda>c.
      bindr (if c = 0x03 then get_other_users os junk fd answer cl2 else Inr ([], cl2)) (\<lambda>(names, cl3).
      get_answer_handler answer names cl3))))"

definition transfered_bytes :: "'o os \<Rightarrow> junk \<Rightarrow> int \<Rightarrow> 'o client \<Rightarrow> 'o client run res" where
  "transfered_bytes os junk fd = get_command os junk fd 0x00 ''Retrieving transfered bytes...''"

definition connection_history :: "'o os \<Rightarrow> junk \<Rightarrow> int \<Rightarrow> 'o client \<Rightarrow> 'o client run res" where
  "connection_history os junk fd = get_command os junk fd 0x01 ''Retrieving connection history...''"

definition concurrent_connections_client :: "'o os \<Rightarrow> junk \<Rightarrow> int \<Rightarrow> 'o client \<Rightarrow> 'o client run res" where
  "concurrent_connections_client os junk fd = get_command os junk fd 0x02 ''Retrieving concurrent connections...''"

definition retrieve_users :: "'o os \<Rightarrow> junk \<Rightarrow> int \<Rightarrow> 'o client \<Rightarrow> 'o client run res" where
  "retrieve_users os junk fd = get_command os junk fd 0x03 ''Retrieving users...''"

definition user_answer_handler :: "'o os \<Rightarrow> junk \<Rightarrow> int \<Rightarrow> 'o client \<Rightarrow> 'o client run res" where
  "user_answer_handler os junk fd cl =
     bindr (recv_into os fd (array junk ''answer'' 1) 1 cl) (\<lambda>(n, answer, cl1).
     bindr (peek_at answer 0) (\<lambda>a.
     if a = 0x00 then Inr (Go (say (Msg ''Operation successfull'') cl1))
     else if a = 0x04 then Inr (Go (say (Msg ''Error in input length'') cl1))
     else if a = 0x05 then Inr (Go (say (Msg ''Invalid credentials'') cl1))
     else Inr (Exit 1)))"

definition add_message :: "junk \<Rightarrow> bool \<Rightarrow> u8 list \<Rightarrow> u8 list \<Rightarrow> u8 list res" where
  "add_message junk admin name_buffer password_buffer =
     bindr (c_strlen name_buffer) (\<lambda>name_len.
     bindr (c_strlen password_buffer) (\<lambda>password_len.
     bindr (poke_at (array junk ''message'' (7 + name_len + password_len)) 0 0x01) (\<lambda>m1.
     bindr (poke_at m1 1 0x00) (\<lambda>m2.
     bindr (poke_at m2 2 (if admin then 0x01 else 0x00)) (\<lambda>m3.
     bindr (poke_at m3 3 (of_nat (name_len + 1))) (\<lambda>m4.
     bindr (c_strcpy m4 4 name_buffer) (\<lambda>m5.
     bindr (poke_at m5 (4 + name_len + 1) (of_nat (password_len + 1))) (\<lambda>m6.
     bindr (c_strcpy m6 (name_len + 6) password_buffer) (\<lambda>m7.
     read_cells m7 0 (7 + name_len + password_len))))))))))"

definition add_new_user :: "'o os \<Rightarrow> junk \<Rightarrow> int \<Rightarrow> bool \<Rightarrow> 'o client \<Rightarrow> 'o client run res" where
  "add_new_user os junk fd admin cl =
     (let cl1 = say (Msg (if admin then ''---- Create admin ----'' else ''---- Create user ----'')) cl in
      bindr (scan_word (array junk ''name_buffer'' CREDENTIALS_SIZE) (say (Msg ''Username: '') cl1)) (\<lambda>(nb, cl2).
      bindr (scan_word (array junk ''password_buffer'' CREDENTIALS_SIZE) (say (Msg ''Password: '') cl2)) (\<lambda>(pb, cl3).
      bindr (add_message junk admin nb pb) (\<lambda>message.
      user_answer_handler os junk fd (send_all os fd message cl3)))))"

definition create_user_client :: "'o os \<Rightarrow> junk \<Rightarrow> int \<Rightarrow> 'o client \<Rightarrow> 'o client run res" where
  "create_user_client os junk fd = add_new_user os junk fd False"

definition create_admin :: "'o os \<Rightarrow> junk \<Rightarrow> int \<Rightarrow> 'o client \<Rightarrow> 'o client run res" where
  "create_admin os junk fd = add_new_user os junk fd True"

definition remove_message :: "junk \<Rightarrow> u8 list \<Rightarrow> u8 list res" where
  "remove_message junk name_buffer =
     bindr (c_strlen name_buffer) (\<lambda>name_len.
     bindr (poke_at (array junk ''message'' (4 + name_len)) 0 0x01) (\<lambda>m1.
     bindr (poke_at m1 1 0x01) (\<lambda>m2.
     bindr (poke_at m2 2 (of_nat (name_len + 1))) (\<lambda>m3.
     bindr (c_strcpy m3 3 name_buffer) (\<lambda>m4.
     read_cells m4 0 (4 + name_len))))))"

definition remove_user :: "'o os \<Rightarrow> junk \<Rightarrow> int \<Rightarrow> 'o client \<Rightarrow> 'o client run res" where
  "remove_user os junk fd cl =
     (let cl1 = say (Msg ''---- Delete user ----'') cl in
      bindr (scan_word (array junk ''name_buffer'' CREDENTIALS_SIZE) (say (Msg ''Username: '') cl1)) (\<lambda>(nb, cl2).
      bindr (remove_message junk nb) (\<lambda>message.
      user_answer_handler os junk fd (send_all os fd message cl2))))"

definition modify_message :: "junk \<Rightarrow> u8 list \<Rightarrow> u8 list \<Rightarrow> u8 list res" where
  "modify_message junk name_buffer password_buffer =
     bindr (c_strlen name_buffer) (\<lambda>name_len.
     bindr (c_strlen password_buffer) (\<lambda>password_len.
     bindr (poke_at (array junk ''message'' (6 + name_len + password_len)) 0 0x01) (\<lambda>m1.
     bindr (poke_at m1 1 0x02) (\<lambda>m2.
     bindr (poke_at m2 2 (of_nat (name_len + 1))) (\<lambda>m3.
     bindr (c_strcpy m3 3 name_buffer) (\<lambda>m4.
     bindr (poke_at m4 (3 + name_len + 1) (of_nat (password_len + 1))) (\<lambda>m5.
     bindr (c_strcpy m5 (name_len + 5) password_buffer) (\<lambda>m6.
     read_cells m6 0 (6 + name_len + password_len)))))))))"

definition modify_user_client :: "'o os \<Rightarrow> junk \<Rightarrow> int \<Rightarrow> 'o client \<Rightarrow> 'o client run res" where
  "modify_user_client os junk fd cl =
     (let cl1 = say (Msg ''---- Modify user ----'') cl in
      bindr (scan_word (array junk ''name_buffer'' CREDENTIALS_SIZE) (say (Msg ''Username: '') cl1)) (\<lambda>(nb, cl2).
      bindr (scan_word (array junk ''password_buffer'' CREDENTIALS_SIZE) (say (Msg ''Password: '') cl2)) (\<lambda>(pb, cl3).
      bindr (modify_message junk nb pb) (\<lambda>message.
      user_answer_handler os junk fd (send_all os fd message cl3)))))"

section \<open>The menu\<close>

definition quit :: "'o os \<Rightarrow> int \<Rightarrow> 'o client \<Rightarrow> 'o client run res" where
  "quit os fd cl =
     bindr (recv_into os fd [0x03] 1 (send_all os fd [0x03] cl)) (\<lambda>(n, buff, cl1).
     if n \<noteq> 1 then Inr (Exit 1) else Inr (Go ((say (Msg ''Quit success'') cl1)\<lparr>cl_done := True\<rparr>)))"

text \<open>\<^verbatim>\<open>getchar\<close> gives \<^verbatim>\<open>EOF\<close> for ever at the end of the input. Nothing is sent: the request is commented out.\<close>

partial_function (option) confirm_loop :: "u8 list \<Rightarrow> u8 list option" where
  "confirm_loop input =
     (case input of
        [] \<Rightarrow> confirm_loop []
      | c # rest \<Rightarrow> if c \<noteq> 49 \<and> c \<noteq> 50 then confirm_loop rest else Some rest)"

definition set_sniffer :: "'o client \<Rightarrow> 'o client run res option" where
  "set_sniffer cl =
     (let cl1 = say (Msg ''Sniffer options: '') cl in
      case confirm_loop (cl_in cl1) of None \<Rightarrow> None | Some rest \<Rightarrow> Some (Inr (Go (cl1\<lparr>cl_in := rest\<rparr>))))"

definition option_func :: "'o os \<Rightarrow> junk \<Rightarrow> int \<Rightarrow> ('o client \<Rightarrow> 'o client run res option) list" where
  "option_func os junk fd =
     [Some \<circ> transfered_bytes os junk fd, Some \<circ> connection_history os junk fd,
      Some \<circ> concurrent_connections_client os junk fd, Some \<circ> retrieve_users os junk fd,
      Some \<circ> create_user_client os junk fd, Some \<circ> create_admin os junk fd, Some \<circ> remove_user os junk fd,
      Some \<circ> modify_user_client os junk fd, set_sniffer, Some \<circ> quit os fd]"

text \<open>One round of the menu, with the array \<^verbatim>\<open>selected\<close>.\<close>

definition options_round ::
  "'o os \<Rightarrow> junk \<Rightarrow> int \<Rightarrow> u8 list \<Rightarrow> 'o client \<Rightarrow> (u8 list \<times> 'o client) run res option" where
  "options_round os junk fd selected cl =
     (case bindr (scan_word selected (say (Msg ''Choose an option:'') cl)) (\<lambda>(sel, cl1).
             bindr (atoi sel) (\<lambda>v. Inr (sel, v - 1, cl1))) of
        Inl e \<Rightarrow> Some (Inl e)
      | Inr (sel, select, cl1) \<Rightarrow>
          if select \<ge> 0 \<and> select < CANT_OPTIONS \<and> \<not> cl_done cl1 then
            (case peek_at (option_func os junk fd) (nat select) of
               Inl e \<Rightarrow> Some (Inl e)
             | Inr f \<Rightarrow> map_option (\<lambda>r. go r (\<lambda>cl2. Inr (Go (sel, cl2)))) (f cl1))
          else Some (Inr (Go (sel, cl1))))"

partial_function (option) options_loop ::
  "'o os \<Rightarrow> junk \<Rightarrow> int \<Rightarrow> u8 list \<Rightarrow> 'o client \<Rightarrow> 'o client run res option" where
  "options_loop os junk fd selected cl =
     (if cl_done cl then Some (Inr (Go cl))
      else case options_round os junk fd selected cl of
        None \<Rightarrow> None
      | Some (Inl e) \<Rightarrow> Some (Inl e)
      | Some (Inr (Exit c)) \<Rightarrow> Some (Inr (Exit c))
      | Some (Inr (Go (sel, cl1))) \<Rightarrow> options_loop os junk fd sel cl1)"

definition options :: "'o os \<Rightarrow> junk \<Rightarrow> int \<Rightarrow> 'o client \<Rightarrow> 'o client run res option" where
  "options os junk fd cl = options_loop os junk fd (array junk ''selected'' CREDENTIALS_SIZE) cl"

text \<open>The handler of the signals; \<^verbatim>\<open>done\<close> is read only between the options.\<close>

definition sigterm_handler :: "bool \<Rightarrow> 'o client \<Rightarrow> 'o client" where
  "sigterm_handler sigpipe cl =
     (say (Msg (if sigpipe then ''Server closed connection, exiting'' else ''Signal, exiting'')) cl)\<lparr>cl_done := True\<rparr>"

text \<open>
  \<^verbatim>\<open>main\<close>, after \<^verbatim>\<open>parse_args\<close>: \<open>pton4\<close> and \<open>pton6\<close> are \<^verbatim>\<open>inet_pton\<close> of the two families.
\<close>

definition client_main ::
  "'o os \<Rightarrow> (u8 list \<Rightarrow> u8 list option) \<Rightarrow> (u8 list \<Rightarrow> u8 list option) \<Rightarrow> junk \<Rightarrow> socks5args \<Rightarrow> 'o client
     \<Rightarrow> (int \<times> 'o client) run res option" where
  "client_main os pton4 pton6 junk args cl =
     (let nport = htons (sa_mng_port args) in
      case (case (pton4 (sa_mng_addr args), pton6 (sa_mng_addr args)) of
              (Some ip, _) \<Rightarrow> map_option (\<lambda>(fd, st). (fd, cl\<lparr>cl_os := st\<rparr>)) (connect_by_ipv4 os ip nport (cl_os cl))
            | (None, Some ip) \<Rightarrow> map_option (\<lambda>(fd, st). (fd, cl\<lparr>cl_os := st\<rparr>)) (connect_by_ipv6 os ip nport (cl_os cl))
            | (None, None) \<Rightarrow> Some (- 1, cl)) of
        None \<Rightarrow> None
      | Some (fd, cl1) \<Rightarrow>
          if fd = - 1 then Some (Inr (Exit 1))
          else (case bindr (clean_buffer buff_init) (\<lambda>_. Inr (welcome_client cl1)) of
            Inl e \<Rightarrow> Some (Inl e)
          | Inr cl2 \<Rightarrow>
            (case first_message os junk fd args cl2 of
               None \<Rightarrow> None
             | Some (Inl e) \<Rightarrow> Some (Inl e)
             | Some (Inr (Exit c)) \<Rightarrow> Some (Inr (Exit c))
             | Some (Inr (Go cl3)) \<Rightarrow>
                map_option (\<lambda>r. go r (\<lambda>cl4. Inr (Go (0, cl4\<lparr>cl_os := snd (os_close os (cl_os cl4) fd)\<rparr>))))
                  (options os junk fd cl3))))"

section \<open>Words and messages\<close>

lemma say_simps [simp]:
  "cl_os (say x cl) = cl_os cl" "cl_in (say x cl) = cl_in cl" "cl_out (say x cl) = cl_out cl @ [x]" "cl_done (say x cl) = cl_done cl"
  by (simp_all add: say_def)

lemma send_all_simps [simp]:
  "cl_os (send_all os fd m cl) = snd (os_send os (cl_os cl) fd m)" "cl_in (send_all os fd m cl) = cl_in cl"
  "cl_out (send_all os fd m cl) = cl_out cl" "cl_done (send_all os fd m cl) = cl_done cl"
  by (simp_all add: send_all_def)

text \<open>A word a terminal can deliver: not empty, without white space and NULs.\<close>

definition word_ok :: "u8 list \<Rightarrow> bool" where
  "word_ok w \<longleftrightarrow> w \<noteq> [] \<and> (\<forall>c \<in> set w. \<not> isspace c \<and> c \<noteq> 0)"

lemma scan_word_typed:
  assumes "word_ok w" "\<forall>c \<in> set pre. isspace c" "cl_in cl = pre @ w @ 10 # rest" "length w < length b"
  shows "scan_word b cl = Inr (w @ 0 # drop (Suc (length w)) b, cl\<lparr>cl_in := 10 # rest\<rparr>)"
proof -
  have "\<not> isspace (hd w)" "w \<noteq> []" using assms(1) by (auto simp: word_ok_def)
  then have d: "dropWhile isspace (cl_in cl) = w @ 10 # rest"
    using assms(2,3) by (cases w) (auto simp: dropWhile_append)
  have "isspace 10" by (simp add: isspace_def)
  then have "takeWhile (\<lambda>c. \<not> isspace c) (w @ 10 # rest) = w" "dropWhile (\<lambda>c. \<not> isspace c) (w @ 10 # rest) = 10 # rest"
    using assms(1) by (auto simp: word_ok_def takeWhile_append dropWhile_append)
  with d assms(1,4) show ?thesis by (simp add: scan_word_def word_ok_def Let_def)
qed

lemma poke_mid: "i = length xs \<Longrightarrow> poke_at (xs @ y # ys) i v = Inr (xs @ v # ys)"
  by simp

lemma strcpy_mid:
  assumes "0 \<notin> set s" "length ys = Suc (length s)" "i = length xs"
  shows "c_strcpy (xs @ ys @ ws) i (s @ 0 # t) = Inr (xs @ s @ 0 # ws)"
  using assms by (simp add: c_strcpy_def)

lemma strlen_word: "0 \<notin> set s \<Longrightarrow> c_strlen (s @ 0 # t) = Inr (length s)"
  by simp

text \<open>An array cut into a head, a string, a length byte and a string.\<close>

lemma array_cut:
  assumes "length m = k + n + Suc l"
  obtains h A e B where "m = h @ A @ e # B" "length h = k" "length A = n" "length B = l"
proof -
  have "m = take (k + n) m @ m ! (k + n) # drop (Suc (k + n)) m" by (rule id_take_nth_drop) (simp add: assms)
  then have "m = take k m @ take n (drop k m) @ m ! (k + n) # drop (Suc (k + n)) m" by (simp only: take_add append_assoc)
  then show thesis by (rule that) (use assms in auto)
qed

lemma add_message_bytes:
  assumes "0 \<notin> set u" "0 \<notin> set p"
  shows "add_message junk admin (u @ 0 # x) (p @ 0 # y) =
    Inr ([0x01, 0x00, if admin then 0x01 else 0x00, of_nat (Suc (length u))] @ u @ [0, of_nat (Suc (length p))] @ p @ [0])"
proof -
  obtain h A e B where m: "array junk ''message'' (7 + length u + length p) = h @ A @ e # B" "length h = 4"
    "length A = Suc (length u)" "length B = Suc (length p)"
    by (rule array_cut [of "array junk ''message'' (7 + length u + length p)" 4 "Suc (length u)" "Suc (length p)"]) simp_all
  obtain a b c d where h: "h = [a, b, c, d]" using m(2) by (auto simp: numeral_eq_Suc length_Suc_conv)
  let ?h = "[0x01, 0x00, if admin then 0x01 else 0x00, of_nat (Suc (length u))] :: u8 list"
  have 1: "c_strcpy (?h @ A @ e # B) 4 (u @ 0 # x) = Inr (?h @ u @ 0 # e # B)"
    using strcpy_mid [OF assms(1) m(3), of 4 ?h "e # B" x] by simp
  have 2: "poke_at (?h @ u @ 0 # e # B) (4 + length u + 1) v = Inr (?h @ u @ 0 # v # B)" for v
    using poke_mid [of "4 + length u + 1" "?h @ u @ [0]" e B v] by simp
  have 3: "c_strcpy (?h @ u @ 0 # v # B) (length u + 6) (p @ 0 # y) = Inr (?h @ u @ 0 # v # p @ [0])" for v
    using strcpy_mid [OF assms(2) m(4), of "length u + 6" "?h @ u @ [0, v]" "[]" y] by simp
  show ?thesis
    unfolding add_message_def strlen_word [OF assms(1)] strlen_word [OF assms(2)] bindr_Inr m(1) h
    using 1 2 3 by simp
qed

lemma modify_message_bytes:
  assumes "0 \<notin> set u" "0 \<notin> set p"
  shows "modify_message junk (u @ 0 # x) (p @ 0 # y) =
    Inr ([0x01, 0x02, of_nat (Suc (length u))] @ u @ [0, of_nat (Suc (length p))] @ p @ [0])"
proof -
  obtain h A e B where m: "array junk ''message'' (6 + length u + length p) = h @ A @ e # B" "length h = 3"
    "length A = Suc (length u)" "length B = Suc (length p)"
    by (rule array_cut [of "array junk ''message'' (6 + length u + length p)" 3 "Suc (length u)" "Suc (length p)"]) simp_all
  obtain a b c where h: "h = [a, b, c]" using m(2) by (auto simp: numeral_eq_Suc length_Suc_conv)
  let ?h = "[0x01, 0x02, of_nat (Suc (length u))] :: u8 list"
  have 1: "c_strcpy (?h @ A @ e # B) 3 (u @ 0 # x) = Inr (?h @ u @ 0 # e # B)"
    using strcpy_mid [OF assms(1) m(3), of 3 ?h "e # B" x] by simp
  have 2: "poke_at (?h @ u @ 0 # e # B) (3 + length u + 1) v = Inr (?h @ u @ 0 # v # B)" for v
    using poke_mid [of "3 + length u + 1" "?h @ u @ [0]" e B v] by simp
  have 3: "c_strcpy (?h @ u @ 0 # v # B) (length u + 5) (p @ 0 # y) = Inr (?h @ u @ 0 # v # p @ [0])" for v
    using strcpy_mid [OF assms(2) m(4), of "length u + 5" "?h @ u @ [0, v]" "[]" y] by simp
  show ?thesis
    unfolding modify_message_def strlen_word [OF assms(1)] strlen_word [OF assms(2)] bindr_Inr m(1) h
    using 1 2 3 by simp
qed

lemma remove_message_bytes:
  assumes "0 \<notin> set u"
  shows "remove_message junk (u @ 0 # x) = Inr ([0x01, 0x01, of_nat (Suc (length u))] @ u @ [0])"
proof -
  obtain h A e B where m: "array junk ''message'' (4 + length u) = h @ A @ e # B" "length h = 3" "length A = length u" "length B = 0"
    by (rule array_cut [of "array junk ''message'' (4 + length u)" 3 "length u" 0]) simp_all
  obtain a b c where h: "h = [a, b, c]" using m(2) by (auto simp: numeral_eq_Suc length_Suc_conv)
  let ?h = "[0x01, 0x01, of_nat (Suc (length u))] :: u8 list"
  have 1: "c_strcpy (?h @ A @ e # B) 3 (u @ 0 # x) = Inr (?h @ u @ [0])"
    using strcpy_mid [OF assms, of "A @ [e]" 3 ?h "[]" x] m(3,4) by simp
  show ?thesis
    unfolding remove_message_def strlen_word [OF assms] bindr_Inr m(1) h
    using 1 by simp
qed

lemma login_message_bytes:
  assumes "0 \<notin> set u" "0 \<notin> set p"
  shows "login_message junk (u @ 0 # x) (p @ 0 # y) = Inr ([0x01, of_nat (length u)] @ u @ [of_nat (length p)] @ p)"
proof -
  obtain h A e B where m: "array junk ''message'' (3 + length u + length p + 1) = h @ A @ e # B" "length h = 2"
    "length A = length u" "length B = Suc (length p)"
    by (rule array_cut [of "array junk ''message'' (3 + length u + length p + 1)" 2 "length u" "Suc (length p)"]) simp_all
  obtain a b where h: "h = [a, b]" using m(2) by (auto simp: numeral_eq_Suc length_Suc_conv)
  let ?h = "[0x01, of_nat (length u)] :: u8 list"
  have 1: "c_strcpy (?h @ A @ e # B) 2 (u @ 0 # x) = Inr (?h @ u @ 0 # B)"
    using strcpy_mid [OF assms(1), of "A @ [e]" 2 ?h B x] m(3) by simp
  have 2: "poke_at (?h @ u @ 0 # B) (2 + length u) v = Inr (?h @ u @ v # B)" for v
    using poke_mid [of "2 + length u" "?h @ u" 0 B v] by simp
  have 3: "c_strcpy (?h @ u @ v # B) (length u + 3) (p @ 0 # y) = Inr (?h @ u @ v # p @ [0])" for v
    using strcpy_mid [OF assms(2) m(4), of "length u + 3" "?h @ u @ [v]" "[]" y] by simp
  have 4: "take (3 + length u + length p) (?h @ u @ v # p @ [0]) = ?h @ u @ v # p" for v
    by (simp add: numeral_eq_Suc)
  show ?thesis
    unfolding login_message_def strlen_word [OF assms(1)] strlen_word [OF assms(2)] bindr_Inr m(1) h
    using 1 2 3 4 by simp
qed

section \<open>The dialogues\<close>

text \<open>\<open>dialogue os fd m k reply cl cl'\<close>: sending \<open>m\<close> and receiving \<open>k\<close> bytes gives \<open>reply\<close>.\<close>

definition dialogue :: "'o os \<Rightarrow> int \<Rightarrow> u8 list \<Rightarrow> nat \<Rightarrow> u8 list \<Rightarrow> 'o \<Rightarrow> 'o \<Rightarrow> bool" where
  "dialogue os fd m k reply st st' \<longleftrightarrow> os_recv os (snd (os_send os st fd m)) fd k = (Some reply, st')"

lemma recv_dialogue:
  assumes "dialogue os fd m k reply (cl_os cl) st'" "length reply \<le> length b"
  shows "recv_into os fd b k (send_all os fd m cl) =
    Inr (int (length reply), reply @ drop (length reply) b, (send_all os fd m cl)\<lparr>cl_os := st'\<rparr>)"
  using assms by (simp add: recv_into_def dialogue_def)

text \<open>Two words typed on two lines.\<close>

lemma two_words:
  assumes "word_ok u" "word_ok p" "length u < length b" "length p < length c"
    and "cl_in cl = u @ 10 # p @ 10 # rest"
  shows "scan_word b cl = Inr (u @ 0 # drop (Suc (length u)) b, cl\<lparr>cl_in := 10 # p @ 10 # rest\<rparr>)"
    "scan_word c (say x (cl\<lparr>cl_in := 10 # p @ 10 # rest\<rparr>)) =
       Inr (p @ 0 # drop (Suc (length p)) c, (say x cl)\<lparr>cl_in := 10 # rest\<rparr>)"
proof -
  show "scan_word b cl = Inr (u @ 0 # drop (Suc (length u)) b, cl\<lparr>cl_in := 10 # p @ 10 # rest\<rparr>)"
    by (rule scan_word_typed [OF assms(1), of "[]"]) (use assms in auto)
  have "scan_word c (say x (cl\<lparr>cl_in := 10 # p @ 10 # rest\<rparr>)) =
      Inr (p @ 0 # drop (Suc (length p)) c, (say x (cl\<lparr>cl_in := 10 # p @ 10 # rest\<rparr>))\<lparr>cl_in := 10 # rest\<rparr>)"
    by (rule scan_word_typed [OF assms(2), of "[10]"]) (use assms in \<open>auto simp: isspace_def\<close>)
  then show "scan_word c (say x (cl\<lparr>cl_in := 10 # p @ 10 # rest\<rparr>)) =
       Inr (p @ 0 # drop (Suc (length p)) c, (say x cl)\<lparr>cl_in := 10 # rest\<rparr>)" by (simp add: say_def)
qed

section \<open>Connecting\<close>

text \<open>\<open>retried os sock addr k st st'\<close>: from \<open>st\<close> the call of \<^verbatim>\<open>connect\<close> failed \<open>k\<close> times, never because of a signal.\<close>

inductive retried :: "'o os \<Rightarrow> int \<Rightarrow> u8 list \<Rightarrow> nat \<Rightarrow> 'o \<Rightarrow> 'o \<Rightarrow> bool" for os :: "'o os" and sock :: int and addr :: "u8 list" where
  none: "retried os sock addr 0 st st"
| more: "os_connect os st sock addr = (Some e, st1) \<Longrightarrow> e \<noteq> EINTR_errno \<Longrightarrow> retried os sock addr k st1 st2 \<Longrightarrow>
    retried os sock addr (Suc k) st st2"

lemma connect_loop_retried:
  assumes "retried os sock addr k st st1"
  shows "connect_loop os sock addr st = connect_loop os sock addr st1"
  using assms
proof (induction rule: retried.induct)
  case (more st e st1 k st2)
  then show ?case by (simp add: connect_loop.simps [of os sock addr st])
qed simp

lemma connect_loop_SomeD:
  "connect_loop os sock addr st = Some r \<Longrightarrow>
     \<exists>k st1. retried os sock addr k st st1 \<and> os_connect os st1 sock addr = (if fst r then None else Some EINTR_errno, snd r)"
proof (induction rule: connect_loop.raw_induct [of "\<lambda>os sock addr st r. \<exists>k st1. retried os sock addr k st st1 \<and>
    os_connect os st1 sock addr = (if fst r then None else Some EINTR_errno, snd r)", rotated, consumes 1, case_names loop])
  case (loop f os sock addr st r)
  show ?case
  proof (cases "os_connect os st sock addr")
    case (Pair x st1)
    show ?thesis
    proof (cases x)
      case None
      with loop(2) Pair show ?thesis by (intro exI [of _ 0] exI [of _ st]) (auto intro: retried.none)
    next
      case (Some e)
      show ?thesis
      proof (cases "e = EINTR_errno")
        case True
        with loop(2) Pair Some show ?thesis by (intro exI [of _ 0] exI [of _ st]) (auto intro: retried.none)
      next
        case False
        with loop(2) Pair Some have "f os sock addr st1 = Some r" by simp
        from loop(1) [OF this] obtain k st2 where "retried os sock addr k st1 st2"
          "os_connect os st2 sock addr = (if fst r then None else Some EINTR_errno, snd r)" by blast
        with retried.more [OF Pair [unfolded Some] False] show ?thesis by blast
      qed
    qed
  qed
qed

text \<open>
  C32: connecting. The loop ends exactly when, after some number of failed calls, a call of \<^verbatim>\<open>connect\<close>
  succeeds, or is interrupted by a signal: the condition of the loop stops at \<^verbatim>\<open>EINTR\<close>, the one error worth a retry,
  and repeats every other, so that without an accepting server or a signal the client never returns.
\<close>

theorem connect_loop_ends:
  "connect_loop os sock addr st = Some (ok, st') \<longleftrightarrow>
     (\<exists>k st1. retried os sock addr k st st1 \<and> os_connect os st1 sock addr = (if ok then None else Some EINTR_errno, st'))"
proof
  assume "connect_loop os sock addr st = Some (ok, st')"
  from connect_loop_SomeD [OF this]
  show "\<exists>k st1. retried os sock addr k st st1 \<and> os_connect os st1 sock addr = (if ok then None else Some EINTR_errno, st')" by simp
next
  assume "\<exists>k st1. retried os sock addr k st st1 \<and> os_connect os st1 sock addr = (if ok then None else Some EINTR_errno, st')"
  then obtain k st1 where "retried os sock addr k st st1" "os_connect os st1 sock addr = (if ok then None else Some EINTR_errno, st')"
    by blast
  then show "connect_loop os sock addr st = Some (ok, st')"
    using connect_loop.simps [of os sock addr st1] by (simp add: connect_loop_retried split: if_splits)
qed

end
