(* ===== verification/EndToEnd.thy ===== *)
theory EndToEnd
  imports Client Management Netutils
begin

text \<open>
  The management client and the server together: what the client sends is what the server's handlers
  receive, and what these put into their write buffer is what the client receives. There is no new
  code here.
\<close>

section \<open>The server's side of the commands on users\<close>

text \<open>A user command in one segment, up to the reply in the write buffer.\<close>

lemma user_command:
  assumes r: "ready_session os key i (prawtos_message r) st w" "prawtos_request_ok r"
    and p: "cs_parser (pr_cmd (pw_self w)) = prawtos_parser_init q" "1 \<le> buf_room (pr_write_buffer (pw_self w))"
    and h: "\<And>pp. prawtos_holds pp r \<Longrightarrow> \<exists>h l c. pp_type pp = 0x01 \<and> peek_at user_handlers (unat (us_cmd (pp_user pp))) = Inr h \<and>
       h (e_users (pw_env w)) ((pr_cmd (pw_self w))\<lparr>cs_parser := pp\<rparr>) = Inr (l, c) \<and> cs_status c = s \<and> P l"
  shows "\<exists>w'. cmd_read os key w = Inr (CMD_WRITE_PRAWTOS, w') \<and> buf_content (pr_write_buffer (pw_self w')) = [s] \<and>
    P (e_users (pw_env w'))"
proof -
  obtain pp rb s' where pp: "prawtos_holds pp r" and rd: "cmd_read os key w =
      bindr (cmd_process ((pw_self w)\<lparr>pr_read_buffer := rb, pr_cmd := (pr_cmd (pw_self w))\<lparr>cs_parser := pp\<rparr>\<rparr>)
        ((pw_env w)\<lparr>e_os := st\<rparr>)) (\<lambda>(ret, p2, e2). Inr (ret, w\<lparr>pw_self := p2, pw_sel := s', pw_env := e2\<rparr>))"
    by (rule cmd_read_request [OF r(1) p(1) r(2)])
  obtain h l c where hc: "pp_type pp = 0x01" "peek_at user_handlers (unat (us_cmd (pp_user pp))) = Inr h"
    "h (e_users (pw_env w)) ((pr_cmd (pw_self w))\<lparr>cs_parser := pp\<rparr>) = Inr (l, c)" "cs_status c = s" "P l"
    using h [OF pp] by blast
  have wb: "wf_buffer (pr_write_buffer (pw_self w))" "buf_content (pr_write_buffer (pw_self w)) = []"
    using r(1) by (simp_all add: ready_session_def)
  obtain wb' where "user_marshal (pr_write_buffer (pw_self w)) s = Inr (1, wb')" "buf_content wb' = [s]"
    using status_marshal_wf [OF wb(1) p(2), of s] wb(2) by (metis append_Nil)
  with rd hc show ?thesis by (simp add: cmd_process_def Let_def)
qed

text \<open>The names as the client sends them, with their NUL.\<close>

definition wire_ok :: "u8 list \<Rightarrow> bool" where
  "wire_ok u \<longleftrightarrow> word_ok u \<and> length u < 254"

lemma wire_name:
  assumes "wire_ok u"
  shows "name_ok (u @ [0])" "0 \<notin> set u" "c_str (name_block (u @ [0])) = u" "terminated (name_block (u @ [0]))"
    "unat nl = Suc (length u) \<Longrightarrow> str_arg (name_block (u @ [0])) nl"
proof -
  show z: "0 \<notin> set u" using assms by (auto simp: wire_ok_def word_ok_def)
  show "name_ok (u @ [0])" using assms by (simp add: wire_ok_def name_ok_def MAX_LEN_def)
  show "c_str (name_block (u @ [0])) = u" "terminated (name_block (u @ [0]))" using z by (simp_all add: name_block_def)
  show "unat nl = Suc (length u) \<Longrightarrow> str_arg (name_block (u @ [0])) nl"
    using assms by (simp add: str_arg_def name_block_def)
qed

lemma server_creates:
  assumes "ready_session os key i (prawtos_message (Create a (u @ [0]) (pw @ [0]))) st w" "a < 2" "wire_ok u" "wire_ok pw"
    and "cs_parser (pr_cmd (pw_self w)) = prawtos_parser_init q" "1 \<le> buf_room (pr_write_buffer (pw_self w))"
    and "wf_users (e_users (pw_env w))"
  shows "\<exists>w'. cmd_read os key w = Inr (CMD_WRITE_PRAWTOS, w') \<and>
    buf_content (pr_write_buffer (pw_self w')) = [if user_db (e_users (pw_env w)) u = None then success else user_credentia] \<and>
    (wf_users (e_users (pw_env w')) \<and> user_db (e_users (pw_env w')) =
      (if user_db (e_users (pw_env w)) u = None then (user_db (e_users (pw_env w)))(u \<mapsto> (pw, a \<noteq> 0)) else user_db (e_users (pw_env w))))"
proof (rule user_command [OF assms(1) _ assms(5,6)])
  show "prawtos_request_ok (Create a (u @ [0]) (pw @ [0]))" using assms(2-4) by (simp add: wire_name)
  fix pp assume "prawtos_holds pp (Create a (u @ [0]) (pw @ [0]))"
  then have pp: "pp_type pp = 0x01" "us_cmd (pp_user pp) = user_create" "us_admin (pp_user pp) = a"
    "us_uname (pp_user pp) = name_block (u @ [0])" "us_passwd (pp_user pp) = name_block (pw @ [0])"
    "unat (us_ulen (pp_user pp)) = Suc (length u)" "unat (us_plen (pp_user pp)) = Suc (length pw)"
    by (simp_all add: prawtos_holds_def)
  have "\<exists>l'. add_user (e_users (pw_env w)) (name_block (u @ [0])) (us_ulen (pp_user pp)) (name_block (pw @ [0])) (us_plen (pp_user pp)) (a \<noteq> 0)
      = Inr (user_db (e_users (pw_env w)) u = None, l') \<and> wf_users l' \<and> user_db l' =
      (if user_db (e_users (pw_env w)) u = None then (user_db (e_users (pw_env w)))(u \<mapsto> (pw, a \<noteq> 0)) else user_db (e_users (pw_env w)))"
    using add_user_ok [OF assms(7) wire_name(5) [OF assms(3) pp(6)] wire_name(5) [OF assms(4) pp(7)], of "a \<noteq> 0"]
    unfolding wire_name(3) [OF assms(3)] wire_name(3) [OF assms(4)] .
  then show "\<exists>h l c. pp_type pp = 0x01 \<and> peek_at user_handlers (unat (us_cmd (pp_user pp))) = Inr h \<and>
      h (e_users (pw_env w)) ((pr_cmd (pw_self w))\<lparr>cs_parser := pp\<rparr>) = Inr (l, c) \<and>
      cs_status c = (if user_db (e_users (pw_env w)) u = None then success else user_credentia) \<and>
      (wf_users l \<and> user_db l = (if user_db (e_users (pw_env w)) u = None then (user_db (e_users (pw_env w)))(u \<mapsto> (pw, a \<noteq> 0))
        else user_db (e_users (pw_env w))))"
    using pp by (auto simp: user_handlers_def user_create_def create_user_def)
qed

lemma server_edits:
  assumes "ready_session os key i (prawtos_message (Edit (u @ [0]) (pw @ [0]))) st w" "wire_ok u" "wire_ok pw"
    and "cs_parser (pr_cmd (pw_self w)) = prawtos_parser_init q" "1 \<le> buf_room (pr_write_buffer (pw_self w))"
    and "wf_users (e_users (pw_env w))"
  shows "\<exists>w'. cmd_read os key w = Inr (CMD_WRITE_PRAWTOS, w') \<and>
    buf_content (pr_write_buffer (pw_self w')) = [if user_db (e_users (pw_env w)) u = None then user_credentia else success] \<and>
    (wf_users (e_users (pw_env w')) \<and> user_db (e_users (pw_env w')) =
      (case user_db (e_users (pw_env w)) u of None \<Rightarrow> user_db (e_users (pw_env w))
       | Some (_, a) \<Rightarrow> (user_db (e_users (pw_env w)))(u \<mapsto> (pw, a))))"
proof (rule user_command [OF assms(1) _ assms(4,5)])
  let ?l = "e_users (pw_env w)"
  let ?P = "\<lambda>l. wf_users l \<and> user_db l = (case user_db ?l u of None \<Rightarrow> user_db ?l | Some (_, a) \<Rightarrow> (user_db ?l)(u \<mapsto> (pw, a)))"
  show "prawtos_request_ok (Edit (u @ [0]) (pw @ [0]))" using assms(2,3) by (simp add: wire_name)
  fix pp assume "prawtos_holds pp (Edit (u @ [0]) (pw @ [0]))"
  then have pp: "pp_type pp = 0x01" "us_cmd (pp_user pp) = user_edit"
    "us_uname (pp_user pp) = name_block (u @ [0])" "us_passwd (pp_user pp) = name_block (pw @ [0])"
    "unat (us_plen (pp_user pp)) = Suc (length pw)"
    by (simp_all add: prawtos_holds_def)
  have "\<exists>l'. edit_user ?l (name_block (u @ [0])) (us_ulen (pp_user pp)) (name_block (pw @ [0])) (us_plen (pp_user pp))
      = Inr (user_db ?l u \<noteq> None, l') \<and> ?P l'"
    using edit_user_ok [OF assms(6) wire_name(4) [OF assms(2)] wire_name(4) [OF assms(3)], of "us_plen (pp_user pp)" "us_ulen (pp_user pp)"]
      pp(5) unfolding wire_name(3) [OF assms(2)] wire_name(3) [OF assms(3)] by simp
  then show "\<exists>h l c. pp_type pp = 0x01 \<and> peek_at user_handlers (unat (us_cmd (pp_user pp))) = Inr h \<and>
      h ?l ((pr_cmd (pw_self w))\<lparr>cs_parser := pp\<rparr>) = Inr (l, c) \<and>
      cs_status c = (if user_db ?l u = None then user_credentia else success) \<and> ?P l"
    using pp by (auto simp: user_handlers_def user_edit_def modify_user_def)
qed

lemma server_deletes:
  assumes "ready_session os key i (prawtos_message (Delete (u @ [0]))) st w" "wire_ok u"
    and "cs_parser (pr_cmd (pw_self w)) = prawtos_parser_init q" "1 \<le> buf_room (pr_write_buffer (pw_self w))"
    and "wf_users (e_users (pw_env w))"
  shows "\<exists>w'. cmd_read os key w = Inr (CMD_WRITE_PRAWTOS, w') \<and>
    buf_content (pr_write_buffer (pw_self w')) = [if user_db (e_users (pw_env w)) u = None then user_credentia else success] \<and>
    (wf_users (e_users (pw_env w')) \<and> user_db (e_users (pw_env w')) = (user_db (e_users (pw_env w)))(u := None))"
proof (rule user_command [OF assms(1) _ assms(3,4)])
  let ?l = "e_users (pw_env w)"
  show "prawtos_request_ok (Delete (u @ [0]))" using assms(2) by (simp add: wire_name)
  fix pp assume "prawtos_holds pp (Delete (u @ [0]))"
  then have pp: "pp_type pp = 0x01" "us_cmd (pp_user pp) = user_delete" "us_uname (pp_user pp) = name_block (u @ [0])"
    by (simp_all add: prawtos_holds_def)
  have "\<exists>l'. delete_user ?l (name_block (u @ [0])) (us_ulen (pp_user pp)) = Inr (user_db ?l u \<noteq> None, l') \<and>
      wf_users l' \<and> user_db l' = (user_db ?l)(u := None)"
    using delete_user_ok [OF assms(5) wire_name(4) [OF assms(2)], of "us_ulen (pp_user pp)"] assms(2) by (simp add: wire_name)
  then show "\<exists>h l c. pp_type pp = 0x01 \<and> peek_at user_handlers (unat (us_cmd (pp_user pp))) = Inr h \<and>
      h ?l ((pr_cmd (pw_self w))\<lparr>cs_parser := pp\<rparr>) = Inr (l, c) \<and>
      cs_status c = (if user_db ?l u = None then user_credentia else success) \<and>
      (wf_users l \<and> user_db l = (user_db ?l)(u := None))"
    using pp by (auto simp: user_handlers_def user_delete_def del_user_def)
qed

section \<open>The client's side\<close>

lemma user_answer:
  assumes "dialogue os fd m 1 [s] (cl_os cl) st'" "s = success \<or> s = user_credentia"
  shows "user_answer_handler os junk fd (send_all os fd m cl) =
    Inr (Go (say (Msg (if s = success then ''Operation successfull'' else ''Invalid credentials'')) ((send_all os fd m cl)\<lparr>cl_os := st'\<rparr>)))"
  using recv_dialogue [OF assms(1), of "array junk ''answer'' 1"] assms(2)
  by (auto simp: user_answer_handler_def success_def user_credentia_def)

text \<open>What a command shows at its end, and that it used up the words typed for it.\<close>

definition ended_with :: "'o client run res \<Rightarrow> string \<Rightarrow> u8 list \<Rightarrow> 'o \<Rightarrow> bool" where
  "ended_with r msg rest st \<longleftrightarrow>
     (\<exists>cl. r = Inr (Go cl) \<and> last (cl_out cl) = Msg msg \<and> cl_in cl = rest \<and> cl_os cl = st)"

lemma wire_word: "wire_ok u \<Longrightarrow> word_ok u \<and> length u < CREDENTIALS_SIZE \<and> 0 \<notin> set u"
  by (auto simp: wire_ok_def word_ok_def CREDENTIALS_SIZE_def)

text \<open>The shape the two commands with a name and a password have.\<close>

lemma two_word_command:
  assumes w: "wire_ok u" "wire_ok pw" "cl_in cl = u @ 10 # pw @ 10 # rest" and m: "\<And>x y. f (u @ 0 # x) (pw @ 0 # y) = Inr m"
    and d: "dialogue os fd m 1 [s] (cl_os cl) st'" "s = success \<or> s = user_credentia"
  shows "ended_with
    (bindr (scan_word (array junk ''name_buffer'' CREDENTIALS_SIZE) (say (Msg ''Username: '') cl)) (\<lambda>(nb, cl2).
     bindr (scan_word (array junk ''password_buffer'' CREDENTIALS_SIZE) (say (Msg ''Password: '') cl2)) (\<lambda>(pb, cl3).
     bindr (f nb pb) (\<lambda>message. user_answer_handler os junk fd (send_all os fd message cl3)))))
    (if s = success then ''Operation successfull'' else ''Invalid credentials'') (10 # rest) st'"
proof -
  note u = wire_word [OF w(1)] and p = wire_word [OF w(2)]
  let ?cl1 = "say (Msg ''Username: '') cl"
  let ?cl2 = "(say (Msg ''Password: '') ?cl1)\<lparr>cl_in := 10 # rest\<rparr>"
  have "scan_word (array junk ''name_buffer'' CREDENTIALS_SIZE) ?cl1 =
      Inr (u @ 0 # drop (Suc (length u)) (array junk ''name_buffer'' CREDENTIALS_SIZE), ?cl1\<lparr>cl_in := 10 # pw @ 10 # rest\<rparr>)"
    "scan_word (array junk ''password_buffer'' CREDENTIALS_SIZE) (say (Msg ''Password: '') (?cl1\<lparr>cl_in := 10 # pw @ 10 # rest\<rparr>)) =
      Inr (pw @ 0 # drop (Suc (length pw)) (array junk ''password_buffer'' CREDENTIALS_SIZE), ?cl2)"
    using two_words [of u pw "array junk ''name_buffer'' CREDENTIALS_SIZE" "array junk ''password_buffer'' CREDENTIALS_SIZE" ?cl1 rest]
      u p w(3) by simp_all
  moreover have "user_answer_handler os junk fd (send_all os fd m ?cl2) =
      Inr (Go (say (Msg (if s = success then ''Operation successfull'' else ''Invalid credentials'')) ((send_all os fd m ?cl2)\<lparr>cl_os := st'\<rparr>)))"
    using d(1) by (intro user_answer [OF _ d(2)]) simp
  ultimately show ?thesis by (simp add: ended_with_def m)
qed

lemma client_creates:
  assumes "wire_ok u" "wire_ok pw" "cl_in cl = u @ 10 # pw @ 10 # rest"
    and "dialogue os fd (prawtos_message (Create (if admin then 1 else 0) (u @ [0]) (pw @ [0]))) 1 [s] (cl_os cl) st'"
    and "s = success \<or> s = user_credentia"
  shows "ended_with (add_new_user os junk fd admin cl) (if s = success then ''Operation successfull'' else ''Invalid credentials'')
    (10 # rest) st'"
  unfolding add_new_user_def Let_def
proof (rule two_word_command [OF assms(1,2)])
  show "add_message junk admin (u @ 0 # x) (pw @ 0 # y) = Inr (prawtos_message (Create (if admin then 1 else 0) (u @ [0]) (pw @ [0])))"
    for x y using add_message_bytes [of u pw junk admin x y] wire_word [OF assms(1)] wire_word [OF assms(2)] by simp
qed (use assms(3-5) in auto)

lemma client_edits:
  assumes "wire_ok u" "wire_ok pw" "cl_in cl = u @ 10 # pw @ 10 # rest"
    and "dialogue os fd (prawtos_message (Edit (u @ [0]) (pw @ [0]))) 1 [s] (cl_os cl) st'" "s = success \<or> s = user_credentia"
  shows "ended_with (modify_user_client os junk fd cl) (if s = success then ''Operation successfull'' else ''Invalid credentials'')
    (10 # rest) st'"
  unfolding modify_user_client_def Let_def
proof (rule two_word_command [OF assms(1,2)])
  show "modify_message junk (u @ 0 # x) (pw @ 0 # y) = Inr (prawtos_message (Edit (u @ [0]) (pw @ [0])))" for x y
    using modify_message_bytes [of u pw junk x y] wire_word [OF assms(1)] wire_word [OF assms(2)] by simp
qed (use assms(3-5) in auto)

lemma client_deletes:
  assumes "wire_ok u" "cl_in cl = u @ 10 # rest"
    and "dialogue os fd (prawtos_message (Delete (u @ [0]))) 1 [s] (cl_os cl) st'" "s = success \<or> s = user_credentia"
  shows "ended_with (remove_user os junk fd cl) (if s = success then ''Operation successfull'' else ''Invalid credentials'')
    (10 # rest) st'"
proof -
  note u = wire_word [OF assms(1)]
  let ?cl1 = "say (Msg ''Username: '') (say (Msg ''---- Delete user ----'') cl)"
  let ?m = "prawtos_message (Delete (u @ [0]))"
  have "scan_word (array junk ''name_buffer'' CREDENTIALS_SIZE) ?cl1 =
      Inr (u @ 0 # drop (Suc (length u)) (array junk ''name_buffer'' CREDENTIALS_SIZE), ?cl1\<lparr>cl_in := 10 # rest\<rparr>)"
    by (rule scan_word_typed [where pre = "[]"]) (use u assms(2) in auto)
  moreover have "remove_message junk (u @ 0 # x) = Inr ?m" for x using remove_message_bytes [of u junk x] u by simp
  moreover have "user_answer_handler os junk fd (send_all os fd ?m (?cl1\<lparr>cl_in := 10 # rest\<rparr>)) =
      Inr (Go (say (Msg (if s = success then ''Operation successfull'' else ''Invalid credentials''))
        ((send_all os fd ?m (?cl1\<lparr>cl_in := 10 # rest\<rparr>))\<lparr>cl_os := st'\<rparr>)))"
    using assms(3) by (intro user_answer [OF _ assms(4)]) simp
  ultimately show ?thesis unfolding remove_user_def Let_def by (simp add: ended_with_def)
qed

text \<open>Signing in with typed credentials.\<close>

lemma client_signs_in:
  assumes "wire_ok u" "wire_ok pw" "cl_in cl = u @ 10 # pw @ 10 # rest"
    and "sa_users args = a # as" "usr_name a = None"
    and "dialogue os fd (auth_message u pw) 2 [v, s] (cl_os cl) st'" "s = AUTH_SUCCESS \<or> s = AUTH_BAD_CREDENTIALS"
  shows "\<exists>r. first_message os junk fd args cl = Some r \<and>
    (if s = AUTH_SUCCESS then ended_with r ''Successful connection'' (10 # rest) st' else r = Inr (Exit 1))"
proof -
  note u = wire_word [OF assms(1)] and p = wire_word [OF assms(2)]
  let ?nb = "array junk ''name_buffer'' CREDENTIALS_SIZE" and ?pb = "array junk ''password_buffer'' CREDENTIALS_SIZE"
  let ?cl1 = "say (Msg ''Username: '') cl"
  let ?cl2 = "(say (Msg ''Password: '') ?cl1)\<lparr>cl_in := 10 # rest\<rparr>" and ?m = "auth_message u pw"
  let ?nb1 = "u @ 0 # drop (Suc (length u)) ?nb" and ?pb1 = "pw @ 0 # drop (Suc (length pw)) ?pb"
  have "scan_word ?nb ?cl1 = Inr (?nb1, ?cl1\<lparr>cl_in := 10 # pw @ 10 # rest\<rparr>)"
    "scan_word ?pb (say (Msg ''Password: '') (?cl1\<lparr>cl_in := 10 # pw @ 10 # rest\<rparr>)) = Inr (?pb1, ?cl2)"
    using two_words [of u pw ?nb ?pb ?cl1 rest] u p assms(3) by simp_all
  then have c: "read_credentials args ?nb ?pb cl = Inr (?nb1, ?pb1, ?cl2)"
    using assms(4,5) by (simp add: read_credentials_def)
  have m: "login_message junk ?nb1 ?pb1 = Inr ?m" using login_message_bytes u p by (simp add: auth_message_def)
  have "dialogue os fd ?m 2 [v, s] (cl_os ?cl2) st'" using assms(6) by simp
  from recv_dialogue [OF this, of "array junk ''answer'' 2"]
  have r: "recv_into os fd (array junk ''answer'' 2) 2 (send_all os fd ?m ?cl2) = Inr (2, [v, s], (send_all os fd ?m ?cl2)\<lparr>cl_os := st'\<rparr>)"
    by simp
  have "login_round os junk fd args ?nb ?pb cl = Inr (if s = AUTH_SUCCESS
      then Go (True, ?nb1, ?pb1, say (Msg ''Successful connection'') ((send_all os fd ?m ?cl2)\<lparr>cl_os := st'\<rparr>)) else Exit 1)"
    using assms(7) by (auto simp: login_round_def c m r AUTH_SUCCESS_def AUTH_BAD_CREDENTIALS_def)
  then show ?thesis
    by (simp add: first_message_def login_loop.simps [of os junk fd args ?nb] ended_with_def)
qed

section \<open>Metrics\<close>

lemma or_bytes_u32:
  fixes a b c d :: u8
  defines "w \<equiv> (push_bit 24 (ucast a) OR push_bit 16 (ucast b) OR push_bit 8 (ucast c) OR ucast d :: u32)"
  shows "unat w = be_value [a, b, c, d]"
proof -
  have bit8: "\<not> bit (x :: u8) n" if "8 \<le> n" for x n using that bit_imp_le_length [of x n] by auto
  have "ucast (drop_bit 24 w) = a"
    unfolding w_def by (rule bit_word_eqI) (simp add: bit_simps bit8)
  moreover have "ucast (drop_bit 16 w AND 255) = b"
    unfolding w_def and_255 by (rule bit_word_eqI) (simp add: bit_simps bit8)
  moreover have "ucast (drop_bit 8 w AND 255) = c"
    unfolding w_def and_255 by (rule bit_word_eqI) (simp add: bit_simps bit8)
  moreover have "ucast (w AND 255) = d"
    unfolding w_def and_255 by (rule bit_word_eqI) (simp add: bit_simps bit8)
  ultimately show ?thesis using be_value_u32 [of w] by simp
qed

lemma sint_u32: "sint (w :: u32) = (if uint w < 2 ^ 31 then uint w else uint w - 2 ^ 32)"
proof -
  have u: "uint w < 2 ^ 32" "0 \<le> uint w" using uint_lt2p [of w] by simp_all
  have s: "sint w = signed_take_bit 31 (uint w)" by (simp add: sint_uint)
  show ?thesis
  proof (cases "uint w < 2 ^ 31")
    case True
    then have "signed_take_bit 31 (uint w) = uint w"
      unfolding signed_take_bit_int_eq_self_iff using u(2) by (intro conjI; linarith)
    with True s show ?thesis by simp
  next
    case False
    have "take_bit (Suc 31) (uint w) = take_bit (Suc 31) (uint w - 2 ^ 32)"
      unfolding take_bit_eq_mod by (simp add: mod_diff_right_eq [symmetric])
    then have "signed_take_bit 31 (uint w) = signed_take_bit 31 (uint w - 2 ^ 32)"
      unfolding signed_take_bit_eq_iff_take_bit_eq .
    also have "\<dots> = uint w - 2 ^ 32"
      unfolding signed_take_bit_int_eq_self_iff using False u(1) by simp
    finally show ?thesis using False s by simp
  qed
qed

lemma unat_scast_u32:
  "unat (scast (w :: u32) :: u64) = (if unat w < 2 ^ 31 then unat w else 2 ^ 64 - 2 ^ 32 + unat w)"
proof -
  have u: "uint w < 2 ^ 32" "0 \<le> uint w" using uint_lt2p [of w] by simp_all
  have i: "int (unat w) = uint w" by simp
  then have n1: "unat w = nat (uint w)" by linarith
  have "nat (uint w) < 2 ^ 31 \<longleftrightarrow> uint w < 2 ^ 31" unfolding nat_less_iff [OF u(2)] by simp
  note n = n1 this [folded n1]
  have v: "unat (scast w :: u64) = nat (sint w mod 2 ^ 64)" unfolding unat_eq_nat_uint scast_eq uint_word_of_int_eq take_bit_eq_mod by simp
  show ?thesis
  proof (cases "uint w < 2 ^ 31")
    case True
    with u have "sint w mod 2 ^ 64 = uint w" unfolding sint_u32 by simp
    moreover have t: "unat w < 2 ^ 31" using True n(2) by blast
    ultimately show ?thesis using n(1) unfolding v if_P [OF t] by argo
  next
    case False
    have "(uint w - 2 ^ 32) mod 2 ^ 64 = (uint w - 2 ^ 32 + 2 ^ 64) mod 2 ^ 64"
      by (rule mod_add_self2 [symmetric])
    also have "\<dots> = uint w - 2 ^ 32 + 2 ^ 64" using u by (intro mod_pos_pos_trivial) simp_all
    finally have "nat (sint w mod 2 ^ 64) = nat (uint w - 2 ^ 32 + 2 ^ 64)" using False unfolding sint_u32 by simp
    also have "\<dots> = 2 ^ 64 - 2 ^ 32 + nat (uint w)" using u by (simp add: nat_add_distrib [symmetric] nat_eq_iff)
    finally have fin: "nat (sint w mod 2 ^ 64) = 2 ^ 64 - 2 ^ 32 + nat (uint w)" .
    have f: "\<not> unat w < 2 ^ 31" using False n(2) by blast
    have "unat (scast w :: u64) = 2 ^ 64 - 2 ^ 32 + unat w" unfolding v n(1) by (rule fin)
    with f show ?thesis by (simp only: if_False)
  qed
qed

text \<open>What the client shows for a counter of the server: the sign of 32 bits is extended to 64.\<close>

definition shown_metric :: "nat \<Rightarrow> nat" where
  "shown_metric n = (if n < 2 ^ 31 then n else 2 ^ 64 - 2 ^ 32 + n)"

lemma answer_u32_value: "\<exists>v. answer_u32 ([x, y, z, k, a, b, c, d] @ r) = Inr v \<and> unat v = shown_metric (be_value [a, b, c, d])"
  using unat_scast_u32 [of "push_bit 24 (ucast a) OR push_bit 16 (ucast b) OR push_bit 8 (ucast c) OR ucast d"]
  unfolding or_bytes_u32 by (simp add: answer_u32_def shown_metric_def)

lemma answer_u16_value: "\<exists>v. answer_u16 ([x, y, z, k, a, b] @ r) = Inr v \<and> unat v = be_value [a, b]"
proof -
  have v: "be_value [0, 0, a, b] = be_value [a, b]" by (simp add: be_value_def)
  have "256 * unat a + unat b < 256 * 256 + 256" using unat_u8_lt [of a] unat_u8_lt [of b] by linarith
  then have "be_value [a, b] < 2 ^ 31" by (simp add: be_value_def)
  then show ?thesis
    using unat_scast_u32 [of "push_bit 24 (ucast (0 :: u8)) OR push_bit 16 (ucast (0 :: u8)) OR push_bit 8 (ucast a) OR ucast b"]
    unfolding or_bytes_u32 v by (simp add: answer_u16_def)
qed

definition metric_label :: "u8 \<Rightarrow> string" where
  "metric_label c = (if c = 0 then ''Bytes transfered: '' else if c = 1 then ''Historical connections: '' else ''Concurrent connections: '')"

lemma client_shows:
  assumes "c < 3" "dialogue os fd [0x00, c] (if c = 0 then 8 else 6) ([success, c, 1, of_nat (length bs)] @ bs) (cl_os cl) st'"
    and "length bs = (if c = 0 then 4 else 2)"
  shows "\<exists>cl' v. get_command os junk fd c op cl = Inr (Go cl') \<and> cl_os cl' = st' \<and> cl_in cl' = cl_in cl \<and>
    last (cl_out cl') = Count (metric_label c) v \<and> unat v = (if c = 0 then shown_metric (be_value bs) else be_value bs)"
proof -
  let ?reply = "[success, c, 1, of_nat (length bs)] @ bs" and ?cl1 = "send_all os fd [0x00, c] (say (Msg op) cl)"
  let ?answer = "?reply @ drop (length ?reply) (array junk ''answer'' 1000)"
  have d: "dialogue os fd [0x00, c] (if c = 0 then 8 else 6) ?reply (cl_os (say (Msg op) cl)) st'" using assms(2) by simp
  have l: "length ?reply \<le> length (array junk ''answer'' 1000)" using assms(3) by simp
  have c: "c = 0 \<or> c = 1 \<or> c = 2" using u8_lt_3 [OF assms(1)] .
  have num: "(if c = 0x00 then 8 else if c = 0x01 \<or> c = 0x02 then 6 else if c = 0x03 then 4 else 0) = (if c = 0 then 8 else 6 :: nat)"
    using c by auto
  have r: "recv_into os fd (array junk ''answer'' 1000) (if c = 0 then 8 else 6) ?cl1 =
      Inr (int (length ?reply), ?answer, ?cl1\<lparr>cl_os := st'\<rparr>)"
    by (rule recv_dialogue [OF d l])
  have g: "get_command os junk fd c op cl = get_answer_handler ?answer [] (?cl1\<lparr>cl_os := st'\<rparr>)"
    unfolding get_command_def Let_def num r using c by auto
  show ?thesis
  proof (cases "c = 0")
    case True
    with assms(3) obtain a b e f where bs: "bs = [a, b, e, f]" by (auto simp: numeral_eq_Suc length_Suc_conv)
    obtain v where "answer_u32 ?answer = Inr v" "unat v = shown_metric (be_value bs)"
      using answer_u32_value [of success c 1 "of_nat (length bs)" a b e f "drop (length ?reply) (array junk ''answer'' 1000)"]
      unfolding bs by auto
    with True g show ?thesis by (simp add: get_answer_handler_def success_def metric_label_def)
  next
    case False
    with assms(3) obtain a b where bs: "bs = [a, b]" by (auto simp: numeral_eq_Suc length_Suc_conv)
    obtain v where "answer_u16 ?answer = Inr v" "unat v = be_value bs"
      using answer_u16_value [of success c 1 "of_nat (length bs)" a b "drop (length ?reply) (array junk ''answer'' 1000)"]
      unfolding bs by auto
    with False c g show ?thesis by (auto simp: get_answer_handler_def success_def metric_label_def)
  qed
qed

section \<open>The list of users\<close>

text \<open>
  A connection over which bytes have arrived: \<open>pending\<close> gives those not yet received. A \<^verbatim>\<open>recv\<close> takes as many as
  it asked for and are there, and memory is not short.
\<close>

definition stream_os :: "'o os \<Rightarrow> int \<Rightarrow> ('o \<Rightarrow> u8 list) \<Rightarrow> bool" where
  "stream_os os fd pending \<longleftrightarrow>
     (\<forall>st n. pending st \<noteq> [] \<longrightarrow>
        (\<exists>st'. os_recv os st fd n = (Some (take n (pending st)), st') \<and> pending st' = drop n (pending st))) \<and>
     (\<forall>st. \<exists>st'. os_malloc os st = (True, st') \<and> pending st' = pending st)"

lemma stream_recv:
  assumes "stream_os os fd pending" "pending (cl_os cl) \<noteq> []" "n \<le> length b"
  obtains st' where "recv_into os fd b n cl = Inr (int (min (length (pending (cl_os cl))) n),
      take n (pending (cl_os cl)) @ drop (min (length (pending (cl_os cl))) n) b, cl\<lparr>cl_os := st'\<rparr>)"
    "pending st' = drop n (pending (cl_os cl))"
proof -
  from assms(1,2) obtain st' where st': "os_recv os (cl_os cl) fd n = (Some (take n (pending (cl_os cl))), st')"
    "pending st' = drop n (pending (cl_os cl))" unfolding stream_os_def by blast
  have "blit b 0 (take n (pending (cl_os cl))) = Inr (take n (pending (cl_os cl)) @ drop (min (length (pending (cl_os cl))) n) b)"
    using assms(3) by simp
  with st' show thesis by (intro that [of st']) (simp_all add: recv_into_def)
qed

lemma sint_small_u8: "unat (x :: u8) < 128 \<Longrightarrow> sint x = int (unat x)"
proof -
  assume "unat x < 128"
  moreover have i: "int (unat x) = uint x" by simp
  ultimately have "- 128 \<le> uint x" "uint x < 128" by linarith+
  then have "- (2 ^ 7) \<le> uint x \<and> uint x < 2 ^ 7" unfolding power_numeral by simp
  then have "signed_take_bit 7 (uint x) = uint x" unfolding signed_take_bit_int_eq_self_iff .
  then show ?thesis by (simp add: sint_uint)
qed

text \<open>Users as the client can read them: their length byte is a positive \<^verbatim>\<open>char\<close>.\<close>

definition readable_user :: "user \<Rightarrow> bool" where
  "readable_user u \<longleftrightarrow> exact_user u \<and> unat (u_ulen u) < 128"

lemma readable_record:
  assumes "readable_user u"
  shows "user_records (u # us) = u_ulen u # user_name u @ 0 # user_records us" "unat (u_ulen u) = Suc (length (user_name u))"
proof -
  have "length (u_username u) = Suc (length (user_name u))" if "exact_user u"
    using that unfolding exact_user_def by (metis length_append_singleton)
  then show "unat (u_ulen u) = Suc (length (user_name u))" using assms by (simp add: readable_user_def exact_user_def)
qed (simp add: user_records_def)

text \<open>A string with one more byte behind its NUL, which the client replaces by a NUL of its own.\<close>

lemma c_str_update: "0 \<notin> set n \<Longrightarrow> i = Suc (length n) \<Longrightarrow> c_str ((n @ 0 # r)[i := v]) = n"
  by (simp add: list_update_append)

lemma names_received:
  assumes "stream_os os fd pending" "\<forall>u \<in> set us. readable_user u"
    and "us \<noteq> [] \<Longrightarrow> pending (cl_os cl) = tl (user_records us) \<and> len = int (unat (u_ulen (hd us)))"
  shows "\<exists>names st. get_other_users_loop os junk fd (length us) len cl = Inr (names, cl\<lparr>cl_os := st\<rparr>) \<and>
    map c_str names = map user_name us"
  using assms(2,3)
proof (induction us arbitrary: cl len)
  case (Cons u us)
  then have u: "readable_user u" by simp
  note rec = readable_record [OF u]
  let ?n = "user_name u" and ?k = "Suc (length (user_name u))"
  obtain st1 where m: "os_malloc os (cl_os cl) = (True, st1)" "pending st1 = ?n @ 0 # user_records us"
    using assms(1) Cons.prems(2) rec(1) unfolding stream_os_def by fastforce
  let ?cl1 = "cl\<lparr>cl_os := st1\<rparr>" and ?b = "array junk ''result'' (?k + 2)"
  have len: "len = int ?k" using Cons.prems(2) rec(2) by simp
  have p: "pending (cl_os ?cl1) \<noteq> []" "?k + 1 \<le> length ?b" using m(2) by simp_all
  obtain st2 where r0: "recv_into os fd ?b (?k + 1) ?cl1 = Inr (int (min (length (pending (cl_os ?cl1))) (?k + 1)),
      take (?k + 1) (pending (cl_os ?cl1)) @ drop (min (length (pending (cl_os ?cl1))) (?k + 1)) ?b, ?cl1\<lparr>cl_os := st2\<rparr>)"
    "pending st2 = drop (?k + 1) (pending (cl_os ?cl1))" by (rule stream_recv [OF assms(1) p])
  define x where "x = take 1 (user_records us) @ drop (min (length (pending (cl_os ?cl1))) (?k + 1)) ?b"
  have r: "recv_into os fd ?b (?k + 1) ?cl1 = Inr (int (min (length (pending (cl_os ?cl1))) (?k + 1)), ?n @ 0 # x, cl\<lparr>cl_os := st2\<rparr>)"
    "pending st2 = tl (user_records us)"
    using r0 m(2) by (simp_all add: x_def drop_Suc)
  have x: "x \<noteq> []" "us \<noteq> [] \<Longrightarrow> hd x = u_ulen (hd us)"
    using Cons.prems(1) by (auto simp: x_def m(2) neq_Nil_conv readable_record min_def)
  then obtain y ys where y: "x = y # ys" by (cases x) auto
  have get: "get_other_users_loop os junk fd (length (u # us)) len cl =
      bindr (get_other_users_loop os junk fd (length us) (sint y) (cl\<lparr>cl_os := st2\<rparr>)) (\<lambda>(names, cl3).
        Inr ((?n @ 0 # 0 # ys) # names, cl3))"
  proof -
    have "nat (int ?k) + 2 = ?k + 2" "nat (int ?k) + 1 = ?k + 1" "nat (int ?k) = ?k" by simp_all
    moreover have "peek_at (?n @ 0 # y # ys) ?k = Inr y" "poke_at (?n @ 0 # y # ys) ?k 0 = Inr (?n @ 0 # 0 # ys)"
      by (simp_all add: nth_append list_update_append)
    ultimately show ?thesis using m(1) r(1) unfolding y len by (simp add: Let_def del: nat_int)
  qed
  have "\<exists>names st. get_other_users_loop os junk fd (length us) (sint y) (cl\<lparr>cl_os := st2\<rparr>) =
      Inr (names, (cl\<lparr>cl_os := st2\<rparr>)\<lparr>cl_os := st\<rparr>) \<and> map c_str names = map user_name us"
  proof (rule Cons.IH)
    show "\<forall>v \<in> set us. readable_user v" using Cons.prems(1) by simp
    assume "us \<noteq> []"
    then have "y = u_ulen (hd us)" "unat (u_ulen (hd us)) < 128" using x(2) y Cons.prems(1) by (auto simp: readable_user_def)
    with r(2) show "pending (cl_os (cl\<lparr>cl_os := st2\<rparr>)) = tl (user_records us) \<and> sint y = int (unat (u_ulen (hd us)))"
      by (simp add: sint_small_u8)
  qed
  then obtain names st where ih: "get_other_users_loop os junk fd (length us) (sint y) (cl\<lparr>cl_os := st2\<rparr>) = Inr (names, cl\<lparr>cl_os := st\<rparr>)"
    "map c_str names = map user_name us" by auto
  have "c_str (?n @ 0 # 0 # ys) = ?n" by (rule c_str_append_NUL) simp
  with get ih show ?case by (intro exI [of _ "(?n @ 0 # 0 # ys) # names"] exI [of _ st]) simp
next
  case Nil
  show ?case by (intro exI [of _ "[]"] exI [of _ "cl_os cl"]) simp
qed

lemma print_names_all:
  "print_names (length names) names cl = Inr (cl\<lparr>cl_out := cl_out cl @ map (Name \<circ> c_str) names\<rparr>)"
proof -
  have "foldl (\<lambda>c name. say (Name (c_str name)) c) cl names = cl\<lparr>cl_out := cl_out cl @ map (Name \<circ> c_str) names\<rparr>"
    by (induction names arbitrary: cl) (simp_all add: say_def)
  then show ?thesis by (simp add: print_names_def)
qed

lemma client_lists:
  assumes s: "stream_os os fd pending" and us: "us \<noteq> []" "length us < 256" "\<forall>u \<in> set us. readable_user u"
    and p: "pending (snd (os_send os (cl_os cl) fd [0x00, 0x03])) = [success, 3, of_nat (length us)] @ user_records us"
  shows "\<exists>cl'. retrieve_users os junk fd cl = Inr (Go cl') \<and> cl_in cl' = cl_in cl \<and>
    cl_out cl' = cl_out cl @ [Msg ''Retrieving users...'', Msg ''Operation successfull'', Msg '' ---- Users ----''] @ map (Name \<circ> user_name) us"
proof -
  obtain u us' where u: "us = u # us'" using us(1) by (cases us) auto
  then have ru: "readable_user u" using us(3) by simp
  let ?cl1 = "send_all os fd [0x00, 0x03] (say (Msg ''Retrieving users...'') cl)" and ?b = "array junk ''answer'' 1000"
  have p1: "pending (cl_os ?cl1) = [success, 3, of_nat (length us), u_ulen u] @ tl (user_records us)"
    using p readable_record(1) [OF ru, of us'] u by simp
  then have l4: "min (length (pending (cl_os ?cl1))) 4 = 4" by (simp del: send_all_simps)
  have "pending (cl_os ?cl1) \<noteq> []" "4 \<le> length ?b" using p1 by simp_all
  from stream_recv [OF s this] obtain st where r0: "recv_into os fd ?b 4 ?cl1 = Inr (int (min (length (pending (cl_os ?cl1))) 4),
      take 4 (pending (cl_os ?cl1)) @ drop (min (length (pending (cl_os ?cl1))) 4) ?b, ?cl1\<lparr>cl_os := st\<rparr>)"
    "pending st = drop 4 (pending (cl_os ?cl1))" by blast
  let ?answer = "[success, 3, of_nat (length us), u_ulen u] @ drop 4 ?b"
  have r: "recv_into os fd ?b 4 ?cl1 = Inr (4, ?answer, ?cl1\<lparr>cl_os := st\<rparr>)" "pending st = tl (user_records us)"
    using r0 unfolding l4 unfolding p1 by simp_all
  have "pending (cl_os (?cl1\<lparr>cl_os := st\<rparr>)) = tl (user_records us) \<and> uint (u_ulen u) = int (unat (u_ulen (hd us)))"
    using r(2) u by simp
  from names_received [OF s us(3), of "?cl1\<lparr>cl_os := st\<rparr>" "uint (u_ulen u)" junk] this
  obtain names st' where n: "get_other_users_loop os junk fd (length us) (uint (u_ulen u)) (?cl1\<lparr>cl_os := st\<rparr>) = Inr (names, ?cl1\<lparr>cl_os := st'\<rparr>)"
    "map c_str names = map user_name us" by auto
  have nargs: "unat (of_nat (length us) :: u8) = length names" using us(2) n(2) by (metis length_map unat_of_nat_u8)
  have g: "get_other_users os junk fd ?answer (?cl1\<lparr>cl_os := st\<rparr>) = Inr (names, ?cl1\<lparr>cl_os := st'\<rparr>)"
    using n(1) us(2) by (simp add: get_other_users_def)
  have pn: "print_names (unat (of_nat (length us) :: u8)) names cl2 = Inr (cl2\<lparr>cl_out := cl_out cl2 @ map (Name \<circ> c_str) names\<rparr>)" for cl2 :: "'a client"
    unfolding nargs by (rule print_names_all)
  have "map (Name \<circ> c_str) names = map (Name \<circ> user_name) us" using arg_cong [OF n(2), of "map Name"] by simp
  with r(1) g pn show ?thesis
    by (simp add: retrieve_users_def get_command_def get_answer_handler_def success_def)
qed

lemma server_lists:
  assumes r: "ready_session os key i (prawtos_message (Get 3)) st w" "cs_parser (pr_cmd (pw_self w)) = prawtos_parser_init q"
    and l: "wf_users (e_users (pw_env w))" "ul_first (e_users (pw_env w)) = us" "us \<noteq> []" "\<forall>u \<in> set us. readable_user u"
    and room: "3 + length (user_records us) \<le> buf_room (pr_write_buffer (pw_self w))"
  shows "\<exists>w'. cmd_read os key w = Inr (CMD_WRITE_PRAWTOS, w') \<and>
    buf_content (pr_write_buffer (pw_self w')) = [success, 3, of_nat (length us)] @ user_records us"
proof -
  obtain pp rb s' where pp: "prawtos_holds pp (Get 3)" and rd: "cmd_read os key w =
      bindr (cmd_process ((pw_self w)\<lparr>pr_read_buffer := rb, pr_cmd := (pr_cmd (pw_self w))\<lparr>cs_parser := pp\<rparr>\<rparr>)
        ((pw_env w)\<lparr>e_os := st\<rparr>)) (\<lambda>(ret, p2, e2). Inr (ret, w\<lparr>pw_self := p2, pw_sel := s', pw_env := e2\<rparr>))"
    by (rule cmd_read_request [OF r]) auto
  have "\<forall>u \<in> set us. exact_user u \<and> unat (u_ulen u) < 255" using l(4) by (auto simp: readable_user_def)
  from get_all_loop_ok [OF this, of "replicate 255 0" 255 0] l(1,2)
  obtain d n where "get_all_users (e_users (pw_env w)) = Inr (d, n)" "n \<le> length d" "take n d = user_records us"
    by (auto simp: get_all_users_def wf_users_def)
  note d = this
  have n: "n = length (user_records us)" using d(2,3) by (metis length_take min.absorb2)
  let ?c = "(pr_cmd (pw_self w))\<lparr>cs_parser := pp\<rparr>" and ?wb = "pr_write_buffer (pw_self w)"
  have h: "get_users_func (e_users (pw_env w)) ?c =
      Inr (n, ?c\<lparr>cs_nargs := of_nat (length us), cs_args := user_records us, cs_status := success\<rparr>)"
    using d l(1,2) by (simp add: get_users_func_def get_nusers_def wf_users_def)
  obtain u us' where u: "us = u # us'" using l(3) by (cases us) auto
  then have ru: "readable_user u" using l(4) by simp
  note rec = readable_record [OF ru]
  have wb: "wf_buffer ?wb" "buf_content ?wb = []" using r(1) by (simp_all add: ready_session_def)
  have pre: "3 + n \<le> buf_room ?wb" "n \<le> length (user_records us)" "user_records us \<noteq> []" "unat (hd (user_records us)) < buf_room ?wb"
    using room n rec u by simp_all
  obtain wb' where "get_marshal ?wb success 3 (of_nat (length us)) (user_records us) n = Inr (int (3 + n), wb')"
    "buf_content wb' = [success, 3, of_nat (length us)] @ user_records us"
    using get_marshal_wf [OF wb(1) pre, of success 3 "of_nat (length us)"] wb(2) n by auto
  with rd pp h show ?thesis
    by (simp add: cmd_process_def prawtos_holds_def get_handlers_def peek_at_def Let_def)
qed

section \<open>Examples\<close>

definition example_client :: "u8 list \<Rightarrow> u8 list list \<Rightarrow> script client" where
  "example_client input replies = \<lparr>cl_os = ([], replies, []), cl_in = input, cl_out = [], cl_done = False\<rparr>"

lemma example_client_simps [simp]:
  "cl_os (example_client input replies) = ([], replies, [])" "cl_in (example_client input replies) = input"
  by (simp_all add: example_client_def)

lemma example_dialogue: "length r \<le> k \<Longrightarrow> dialogue script_os fd m k r (fs, r # rs, out) (fs, rs, out @ m)"
  by (simp add: dialogue_def script_os_def)

text \<open>A connection that answers a request with the bytes \<open>reply\<close>; its state is what has not been received yet.\<close>

definition pending_os :: "u8 list \<Rightarrow> u8 list os" where
  "pending_os reply = \<lparr>
     os_recv = (\<lambda>p fd n. (Some (take n p), drop n p)), os_send = (\<lambda>p fd xs. (int (length xs), reply)),
     os_close = (\<lambda>p fd. (0, p)), os_accept = (\<lambda>p fd. (- 1, p)), os_malloc = (\<lambda>p. (True, p)),
     os_getfd = (\<lambda>p fd. 0), os_setfl = (\<lambda>p fd x. 0), os_socket = (\<lambda>p d. (3, p)),
     os_connect = (\<lambda>p fd a. (None, p)), os_so_error = (\<lambda>p fd. (Some 0, p)), os_shutdown = (\<lambda>p fd b. p),
     os_bind = (\<lambda>p fd. (0, p)), os_listen = (\<lambda>p fd. (0, p))\<rparr>"

section \<open>Client and server together\<close>

text \<open>
  C15: signing in. When the server's session receives the user name and password message of two words
  typed at the client, and the client receives the server's answer, the client gets to its menu if
  and only if the server's list has an administrator of that name with that password, and otherwise
  exits with code 1.
\<close>

theorem client_server_login:
  assumes "ready_session os key i (auth_message u pw) st w" "wire_ok u" "wire_ok pw"
    and "as_parser (pr_auth (pw_self w)) = auth_parser_init q" "wf_users (e_users (pw_env w))"
    and "2 \<le> buf_room (pr_write_buffer (pw_self w))"
    and "cl_in cl = u @ 10 # pw @ 10 # rest" "sa_users args = a # as" "usr_name a = None"
  shows "\<exists>w' reply. auth_prawtos_read os key w = Inr (AUTH_WRITE_PRAWTOS, w') \<and>
    buf_content (pr_write_buffer (pw_self w')) = reply \<and>
    reply = [0x01, if user_db (e_users (pw_env w)) u = Some (pw, True) then AUTH_SUCCESS else AUTH_BAD_CREDENTIALS] \<and>
    (dialogue cos fd (auth_message u pw) 2 reply (cl_os cl) st' \<longrightarrow>
      (\<exists>r. first_message cos junk fd args cl = Some r \<and>
        (if user_db (e_users (pw_env w)) u = Some (pw, True) then ended_with r ''Successful connection'' (10 # rest) st'
         else r = Inr (Exit 1))))"
proof -
  have n: "name_ok u" "name_ok pw" "0 \<notin> set u" "0 \<notin> set pw"
    using assms(2,3) by (auto simp: wire_ok_def word_ok_def name_ok_def MAX_LEN_def)
  let ?good = "user_db (e_users (pw_env w)) u = Some (pw, True)"
  let ?s = "if ?good then AUTH_SUCCESS else AUTH_BAD_CREDENTIALS"
  obtain w' where w': "auth_prawtos_read os key w = Inr (AUTH_WRITE_PRAWTOS, w')" "buf_content (pr_write_buffer (pw_self w')) = [0x01, ?s]"
    using auth_read_message [OF assms(1) n assms(4-6)] by auto
  have ne: "AUTH_BAD_CREDENTIALS \<noteq> AUTH_SUCCESS" by (simp add: AUTH_SUCCESS_def AUTH_BAD_CREDENTIALS_def)
  have "\<exists>r. first_message cos junk fd args cl = Some r \<and>
      (if ?good then ended_with r ''Successful connection'' (10 # rest) st' else r = Inr (Exit 1))"
    if "dialogue cos fd (auth_message u pw) 2 [0x01, ?s] (cl_os cl) st'"
    using client_signs_in [OF assms(2,3,7-9) that, of junk] ne by (cases ?good) auto
  with w' show ?thesis by blast
qed

theorem client_server_login_witness:
  "\<exists>s w'. auth_prawtos_read script_os example_key (example_world s (auth_message [97, 100, 109, 105, 110] [97, 108, 103, 103, 111])) = Inr (AUTH_WRITE_PRAWTOS, w') \<and>
     buf_content (pr_write_buffer (pw_self w')) = [1, 0] \<and>
     (\<exists>r. first_message script_os (\<lambda>_ _. 7) 3 default_args
        (example_client [97, 100, 109, 105, 110, 10, 97, 108, 103, 103, 111, 10, 49] [[1, 0]]) = Some r \<and>
        ended_with r ''Successful connection'' [10, 49] ([], [], auth_message [97, 100, 109, 105, 110] [97, 108, 103, 103, 111]))"
proof -
  obtain s :: sel where s: "wf_selector s" "used_at s 7" using example_selector by blast
  let ?u = "[97, 100, 109, 105, 110] :: u8 list" and ?p = "[97, 108, 103, 103, 111] :: u8 list"
  let ?cl = "example_client (?u @ 10 # ?p @ 10 # [49]) [[1, 0]]"
  have r: "ready_session script_os example_key 7 (auth_message ?u ?p) ([], [], []) (example_world s (auth_message ?u ?p))"
    by (rule example_ready [OF s]) (simp_all add: auth_message_def)
  have ok: "wire_ok ?u" "wire_ok ?p" by (simp_all add: wire_ok_def word_ok_def isspace_def)
  have db: "user_db default_users ?u = Some (?p, True)"
    by (simp add: user_db_def default_users_def lit_user_def user_entry_def c_lit_def of_char_def)
  have us: "sa_users default_args = no_user # replicate 9 no_user" "usr_name no_user = None"
    by (simp_all add: default_args_def MAX_USERS_def no_user_def numeral_eq_Suc)
  have pre: "as_parser (pr_auth (pw_self (example_world s (auth_message ?u ?p)))) = auth_parser_init (as_parser (pr_auth prawtos_zero))"
    "wf_users (e_users (pw_env (example_world s (auth_message ?u ?p))))" "2 \<le> buf_room (pr_write_buffer (pw_self (example_world s (auth_message ?u ?p))))"
    "cl_in ?cl = ?u @ 10 # ?p @ 10 # [49]"
    using default_users_wf by simp_all
  have d: "dialogue script_os 3 (auth_message ?u ?p) 2 [1, 0] (cl_os ?cl) ([], [], auth_message ?u ?p)"
    using example_dialogue [of "[1, 0]" 2 3 "auth_message ?u ?p" "[]" "[]" "[]"] by simp
  from client_server_login [OF r ok pre us, of script_os 3 "([], [], auth_message ?u ?p)" "\<lambda>_ _. 7"] d db
  show ?thesis by (intro exI [of _ s]) (auto simp: AUTH_SUCCESS_def)
qed

text \<open>
  The requests on users as the client's menu makes them: what is typed, what is sent, the menu entry that
  runs, what the map of users becomes, and whether the request is refused.
\<close>

fun user_request_ok :: "prawtos_request \<Rightarrow> bool" where
  "user_request_ok (Create a u pw) = (a < 2 \<and> wire_ok u \<and> wire_ok pw)"
| "user_request_ok (Edit u pw) = (wire_ok u \<and> wire_ok pw)"
| "user_request_ok (Delete u) = wire_ok u"
| "user_request_ok _ = False"

fun typed :: "prawtos_request \<Rightarrow> u8 list" where
  "typed (Create a u pw) = u @ 10 # pw"
| "typed (Edit u pw) = u @ 10 # pw"
| "typed (Delete u) = u"
| "typed _ = []"

fun wired :: "prawtos_request \<Rightarrow> prawtos_request" where
  "wired (Create a u pw) = Create a (u @ [0]) (pw @ [0])"
| "wired (Edit u pw) = Edit (u @ [0]) (pw @ [0])"
| "wired (Delete u) = Delete (u @ [0])"
| "wired r = r"

fun menu_entry :: "prawtos_request \<Rightarrow> 'o os \<Rightarrow> junk \<Rightarrow> int \<Rightarrow> 'o client \<Rightarrow> 'o client run res" where
  "menu_entry (Create a u pw) os junk fd = (if a = 0 then create_user_client os junk fd else create_admin os junk fd)"
| "menu_entry (Edit u pw) os junk fd = modify_user_client os junk fd"
| "menu_entry (Delete u) os junk fd = remove_user os junk fd"
| "menu_entry _ os junk fd = (\<lambda>cl. Inr (Go cl))"

fun users_after :: "(u8 list \<Rightarrow> (u8 list \<times> bool) option) \<Rightarrow> prawtos_request \<Rightarrow> u8 list \<Rightarrow> (u8 list \<times> bool) option" where
  "users_after db (Create a u pw) = (if db u = None then db(u \<mapsto> (pw, a \<noteq> 0)) else db)"
| "users_after db (Edit u pw) = (case db u of None \<Rightarrow> db | Some (_, a) \<Rightarrow> db(u \<mapsto> (pw, a)))"
| "users_after db (Delete u) = db(u := None)"
| "users_after db _ = db"

fun refused :: "(u8 list \<Rightarrow> (u8 list \<times> bool) option) \<Rightarrow> prawtos_request \<Rightarrow> bool" where
  "refused db (Create a u pw) = (db u \<noteq> None)"
| "refused db (Edit u pw) = (db u = None)"
| "refused db (Delete u) = (db u = None)"
| "refused db _ = False"

lemma server_runs:
  assumes "user_request_ok r" "ready_session os key i (prawtos_message (wired r)) st w"
    and "cs_parser (pr_cmd (pw_self w)) = prawtos_parser_init q" "1 \<le> buf_room (pr_write_buffer (pw_self w))"
    and "wf_users (e_users (pw_env w))"
  shows "\<exists>w'. cmd_read os key w = Inr (CMD_WRITE_PRAWTOS, w') \<and> wf_users (e_users (pw_env w')) \<and>
    buf_content (pr_write_buffer (pw_self w')) = [if refused (user_db (e_users (pw_env w))) r then user_credentia else success] \<and>
    user_db (e_users (pw_env w')) = users_after (user_db (e_users (pw_env w))) r"
proof (cases r)
  case (Create a u pw)
  with assms have "ready_session os key i (prawtos_message (Create a (u @ [0]) (pw @ [0]))) st w" "a < 2" "wire_ok u" "wire_ok pw" by simp_all
  from server_creates [OF this assms(3-5)] Create show ?thesis
    by (cases "user_db (e_users (pw_env w)) u = None") auto
next
  case (Edit u pw)
  with assms have "ready_session os key i (prawtos_message (Edit (u @ [0]) (pw @ [0]))) st w" "wire_ok u" "wire_ok pw" by simp_all
  from server_edits [OF this assms(3-5)] Edit show ?thesis by auto
next
  case (Delete u)
  with assms have "ready_session os key i (prawtos_message (Delete (u @ [0]))) st w" "wire_ok u" by simp_all
  from server_deletes [OF this assms(3-5)] Delete show ?thesis by auto
qed (use assms(1) in auto)

lemma client_runs:
  assumes "user_request_ok r" "cl_in cl = typed r @ 10 # rest" "s = success \<or> s = user_credentia"
    and "dialogue os fd (prawtos_message (wired r)) 1 [s] (cl_os cl) st'"
  shows "ended_with (menu_entry r os junk fd cl) (if s = success then ''Operation successfull'' else ''Invalid credentials'') (10 # rest) st'"
proof (cases r)
  case (Create a u pw)
  have a: "a = (if a \<noteq> 0 then 1 else 0)" using assms(1) u8_lt_2 [of a] by (auto simp: Create)
  have "dialogue os fd (prawtos_message (Create (if a \<noteq> 0 then 1 else 0) (u @ [0]) (pw @ [0]))) 1 [s] (cl_os cl) st'"
    using assms(4) unfolding Create wired.simps by (subst a [symmetric])
  from client_creates [OF _ _ _ this assms(3), of rest junk] assms(1,2) show ?thesis
    by (cases "a = 0") (simp_all add: Create create_user_client_def create_admin_def)
next
  case (Edit u pw)
  then show ?thesis using client_edits [of u pw cl rest os fd s st' junk] assms by simp
next
  case (Delete u)
  then show ?thesis using client_deletes [of u cl rest os fd s st' junk] assms by simp
qed (use assms(1) in auto)

text \<open>
  C14: the commands on users. What the client's menu entries for creating, changing and removing a user
  send for the words typed is understood by the server as exactly that request: the server's list stands for
  the map with the new user, with the new password, or without the user; and the client, when it receives
  the server's answer, reports success, or invalid credentials when the user was there already, or was not. Both take a flag of 1 for an
  administrator, where \<^verbatim>\<open>prawtosv5.txt\<close> has 0 for one.
\<close>

theorem client_server_users:
  assumes "user_request_ok r" "ready_session os key i (prawtos_message (wired r)) st w"
    and "cs_parser (pr_cmd (pw_self w)) = prawtos_parser_init q" "1 \<le> buf_room (pr_write_buffer (pw_self w))"
    and "wf_users (e_users (pw_env w))" "cl_in cl = typed r @ 10 # rest"
  shows "\<exists>w' reply. cmd_read os key w = Inr (CMD_WRITE_PRAWTOS, w') \<and> buf_content (pr_write_buffer (pw_self w')) = reply \<and>
    reply = [if refused (user_db (e_users (pw_env w))) r then user_credentia else success] \<and> wf_users (e_users (pw_env w')) \<and> user_db (e_users (pw_env w')) = users_after (user_db (e_users (pw_env w))) r \<and>
    (dialogue cos fd (prawtos_message (wired r)) 1 reply (cl_os cl) st' \<longrightarrow>
      ended_with (menu_entry r cos junk fd cl)
        (if refused (user_db (e_users (pw_env w))) r then ''Invalid credentials'' else ''Operation successfull'') (10 # rest) st')"
proof -
  let ?s = "if refused (user_db (e_users (pw_env w))) r then user_credentia else success"
  obtain w' where w': "cmd_read os key w = Inr (CMD_WRITE_PRAWTOS, w')" "wf_users (e_users (pw_env w'))"
    "buf_content (pr_write_buffer (pw_self w')) = [?s]" "user_db (e_users (pw_env w')) = users_after (user_db (e_users (pw_env w))) r"
    using server_runs [OF assms(1-5)] by blast
  have s: "?s = success \<or> ?s = user_credentia" "?s = success \<longleftrightarrow> \<not> refused (user_db (e_users (pw_env w))) r"
    by (auto simp: success_def user_credentia_def)
  from client_runs [OF assms(1,6) s(1), of cos fd st' junk] s(2) w' show ?thesis
    by (intro exI [of _ w'] exI [of _ "[?s]"]) (auto split: if_splits)
qed

theorem client_server_users_witness:
  "\<exists>s w'. cmd_read script_os example_key (example_world s (prawtos_message (Create 1 [98, 0] [99, 0]))) = Inr (CMD_WRITE_PRAWTOS, w') \<and>
     buf_content (pr_write_buffer (pw_self w')) = [0] \<and>
     user_db (e_users (pw_env w')) = (user_db default_users)([98] \<mapsto> ([99], True)) \<and>
     ended_with (create_admin script_os (\<lambda>_ _. 7) 3 (example_client [98, 10, 99, 10] [[0]])) ''Operation successfull'' [10]
        ([], [], prawtos_message (Create 1 [98, 0] [99, 0]))"
proof -
  obtain s :: sel where s: "wf_selector s" "used_at s 7" using example_selector by blast
  let ?r = "Create 1 [98] [99]"
  let ?m = "prawtos_message (wired ?r)" and ?cl = "example_client [98, 10, 99, 10] [[0]]"
  have r: "ready_session script_os example_key 7 ?m ([], [], []) (example_world s ?m)"
    by (rule example_ready [OF s]) simp_all
  have ok: "user_request_ok ?r" by (simp add: wire_ok_def word_ok_def isspace_def)
  have db: "user_db default_users [98] = None"
    by (simp add: user_db_def default_users_def lit_user_def user_entry_def c_lit_def of_char_def)
  have pre: "cs_parser (pr_cmd (pw_self (example_world s ?m))) = prawtos_parser_init (cs_parser (pr_cmd prawtos_zero))"
    "1 \<le> buf_room (pr_write_buffer (pw_self (example_world s ?m)))" "wf_users (e_users (pw_env (example_world s ?m)))"
    "cl_in ?cl = typed ?r @ 10 # []"
    using default_users_wf by simp_all
  have d: "dialogue script_os 3 ?m 1 [0] (cl_os ?cl) ([], [], ?m)"
    using example_dialogue [of "[0]" 1 3 ?m "[]" "[]" "[]"] by simp
  from client_server_users [OF ok r pre, of script_os 3 "([], [], ?m)" "\<lambda>_ _. 7"] d db
  show ?thesis by (intro exI [of _ s]) (auto simp: success_def)
qed

text \<open>
  C16: the metrics. The client shows the counter of the server it asked for. The number of bytes sent has
  32 bits and is shown with its sign extended to 64: from $2^{31}$ on what is shown is not the counter. Both
  number the metrics from 0, where the request of \<^verbatim>\<open>prawtosv5.txt\<close> numbers them from 1.
\<close>

theorem client_server_metrics:
  assumes "ready_session os key i (prawtos_message (Get c)) st w" "c < 3"
    and "cs_parser (pr_cmd (pw_self w)) = prawtos_parser_init q" "8 \<le> buf_room (pr_write_buffer (pw_self w))"
  shows "\<exists>w' reply. cmd_read os key w = Inr (CMD_WRITE_PRAWTOS, w') \<and> buf_content (pr_write_buffer (pw_self w')) = reply \<and>
    length reply = (if c = 0 then 8 else 6) \<and>
    (dialogue cos fd [0x00, c] (if c = 0 then 8 else 6) reply (cl_os cl) st' \<longrightarrow>
      (\<exists>cl' v. get_command cos junk fd c op cl = Inr (Go cl') \<and> last (cl_out cl') = Count (metric_label c) v \<and>
        unat v = (if c = 0 then shown_metric (metric_value c (e_stats (pw_env w))) else metric_value c (e_stats (pw_env w)))))"
proof -
  obtain w' bs where w': "cmd_read os key w = Inr (CMD_WRITE_PRAWTOS, w')"
    "buf_content (pr_write_buffer (pw_self w')) = [success, c, 1, of_nat (length bs)] @ bs"
    "be_value bs = metric_value c (e_stats (pw_env w))" "length bs = (if c = 0 then 4 else 2)"
    using metric_read [OF assms] by blast
  have "\<exists>cl' v. get_command cos junk fd c op cl = Inr (Go cl') \<and> last (cl_out cl') = Count (metric_label c) v \<and>
      unat v = (if c = 0 then shown_metric (metric_value c (e_stats (pw_env w))) else metric_value c (e_stats (pw_env w)))"
    if "dialogue cos fd [0x00, c] (if c = 0 then 8 else 6) ([success, c, 1, of_nat (length bs)] @ bs) (cl_os cl) st'"
    using client_shows [OF assms(2) that w'(4), of junk op] unfolding w'(3) by blast
  moreover have "length ([success, c, 1, of_nat (length bs)] @ bs) = (if c = 0 then 8 else 6)" using w'(4) by simp
  ultimately show ?thesis using w'(1,2) by blast
qed

theorem client_server_metrics_witness:
  "\<exists>s w' reply. cmd_read script_os example_key (example_world s (prawtos_message (Get 2))) = Inr (CMD_WRITE_PRAWTOS, w') \<and>
     buf_content (pr_write_buffer (pw_self w')) = reply \<and>
     (\<exists>cl' v. get_command script_os (\<lambda>_ _. 7) 3 2 [] (example_client [] [reply]) = Inr (Go cl') \<and>
        last (cl_out cl') = Count (metric_label 2) v \<and> unat v = metric_value 2 stadistics_init)"
proof -
  obtain s :: sel where s: "wf_selector s" "used_at s 7" using example_selector by blast
  let ?m = "prawtos_message (Get 2)"
  have r: "ready_session script_os example_key 7 ?m ([], [], []) (example_world s ?m)"
    by (rule example_ready [OF s]) simp_all
  have "cs_parser (pr_cmd (pw_self (example_world s ?m))) = prawtos_parser_init (cs_parser (pr_cmd prawtos_zero))"
    "8 \<le> buf_room (pr_write_buffer (pw_self (example_world s ?m)))" "(2 :: u8) < 3" by simp_all
  note t = client_server_metrics [OF r this(3,1,2), of script_os 3]
  obtain w' where w': "cmd_read script_os example_key (example_world s ?m) = Inr (CMD_WRITE_PRAWTOS, w')"
    "length (buf_content (pr_write_buffer (pw_self w'))) = 6"
    using t [of "example_client [] []" "([], [], [])" "\<lambda>_ _. 7" "[]"] by auto
  let ?reply = "buf_content (pr_write_buffer (pw_self w'))"
  have "\<exists>cl' v. get_command script_os (\<lambda>_ _. 7) 3 2 [] (example_client [] [?reply]) = Inr (Go cl') \<and>
      last (cl_out cl') = Count (metric_label 2) v \<and> unat v = metric_value 2 stadistics_init"
  proof -
    have "dialogue script_os 3 [0x00, 2] 6 ?reply (cl_os (example_client [] [?reply])) ([], [], [0x00, 2])"
      using w'(2) example_dialogue [of ?reply 6 3 "[0x00, 2]" "[]" "[]" "[]"] by simp
    with t [of "example_client [] [?reply]" "([], [], [0x00, 2])" "\<lambda>_ _. 7" "[]"] w'(1) show ?thesis by auto
  qed
  with w'(1) show ?thesis by blast
qed

text \<open>
  C17: the list of users. For a list of users whose records fit into the server's buffer, at most 255 of them with
  names below 127 bytes, the client shows exactly their names in the order of the list, when what it receives
  is the server's answer, however its calls of \<^verbatim>\<open>recv\<close> cut it.
\<close>

theorem client_server_listing:
  assumes "ready_session os key i (prawtos_message (Get 3)) st w" "cs_parser (pr_cmd (pw_self w)) = prawtos_parser_init q"
    and "wf_users (e_users (pw_env w))" "ul_first (e_users (pw_env w)) = us" "us \<noteq> []" "\<forall>u \<in> set us. readable_user u"
    and "3 + length (user_records us) \<le> buf_room (pr_write_buffer (pw_self w))" "length us < 256" "stream_os cos fd pending"
  shows "\<exists>w' reply. cmd_read os key w = Inr (CMD_WRITE_PRAWTOS, w') \<and> buf_content (pr_write_buffer (pw_self w')) = reply \<and>
    (pending (snd (os_send cos (cl_os cl) fd [0x00, 0x03])) = reply \<longrightarrow>
      (\<exists>cl'. retrieve_users cos junk fd cl = Inr (Go cl') \<and>
        cl_out cl' = cl_out cl @ [Msg ''Retrieving users...'', Msg ''Operation successfull'', Msg '' ---- Users ----''] @
          map (Name \<circ> user_name) us))"
  using server_lists [OF assms(1-7)] client_lists [OF assms(9,5,8,6), of cl junk] by metis

theorem client_server_listing_witness:
  "\<exists>s w' reply. cmd_read script_os example_key (example_world s [0x00, 3]) = Inr (CMD_WRITE_PRAWTOS, w') \<and>
     buf_content (pr_write_buffer (pw_self w')) = reply \<and>
     (\<exists>cl'. retrieve_users (pending_os reply) (\<lambda>_ _. 7) 3 \<lparr>cl_os = [], cl_in = [], cl_out = [], cl_done = False\<rparr> = Inr (Go cl') \<and>
        cl_out cl' = [Msg ''Retrieving users...'', Msg ''Operation successfull'', Msg '' ---- Users ----''] @
          map (Name \<circ> user_name) (ul_first default_users))"
proof -
  obtain s :: sel where s: "wf_selector s" "used_at s 7" using example_selector by blast
  let ?m = "prawtos_message (Get 3)"
  have r: "ready_session script_os example_key 7 ?m ([], [], []) (example_world s ?m)"
    by (rule example_ready [OF s]) simp_all
  have us: "ul_first default_users \<noteq> []" "\<forall>u \<in> set (ul_first default_users). readable_user u"
    "length (user_records (ul_first default_users)) \<le> 100" "length (ul_first default_users) < 256"
    by (simp_all add: default_users_def lit_user_def readable_user_def exact_user_def user_records_def c_lit_def of_char_def)
  have pre: "cs_parser (pr_cmd (pw_self (example_world s ?m))) = prawtos_parser_init (cs_parser (pr_cmd prawtos_zero))"
    "wf_users (e_users (pw_env (example_world s ?m)))" "ul_first (e_users (pw_env (example_world s ?m))) = ul_first default_users"
    "3 + length (user_records (ul_first default_users)) \<le> buf_room (pr_write_buffer (pw_self (example_world s ?m)))"
    using default_users_wf us(3) by simp_all
  note t = client_server_listing [OF r pre(1-3) us(1,2) pre(4) us(4)]
  have st: "stream_os (pending_os reply) 3 id" for reply
    by (auto simp: stream_os_def pending_os_def script_os_def)
  obtain w' where w': "cmd_read script_os example_key (example_world s ?m) = Inr (CMD_WRITE_PRAWTOS, w')" using t [OF st] by blast
  let ?reply = "buf_content (pr_write_buffer (pw_self w'))"
  have "snd (os_send (pending_os ?reply) [] 3 [0x00, 0x03]) = ?reply" by (simp add: pending_os_def)
  with t [OF st, of ?reply "\<lparr>cl_os = [], cl_in = [], cl_out = [], cl_done = False\<rparr>" "\<lambda>_ _. 7"] w' show ?thesis
    by (intro exI [of _ s] exI [of _ w'] exI [of _ ?reply]) auto
qed

section \<open>Leaving\<close>

lemma server_quits:
  assumes "ready_session os key i (prawtos_message Quit) st w" "cs_parser (pr_cmd (pw_self w)) = prawtos_parser_init q"
    and "1 \<le> buf_room (pr_write_buffer (pw_self w))" "os_send os st (int i) [success] = (1, st1)"
  shows "\<exists>w1 w2. cmd_read os key w = Inr (CMD_WRITE_PRAWTOS, w1) \<and> buf_content (pr_write_buffer (pw_self w1)) = [success] \<and>
    cmd_write os key w1 = Inr (DONE_PRAWTOS, w2)"
proof -
  obtain pp rb s' where pp: "prawtos_holds pp Quit" and rd: "cmd_read os key w =
      bindr (cmd_process ((pw_self w)\<lparr>pr_read_buffer := rb, pr_cmd := (pr_cmd (pw_self w))\<lparr>cs_parser := pp\<rparr>\<rparr>)
        ((pw_env w)\<lparr>e_os := st\<rparr>)) (\<lambda>(ret, p2, e2). Inr (ret, w\<lparr>pw_self := p2, pw_sel := s', pw_env := e2\<rparr>))"
    by (rule cmd_read_request [OF assms(1,2)]) auto
  have wb: "wf_buffer (pr_write_buffer (pw_self w))" "buf_content (pr_write_buffer (pw_self w)) = []" "sk_fd key = int i"
    using assms(1) by (simp_all add: ready_session_def)
  obtain wb' where wb': "quit_marshal (pr_write_buffer (pw_self w)) success = Inr (1, wb')" "buf_content wb' = [success]" "wf_buffer wb'"
    using status_marshal_wf [OF wb(1) assms(3), of success] wb(2) by (metis append_Nil)
  obtain w1 where w1: "cmd_read os key w = Inr (CMD_WRITE_PRAWTOS, w1)" "pr_write_buffer (pw_self w1) = wb'"
    "cs_status (pr_cmd (pw_self w1)) = success" "pp_type (cs_parser (pr_cmd (pw_self w1))) = 0x03" "e_os (pw_env w1) = st"
    using rd pp wb'(1) by (simp add: cmd_process_def prawtos_holds_def Let_def)
  have "buffer_peek wb' (b_read wb') (length (buf_content wb')) = Inr (buf_content wb')"
    using read_ptr_bytes [OF wb'(3) order_refl] by simp
  then have "send_step os (sk_fd key) (pr_write_buffer (pw_self w1)) (pw_env w1) = Inr (1, (pw_env w1)\<lparr>e_os := st1\<rparr>)"
    using assms(4) wb'(2,3) w1(2,5) wb(3) by (simp add: send_step_def read_ptr_wf)
  with w1 wb'(2) show ?thesis
    by (simp add: cmd_write_def success_def cmd_not_supported_def Let_def)
qed

lemma dec_word: "word_ok (dec n)"
proof -
  have "\<not> isspace c \<and> c \<noteq> 0" if "isdigit c" for c using digit_first [OF that] that by (auto simp: isdigit_def)
  then show ?thesis using dec_ok [of n] by (auto simp: word_ok_def list_all_iff)
qed

lemma atoi_dec: "n < 2 ^ 31 \<Longrightarrow> atoi (dec n @ 0 # r) = Inr (int n)"
proof -
  assume n: "n < 2 ^ 31"
  then have "signed_take_bit 31 (int n) = int n" by (simp add: signed_take_bit_int_eq_self_iff)
  then have "sint (word_of_int (int n) :: u32) = int n" unfolding sint_sbintrunc' by simp
  then have "sint (word_of_nat n :: u32) = int n" by simp
  with n show ?thesis using strtol_digits [of "dec n" r] dec_ok [of n]
    by (simp add: atoi_def LONG_MAX_def LONG_MIN_def)
qed

text \<open>A number typed at the menu runs the entry of that number; any other number runs nothing.\<close>

lemma options_round_typed:
  assumes "cl_in cl = gap @ dec n @ 10 # rest" "list_all isspace gap" "n < 1000" "length selected = CREDENTIALS_SIZE" "\<not> cl_done cl"
  shows "options_round os junk fd selected cl =
    (let cl1 = (say (Msg ''Choose an option:'') cl)\<lparr>cl_in := 10 # rest\<rparr>; sel = dec n @ 0 # drop (Suc (length (dec n))) selected in
     if 1 \<le> n \<and> n \<le> 10 then map_option (\<lambda>r. go r (\<lambda>cl2. Inr (Go (sel, cl2)))) ((option_func os junk fd ! (n - 1)) cl1)
     else Some (Inr (Go (sel, cl1))))"
proof -
  let ?cl = "say (Msg ''Choose an option:'') cl"
  have l: "length (dec n) < length selected" using len_dec [of n] assms(3,4) by (simp add: CREDENTIALS_SIZE_def)
  have s: "scan_word selected ?cl = Inr (dec n @ 0 # drop (Suc (length (dec n))) selected, ?cl\<lparr>cl_in := 10 # rest\<rparr>)"
    by (rule scan_word_typed [OF dec_word, of gap]) (use assms(1,2) l in \<open>auto simp: list_all_iff\<close>)
  have "peek_at (option_func os junk fd) (nat (int n - 1)) = Inr (option_func os junk fd ! (n - 1))" if "1 \<le> n" "n \<le> 10"
  proof -
    have "length (option_func os junk fd) = 10" by (simp add: option_func_def)
    moreover have "nat (int n - 1) = n - 1" by linarith
    ultimately show ?thesis using that by simp
  qed
  with s assms(3,5) show ?thesis
    by (auto simp: options_round_def atoi_dec CANT_OPTIONS_def Let_def say_def)
qed

text \<open>
  C18: leaving. The number 10 typed at the menu ends the client's loop and, at the server, the session:
  the request is answered with success, after which the session is done; the client, when it receives the
  answer, leaves its loop with its flag set.
\<close>

theorem client_server_quit:
  assumes "ready_session os key i (prawtos_message Quit) st w" "cs_parser (pr_cmd (pw_self w)) = prawtos_parser_init q"
    and "1 \<le> buf_room (pr_write_buffer (pw_self w))" "os_send os st (int i) [success] = (1, st1)"
    and "cl_in cl = [49, 48, 10] @ rest" "\<not> cl_done cl"
  shows "\<exists>w1 w2 reply. cmd_read os key w = Inr (CMD_WRITE_PRAWTOS, w1) \<and> buf_content (pr_write_buffer (pw_self w1)) = reply \<and>
    reply = [success] \<and> cmd_write os key w1 = Inr (DONE_PRAWTOS, w2) \<and>
    (dialogue cos fd [0x03] 1 reply (cl_os cl) st' \<longrightarrow>
      (\<exists>cl'. options cos junk fd cl = Some (Inr (Go cl')) \<and> cl_done cl' \<and> cl_in cl' = 10 # rest \<and> cl_os cl' = st'))"
proof -
  have ten: "dec 10 = [49, 48]" by (simp add: dec.simps)
  have "\<exists>cl'. options cos junk fd cl = Some (Inr (Go cl')) \<and> cl_done cl' \<and> cl_in cl' = 10 # rest \<and> cl_os cl' = st'"
    if d: "dialogue cos fd [0x03] 1 [success] (cl_os cl) st'"
  proof -
    let ?sel = "array junk ''selected'' CREDENTIALS_SIZE" and ?cl1 = "(say (Msg ''Choose an option:'') cl)\<lparr>cl_in := 10 # rest\<rparr>"
    have "dialogue cos fd [0x03] 1 [success] (cl_os ?cl1) st'" using d by simp
    from recv_dialogue [OF this, of "[0x03]"]
    have q: "quit cos fd ?cl1 = Inr (Go ((say (Msg ''Quit success'') ((send_all cos fd [0x03] ?cl1)\<lparr>cl_os := st'\<rparr>))\<lparr>cl_done := True\<rparr>))"
      by (simp add: quit_def)
    have "(option_func cos junk fd ! (10 - 1)) = Some \<circ> quit cos fd" by (simp add: option_func_def)
    with options_round_typed [of cl "[]" 10 rest ?sel cos junk fd] assms(5,6) q ten
    obtain sel where "options_round cos junk fd ?sel cl =
        Some (Inr (Go (sel, (say (Msg ''Quit success'') ((send_all cos fd [0x03] ?cl1)\<lparr>cl_os := st'\<rparr>))\<lparr>cl_done := True\<rparr>)))"
      by (auto simp: Let_def)
    then show ?thesis using assms(6)
      by (simp add: options_def options_loop.simps [of cos junk fd ?sel] options_loop.simps [of cos junk fd sel])
  qed
  with server_quits [OF assms(1-4)] show ?thesis by blast
qed

theorem client_server_quit_witness:
  "\<exists>s w1 w2. cmd_read script_os example_key (example_world s [0x03]) = Inr (CMD_WRITE_PRAWTOS, w1) \<and>
     buf_content (pr_write_buffer (pw_self w1)) = [success] \<and> cmd_write script_os example_key w1 = Inr (DONE_PRAWTOS, w2) \<and>
     (\<exists>cl'. options script_os (\<lambda>_ _. 7) 3 (example_client [49, 48, 10] [[success]]) = Some (Inr (Go cl')) \<and> cl_done cl')"
proof -
  obtain s :: sel where s: "wf_selector s" "used_at s 7" using example_selector by blast
  let ?m = "prawtos_message Quit" and ?cl = "example_client [49, 48, 10] [[success]]"
  have r: "ready_session script_os example_key 7 ?m ([], [], []) (example_world s ?m)"
    by (rule example_ready [OF s]) simp_all
  have pre: "cs_parser (pr_cmd (pw_self (example_world s ?m))) = prawtos_parser_init (cs_parser (pr_cmd prawtos_zero))"
    "1 \<le> buf_room (pr_write_buffer (pw_self (example_world s ?m)))" "os_send script_os ([], [], []) (int 7) [success] = (1, ([], [], [success]))"
    "cl_in ?cl = [49, 48, 10] @ []" "\<not> cl_done ?cl"
    by (simp_all add: script_os_def example_client_def)
  have "dialogue script_os 3 [0x03] 1 [success] (cl_os ?cl) ([], [], [0x03])"
    using example_dialogue [of "[success]" 1 3 "[0x03]" "[]" "[]" "[]"] by simp
  with client_server_quit [OF r pre, of script_os 3 "([], [], [0x03])" "\<lambda>_ _. 7"] show ?thesis
    by (intro exI [of _ s]) auto
qed

lemma menu_entry:
  "(if 1 \<le> n \<and> n \<le> 10 then (option_func os junk fd ! (n - 1)) cl else Some (Inr (Go cl))) =
    (if n = 1 then Some (get_command os junk fd 0x00 ''Retrieving transfered bytes...'' cl)
     else if n = 2 then Some (get_command os junk fd 0x01 ''Retrieving connection history...'' cl)
     else if n = 3 then Some (get_command os junk fd 0x02 ''Retrieving concurrent connections...'' cl)
     else if n = 4 then Some (get_command os junk fd 0x03 ''Retrieving users...'' cl)
     else if n = 5 then Some (add_new_user os junk fd False cl)
     else if n = 6 then Some (add_new_user os junk fd True cl)
     else if n = 7 then Some (remove_user os junk fd cl)
     else if n = 8 then Some (modify_user_client os junk fd cl)
     else if n = 9 then set_sniffer cl
     else if n = 10 then Some (quit os fd cl)
     else Some (Inr (Go cl)))"
proof -
  have "n = 0 \<or> n = 1 \<or> n = 2 \<or> n = 3 \<or> n = 4 \<or> n = 5 \<or> n = 6 \<or> n = 7 \<or> n = 8 \<or> n = 9 \<or> n = 10 \<or> 10 < n" by arith
  then show ?thesis
    by (elim disjE) (simp_all add: option_func_def transfered_bytes_def connection_history_def
        concurrent_connections_client_def retrieve_users_def create_user_client_def create_admin_def)
qed

text \<open>
  C33: the menu. A number typed at the menu, after any white space, runs the command of that number with the rest of what was
  typed left for it: 1 to 4 ask for the bytes, the history, the concurrent connections and the users, with the commands 0 to 3;
  5 and 6 add a user and an administrator, 7 removes and 8 modifies a user, 9 is the sniffer and 10 leaves; any other number below
  1000 runs nothing. The loop then goes on with the client the command left, the array holding the digits typed; it ends
  with the command that ends the program or fails.
\<close>

theorem client_menu_dispatches:
  assumes "cl_in cl = gap @ dec n @ 10 # rest" "list_all isspace gap" "n < 1000" "length selected = CREDENTIALS_SIZE" "\<not> cl_done cl"
    and "cl1 = (say (Msg ''Choose an option:'') cl)\<lparr>cl_in := 10 # rest\<rparr>"
  shows "options_loop os junk fd selected cl =
      (case (if n = 1 then Some (get_command os junk fd 0x00 ''Retrieving transfered bytes...'' cl1)
         else if n = 2 then Some (get_command os junk fd 0x01 ''Retrieving connection history...'' cl1)
         else if n = 3 then Some (get_command os junk fd 0x02 ''Retrieving concurrent connections...'' cl1)
         else if n = 4 then Some (get_command os junk fd 0x03 ''Retrieving users...'' cl1)
         else if n = 5 then Some (add_new_user os junk fd False cl1)
         else if n = 6 then Some (add_new_user os junk fd True cl1)
         else if n = 7 then Some (remove_user os junk fd cl1)
         else if n = 8 then Some (modify_user_client os junk fd cl1)
         else if n = 9 then set_sniffer cl1
         else if n = 10 then Some (quit os fd cl1)
         else Some (Inr (Go cl1))) of
       Some (Inr (Go cl2)) \<Rightarrow> options_loop os junk fd (dec n @ 0 # drop (Suc (length (dec n))) selected) cl2
     | r \<Rightarrow> r)"
proof -
  let ?sel = "dec n @ 0 # drop (Suc (length (dec n))) selected"
  let ?r = "if 1 \<le> n \<and> n \<le> 10 then (option_func os junk fd ! (n - 1)) cl1 else Some (Inr (Go cl1))"
  have r: "options_round os junk fd selected cl = map_option (\<lambda>r. go r (\<lambda>cl2. Inr (Go (?sel, cl2)))) ?r"
    using options_round_typed [OF assms(1-5)] assms(6) by (simp add: Let_def)
  have "options_loop os junk fd selected cl = (case ?r of Some (Inr (Go cl2)) \<Rightarrow> options_loop os junk fd ?sel cl2 | r \<Rightarrow> r)"
    unfolding options_loop.simps [of os junk fd selected] r using assms(5)
    by (auto simp: go_def bindr_def split: option.split sum.split run.split simp del: if_split_asm)
  then show ?thesis unfolding menu_entry .
qed

text \<open>The numbers 12 and 10: the first runs nothing, the second leaves, after which the loop ends.\<close>

theorem client_menu_dispatches_witness:
  "\<exists>cl. options_loop script_os (\<lambda>_ _. 7) 3 (replicate 255 0) (example_client [49, 50, 10, 49, 48, 10] [[success]]) =
     Some (Inr (Go cl)) \<and> cl_done cl \<and> cl_in cl = [10] \<and>
     cl_out cl = [Msg ''Choose an option:'', Msg ''Choose an option:'', Msg ''Quit success'']"
proof -
  let ?cl = "example_client [49, 50, 10, 49, 48, 10] [[success]]"
  let ?cl1 = "(say (Msg ''Choose an option:'') ?cl)\<lparr>cl_in := [10, 49, 48, 10]\<rparr>"
  let ?cl2 = "(say (Msg ''Choose an option:'') ?cl1)\<lparr>cl_in := [10]\<rparr>"
  have ten: "dec 12 = [49, 50]" "dec 10 = [49, 48]" by (simp_all add: dec.simps)
  let ?sel = "[49, 50, 0] @ replicate 252 0"
  have "options_loop script_os (\<lambda>_ _. 7) 3 (replicate 255 0) ?cl = options_loop script_os (\<lambda>_ _. 7) 3 ?sel ?cl1"
    using client_menu_dispatches [of ?cl "[]" 12 "[49, 48, 10]" "replicate 255 0" ?cl1 script_os "\<lambda>_ _. 7" 3] ten
    by (simp add: CREDENTIALS_SIZE_def example_client_def drop_replicate)
  moreover have "quit script_os 3 ?cl2 = Inr (Go (?cl2\<lparr>cl_out := cl_out ?cl2 @ [Msg ''Quit success''], cl_done := True,
      cl_os := ([], [], [0x03])\<rparr>))"
    by (simp add: quit_def recv_into_def send_all_def script_os_def example_client_def say_def success_def blit_def)
  ultimately show ?thesis
    using client_menu_dispatches [of ?cl1 "[10]" 10 "[]" ?sel ?cl2 script_os "\<lambda>_ _. 7" 3] ten
    by (simp add: CREDENTIALS_SIZE_def isspace_def example_client_def say_def options_loop.simps)
qed

end
