(* ===== verification/Spec2Isabelle.thy ===== *)
theory Spec2Isabelle
  imports Buffer Consume HelloParser AuthParser RequestParser PrawtosParser UserUtils Stadistics
    Stm Selector Env Prawtos Args Server Management Logger Register Pop3sniff Socks Socks5 Relay Negotiation
    ParserEngine Tap Netutils Process Ownership Coexistence Client EndToEnd
begin

text \<open>
  A verification library for the SOCKS5 proxy of this repository (\<^verbatim>\<open>src\<close>, \<^verbatim>\<open>include\<close>), its management
  protocol (\<^verbatim>\<open>prawtosv5.txt\<close>) and the management client (\<^verbatim>\<open>client\<close>).

  \<^bold>\<open>The program.\<close> \<^verbatim>\<open>server.c\<close> parses its arguments, opens listening sockets and loops over a multiplexer
  (\<^verbatim>\<open>selector.c\<close>) that calls the handler registered for each ready descriptor. A management connection
  (\<^verbatim>\<open>prawtos/*.c\<close>) authenticates an administrator against the list of users (\<^verbatim>\<open>user_utils.c\<close>) and executes
  commands on that list and on the counters (\<^verbatim>\<open>stadistics.c\<close>). A SOCKS connection (\<^verbatim>\<open>socks5.c\<close>, \<^verbatim>\<open>stm/*.c\<close>)
  negotiates a method, reads a request, connects to the destination, answers and then copies bytes both
  ways, past a POP3 sniffer (\<^verbatim>\<open>pop3sniff.c\<close>) that writes to a log (\<^verbatim>\<open>register.c\<close>, \<^verbatim>\<open>logger_write.c\<close>). Both kinds of session
  are state machines over \<^verbatim>\<open>stm/stm.c\<close>; they read and write byte buffers (\<^verbatim>\<open>buffer.c\<close>) through parsers that are
  fed one byte at a time (\<^verbatim>\<open>parser/*.c\<close>). The client is a program of its own that speaks the management protocol
  over blocking sockets.

  \<^bold>\<open>How C is modelled.\<close> Machine integers are words of their width. A pointer into a block is an offset, a
  block the list of its cells, a \<^verbatim>\<open>char *\<close> the block from the pointer on. Every operation that can go wrong
  has the result type \<^typ>\<open>'a res\<close>: a failed \<^verbatim>\<open>assert\<close>, a call of \<^verbatim>\<open>abort\<close>, an access outside a block, through a null
  pointer or to freed memory is a value of \<^typ>\<open>fault\<close>, where the model stops. Static variables and structures passed
  by pointer are passed and returned. Sessions live on a heap, a partial map from addresses, so that
  freeing and later use are visible. The structures of a union are separate fields where no code reads one through
  another; \<^verbatim>\<open>union socks_addr\<close>, which is read that way, is its bytes, at the offsets of the x86-64 Linux ABI.
  \<^verbatim>\<open>malloc\<close> and \<^verbatim>\<open>realloc\<close> succeed where the code does not look at their result, and are an operation of the
  system where it does.

  \<^bold>\<open>The operating system\<close> is a parameter: a record of functions (\<^verbatim>\<open>recv\<close>, \<^verbatim>\<open>send\<close>, \<^verbatim>\<open>accept\<close>, \<^verbatim>\<open>connect\<close> and the others)
  over a state of its own, in theory \<open>Env\<close>. The hypothesis \<open>os_ok\<close> is what their manual pages promise: \<^verbatim>\<open>recv\<close> gives no
  more than was asked for, \<^verbatim>\<open>send\<close> reports \<open>-1\<close> or a number of bytes it was given. \<open>script_os\<close> is a concrete system
  for the examples, and \<open>tap\<close> (theory \<open>Tap\<close>) observes a system without changing it. The result of \<^verbatim>\<open>pselect\<close> is an argument of each
  round of the loop; \<^verbatim>\<open>getopt_long\<close>, \<^verbatim>\<open>gethostbyname\<close>, \<^verbatim>\<open>inet_ntop\<close> and \<^verbatim>\<open>inet_pton\<close> are arguments.

  \<^bold>\<open>The theories.\<close>
  \<^item> \<open>Prelude\<close>: results, faults, blocks, C strings, facts on bytes; the collections \<open>res_simps\<close> and \<open>oob_intros\<close>.
  \<^item> \<open>Buffer\<close> (\<^verbatim>\<open>buffer.c\<close>): the invariant of the pointers, and the refinement of a bounded queue of bytes; the locale
    \<open>byte_queue\<close> is that contract.
  \<^item> \<open>Consume\<close>: the loop the four byte-fed parsers share, with the locale \<open>byte_parser\<close>: the loop over a buffer is
    the loop over a list, it does not depend on how the input is cut, it ends.
  \<^item> \<open>HelloParser\<close>, \<open>AuthParser\<close>, \<open>RequestParser\<close>, \<open>PrawtosParser\<close> (\<^verbatim>\<open>parser/*_parser.c\<close>): the messages are parsed into their
    fields, replies carry theirs; the locale \<open>name_field\<close> is the reading of a name of given length.
  \<^item> \<open>ParserEngine\<close> (\<^verbatim>\<open>parser/parser.c\<close>, \<^verbatim>\<open>parser/parser_utils.c\<close>): the table-driven engine and the comparison built on it.
  \<^item> \<open>UserUtils\<close> (\<^verbatim>\<open>user_utils.c\<close>): the list refines a map from names to password and flag; the locale \<open>user_store\<close> is that contract.
  \<^item> \<open>Stadistics\<close> (\<^verbatim>\<open>stadistics.c\<close>): the counters over every history.
  \<^item> \<open>Stm\<close> (\<^verbatim>\<open>stm/stm.c\<close>) and \<open>Selector\<close> (\<^verbatim>\<open>selector.c\<close>): the engine and the multiplexer, whose table refines a map from
    descriptors to handler, interest and attachment.
  \<^item> \<open>Env\<close>, \<open>Prawtos\<close>, \<open>Args\<close>, \<open>Server\<close>, \<open>Management\<close>: the shared state, the management sessions (\<^verbatim>\<open>prawtos/*.c\<close>), the command line
    (\<^verbatim>\<open>args.c\<close>), start-up and loop (\<^verbatim>\<open>server.c\<close>), and what a management connection observes.
  \<^item> \<open>Logger\<close> (\<^verbatim>\<open>logger_write.c\<close>), \<open>Register\<close> (\<^verbatim>\<open>register.c\<close>): the log, and its lines from the format strings of the code, which are
    read back field by field; \<open>Pop3sniff\<close> (\<^verbatim>\<open>pop3sniff.c\<close>): a login on the wire becomes such a line; \<open>Netutils\<close> (\<^verbatim>\<open>netutils.c\<close>).
  \<^item> \<open>Socks\<close>, \<open>Socks5\<close> (\<^verbatim>\<open>stm/hello.c\<close>, \<^verbatim>\<open>auth.c\<close>, \<^verbatim>\<open>request.c\<close>, \<^verbatim>\<open>copy.c\<close>, \<^verbatim>\<open>stm_initialize.c\<close>, \<^verbatim>\<open>socks5.c\<close>): the SOCKS sessions; \<open>Negotiation\<close>: a
    session from its first byte to copying; \<open>Relay\<close>: what copying does to the two streams.
  \<^item> \<open>Process\<close>: the process with one selector and both kinds of session; a session from the connection of its client to
    copying, and its streams, as rounds of the main loop; the locale \<open>framed_states\<close> is a machine whose callbacks leave the
    results of \<^verbatim>\<open>pselect\<close> alone.
  \<^item> \<open>Ownership\<close>: the invariant of the process is kept by every callback: every registered descriptor is a listener or belongs to one
    live session, which handles what the descriptor waits for if it is a management session, or a SOCKS session that has not
    handled its request (later states of a SOCKS session can be reached by events they do not handle); the contract \<open>fd_clients\<close> of \<open>Selector\<close> then gives the whole
    loop. \<open>Coexistence\<close>: the same contract, for rounds of management descriptors only, which leave the SOCKS side as it was.
  \<^item> \<open>Client\<close> (\<^verbatim>\<open>client/client.c\<close>) and \<open>EndToEnd\<close>: the client, and the client and the server's handlers together.

  \<^bold>\<open>Termination.\<close> Loops over lists and buffers are total functions, with measures where the recursion is not
  structural (the buffer shrinks, bytes are left). Loops that depend on the outside are optional results, \<^const>\<open>None\<close> when
  they do not end (\<open>blocking_copy_loop\<close>, \<open>connect_loop\<close>, \<open>login_loop\<close>, \<open>options_loop\<close>), and that they end is proved under
  stated conditions. The main loop is a function over the list of the results of \<^verbatim>\<open>pselect\<close>. There is no fuel.

  \<^bold>\<open>Where the source does not compile\<close> the reading chosen is: \<^verbatim>\<open>stm/request.c\<close> without the closing brace of line 180;
  \<^verbatim>\<open>pop3sniff.c\<close> with the function and the calls of five parameters where a merge left two versions. Line 157 of that file calls
  \<^verbatim>\<open>printf\<close> with \<^verbatim>\<open>stdout\<close> as its format, which is undefined; it is taken to be a message, and left out like the others.

  \<^bold>\<open>Where the code and its documents differ\<close> the theorems state what the code does, and the text of the theorem names the
  document: the lines of the log and \<^verbatim>\<open>socks5d.8\<close>, the range of a port and the message of \<^verbatim>\<open>args.c\<close>, the numbers of the metrics
  and the administrator's flag and \<^verbatim>\<open>prawtosv5.txt\<close>.

  \<^bold>\<open>Simplifications without effect on a run.\<close> The size of the list of users is a natural number, where C has an \<^verbatim>\<open>int\<close>; the address family
  a resolver gives is stored as its low byte, which is all of it for IPv4 and IPv6.

  \<^bold>\<open>Not modelled.\<close> Name resolution in a session (commented out in the source, except the thread of the selector, whose
  notifications are); texts of messages on the standard output and error; \<^verbatim>\<open>sigaction\<close> and \<^verbatim>\<open>sigprocmask\<close> beyond their results;
  \<^verbatim>\<open>time\<close> and \<^verbatim>\<open>gmtime\<close>, whose broken-down time is an argument; the unit tests and build files.
\<close>

end
